(* ===== verification/Prelude.thy ===== *)
theory Prelude
  imports Main "HOL-Library.Word"
begin

text \<open>
  Shared vocabulary of the development: machine-integer types, fixed-size character
  arrays and the C library calls the sources make on them (\<open>memcpy\<close>, \<open>memmove\<close>,
  \<open>strncpy\<close>, \<open>snprintf\<close>), decimal rendering of numbers, the log levels, and the
  generic lemmas on lists, positions modulo a ring size and 32-bit counters which the
  component theories use through the collections declared here.
\<close>

unbundle bit_operations_syntax

named_theorems array_simps \<open>lengths and prefixes of fixed-size character arrays\<close>
named_theorems ring_simps \<open>positions of a ring and 32-bit counters\<close>

section \<open>Machine integers\<close>

type_synonym u32 = "32 word"
type_synonym u64 = "64 word"

text \<open>
  \<open>(int32_t)a - (int32_t)b\<close>: both operands are read as two's complement. The
  subtraction is carried out at 32 bits, as the compilers used for the library do; whether
  the exact difference fits into \<open>int\<close> is the separate predicate \<open>sub32_fits\<close>.
\<close>

definition sub32 :: "u32 \<Rightarrow> u32 \<Rightarrow> int" where
  "sub32 a b = sint (word_of_int (sint a - sint b) :: u32)"

definition sub32_fits :: "u32 \<Rightarrow> u32 \<Rightarrow> bool" where
  "sub32_fits a b \<longleftrightarrow> - (2 ^ 31) \<le> sint a - sint b \<and> sint a - sint b < 2 ^ 31"

lemma sub32_alt [ring_simps]: "sub32 a b = sint (a - b)"
  by (simp add: sub32_def wi_hom_syms)

lemma sub32_eq_0 [simp]: "sub32 a b = 0 \<longleftrightarrow> a = b"
  by (simp add: sub32_alt signed_eq_0_iff)

lemma sub32_self [simp]: "sub32 a a = 0"
  by simp

lemma u32_of_nat_eq:
  "(of_nat m :: u32) = of_nat n \<longleftrightarrow> m mod 2 ^ 32 = n mod 2 ^ 32"
  by (simp add: word_of_nat_eq_iff take_bit_eq_mod)

lemma u32_of_nat_eq_near:
  assumes "(of_nat m :: u32) = of_nat n" and "m \<le> n" and "n - m < 2 ^ 32"
  shows "m = n"
proof -
  have "m mod 2 ^ 32 = n mod 2 ^ 32" using assms(1) by (simp only: u32_of_nat_eq)
  then have "(n - m) mod 2 ^ 32 = 0"
    using assms(2) by (metis mod_eq_dvd_iff_nat mod_0_imp_dvd dvd_imp_mod_0)
  then show ?thesis using assms(2,3) by simp
qed

lemma sint_u32_of_nat_small: "d < 2 ^ 31 \<Longrightarrow> sint (of_nat d :: u32) = int d"
  by (simp add: signed_of_nat signed_take_bit_int_eq_self)

lemma sub32_ahead:
  assumes "n \<le> m" and "m - n < 2 ^ 31"
  shows "sub32 (of_nat m) (of_nat n) = int (m - n)"
proof -
  have "(of_nat m - of_nat n :: u32) = of_nat (m - n)"
    using assms(1) by simp
  then show ?thesis using assms(2) by (simp add: sub32_alt sint_u32_of_nat_small del: of_nat_diff)
qed

lemma sub32_behind:
  assumes "m < n" and "n - m < 2 ^ 31"
  shows "sub32 (of_nat m) (of_nat n) = - int (n - m)"
proof -
  have "(of_nat m - of_nat n :: u32) = word_of_int (- int (n - m))"
    using assms(1) by (simp add: of_nat_diff)
  then have "sub32 (of_nat m) (of_nat n) = signed_take_bit 31 (- int (n - m))"
    by (simp only: sub32_alt signed_of_int) simp
  then show ?thesis
    using assms(2) by (simp add: signed_take_bit_int_eq_self)
qed

section \<open>Positions of a ring\<close>

text \<open>Two positions of one window of \<open>c\<close> consecutive positions that fall on the same slot
  are the same position.\<close>

lemma window_mod_inj:
  fixes a c m n :: nat
  assumes "m mod c = n mod c" and "a \<le> m" and "m < a + c" and "a \<le> n" and "n < a + c"
  shows "m = n"
proof (rule ccontr)
  assume "m \<noteq> n"
  then consider "m < n" | "n < m" by linarith
  then show False
  proof cases
    case 1
    then have "(n - m) mod c = 0"
      using assms(1) by (metis mod_eq_dvd_iff_nat less_imp_le dvd_imp_mod_0)
    moreover have "0 < n - m" and "n - m < c" using 1 assms by linarith+
    ultimately show False by simp
  next
    case 2
    then have "(m - n) mod c = 0"
      using assms(1) by (metis mod_eq_dvd_iff_nat less_imp_le dvd_imp_mod_0)
    moreover have "0 < m - n" and "m - n < c" using 2 assms by linarith+
    ultimately show False by simp
  qed
qed

lemma window_mod_surj:
  fixes a c g :: nat
  assumes "0 < c"
  obtains n where "a \<le> n" and "n < a + c" and "n mod c = g mod c"
proof
  let ?d = "(g + c * a - a) mod c"
  show "a \<le> a + ?d" by simp
  show "a + ?d < a + c" using assms by simp
  have "a \<le> c * a" using assms by (cases c) simp_all
  then have "a \<le> g + c * a" by (rule trans_le_add2)
  then have "a + (g + c * a - a) = g + c * a" by (rule le_add_diff_inverse)
  then show "(a + ?d) mod c = g mod c"
    by (metis mod_add_right_eq mod_mult_self2)
qed

text \<open>The slot index \<open>head & (m_capacity - 1)\<close> for a power of two.\<close>

lemma and_mask_mod:
  assumes "k < 32"
  shows "unat ((x :: u32) AND of_nat (2 ^ k - 1)) = unat x mod 2 ^ k"
proof -
  have "(of_nat (2 ^ k - 1) :: u32) = mask k"
    by (simp add: mask_eq_exp_minus_1 of_nat_diff)
  then have "unat (x AND of_nat (2 ^ k - 1)) = unat (take_bit k x)"
    by (simp only: take_bit_eq_mask)
  also have "\<dots> = take_bit k (unat x)" by (simp only: unsigned_take_bit_eq)
  finally show ?thesis by (simp only: take_bit_eq_mod [where 'a = nat])
qed

lemma unat_of_nat_mod_pow2:
  assumes "k \<le> 32"
  shows "unat (of_nat n :: u32) mod 2 ^ k = n mod 2 ^ k"
proof -
  have "(2::nat) ^ k dvd 2 ^ 32" using assms by (rule le_imp_power_dvd)
  then show ?thesis
    by (simp add: unsigned_of_nat take_bit_eq_mod mod_mod_cancel)
qed

section \<open>Character arrays\<close>

abbreviation NUL :: char where "NUL \<equiv> CHR 0x00"
abbreviation NL :: char where "NL \<equiv> CHR 0x0A"
abbreviation ESC :: char where "ESC \<equiv> CHR 0x1B"

text \<open>
  A C array is the list of all its bytes. \<open>memcpy_at buf pos src\<close> is
  \<open>memcpy(buf + pos, src, length src)\<close>; it is only meaningful within the array, and
  \<open>writes_within\<close> is that condition.
\<close>

definition memcpy_at :: "char list \<Rightarrow> nat \<Rightarrow> char list \<Rightarrow> char list" where
  "memcpy_at buf pos src = take pos buf @ src @ drop (pos + length src) buf"

definition writes_within :: "char list \<Rightarrow> nat \<Rightarrow> nat \<Rightarrow> bool" where
  "writes_within buf pos n \<longleftrightarrow> pos + n \<le> length buf"

lemma length_memcpy_at [array_simps, simp]:
  "pos + length src \<le> length buf \<Longrightarrow> length (memcpy_at buf pos src) = length buf"
  by (simp add: memcpy_at_def)

lemma take_memcpy_at_before [array_simps, simp]:
  "n \<le> pos \<Longrightarrow> pos \<le> length buf \<Longrightarrow> take n (memcpy_at buf pos src) = take n buf"
  by (simp add: memcpy_at_def min_def)

lemma take_memcpy_at [array_simps, simp]:
  "pos \<le> length buf \<Longrightarrow> take (pos + length src) (memcpy_at buf pos src) = take pos buf @ src"
  by (simp add: memcpy_at_def)

lemma take_memcpy_at_n:
  "pos \<le> length buf \<Longrightarrow> n = pos + length src \<Longrightarrow>
     take n (memcpy_at buf pos src) = take pos buf @ src"
  by simp

lemma memcpy_at_Nil [array_simps, simp]: "memcpy_at buf pos [] = buf"
  by (simp add: memcpy_at_def)

lemma memcpy_at_Cons:
  "pos < length buf \<Longrightarrow> memcpy_at buf pos [c] = buf[pos := c]"
  by (simp add: memcpy_at_def upd_conv_take_nth_drop)

lemma nth_memcpy_at:
  "pos + length src \<le> length buf \<Longrightarrow> i < length buf \<Longrightarrow>
     memcpy_at buf pos src ! i =
       (if pos \<le> i \<and> i < pos + length src then src ! (i - pos) else buf ! i)"
  by (auto simp: memcpy_at_def nth_append min_def)

text \<open>\<open>memmove(buf, buf + from, n)\<close>: the source range is read before the target is written.\<close>

definition memmove_front :: "char list \<Rightarrow> nat \<Rightarrow> nat \<Rightarrow> char list" where
  "memmove_front buf from n = memcpy_at buf 0 (take n (drop from buf))"

lemma length_memmove_front [array_simps, simp]:
  "from + n \<le> length buf \<Longrightarrow> length (memmove_front buf from n) = length buf"
  by (simp add: memmove_front_def min_def)

lemma take_memmove_front [array_simps, simp]:
  "from + n \<le> length buf \<Longrightarrow> take n (memmove_front buf from n) = take n (drop from buf)"
  using take_memcpy_at [of 0 buf "take n (drop from buf)"]
  by (simp add: memmove_front_def min_absorb2)

lemma take_update_beyond [array_simps, simp]:
  "n \<le> i \<Longrightarrow> take n (buf[i := c]) = take n buf"
  by (simp add: take_update_cancel)

text \<open>The C string stored in an array: its bytes up to the first NUL.\<close>

definition cstr :: "char list \<Rightarrow> char list" where
  "cstr buf = takeWhile (\<lambda>c. c \<noteq> NUL) buf"

definition no_nul :: "char list \<Rightarrow> bool" where
  "no_nul s \<longleftrightarrow> NUL \<notin> set s"

lemma cstr_terminated:
  "no_nul s \<Longrightarrow> cstr (s @ NUL # rest) = s"
  by (induction s) (auto simp: cstr_def no_nul_def)

lemma cstr_take:
  assumes "n < length buf" and "buf ! n = NUL" and "no_nul (take n buf)"
  shows "cstr buf = take n buf"
proof -
  have "buf = take n buf @ NUL # drop (Suc n) buf"
    using assms(1,2) by (metis id_take_nth_drop)
  then show ?thesis using assms(3) by (metis cstr_terminated)
qed

text \<open>
  \<open>strncpy(dst, src, n)\<close> for a C string \<open>src\<close>: at most \<open>n\<close> bytes are copied, and the
  rest of the first \<open>n\<close> bytes is filled with NUL.
\<close>

definition strncpy :: "char list \<Rightarrow> char list \<Rightarrow> nat \<Rightarrow> char list" where
  "strncpy dst src n = memcpy_at dst 0 (take n src @ replicate (n - length src) NUL)"

lemma length_strncpy [array_simps, simp]:
  "n \<le> length dst \<Longrightarrow> length (strncpy dst src n) = length dst"
  by (simp add: strncpy_def min_def)

text \<open>
  The idiom \<open>strncpy(dst, src, n - 1); dst[n - 1] = 0\<close> on an array of \<open>n\<close> bytes.
\<close>

definition strncpy_term :: "char list \<Rightarrow> char list \<Rightarrow> nat \<Rightarrow> char list" where
  "strncpy_term dst src n = (strncpy dst src (n - 1))[n - 1 := NUL]"

lemma length_strncpy_term [array_simps, simp]:
  "n \<le> length dst \<Longrightarrow> length (strncpy_term dst src n) = length dst"
  by (simp add: strncpy_term_def)

lemma strncpy_term_prefix:
  assumes "0 < n" and "n = length dst"
  shows "strncpy_term dst src n = take (n - 1) src @ replicate (n - length (take (n - 1) src)) NUL"
proof -
  have d: "drop (n - 1) dst = [dst ! (n - 1)]"
    using assms by (metis Cons_nth_drop_Suc Suc_diff_1 diff_less drop_all less_numeral_extra(1) order_refl)
  have "strncpy dst src (n - 1)
      = take (n - 1) src @ replicate (n - 1 - length src) NUL @ [dst ! (n - 1)]"
  proof (cases "length src \<le> n - 1")
    case True
    then have "length src + (n - Suc (length src)) = n - Suc 0" by simp
    then show ?thesis using True d by (simp add: strncpy_def memcpy_at_def)
  next
    case False
    then show ?thesis using d by (simp add: strncpy_def memcpy_at_def)
  qed
  then have "strncpy_term dst src n
      = take (n - 1) src @ replicate (n - 1 - length src) NUL @ [NUL]"
    using assms by (simp add: strncpy_term_def list_update_append min_def)
  also have "replicate (n - 1 - length src) NUL @ [NUL]
      = replicate (Suc (n - 1 - length src)) NUL"
    by (simp add: replicate_append_same)
  also have "Suc (n - 1 - length src) = n - length (take (n - 1) src)"
    using assms(1) by auto
  finally show ?thesis .
qed

lemma cstr_strncpy_term:
  assumes "0 < n" and "n = length dst" and "no_nul src"
  shows "cstr (strncpy_term dst src n) = take (n - 1) src"
proof -
  have "no_nul (take (n - 1) src)" using assms(3) by (auto simp: no_nul_def dest: in_set_takeD)
  moreover have "replicate (n - length (take (n - 1) src)) NUL
      = NUL # replicate (n - length (take (n - 1) src) - 1) NUL"
    using assms(1) by (cases "n - length (take (n - 1) src)") auto
  ultimately show ?thesis
    using assms(1,2) by (simp add: strncpy_term_prefix cstr_terminated del: length_take)
qed

text \<open>
  \<open>snprintf(buf + pos, size, ...)\<close> where \<open>rtext\<close> is what the format renders to without a
  limit, or \<open>None\<close> when the conversion fails and a negative value is returned. At most
  \<open>size - 1\<close> bytes and a NUL are stored; the returned value is the unlimited length.
\<close>

definition snprintf_at :: "char list \<Rightarrow> nat \<Rightarrow> nat \<Rightarrow> char list option \<Rightarrow> char list" where
  "snprintf_at buf pos sz rtext =
     (case rtext of
        None \<Rightarrow> buf
      | Some s \<Rightarrow> if sz = 0 then buf else memcpy_at buf pos (take (sz - 1) s @ [NUL]))"

definition snprintf_ret :: "char list option \<Rightarrow> int" where
  "snprintf_ret rtext = (case rtext of None \<Rightarrow> -1 | Some s \<Rightarrow> int (length s))"

lemma length_snprintf_at [array_simps, simp]:
  "pos + sz \<le> length buf \<Longrightarrow> length (snprintf_at buf pos sz rtext) = length buf"
  by (cases sz) (auto simp: snprintf_at_def min_def split: option.splits)

section \<open>Decimal numbers\<close>

definition digit_char :: "nat \<Rightarrow> char" where
  "digit_char d = char_of (48 + d)"

fun nat_str :: "nat \<Rightarrow> char list" where
  "nat_str n = (if n < 10 then [digit_char n] else nat_str (n div 10) @ [digit_char (n mod 10)])"

declare nat_str.simps [simp del]

definition int_str :: "int \<Rightarrow> char list" where
  "int_str i = (if i < 0 then CHR ''-'' # nat_str (nat (- i)) else nat_str (nat i))"

definition digit_val :: "char \<Rightarrow> nat" where
  "digit_val c = of_char c - 48"

definition str_nat :: "char list \<Rightarrow> nat" where
  "str_nat s = foldl (\<lambda>n c. 10 * n + digit_val c) 0 s"

lemma digit_val_char: "d < 10 \<Longrightarrow> digit_val (digit_char d) = d"
  by (simp add: digit_val_def digit_char_def)

lemma str_nat_nat_str [simp]: "str_nat (nat_str n) = n"
proof (induction n rule: nat_str.induct)
  case (1 n)
  show ?case
  proof (cases "n < 10")
    case True
    then show ?thesis
      by (subst nat_str.simps) (simp add: str_nat_def digit_val_char)
  next
    case False
    with 1 have "str_nat (nat_str (n div 10)) = n div 10" by blast
    with False show ?thesis
      by (subst nat_str.simps) (simp add: str_nat_def digit_val_char)
  qed
qed

lemma nat_str_inj [simp]: "nat_str m = nat_str n \<longleftrightarrow> m = n"
  by (metis str_nat_nat_str)

lemma of_char_digit_char: "d < 10 \<Longrightarrow> of_char (digit_char d) = 48 + d"
  by (simp add: digit_char_def)

lemma nat_str_digits: "c \<in> set (nat_str n) \<Longrightarrow> 48 \<le> (of_char c :: nat) \<and> (of_char c :: nat) < 58"
proof (induction n rule: nat_str.induct)
  case (1 n)
  have d: "48 \<le> (of_char (digit_char k) :: nat) \<and> (of_char (digit_char k) :: nat) < 58" if "k < 10" for k
    using that by (simp add: of_char_digit_char)
  show ?case
  proof (cases "n < 10")
    case True
    with "1.prems" d show ?thesis by (simp add: nat_str.simps [of n])
  next
    case False
    with "1.prems" have "c \<in> set (nat_str (n div 10)) \<or> c = digit_char (n mod 10)"
      by (auto simp: nat_str.simps [of n])
    then show ?thesis using "1.IH" [OF False] d [of "n mod 10"] by fastforce
  qed
qed

lemma nat_str_not_in:
  "\<not> (48 \<le> (of_char c :: nat) \<and> (of_char c :: nat) < 58) \<Longrightarrow> c \<notin> set (nat_str n)"
  using nat_str_digits by blast

lemma nat_str_nonempty [simp]: "nat_str n \<noteq> []"
  by (subst nat_str.simps) simp

section \<open>Log levels\<close>

text \<open>The levels of \<open>spdlog::level::level_enum\<close>, in the order of their numeric values.\<close>

datatype LogLevel = L_trace | L_debug | L_info | L_warn | L_err | L_critical | L_off

fun level_int :: "LogLevel \<Rightarrow> int" where
  "level_int L_trace = 0"
| "level_int L_debug = 1"
| "level_int L_info = 2"
| "level_int L_warn = 3"
| "level_int L_err = 4"
| "level_int L_critical = 5"
| "level_int L_off = 6"

lemma level_int_inj [simp]: "level_int a = level_int b \<longleftrightarrow> a = b"
  by (cases a; cases b) simp_all

instantiation LogLevel :: linorder
begin

definition less_eq_LogLevel :: "LogLevel \<Rightarrow> LogLevel \<Rightarrow> bool" where
  "less_eq_LogLevel a b \<longleftrightarrow> level_int a \<le> level_int b"

definition less_LogLevel :: "LogLevel \<Rightarrow> LogLevel \<Rightarrow> bool" where
  "less_LogLevel a b \<longleftrightarrow> level_int a < level_int b"

instance
  by standard (auto simp: less_eq_LogLevel_def less_LogLevel_def)

end

end
