(* ===== verification/LogQueue.thy ===== *)
theory LogQueue
  imports Prelude
begin

text \<open>
  \<open>dtLogQueue.hpp\<close>: the bounded multi-producer single-consumer ring on which both the
  real-time logger and the terminal user interface rest. This theory holds the message
  record, the queue as one thread at a time sees it (the interleaved model is the theory
  LogQueueMPSC), its refinement to a bounded list, the interface \<open>bounded_fifo\<close> the
  clients use, and the behaviour at the edges of the template parameters and of the 32-bit
  counters.
\<close>

section \<open>Messages\<close>

text \<open>
  \<open>LogQueue::Entry\<close>. The arrays \<open>msg\<close> (of \<open>m_msgLen\<close> bytes) and \<open>loggerName\<close> (of 64
  bytes) are kept with all their bytes, because a freshly declared entry is uninitialised.
\<close>

record Entry =
  timeStamp_ns :: int
  level :: LogLevel
  msgLen :: nat
  msg :: "char list"
  loggerName :: "char list"

text \<open>
  \<open>Set\<close> and \<open>SetV\<close> differ only in how the arguments arrive (a parameter pack, a
  \<open>va_list\<close>). The argument \<open>rtext\<close> is what the format and its arguments render to without
  a length limit, \<open>None\<close> when \<open>vsnprintf\<close> reports an error.
\<close>

definition Entry_Set :: "nat \<Rightarrow> LogLevel \<Rightarrow> int \<Rightarrow> char list option \<Rightarrow> Entry \<Rightarrow> Entry" where
  "Entry_Set mlen lvl ts_ns rtext e =
     (let n = snprintf_ret rtext
      in e\<lparr>level := lvl,
           timeStamp_ns := ts_ns,
           loggerName := (loggerName e)[0 := NUL],
           msg := snprintf_at (msg e) 0 mlen rtext,
           msgLen := (if n > 0 then nat (min n (int mlen - 1)) else 0)\<rparr>)"

definition Entry_SetV :: "nat \<Rightarrow> LogLevel \<Rightarrow> int \<Rightarrow> char list option \<Rightarrow> Entry \<Rightarrow> Entry" where
  "Entry_SetV mlen lvl ts_ns rtext e =
     (let n = snprintf_ret rtext
      in e\<lparr>level := lvl,
           timeStamp_ns := ts_ns,
           loggerName := (loggerName e)[0 := NUL],
           msg := snprintf_at (msg e) 0 mlen rtext,
           msgLen := (if n > 0 then nat (min n (int mlen - 1)) else 0)\<rparr>)"

text \<open>The text a consumer reads: \<open>string_view(entry.msg, entry.msgLen)\<close>.\<close>

definition entry_text :: "Entry \<Rightarrow> char list" where
  "entry_text e = take (msgLen e) (msg e)"

definition entry_shape :: "nat \<Rightarrow> Entry \<Rightarrow> bool" where
  "entry_shape mlen e \<longleftrightarrow> length (msg e) = mlen \<and> length (loggerName e) = 64"

definition entry_wf :: "nat \<Rightarrow> Entry \<Rightarrow> bool" where
  "entry_wf mlen e \<longleftrightarrow> entry_shape mlen e \<and> msgLen e < mlen"

lemma Entry_Set_SetV: "Entry_Set = Entry_SetV"
  by (simp add: fun_eq_iff Entry_Set_def Entry_SetV_def)

lemma Entry_SetV_simps [simp]:
  "level (Entry_SetV mlen lvl ts rtext e) = lvl"
  "timeStamp_ns (Entry_SetV mlen lvl ts rtext e) = ts"
  "loggerName (Entry_SetV mlen lvl ts rtext e) = (loggerName e)[0 := NUL]"
  by (simp_all add: Entry_SetV_def Let_def)

lemma Entry_SetV_wf:
  assumes "0 < mlen" and "entry_shape mlen e"
  shows "entry_wf mlen (Entry_SetV mlen lvl ts rtext e)"
proof -
  have "nat (min (int m) (int mlen - 1)) < mlen" for m
    using assms(1) by (simp add: min_def nat_less_iff)
  then show ?thesis
    using assms
    by (cases rtext) (simp_all add: entry_wf_def entry_shape_def Entry_SetV_def Let_def snprintf_ret_def)
qed

lemma Entry_SetV_text:
  assumes "0 < mlen" and "length (msg e) = mlen"
  shows "entry_text (Entry_SetV mlen lvl ts (Some s) e) = take (mlen - 1) s"
proof -
  have n: "nat (min (int (length s)) (int mlen - 1)) = length (take (mlen - 1) s)"
    using assms(1) by (auto simp: min_def nat_diff_distrib)
  have t: "take (min (length s) m) s = take m s" for m
    by (cases "length s \<le> m") (simp_all add: min_def)
  have "take (length (take (mlen - 1) s))
          (memcpy_at (msg e) 0 (take (mlen - 1) s @ [NUL])) = take (mlen - 1) s"
    by (simp add: memcpy_at_def t)
  then show ?thesis
    using assms(1) n
    by (cases "s = []")
       (auto simp: entry_text_def Entry_SetV_def Let_def snprintf_ret_def snprintf_at_def)
qed

lemma Entry_SetV_text_None: "entry_text (Entry_SetV mlen lvl ts None e) = []"
  by (simp add: entry_text_def Entry_SetV_def Let_def snprintf_ret_def)

section \<open>The queue\<close>

text \<open>The template's compile-time checks, on \<open>size_t\<close> values.\<close>

definition static_checks :: "nat \<Rightarrow> nat \<Rightarrow> bool" where
  "static_checks cap mlen \<longleftrightarrow> cap AND (cap - 1) = 0 \<and> 256 \<le> mlen \<and> mlen \<le> 4096"

record 'e Slot =
  seq :: u32
  data :: 'e

record 'e LogQueue =
  m_head :: u32
  m_tail :: u32
  m_slots :: "'e Slot list"

text \<open>The constructor. The payloads of the slots are whatever \<open>junk\<close> says.\<close>

definition LogQueue_init :: "nat \<Rightarrow> (nat \<Rightarrow> 'e) \<Rightarrow> 'e LogQueue" where
  "LogQueue_init cap junk =
     \<lparr>m_head = 0, m_tail = 0,
      m_slots = map (\<lambda>i. \<lparr>seq = of_nat i, data = junk i\<rparr>) [0..<cap]\<rparr>"

definition slot_idx :: "nat \<Rightarrow> u32 \<Rightarrow> nat" where
  "slot_idx cap pos = unat (pos AND of_nat (cap - 1))"

text \<open>
  \<open>TryPush\<close>. The loop carries the local \<open>head\<close>; the compare-and-swap succeeds when
  \<open>m_head\<close> still has that value and otherwise loads the current one into \<open>head\<close>. The
  loop may retry for ever on an ill-formed queue, so it is a partial function.
\<close>

partial_function (option) TryPush_from ::
    "nat \<Rightarrow> 'e \<Rightarrow> u32 \<Rightarrow> 'e LogQueue \<Rightarrow> (bool \<times> 'e LogQueue) option" where
  "TryPush_from cap entry head q =
     (let i = slot_idx cap head;
          slot = m_slots q ! i;
          diff = sub32 (seq slot) head
      in if diff = 0 then
           if m_head q = head then
             Some (True, q\<lparr>m_head := head + 1,
                           m_slots := (m_slots q)[i := slot\<lparr>data := entry, seq := head + 1\<rparr>]\<rparr>)
           else TryPush_from cap entry (m_head q) q
         else if diff < 0 then Some (False, q)
         else TryPush_from cap entry (m_head q) q)"

definition TryPush :: "nat \<Rightarrow> 'e \<Rightarrow> 'e LogQueue \<Rightarrow> (bool \<times> 'e LogQueue) option" where
  "TryPush cap entry q = TryPush_from cap entry (m_head q) q"

text \<open>\<open>TryPop\<close>: \<open>Some\<close> of the message stands for \<open>true\<close> with the output parameter set.\<close>

definition TryPop :: "nat \<Rightarrow> 'e LogQueue \<Rightarrow> 'e option \<times> 'e LogQueue" where
  "TryPop cap q =
     (let tail = m_tail q;
          i = slot_idx cap tail;
          slot = m_slots q ! i;
          diff = sub32 (seq slot) (tail + 1)
      in if diff = 0 then
           (Some (data slot),
            q\<lparr>m_tail := tail + 1,
              m_slots := (m_slots q)[i := slot\<lparr>seq := tail + of_nat cap\<rparr>]\<rparr>)
         else (None, q))"

definition IsEmpty :: "'e LogQueue \<Rightarrow> bool" where
  "IsEmpty q \<longleftrightarrow> m_head q = m_tail q"

definition ApproxSize :: "'e LogQueue \<Rightarrow> nat" where
  "ApproxSize q = unat (m_head q - m_tail q)"

section \<open>Refinement to a bounded list\<close>

text \<open>
  \<open>queue_at k T q xs\<close>: with \<open>2 ^ k\<close> slots and \<open>T\<close> messages popped so far, the queue
  holds exactly the messages \<open>xs\<close>, oldest first. \<open>T\<close> is an unbounded count; the
  queue only ever stores it modulo \<open>2 ^ 32\<close>.
\<close>

definition queue_at :: "nat \<Rightarrow> nat \<Rightarrow> 'e LogQueue \<Rightarrow> 'e list \<Rightarrow> bool" where
  "queue_at k T q xs \<longleftrightarrow>
     length (m_slots q) = 2 ^ k \<and> length xs \<le> 2 ^ k \<and>
     m_tail q = of_nat T \<and> m_head q = of_nat (T + length xs) \<and>
     (\<forall>i < 2 ^ k. seq (m_slots q ! ((T + i) mod 2 ^ k))
                    = (if i < length xs then of_nat (T + i + 1) else of_nat (T + i))) \<and>
     (\<forall>i < length xs. data (m_slots q ! ((T + i) mod 2 ^ k)) = xs ! i)"

definition queue_holds :: "nat \<Rightarrow> 'e LogQueue \<Rightarrow> 'e list \<Rightarrow> bool" where
  "queue_holds k q xs \<longleftrightarrow> (\<exists>T. queue_at k T q xs)"

lemma queue_atD:
  assumes "queue_at k T q xs"
  shows "length (m_slots q) = 2 ^ k" "length xs \<le> 2 ^ k"
    "m_tail q = of_nat T" "m_head q = of_nat (T + length xs)"
    "i < 2 ^ k \<Longrightarrow> seq (m_slots q ! ((T + i) mod 2 ^ k))
       = (if i < length xs then of_nat (T + i + 1) else of_nat (T + i))"
    "i < length xs \<Longrightarrow> data (m_slots q ! ((T + i) mod 2 ^ k)) = xs ! i"
  using assms by (auto simp: queue_at_def)

lemma slot_idx_of_nat [ring_simps]:
  "k < 32 \<Longrightarrow> slot_idx (2 ^ k) (of_nat n) = n mod 2 ^ k"
  by (simp only: slot_idx_def and_mask_mod unat_of_nat_mod_pow2 less_imp_le)

lemma ring_index_eq:
  fixes T i j :: nat
  assumes "i < c" and "j < c"
  shows "(T + i) mod c = (T + j) mod c \<longleftrightarrow> i = j"
  using assms window_mod_inj [of "T + i" c "T + j" T] by auto

lemma queue_init_at: "queue_at k 0 (LogQueue_init (2 ^ k) junk) []"
  by (simp add: queue_at_def LogQueue_init_def)

lemma TryPush_room:
  assumes "queue_at k T q xs" and "k < 32" and "length xs < 2 ^ k"
  shows "\<exists>q'. TryPush (2 ^ k) e q = Some (True, q') \<and> queue_at k T q' (xs @ [e])"
proof -
  let ?n = "T + length xs"
  let ?i = "?n mod 2 ^ k"
  note q = queue_atD [OF assms(1)]
  have idx: "slot_idx (2 ^ k) (m_head q) = ?i"
    using assms(2) by (simp add: q(4) slot_idx_of_nat del: of_nat_add)
  have s: "seq (m_slots q ! ?i) = m_head q"
    using q(4) q(5) [OF assms(3)] by simp
  have h: "m_head q + 1 = of_nat (T + length xs + 1)" by (simp add: q(4))
  let ?q' = "q\<lparr>m_head := m_head q + 1,
     m_slots := (m_slots q)[?i := (m_slots q ! ?i)\<lparr>data := e, seq := m_head q + 1\<rparr>]\<rparr>"
  have push: "TryPush (2 ^ k) e q = Some (True, ?q')"
    unfolding TryPush_def by (subst TryPush_from.simps) (simp add: Let_def idx s)
  have "queue_at k T ?q' (xs @ [e])"
    unfolding queue_at_def
  proof (intro conjI allI impI)
    fix i :: nat assume i: "i < 2 ^ k"
    show "seq (m_slots ?q' ! ((T + i) mod 2 ^ k))
        = (if i < length (xs @ [e]) then of_nat (T + i + 1) else of_nat (T + i))"
      using q(5) [OF i] ring_index_eq [OF assms(3) i, of T] assms(3) q(1) h
      by (auto simp: nth_list_update)
  next
    fix i assume i: "i < length (xs @ [e])"
    then have "i < 2 ^ k" using assms(3) by simp
    then show "data (m_slots ?q' ! ((T + i) mod 2 ^ k)) = (xs @ [e]) ! i"
      using i q(6) [of i] ring_index_eq [OF assms(3), of i T] q(1)
      by (auto simp: nth_list_update nth_append)
  qed (use q assms(3) h in simp_all)
  with push show ?thesis by blast
qed

lemma TryPush_full:
  assumes "queue_at k T q xs" and "1 \<le> k" and "k < 31" and "length xs = 2 ^ k"
  shows "TryPush (2 ^ k) e q = Some (False, q)"
proof -
  note q = queue_atD [OF assms(1)]
  have c: "(2::nat) ^ k \<ge> 2" using assms(2) by (metis power_increasing power_one_right one_le_numeral)
  have "(2::nat) ^ k < 2 ^ 31" using assms(3) by (intro power_strict_increasing) simp_all
  then have small: "(T + 2 ^ k) - (T + 1) < (2::nat) ^ 31" by linarith
  have idx: "slot_idx (2 ^ k) (m_head q) = T mod 2 ^ k"
    using assms(3,4) by (simp add: q(4) slot_idx_of_nat del: of_nat_add)
  have "seq (m_slots q ! (T mod 2 ^ k)) = of_nat (T + 1)"
    using q(5) [of 0] assms(4) by simp
  moreover have "sub32 (of_nat (T + 1)) (of_nat (T + 2 ^ k)) < 0"
  proof -
    have "T + 1 < T + 2 ^ k" using c by linarith
    with sub32_behind [OF this small] show ?thesis by linarith
  qed
  ultimately have "sub32 (seq (m_slots q ! (T mod 2 ^ k))) (m_head q) < 0"
    using q(4) assms(4) by simp
  then show ?thesis
    unfolding TryPush_def
    by (subst TryPush_from.simps) (simp add: Let_def idx del: sub32_eq_0)
qed

lemma TryPop_some:
  assumes "queue_at k T q (x # xs)" and "k < 32"
  shows "\<exists>q'. TryPop (2 ^ k) q = (Some x, q') \<and> queue_at k (Suc T) q' xs"
proof -
  note q = queue_atD [OF assms(1)]
  let ?i = "T mod 2 ^ k"
  have idx: "slot_idx (2 ^ k) (m_tail q) = ?i"
    using assms(2) by (simp add: q(3) slot_idx_of_nat)
  have s: "seq (m_slots q ! ?i) = m_tail q + 1" and d: "data (m_slots q ! ?i) = x"
    using q(3) q(5) [of 0] q(6) [of 0] by simp_all
  let ?q' = "q\<lparr>m_tail := m_tail q + 1,
     m_slots := (m_slots q)[?i := (m_slots q ! ?i)\<lparr>seq := m_tail q + of_nat (2 ^ k)\<rparr>]\<rparr>"
  have pop: "TryPop (2 ^ k) q = (Some x, ?q')"
    by (simp add: TryPop_def Let_def idx s d)
  have len: "length xs < 2 ^ k" using q(2) by simp
  have "queue_at k (Suc T) ?q' xs"
    unfolding queue_at_def
  proof (intro conjI allI impI)
    fix j :: nat assume j: "j < 2 ^ k"
    show "seq (m_slots ?q' ! ((Suc T + j) mod 2 ^ k))
        = (if j < length xs then of_nat (Suc T + j + 1) else of_nat (Suc T + j))"
    proof (cases "Suc j = 2 ^ k")
      case True
      then have j_eq: "Suc T + j = T + 2 ^ k" by simp
      have "(of_nat (Suc T + j) :: u32) = m_tail q + of_nat (2 ^ k)"
        by (simp only: j_eq of_nat_add q(3))
      moreover have "Suc (T + j) mod 2 ^ k = ?i" using j_eq by (simp only: add_Suc mod_add_self2)
      ultimately show ?thesis using True len q(1) by (simp del: of_nat_add of_nat_Suc of_nat_power)
    next
      case False
      with j have j': "Suc j < 2 ^ k" by simp
      have "(Suc T + j) mod 2 ^ k \<noteq> ?i"
        using ring_index_eq [OF j', of 0 T] by simp
      then show ?thesis using q(5) [OF j'] q(1) by simp
    qed
  next
    fix j assume j: "j < length xs"
    then have j': "Suc j < 2 ^ k" using q(2) by simp
    have "(Suc T + j) mod 2 ^ k \<noteq> ?i"
      using ring_index_eq [OF j', of 0 T] by simp
    then show "data (m_slots ?q' ! ((Suc T + j) mod 2 ^ k)) = xs ! j"
      using q(6) [of "Suc j"] j q(1) by simp
  qed (use q in simp_all)
  with pop show ?thesis by blast
qed

lemma TryPop_none:
  assumes "queue_at k T q []" and "k < 32"
  shows "TryPop (2 ^ k) q = (None, q)"
proof -
  note q = queue_atD [OF assms(1)]
  have idx: "slot_idx (2 ^ k) (m_tail q) = T mod 2 ^ k"
    using assms(2) by (simp add: q(3) slot_idx_of_nat)
  have "seq (m_slots q ! (T mod 2 ^ k)) = m_tail q" using q(3) q(5) [of 0] by simp
  then show ?thesis
    by (simp add: TryPop_def Let_def idx)
qed

lemma ApproxSize_length:
  assumes "queue_at k T q xs" and "k < 32"
  shows "ApproxSize q = length xs"
proof -
  note q = queue_atD [OF assms(1)]
  have "(2::nat) ^ k < 2 ^ 32" using assms(2) by (intro power_strict_increasing) simp_all
  then have "length xs < 2 ^ 32" using q(2) by linarith
  then show ?thesis
    by (simp add: ApproxSize_def q(3,4) unsigned_of_nat take_bit_nat_eq_self)
qed

lemma IsEmpty_iff:
  assumes "queue_at k T q xs" and "k < 32"
  shows "IsEmpty q \<longleftrightarrow> xs = []"
proof -
  have "m_head q = m_tail q \<longleftrightarrow> ApproxSize q = 0"
    by (simp add: ApproxSize_def unat_eq_zero)
  then show ?thesis using ApproxSize_length [OF assms] by (simp add: IsEmpty_def)
qed

section \<open>The interface of a bounded queue\<close>

text \<open>
  What the clients of the queue do with it: producers push one message after the other and
  count the refused ones, the consumer pops until there is nothing left. The two loops are
  written once, for any push and pop.
\<close>

fun push_all :: "('e \<Rightarrow> 'q \<Rightarrow> (bool \<times> 'q) option) \<Rightarrow> 'e list \<Rightarrow> 'q \<Rightarrow> (nat \<times> 'q) option" where
  "push_all push [] q = Some (0, q)"
| "push_all push (e # es) q =
     (case push e q of
        None \<Rightarrow> None
      | Some (accepted, q') \<Rightarrow>
          (case push_all push es q' of
             None \<Rightarrow> None
           | Some (drops, q'') \<Rightarrow> Some (if accepted then drops else Suc drops, q'')))"

partial_function (option) drain ::
    "('q \<Rightarrow> 'e option \<times> 'q) \<Rightarrow> ('e \<Rightarrow> 's \<Rightarrow> 's) \<Rightarrow> 'q \<Rightarrow> 's \<Rightarrow> nat \<Rightarrow> ('q \<times> 's \<times> nat) option" where
  "drain pop act q s count =
     (case fst (pop q) of
        None \<Rightarrow> Some (snd (pop q), s, count)
      | Some e \<Rightarrow> drain pop act (snd (pop q)) (act e s) (Suc count))"

locale bounded_fifo =
  fixes holds :: "'q \<Rightarrow> 'e list \<Rightarrow> bool"
    and capacity :: nat
    and push :: "'e \<Rightarrow> 'q \<Rightarrow> (bool \<times> 'q) option"
    and pop :: "'q \<Rightarrow> 'e option \<times> 'q"
    and occupancy :: "'q \<Rightarrow> nat"
    and empty_hint :: "'q \<Rightarrow> bool"
  assumes holds_bound: "holds q xs \<Longrightarrow> length xs \<le> capacity"
    and push_room: "holds q xs \<Longrightarrow> length xs < capacity \<Longrightarrow>
          \<exists>q'. push e q = Some (True, q') \<and> holds q' (xs @ [e])"
    and push_full: "holds q xs \<Longrightarrow> length xs = capacity \<Longrightarrow> push e q = Some (False, q)"
    and pop_some: "holds q (x # xs) \<Longrightarrow> \<exists>q'. pop q = (Some x, q') \<and> holds q' xs"
    and pop_none: "holds q [] \<Longrightarrow> pop q = (None, q)"
    and occupancy_length: "holds q xs \<Longrightarrow> occupancy q = length xs"
    and empty_hint_iff: "holds q xs \<Longrightarrow> empty_hint q \<longleftrightarrow> xs = []"
begin

lemma push_returns:
  assumes "holds q xs"
  shows "\<exists>q'. push e q = Some (length xs < capacity, q') \<and>
              holds q' (if length xs < capacity then xs @ [e] else xs)"
proof (cases "length xs < capacity")
  case True
  then show ?thesis using push_room [OF assms, of e] by auto
next
  case False
  then have "length xs = capacity" using holds_bound [OF assms] by simp
  then show ?thesis using push_full [OF assms] assms by auto
qed

lemma push_all_returns:
  "holds q xs \<Longrightarrow>
     \<exists>q'. push_all push es q = Some (length es - (capacity - length xs), q') \<and>
          holds q' (xs @ take (capacity - length xs) es)"
proof (induction es arbitrary: q xs)
  case Nil
  then show ?case by auto
next
  case (Cons e es)
  show ?case
  proof (cases "length xs < capacity")
    case True
    then obtain q1 where q1: "push e q = Some (True, q1)" "holds q1 (xs @ [e])"
      using push_room [OF Cons.prems] by blast
    from Cons.IH [OF q1(2)] obtain q2 where
      q2: "push_all push es q1 = Some (length es - (capacity - Suc (length xs)), q2)"
        "holds q2 ((xs @ [e]) @ take (capacity - Suc (length xs)) es)"
      by auto
    have c: "capacity - length xs = Suc (capacity - Suc (length xs))" using True by simp
    show ?thesis using q1(1) q2 by (auto simp: c)
  next
    case False
    then have full: "length xs = capacity" using holds_bound [OF Cons.prems] by simp
    have "push e q = Some (False, q)" by (rule push_full [OF Cons.prems full])
    then show ?thesis using Cons.IH [OF Cons.prems] full by auto
  qed
qed

lemma drain_returns:
  "holds q xs \<Longrightarrow>
     \<exists>q'. drain pop act q s n = Some (q', fold act xs s, n + length xs) \<and> holds q' []"
proof (induction xs arbitrary: q s n)
  case Nil
  then show ?case by (auto simp: drain.simps [of pop act q] pop_none)
next
  case (Cons x xs)
  then obtain q1 where q1: "pop q = (Some x, q1)" "holds q1 xs"
    using pop_some by blast
  show ?case
    using Cons.IH [OF q1(2), of "act x s" "Suc n"] q1(1)
    by (simp add: drain.simps [of pop act q])
qed

lemma burst_then_drain:
  assumes "holds q []"
  shows "\<exists>q1 q2. push_all push es q = Some (length es - capacity, q1) \<and>
           drain pop act q1 s 0
             = Some (q2, fold act (take capacity es) s, min (length es) capacity) \<and>
           holds q2 []"
proof -
  from push_all_returns [OF assms, of es] obtain q1 where
    q1: "push_all push es q = Some (length es - capacity, q1)" "holds q1 (take capacity es)"
    by auto
  from drain_returns [OF q1(2), of act s 0] obtain q2 where
    "drain pop act q1 s 0 = Some (q2, fold act (take capacity es) s, min (length es) capacity)"
    "holds q2 []"
    by auto
  with q1(1) show ?thesis by blast
qed

end

text \<open>
  \<open>RtLogConstant::QUEUE_CAPACITY\<close>, which \<open>RtTui::QUEUE_CAPACITY\<close> repeats.
\<close>

definition QUEUE_CAPACITY :: nat where "QUEUE_CAPACITY = 1024"

lemma QUEUE_CAPACITY_pow2: "QUEUE_CAPACITY = 2 ^ 10"
  by (simp add: QUEUE_CAPACITY_def)

lemma queue_holds_fifo:
  assumes "1 \<le> k" and "k < 31"
  shows "bounded_fifo (queue_holds k) (2 ^ k) (TryPush (2 ^ k)) (TryPop (2 ^ k)) ApproxSize IsEmpty"
proof (unfold_locales, goal_cases)
  case (1 q xs)
  then show ?case by (auto simp: queue_holds_def dest: queue_atD(2))
next
  case (2 q xs e)
  then show ?case using assms TryPush_room [of k _ q xs e] by (fastforce simp: queue_holds_def)
next
  case (3 q xs e)
  then show ?case using assms TryPush_full [of k _ q xs e] by (auto simp: queue_holds_def)
next
  case (4 q x xs)
  then show ?case using assms TryPop_some [of k _ q x xs] by (fastforce simp: queue_holds_def)
next
  case (5 q)
  then show ?case using assms TryPop_none [of k _ q] by (auto simp: queue_holds_def)
next
  case (6 q xs)
  then show ?case using assms ApproxSize_length [of k _ q xs] by (auto simp: queue_holds_def)
next
  case (7 q xs)
  then show ?case using assms IsEmpty_iff [of k _ q xs] by (auto simp: queue_holds_def)
qed

interpretation rtq: bounded_fifo "queue_holds 10" QUEUE_CAPACITY
    "TryPush QUEUE_CAPACITY" "TryPop QUEUE_CAPACITY" ApproxSize IsEmpty
  unfolding QUEUE_CAPACITY_pow2 by (rule queue_holds_fifo) simp_all

lemma queue_init_holds: "queue_holds 10 (LogQueue_init QUEUE_CAPACITY junk) []"
  unfolding QUEUE_CAPACITY_pow2 queue_holds_def using queue_init_at by blast

section \<open>Properties of the queue\<close>



text \<open>
  A burst of messages on a new queue keeps the first 1024, refuses and counts exactly
  the rest, and draining then hands the kept ones to the consumer in order and leaves the
  queue empty. Both loops return.
\<close>

theorem burst_keeps_oldest:
  "\<exists>q1 q2. push_all (TryPush QUEUE_CAPACITY) es (LogQueue_init QUEUE_CAPACITY junk)
             = Some (length es - 1024, q1) \<and>
           drain (TryPop QUEUE_CAPACITY) act q1 s 0
             = Some (q2, fold act (take 1024 es) s, min (length es) 1024) \<and>
           IsEmpty q2"
  using rtq.burst_then_drain [OF queue_init_holds, where es = es and act = act and s = s]
    rtq.empty_hint_iff
  unfolding QUEUE_CAPACITY_def by blast

text \<open>
  Pushing and popping one message \<open>n\<close> times, starting from the constructor.
\<close>

fun churn :: "nat \<Rightarrow> nat \<Rightarrow> 'e \<Rightarrow> 'e LogQueue \<Rightarrow> 'e LogQueue option" where
  "churn cap 0 e q = Some q"
| "churn cap (Suc n) e q =
     (case churn cap n e q of
        None \<Rightarrow> None
      | Some q1 \<Rightarrow> map_option (\<lambda>(ok, q2). snd (TryPop cap q2)) (TryPush cap e q1))"

lemma churn_at:
  assumes "k < 32"
  shows "\<exists>q. churn (2 ^ k) n e (LogQueue_init (2 ^ k) junk) = Some q \<and> queue_at k n q []"
proof (induction n)
  case 0
  then show ?case using queue_init_at by auto
next
  case (Suc n)
  then obtain q where q: "churn (2 ^ k) n e (LogQueue_init (2 ^ k) junk) = Some q" "queue_at k n q []"
    by blast
  from TryPush_room [OF q(2) assms, of e] obtain q1 where
    q1: "TryPush (2 ^ k) e q = Some (True, q1)" "queue_at k n q1 [e]" by auto
  from TryPop_some [OF q1(2) assms] q(1) q1(1) show ?case by auto
qed

text \<open>
  The expression \<open>(int32_t)seq - (int32_t)(tail + 1)\<close> of \<open>TryPop\<close> leaves the range
  of \<open>int\<close> on a queue that was used normally: after \<open>2 ^ 31 - 1\<close> messages have gone
  through an empty queue, the next \<open>TryPop\<close> subtracts \<open>-2 ^ 31\<close> from \<open>2 ^ 31 - 1\<close>,
  a signed overflow, which C++ leaves undefined. With two's-complement wrap-around the
  result is negative and the queue is correctly found empty.
\<close>

theorem TryPop_signed_overflow:
  "\<exists>q. churn QUEUE_CAPACITY (2 ^ 31 - 1) e (LogQueue_init QUEUE_CAPACITY junk) = Some q \<and>
       (let s = seq (m_slots q ! slot_idx QUEUE_CAPACITY (m_tail q))
        in \<not> sub32_fits s (m_tail q + 1) \<and> sub32 s (m_tail q + 1) < 0) \<and>
       TryPop QUEUE_CAPACITY q = (None, q)"
proof -
  obtain q where q: "churn QUEUE_CAPACITY (2 ^ 31 - 1) e (LogQueue_init QUEUE_CAPACITY junk) = Some q"
      "queue_at 10 (2 ^ 31 - 1) q []"
    using churn_at [of 10 "2 ^ 31 - 1" e junk] unfolding QUEUE_CAPACITY_pow2 by auto
  have t: "m_tail q = of_nat (2 ^ 31 - 1)" by (rule queue_atD(3) [OF q(2)])
  have "slot_idx QUEUE_CAPACITY (m_tail q) = (2 ^ 31 - 1) mod 2 ^ 10"
    unfolding QUEUE_CAPACITY_pow2 t by (rule slot_idx_of_nat) simp
  then have "seq (m_slots q ! slot_idx QUEUE_CAPACITY (m_tail q)) = of_nat (2 ^ 31 - 1)"
    using queue_atD(5) [OF q(2), of 0] by simp
  then have "\<not> sub32_fits (seq (m_slots q ! slot_idx QUEUE_CAPACITY (m_tail q))) (m_tail q + 1)"
    "sub32 (seq (m_slots q ! slot_idx QUEUE_CAPACITY (m_tail q))) (m_tail q + 1) < 0"
    by (simp_all add: t sub32_fits_def sub32_def)
  moreover have "TryPop QUEUE_CAPACITY q = (None, q)"
    unfolding QUEUE_CAPACITY_pow2 by (rule TryPop_none [OF q(2)]) simp
  ultimately show ?thesis using q(1) by (auto simp: Let_def)
qed

text \<open>
  A capacity of one passes the template's compile-time check but is not a queue: the
  sequence number of a filled slot and that of the slot free for the next lap coincide, so a
  second push is accepted over the unread message, and afterwards the consumer finds
  nothing: both accepted messages are lost.
\<close>

theorem capacity_one_loses_messages:
  "static_checks 1 1024 \<and>
   (\<exists>q1 q2. TryPush 1 a (LogQueue_init 1 junk) = Some (True, q1) \<and>
            TryPush 1 b q1 = Some (True, q2) \<and>
            TryPop 1 q2 = (None, q2) \<and> ApproxSize q2 = 2)"
proof -
  define q1 where "q1 = \<lparr>m_head = 1, m_tail = 0, m_slots = [\<lparr>seq = 1, data = a\<rparr>]\<rparr>"
  define q2 where "q2 = \<lparr>m_head = 2, m_tail = 0, m_slots = [\<lparr>seq = 2, data = b\<rparr>]\<rparr>"
  have "TryPush 1 a (LogQueue_init 1 junk) = Some (True, q1)"
    unfolding TryPush_def
    by (subst TryPush_from.simps) (simp add: LogQueue_init_def slot_idx_def Let_def q1_def)
  moreover have "TryPush 1 b q1 = Some (True, q2)"
    unfolding TryPush_def
    by (subst TryPush_from.simps) (simp add: slot_idx_def Let_def q1_def q2_def)
  moreover have "TryPop 1 q2 = (None, q2)"
    by (simp add: TryPop_def slot_idx_def Let_def q2_def)
  moreover have "ApproxSize q2 = 2"
    by (simp add: ApproxSize_def q2_def)
  ultimately show ?thesis by (auto simp: static_checks_def)
qed

end
