(* ===== verification/LogQueueMPSC.thy ===== *)
theory LogQueueMPSC
  imports LogQueue
begin

text \<open>
  \<open>dtLogQueue.hpp\<close> under concurrency: any number of producer threads inside \<open>TryPush\<close>
  and one consumer inside \<open>TryPop\<close>, interleaved at every access to shared memory. Each
  load, store and compare-and-swap of the source is one step; the program counters name the
  point a thread has reached and hold its local variables. Memory is sequentially
  consistent here: the acquire and release orderings of the source are what makes the
  accesses to the slot payloads appear in this order.

  The state also records history that the program does not keep: the messages in the order
  in which their compare-and-swap succeeded, the messages handed to the consumer, the
  messages each producer was told are accepted, and the unbounded head count each producer
  loaded last.
\<close>

section \<open>Threads and steps\<close>

datatype 'e ppc =
    P_Idle
  | P_Load 'e
  | P_Seq 'e u32
  | P_Test 'e u32 u32
  | P_Write 'e u32
  | P_Publish 'e u32

datatype 'e cpc =
    C_Idle
  | C_Seq u32
  | C_Read u32
  | C_Tail u32 'e
  | C_Rel u32 'e

record 'e mpsc =
  que :: "'e LogQueue"
  ppc :: "nat \<Rightarrow> 'e ppc"
  cpc :: "'e cpc"
  claimed :: "(nat \<times> 'e) list"
  popped :: "'e list"
  pushed :: "nat \<Rightarrow> 'e list"
  ghd :: "nat \<Rightarrow> nat"

definition mpsc_init :: "nat \<Rightarrow> (nat \<Rightarrow> 'e) \<Rightarrow> 'e mpsc" where
  "mpsc_init cap junk =
     \<lparr>que = LogQueue_init cap junk, ppc = \<lambda>_. P_Idle, cpc = C_Idle, claimed = [],
      popped = [], pushed = \<lambda>_. [], ghd = \<lambda>_. 0\<rparr>"

text \<open>
  One step of producer \<open>p\<close> inside \<open>TryPush\<close>: load \<open>m_head\<close>; load the slot's \<open>seq\<close>;
  test the difference and, when it is zero, compare-and-swap; write the payload; publish.
  A failed compare-and-swap loads the current head and continues with it.
\<close>

definition prod_step :: "nat \<Rightarrow> nat \<Rightarrow> 'e mpsc \<Rightarrow> 'e mpsc" where
  "prod_step cap p st =
     (let q = que st; goto = (\<lambda>pc. (ppc st)(p := pc)) in
      case ppc st p of
        P_Idle \<Rightarrow> st
      | P_Load e \<Rightarrow>
          st\<lparr>ppc := goto (P_Seq e (m_head q)), ghd := (ghd st)(p := length (claimed st))\<rparr>
      | P_Seq e head \<Rightarrow>
          st\<lparr>ppc := goto (P_Test e head (seq (m_slots q ! slot_idx cap head)))\<rparr>
      | P_Test e head s \<Rightarrow>
          (let diff = sub32 s head
           in if diff = 0 then
                if m_head q = head then
                  st\<lparr>que := q\<lparr>m_head := head + 1\<rparr>, ppc := goto (P_Write e head),
                     claimed := claimed st @ [(p, e)], ghd := (ghd st)(p := length (claimed st))\<rparr>
                else
                  st\<lparr>ppc := goto (P_Seq e (m_head q)), ghd := (ghd st)(p := length (claimed st))\<rparr>
              else if diff < 0 then st\<lparr>ppc := goto P_Idle\<rparr>
              else st\<lparr>ppc := goto (P_Load e)\<rparr>)
      | P_Write e head \<Rightarrow>
          (let i = slot_idx cap head
           in st\<lparr>que := q\<lparr>m_slots := (m_slots q)[i := (m_slots q ! i)\<lparr>data := e\<rparr>]\<rparr>,
                 ppc := goto (P_Publish e head)\<rparr>)
      | P_Publish e head \<Rightarrow>
          (let i = slot_idx cap head
           in st\<lparr>que := q\<lparr>m_slots := (m_slots q)[i := (m_slots q ! i)\<lparr>seq := head + 1\<rparr>]\<rparr>,
                 ppc := goto P_Idle, pushed := (pushed st)(p := pushed st p @ [e])\<rparr>))"

text \<open>
  One step of the consumer inside \<open>TryPop\<close>: load \<open>m_tail\<close>; load the slot's \<open>seq\<close> and
  test it; copy the payload out; advance \<open>m_tail\<close>; release the slot.
\<close>

definition cons_step :: "nat \<Rightarrow> 'e mpsc \<Rightarrow> 'e mpsc" where
  "cons_step cap st =
     (let q = que st in
      case cpc st of
        C_Idle \<Rightarrow> st\<lparr>cpc := C_Seq (m_tail q)\<rparr>
      | C_Seq tail \<Rightarrow>
          (let s = seq (m_slots q ! slot_idx cap tail)
           in if sub32 s (tail + 1) = 0 then st\<lparr>cpc := C_Read tail\<rparr> else st\<lparr>cpc := C_Idle\<rparr>)
      | C_Read tail \<Rightarrow>
          (let out = data (m_slots q ! slot_idx cap tail)
           in st\<lparr>cpc := C_Tail tail out, popped := popped st @ [out]\<rparr>)
      | C_Tail tail out \<Rightarrow> st\<lparr>que := q\<lparr>m_tail := tail + 1\<rparr>, cpc := C_Rel tail out\<rparr>
      | C_Rel tail out \<Rightarrow>
          (let i = slot_idx cap tail
           in st\<lparr>que := q\<lparr>m_slots := (m_slots q)[i := (m_slots q ! i)\<lparr>seq := tail + of_nat cap\<rparr>]\<rparr>,
                 cpc := C_Idle\<rparr>))"

inductive step :: "nat \<Rightarrow> 'e mpsc \<Rightarrow> 'e mpsc \<Rightarrow> bool" for cap where
  call: "ppc st p = P_Idle \<Longrightarrow> step cap st (st\<lparr>ppc := (ppc st)(p := P_Load e)\<rparr>)"
| producer: "ppc st p \<noteq> P_Idle \<Longrightarrow> step cap st (prod_step cap p st)"
| consumer: "step cap st (cons_step cap st)"

text \<open>
  The 32-bit counters can only be told apart while no producer sleeps inside the loop for
  \<open>2 ^ 30\<close> messages of the others; \<open>reach\<close> are the states of executions in which none
  does.
\<close>

fun in_loop :: "'e ppc \<Rightarrow> bool" where
  "in_loop (P_Seq e h) = True"
| "in_loop (P_Test e h s) = True"
| "in_loop _ = False"

definition fresh :: "'e mpsc \<Rightarrow> bool" where
  "fresh st \<longleftrightarrow> (\<forall>p. in_loop (ppc st p) \<longrightarrow> length (claimed st) - ghd st p < 2 ^ 30)"

inductive reach :: "nat \<Rightarrow> 'e mpsc \<Rightarrow> bool" for cap where
  start: "reach cap (mpsc_init cap junk)"
| next_step: "reach cap st \<Longrightarrow> step cap st st' \<Longrightarrow> fresh st' \<Longrightarrow> reach cap st'"

section \<open>The invariant\<close>

text \<open>The number of slots the consumer has given back.\<close>

definition rel :: "'e mpsc \<Rightarrow> nat" where
  "rel st = (case cpc st of
               C_Tail t e \<Rightarrow> length (popped st) - 1
             | C_Rel t e \<Rightarrow> length (popped st) - 1
             | _ \<Rightarrow> length (popped st))"

definition slot_at :: "nat \<Rightarrow> 'e mpsc \<Rightarrow> nat \<Rightarrow> 'e Slot" where
  "slot_at k st n = m_slots (que st) ! (n mod 2 ^ k)"

fun writing :: "'e ppc \<Rightarrow> 'e list" where
  "writing (P_Write e h) = [e]"
| "writing (P_Publish e h) = [e]"
| "writing _ = []"

definition owns :: "'e mpsc \<Rightarrow> nat \<Rightarrow> nat \<Rightarrow> bool" where
  "owns st p n \<longleftrightarrow> ghd st p = n \<and> writing (ppc st p) \<noteq> []"

definition shape_ok :: "nat \<Rightarrow> 'e mpsc \<Rightarrow> bool" where
  "shape_ok k st \<longleftrightarrow>
     length (m_slots (que st)) = 2 ^ k \<and>
     m_head (que st) = of_nat (length (claimed st)) \<and>
     length (popped st) \<le> length (claimed st) \<and>
     popped st = map snd (take (length (popped st)) (claimed st)) \<and>
     length (claimed st) \<le> rel st + 2 ^ k"

definition slots_ok :: "nat \<Rightarrow> 'e mpsc \<Rightarrow> bool" where
  "slots_ok k st \<longleftrightarrow>
     (\<forall>n. rel st \<le> n \<and> n < rel st + 2 ^ k \<longrightarrow>
        (if n < length (claimed st)
         then seq (slot_at k st n) = of_nat n \<and> (\<exists>p. owns st p n) \<or>
              seq (slot_at k st n) = of_nat n + 1 \<and> data (slot_at k st n) = snd (claimed st ! n)
         else seq (slot_at k st n) = of_nat n))"

definition prod_ok :: "nat \<Rightarrow> 'e mpsc \<Rightarrow> nat \<Rightarrow> bool" where
  "prod_ok k st p \<longleftrightarrow>
     (let g = ghd st p; N = length (claimed st) in
      case ppc st p of
        P_Idle \<Rightarrow> True
      | P_Load e \<Rightarrow> True
      | P_Seq e h \<Rightarrow> h = of_nat g \<and> g \<le> N
      | P_Test e h s \<Rightarrow> h = of_nat g \<and> g \<le> N \<and> (s = h \<longrightarrow> g < rel st + 2 ^ k) \<and>
                        (0 < sub32 s h \<longrightarrow> g < N)
      | P_Write e h \<Rightarrow> h = of_nat g \<and> rel st \<le> g \<and> g < N \<and> claimed st ! g = (p, e) \<and>
                       seq (slot_at k st g) = of_nat g
      | P_Publish e h \<Rightarrow> h = of_nat g \<and> rel st \<le> g \<and> g < N \<and> claimed st ! g = (p, e) \<and>
                         seq (slot_at k st g) = of_nat g \<and> data (slot_at k st g) = e)"

definition cons_ok :: "nat \<Rightarrow> 'e mpsc \<Rightarrow> bool" where
  "cons_ok k st \<longleftrightarrow>
     (let R = length (popped st) in
      case cpc st of
        C_Idle \<Rightarrow> m_tail (que st) = of_nat R
      | C_Seq t \<Rightarrow> t = of_nat R \<and> m_tail (que st) = t
      | C_Read t \<Rightarrow> t = of_nat R \<and> m_tail (que st) = t \<and> R < length (claimed st) \<and>
                    seq (slot_at k st R) = of_nat R + 1
      | C_Tail t e \<Rightarrow> t = of_nat (R - 1) \<and> m_tail (que st) = t \<and> 0 < R \<and>
                      seq (slot_at k st (R - 1)) = of_nat (R - 1) + 1
      | C_Rel t e \<Rightarrow> t = of_nat (R - 1) \<and> m_tail (que st) = t + 1 \<and> 0 < R \<and>
                     seq (slot_at k st (R - 1)) = of_nat (R - 1) + 1)"

definition sent_ok :: "'e mpsc \<Rightarrow> nat \<Rightarrow> bool" where
  "sent_ok st p \<longleftrightarrow>
     map snd (filter (\<lambda>x. fst x = p) (claimed st)) = pushed st p @ writing (ppc st p)"

definition qinv :: "nat \<Rightarrow> 'e mpsc \<Rightarrow> bool" where
  "qinv k st \<longleftrightarrow> shape_ok k st \<and> slots_ok k st \<and> cons_ok k st \<and> (\<forall>p. prod_ok k st p \<and> sent_ok st p)"

lemma invD:
  assumes "qinv k st"
  shows "length (m_slots (que st)) = 2 ^ k" "m_head (que st) = of_nat (length (claimed st))"
    "length (popped st) \<le> length (claimed st)"
    "popped st = map snd (take (length (popped st)) (claimed st))"
    "length (claimed st) \<le> rel st + 2 ^ k" "slots_ok k st" "cons_ok k st"
    "prod_ok k st p" "sent_ok st p"
  using assms by (auto simp: qinv_def shape_ok_def)

lemma rel_le: "rel st \<le> length (popped st)"
  by (simp add: rel_def split: cpc.splits)

lemma inv_init: "qinv k (mpsc_init (2 ^ k) junk)"
  by (simp add: qinv_def mpsc_init_def shape_ok_def slots_ok_def cons_ok_def prod_ok_def sent_ok_def
      rel_def slot_at_def LogQueue_init_def)

text \<open>Steps that only move a producer's program counter outside the payload section.\<close>

lemma rel_upd [simp]:
  "rel (st\<lparr>ppc := a\<rparr>) = rel st" "rel (st\<lparr>ghd := b\<rparr>) = rel st" "rel (st\<lparr>que := q\<rparr>) = rel st"
  "rel (st\<lparr>claimed := c\<rparr>) = rel st" "rel (st\<lparr>pushed := d\<rparr>) = rel st"
  by (cases "cpc st"; simp add: rel_def)+

lemma slots_ok_cong:
  assumes ok: "slots_ok k st" and eq: "rel st' = rel st" "claimed st' = claimed st"
    "m_slots (que st') = m_slots (que st)"
    and own: "\<And>p n. owns st p n \<Longrightarrow> owns st' p n"
  shows "slots_ok k st'"
  unfolding slots_ok_def
proof (intro allI impI)
  fix n assume n: "rel st' \<le> n \<and> n < rel st' + 2 ^ k"
  have slot: "slot_at k st' n = slot_at k st n" by (simp add: slot_at_def eq)
  from ok n eq have "if n < length (claimed st)
      then seq (slot_at k st n) = of_nat n \<and> (\<exists>p. owns st p n) \<or>
           seq (slot_at k st n) = of_nat n + 1 \<and> data (slot_at k st n) = snd (claimed st ! n)
      else seq (slot_at k st n) = of_nat n"
    unfolding slots_ok_def by simp
  then show "if n < length (claimed st')
      then seq (slot_at k st' n) = of_nat n \<and> (\<exists>p. owns st' p n) \<or>
           seq (slot_at k st' n) = of_nat n + 1 \<and> data (slot_at k st' n) = snd (claimed st' ! n)
      else seq (slot_at k st' n) = of_nat n"
    unfolding slot eq using own by (meson)
qed

lemma cons_ok_cong:
  assumes "cons_ok k st" and "cpc st' = cpc st" and "popped st' = popped st"
    and "m_tail (que st') = m_tail (que st)" and "length (claimed st) \<le> length (claimed st')"
    and "\<And>n. n = rel st \<Longrightarrow> seq (slot_at k st n) = of_nat n + 1 \<Longrightarrow>
           seq (slot_at k st' n) = seq (slot_at k st n)"
  shows "cons_ok k st'"
  using assms by (cases "cpc st") (auto simp: cons_ok_def rel_def Let_def)

lemma inv_local:
  assumes "qinv k st" and "writing (ppc st p) = []" and "writing pc = []"
    and st': "st' = st\<lparr>ppc := (ppc st)(p := pc), ghd := (ghd st)(p := g)\<rparr>"
    and "prod_ok k st' p"
  shows "qinv k st'"
proof -
  note d = invD [OF assms(1)]
  have own: "owns st p' n \<Longrightarrow> owns st' p' n" for p' n
    using assms(2) by (auto simp: owns_def st')
  have "slots_ok k st'"
    by (rule slots_ok_cong [OF d(6)]) (use own in \<open>simp_all add: st'\<close>)
  moreover have "prod_ok k st' p'" for p'
  proof (cases "p' = p")
    case True
    then show ?thesis using assms(5) by simp
  next
    case False
    then show ?thesis using d(8) [of p'] by (auto simp: prod_ok_def st' slot_at_def Let_def split: ppc.splits)
  qed
  moreover have "sent_ok st' p'" for p'
    using d(9) [of p'] assms(2,3) by (simp add: sent_ok_def st')
  moreover have "cons_ok k st'"
    by (rule cons_ok_cong [OF d(7)]) (simp_all add: st' slot_at_def)
  moreover have "shape_ok k st'"
    using assms(1) unfolding qinv_def by (simp add: shape_ok_def st')
  ultimately show ?thesis by (simp add: qinv_def)
qed

text \<open>
  What a producer sees when it loads the sequence number of the slot of position \<open>g\<close>:
  the slot belongs to the position \<open>n\<close> of the window of slots in use.
\<close>

lemma seen_seq:
  assumes "qinv k st" and "1 \<le> k" and "k \<le> 30" and "g \<le> length (claimed st)"
    and "length (claimed st) - g < 2 ^ 30"
  defines "s \<equiv> seq (slot_at k st g)"
  shows "rel st + 2 ^ k \<le> g \<Longrightarrow> g = length (claimed st) \<and> sub32 s (of_nat g) < 0"
    and "g < rel st + 2 ^ k \<Longrightarrow> 0 \<le> sub32 s (of_nat g)"
    and "0 < sub32 s (of_nat g) \<Longrightarrow> g < length (claimed st)"
proof -
  note d = invD [OF assms(1)]
  have cap: "(2::nat) \<le> 2 ^ k" "(2::nat) ^ k \<le> 2 ^ 30"
    using power_increasing [OF assms(2), of "2::nat"] power_increasing [OF assms(3), of "2::nat"] by simp_all
  obtain n where n: "rel st \<le> n" "n < rel st + 2 ^ k" "n mod 2 ^ k = g mod 2 ^ k"
    by (rule window_mod_surj [of "2 ^ k" "rel st" g]) simp_all
  have slot: "slot_at k st g = slot_at k st n" by (simp add: slot_at_def n(3))
  have s: "s = of_nat n \<or> s = of_nat (n + 1) \<and> n < length (claimed st)"
    using d(6) n(1,2) unfolding slots_ok_def s_def slot by (auto split: if_splits)
  have Nr: "rel st \<le> length (claimed st)" using rel_le [of st] d(3) by linarith
  {
    assume g: "rel st + 2 ^ k \<le> g"
    then have "g = length (claimed st)" using assms(4) d(5) by linarith
    moreover have g_eq: "g = rel st + 2 ^ k" using g assms(4) d(5) by linarith
    then have "n mod 2 ^ k = rel st mod 2 ^ k" using n(3) by simp
    then have "n = rel st" by (rule window_mod_inj [where a = "rel st"]) (use n in simp_all)
    with s have "\<exists>m. s = of_nat m \<and> m \<le> rel st + 1 \<and> rel st \<le> m"
      by (metis le_add1 order_refl)
    then obtain m where m: "s = of_nat m" "m \<le> rel st + 1" "rel st \<le> m" by blast
    have "m < g" using m(2) g_eq cap(1) by linarith
    have "g - m \<le> 2 ^ k" using m(3) g_eq by linarith
    then have "g - m < 2 ^ 31" using cap(2) by simp
    from sub32_behind [OF \<open>m < g\<close> this] \<open>m < g\<close> have "sub32 s (of_nat g) < 0" using m(1) by simp
    ultimately show "g = length (claimed st) \<and> sub32 s (of_nat g) < 0" by simp
  }
  have ahead: "0 \<le> sub32 s (of_nat g) \<and> (0 < sub32 s (of_nat g) \<longrightarrow> g < length (claimed st))"
    if g: "g < rel st + 2 ^ k"
  proof -
    have "g \<le> n"
    proof (cases "rel st \<le> g")
      case True
      have "n = g" by (rule window_mod_inj [where a = "rel st", OF n(3)]) (use n g True in simp_all)
      then show ?thesis by simp
    next
      case False
      then show ?thesis using n(1) by simp
    qed
    from s have "\<exists>m. s = of_nat m \<and> (m = n \<or> m = n + 1 \<and> n < length (claimed st))" by blast
    then obtain m where m: "s = of_nat m" "m = n \<or> m = n + 1 \<and> n < length (claimed st)" by blast
    have le: "g \<le> m" using m(2) \<open>g \<le> n\<close> by linarith
    have "m \<le> length (claimed st) + 2 ^ k" using m(2) n(2) Nr by linarith
    then have "m - g \<le> (length (claimed st) - g) + 2 ^ k" using assms(4) by linarith
    also have "\<dots> < 2 ^ 30 + 2 ^ 30" using assms(5) cap(2) by linarith
    finally have le2: "m - g < 2 ^ 31" by simp
    have "sub32 s (of_nat g) = int (m - g)" unfolding m(1) by (rule sub32_ahead [OF le le2])
    moreover have "g < length (claimed st)" if "g < m"
    proof (cases "rel st \<le> g")
      case True
      have "n = g" by (rule window_mod_inj [where a = "rel st", OF n(3)]) (use n g True in simp_all)
      then show ?thesis using m(2) that by auto
    next
      case False
      then show ?thesis using Nr by simp
    qed
    ultimately show ?thesis by simp
  qed
  then show "g < rel st + 2 ^ k \<Longrightarrow> 0 \<le> sub32 s (of_nat g)" by blast
  assume pos: "0 < sub32 s (of_nat g)"
  show "g < length (claimed st)"
  proof (cases "g < rel st + 2 ^ k")
    case True
    then show ?thesis using ahead pos by blast
  next
    case False
    then show ?thesis using pos \<open>rel st + 2 ^ k \<le> g \<Longrightarrow> g = length (claimed st) \<and> sub32 s (of_nat g) < 0\<close>
      by simp
  qed
qed

section \<open>Every step keeps the invariant\<close>

lemma slot_at_update:
  assumes "length (m_slots (que st)) = 2 ^ k" and "m_slots (que st') = (m_slots (que st))[g mod 2 ^ k := x]"
  shows "n mod 2 ^ k = g mod 2 ^ k \<Longrightarrow> slot_at k st' n = x"
    and "n mod 2 ^ k \<noteq> g mod 2 ^ k \<Longrightarrow> slot_at k st' n = slot_at k st n"
  using assms by (simp_all add: slot_at_def)

lemma window_slot:
  "a \<le> m \<Longrightarrow> m < a + 2 ^ k \<Longrightarrow> a \<le> n \<Longrightarrow> n < a + 2 ^ k \<Longrightarrow>
     m mod 2 ^ k = n mod 2 ^ k \<longleftrightarrow> m = (n :: nat)"
  using window_mod_inj [of m "2 ^ k" n a] by auto

lemma prod_ok_cong:
  assumes "prod_ok k st p" and "ppc st' p = ppc st p" and "ghd st' p = ghd st p"
    and "length (claimed st) \<le> length (claimed st')"
    and "\<And>n. n < length (claimed st) \<Longrightarrow> claimed st' ! n = claimed st ! n"
    and "rel st \<le> rel st'"
    and "\<And>e. rel st \<le> ghd st p \<Longrightarrow> ghd st p < length (claimed st) \<Longrightarrow>
           claimed st ! ghd st p = (p, e) \<Longrightarrow>
           seq (slot_at k st (ghd st p)) = of_nat (ghd st p) \<Longrightarrow>
           rel st' \<le> ghd st p \<and> slot_at k st' (ghd st p) = slot_at k st (ghd st p)"
  shows "prod_ok k st' p"
  using assms by (cases "ppc st p") (auto simp: prod_ok_def Let_def intro: less_le_trans)

lemma inv_cas:
  assumes i: "qinv k st" and pc: "ppc st p = P_Test e h h" and h: "m_head (que st) = h"
    and fr: "length (claimed st) - ghd st p < 2 ^ 30"
    and st': "st' = st\<lparr>que := (que st)\<lparr>m_head := h + 1\<rparr>, ppc := (ppc st)(p := P_Write e h),
         claimed := claimed st @ [(p, e)], ghd := (ghd st)(p := length (claimed st))\<rparr>"
  shows "qinv k st'"
proof -
  note d = invD [OF i]
  let ?N = "length (claimed st)"
  have g: "h = of_nat (ghd st p)" "ghd st p \<le> ?N" "ghd st p < rel st + 2 ^ k"
    using d(8) [of p] by (simp_all add: prod_ok_def pc Let_def)
  have "ghd st p = ?N"
    by (rule u32_of_nat_eq_near) (use g d(2) h fr in simp_all)
  then have room: "?N < rel st + 2 ^ k" using g(3) by simp
  have Nr: "rel st \<le> ?N" using rel_le [of st] d(3) by simp
  have rel: "rel st' = rel st" by (simp add: st')
  have slot: "slot_at k st' n = slot_at k st n" for n by (simp add: slot_at_def st')
  have free: "seq (slot_at k st ?N) = of_nat ?N"
    using d(6) Nr room unfolding slots_ok_def by auto
  have "shape_ok k st'"
    using d(1-5) h room rel by (auto simp: shape_ok_def st')
  moreover have "slots_ok k st'"
    unfolding slots_ok_def slot rel
  proof (intro allI impI)
    fix n assume n: "rel st \<le> n \<and> n < rel st + 2 ^ k"
    have "owns st' p' n" if "owns st p' n" for p'
      using that pc by (cases "p' = p") (auto simp: owns_def st')
    moreover have "owns st' p ?N" by (simp add: owns_def st')
    moreover from d(6) n have "if n < ?N
      then seq (slot_at k st n) = of_nat n \<and> (\<exists>p. owns st p n) \<or>
           seq (slot_at k st n) = of_nat n + 1 \<and> data (slot_at k st n) = snd (claimed st ! n)
      else seq (slot_at k st n) = of_nat n" unfolding slots_ok_def by blast
    ultimately show "if n < length (claimed st')
      then seq (slot_at k st n) = of_nat n \<and> (\<exists>p. owns st' p n) \<or>
           seq (slot_at k st n) = of_nat n + 1 \<and> data (slot_at k st n) = snd (claimed st' ! n)
      else seq (slot_at k st n) = of_nat n"
      using free by (cases "n = ?N") (auto simp: st' nth_append split: if_splits)
  qed
  moreover have "cons_ok k st'"
    by (rule cons_ok_cong [OF d(7)]) (simp_all add: st' slot_at_def)
  moreover have "prod_ok k st' p'" for p'
  proof (cases "p' = p")
    case True
    then show ?thesis using free Nr h d(2) by (simp add: prod_ok_def st' Let_def slot_at_def)
  next
    case False
    show ?thesis
      by (rule prod_ok_cong [OF d(8) [of p']]) (use False in \<open>simp_all add: st' slot_at_def nth_append\<close>)
  qed
  moreover have "sent_ok st' p'" for p'
    using d(9) [of p'] pc by (auto simp: sent_ok_def st')
  ultimately show ?thesis by (simp add: qinv_def)
qed

lemma inv_write:
  assumes i: "qinv k st" and k: "k < 32" and pc: "ppc st p = P_Write e h"
    and st': "st' = st\<lparr>que := (que st)\<lparr>m_slots := (m_slots (que st))[j := (m_slots (que st) ! j)\<lparr>data := e\<rparr>]\<rparr>,
         ppc := (ppc st)(p := P_Publish e h)\<rparr>"
    and j: "j = slot_idx (2 ^ k) h"
  shows "qinv k st'"
proof -
  note d = invD [OF i]
  let ?N = "length (claimed st)" and ?g = "ghd st p"
  have g: "h = of_nat ?g" "rel st \<le> ?g" "?g < ?N" "claimed st ! ?g = (p, e)"
      "seq (slot_at k st ?g) = of_nat ?g"
    using d(8) [of p] by (simp_all add: prod_ok_def pc Let_def)
  have gw: "?g < rel st + 2 ^ k" using g(3) d(5) by simp
  have j': "j = ?g mod 2 ^ k" unfolding j g(1) by (rule slot_idx_of_nat [OF k])
  have upd: "m_slots (que st') = (m_slots (que st))[?g mod 2 ^ k := (slot_at k st ?g)\<lparr>data := e\<rparr>]"
    by (simp add: st' j' slot_at_def)
  note slot = slot_at_update [OF d(1) upd]
  have seqs: "seq (slot_at k st' n) = seq (slot_at k st n)" for n
    by (cases "n mod 2 ^ k = ?g mod 2 ^ k") (simp_all add: slot, simp add: slot_at_def)
  have rel: "rel st' = rel st" by (simp add: st')
  have own: "owns st' p' n" if "owns st p' n" for p' n
    using that pc by (auto simp: owns_def st')
  have "shape_ok k st'"
    using d(1-5) rel by (simp add: shape_ok_def st')
  moreover have "slots_ok k st'"
    unfolding slots_ok_def seqs rel
  proof (intro allI impI)
    fix n assume n: "rel st \<le> n \<and> n < rel st + 2 ^ k"
    from d(6) n have ok: "if n < ?N
      then seq (slot_at k st n) = of_nat n \<and> (\<exists>p. owns st p n) \<or>
           seq (slot_at k st n) = of_nat n + 1 \<and> data (slot_at k st n) = snd (claimed st ! n)
      else seq (slot_at k st n) = of_nat n" unfolding slots_ok_def by blast
    have "slot_at k st' n = slot_at k st n" if "n \<noteq> ?g"
      using that slot(2) window_slot [of "rel st" n k ?g] n g(2) gw by blast
    with ok own g(5) show "if n < length (claimed st')
      then seq (slot_at k st n) = of_nat n \<and> (\<exists>p. owns st' p n) \<or>
           seq (slot_at k st n) = of_nat n + 1 \<and> data (slot_at k st' n) = snd (claimed st' ! n)
      else seq (slot_at k st n) = of_nat n"
      by (cases "n = ?g") (auto simp: st' split: if_splits)
  qed
  moreover have "cons_ok k st'"
    by (rule cons_ok_cong [OF d(7)]) (simp_all add: seqs, simp_all add: st')
  moreover have "prod_ok k st' p'" for p'
  proof (cases "p' = p")
    case True
    have "data (slot_at k st' ?g) = e" by (simp add: slot)
    then show ?thesis using True g seqs [of ?g] rel by (simp add: prod_ok_def Let_def) (simp add: st')
  next
    case False
    have "slot_at k st' g' = slot_at k st g'"
      if "claimed st ! g' = (p', e')" and "rel st \<le> g'" and "g' < ?N" for g' e'
    proof -
      have "g' \<noteq> ?g" using that g(4) False by auto
      then show ?thesis using slot(2) window_slot [of "rel st" g' k ?g] that g(2) gw d(5) by simp
    qed
    then show ?thesis
      by (intro prod_ok_cong [OF d(8) [of p']]) (use False in \<open>simp_all add: rel, simp_all add: st'\<close>)
  qed
  moreover have "sent_ok st' p'" for p'
    using d(9) [of p'] pc by (auto simp: sent_ok_def st')
  ultimately show ?thesis by (simp add: qinv_def)
qed

lemma inv_publish:
  assumes i: "qinv k st" and k: "k < 32" and pc: "ppc st p = P_Publish e h"
    and st': "st' = st\<lparr>que := (que st)\<lparr>m_slots := (m_slots (que st))[j := (m_slots (que st) ! j)\<lparr>seq := h + 1\<rparr>]\<rparr>,
         ppc := (ppc st)(p := P_Idle), pushed := (pushed st)(p := pushed st p @ [e])\<rparr>"
    and j: "j = slot_idx (2 ^ k) h"
  shows "qinv k st'"
proof -
  note d = invD [OF i]
  let ?N = "length (claimed st)" and ?g = "ghd st p"
  have g: "h = of_nat ?g" "rel st \<le> ?g" "?g < ?N" "claimed st ! ?g = (p, e)"
      "seq (slot_at k st ?g) = of_nat ?g" "data (slot_at k st ?g) = e"
    using d(8) [of p] by (simp_all add: prod_ok_def pc Let_def)
  have gw: "?g < rel st + 2 ^ k" using g(3) d(5) by simp
  have j': "j = ?g mod 2 ^ k" unfolding j g(1) by (rule slot_idx_of_nat [OF k])
  have upd: "m_slots (que st') = (m_slots (que st))[?g mod 2 ^ k := (slot_at k st ?g)\<lparr>seq := h + 1\<rparr>]"
    by (simp add: st' j' slot_at_def)
  note slot = slot_at_update [OF d(1) upd]
  have same: "slot_at k st' n = slot_at k st n" if "n \<noteq> ?g" "rel st \<le> n" "n < rel st + 2 ^ k" for n
    using that slot(2) window_slot [of "rel st" n k ?g] g(2) gw by blast
  have rel: "rel st' = rel st" by (simp add: st')
  have "shape_ok k st'"
    using d(1-5) rel by (simp add: shape_ok_def st')
  moreover have "slots_ok k st'"
    unfolding slots_ok_def rel
  proof (intro allI impI)
    fix n assume n: "rel st \<le> n \<and> n < rel st + 2 ^ k"
    from d(6) n have ok: "if n < ?N
      then seq (slot_at k st n) = of_nat n \<and> (\<exists>p. owns st p n) \<or>
           seq (slot_at k st n) = of_nat n + 1 \<and> data (slot_at k st n) = snd (claimed st ! n)
      else seq (slot_at k st n) = of_nat n" unfolding slots_ok_def by blast
    show "if n < length (claimed st')
      then seq (slot_at k st' n) = of_nat n \<and> (\<exists>p. owns st' p n) \<or>
           seq (slot_at k st' n) = of_nat n + 1 \<and> data (slot_at k st' n) = snd (claimed st' ! n)
      else seq (slot_at k st' n) = of_nat n"
    proof (cases "n = ?g")
      case True
      have "seq (slot_at k st' ?g) = of_nat ?g + 1" "data (slot_at k st' ?g) = e"
        using g(1,6) by (simp_all add: slot)
      then show ?thesis using True g(3,4) by (simp add: st')
    next
      case False
      have "owns st' p' n" if "owns st p' n" for p'
        using that False by (cases "p' = p") (auto simp: owns_def st')
      moreover have "slot_at k st' n = slot_at k st n" using same False n by blast
      ultimately show ?thesis using ok by (auto simp: st' split: if_splits)
    qed
  qed
  moreover have "cons_ok k st'"
  proof (rule cons_ok_cong [OF d(7)])
    fix n assume n: "n = rel st" "seq (slot_at k st n) = of_nat n + 1"
    then have "n \<noteq> ?g" using g(5) by auto
    then show "seq (slot_at k st' n) = seq (slot_at k st n)" using same n(1) by simp
  qed (simp_all add: st')
  moreover have "prod_ok k st' p'" for p'
  proof (cases "p' = p")
    case True
    then show ?thesis by (simp add: prod_ok_def st')
  next
    case False
    have "slot_at k st' g' = slot_at k st g'"
      if "claimed st ! g' = (p', e')" and "rel st \<le> g'" and "g' < ?N" for g' e'
    proof -
      have "g' \<noteq> ?g" using that g(4) False by auto
      then show ?thesis using same that d(5) by simp
    qed
    then show ?thesis
      by (intro prod_ok_cong [OF d(8) [of p']]) (use False in \<open>simp_all add: rel, simp_all add: st'\<close>)
  qed
  moreover have "sent_ok st' p'" for p'
    using d(9) [of p'] pc by (auto simp: sent_ok_def st')
  ultimately show ?thesis by (simp add: qinv_def)
qed

lemma inv_cons_local:
  assumes "qinv k st" and q: "m_slots (que st') = m_slots (que st)" "m_head (que st') = m_head (que st)"
    and eq: "ppc st' = ppc st" "claimed st' = claimed st" "pushed st' = pushed st" "ghd st' = ghd st"
    and rel: "rel st' = rel st" and "cons_ok k st'"
    and pop: "length (popped st') \<le> length (claimed st)"
      "popped st' = map snd (take (length (popped st')) (claimed st))"
  shows "qinv k st'"
proof -
  note d = invD [OF assms(1)]
  have "slots_ok k st'"
    by (rule slots_ok_cong [OF d(6)]) (simp_all add: q eq rel owns_def)
  moreover have "prod_ok k st' p" for p
    by (rule prod_ok_cong [OF d(8) [of p]]) (simp_all add: q eq rel slot_at_def)
  moreover have "shape_ok k st'"
    unfolding shape_ok_def eq q rel using d(1,2,5) pop by blast
  moreover have "sent_ok st' p" for p
    using d(9) [of p] by (simp add: sent_ok_def eq)
  ultimately show ?thesis using assms(9) by (simp add: qinv_def)
qed

lemma inv_release:
  assumes i: "qinv k st" and k: "1 \<le> k" "k < 32" and pc: "cpc st = C_Rel t e"
    and st': "st' = st\<lparr>que := (que st)\<lparr>m_slots := (m_slots (que st))[j := (m_slots (que st) ! j)
           \<lparr>seq := t + of_nat (2 ^ k)\<rparr>]\<rparr>, cpc := C_Idle\<rparr>"
    and j: "j = slot_idx (2 ^ k) t"
  shows "qinv k st'"
proof -
  note d = invD [OF i]
  let ?N = "length (claimed st)" and ?r = "rel st"
  have c: "t = of_nat ?r" "m_tail (que st) = t + 1" "length (popped st) = ?r + 1"
      "seq (slot_at k st ?r) = of_nat ?r + 1"
    using d(7) by (auto simp: cons_ok_def pc Let_def rel_def)
  have j': "j = ?r mod 2 ^ k" unfolding j c(1) by (rule slot_idx_of_nat [OF k(2)])
  have upd: "m_slots (que st') = (m_slots (que st))[?r mod 2 ^ k := (slot_at k st ?r)\<lparr>seq := t + of_nat (2 ^ k)\<rparr>]"
    by (simp add: st' j' slot_at_def)
  note slot = slot_at_update [OF d(1) upd]
  have same: "slot_at k st' n = slot_at k st n" if "n \<noteq> ?r" "?r \<le> n" "n < ?r + 2 ^ k" for n
    using that slot(2) window_slot [of ?r n k ?r] by simp
  have rel: "rel st' = ?r + 1" using c(3) by (simp add: rel_def st')
  have "shape_ok k st'"
    using d(1-5) rel unfolding shape_ok_def by (simp add: st')
  moreover have "slots_ok k st'"
    unfolding slots_ok_def rel
  proof (intro allI impI)
    fix n assume n: "?r + 1 \<le> n \<and> n < ?r + 1 + 2 ^ k"
    show "if n < length (claimed st')
      then seq (slot_at k st' n) = of_nat n \<and> (\<exists>p. owns st' p n) \<or>
           seq (slot_at k st' n) = of_nat n + 1 \<and> data (slot_at k st' n) = snd (claimed st' ! n)
      else seq (slot_at k st' n) = of_nat n"
    proof (cases "n = ?r + 2 ^ k")
      case True
      have "\<not> n < ?N" using d(5) True by simp
      moreover have "seq (slot_at k st' n) = of_nat n"
        using slot(1) [of n] True by (simp add: c(1))
      ultimately show ?thesis by (simp add: st')
    next
      case False
      then have n': "?r \<le> n \<and> n < ?r + 2 ^ k" "n \<noteq> ?r" using n by auto
      from d(6) n' have "if n < ?N
        then seq (slot_at k st n) = of_nat n \<and> (\<exists>p. owns st p n) \<or>
             seq (slot_at k st n) = of_nat n + 1 \<and> data (slot_at k st n) = snd (claimed st ! n)
        else seq (slot_at k st n) = of_nat n" unfolding slots_ok_def by blast
      moreover have "owns st' = owns st" by (simp add: fun_eq_iff owns_def st')
      ultimately show ?thesis using same [of n] n' by (simp add: st')
    qed
  qed
  moreover have "cons_ok k st'"
    using c by (simp add: cons_ok_def st' Let_def)
  moreover have "prod_ok k st' p" for p
  proof (rule prod_ok_cong [OF d(8) [of p]])
    fix e' assume o: "?r \<le> ghd st p" "ghd st p < ?N" "seq (slot_at k st (ghd st p)) = of_nat (ghd st p)"
    then have "ghd st p \<noteq> ?r" using c(4) by auto
    then show "rel st' \<le> ghd st p \<and> slot_at k st' (ghd st p) = slot_at k st (ghd st p)"
      using o same [of "ghd st p"] d(5) by (simp add: rel)
  qed (simp_all add: rel, simp_all add: st')
  moreover have "sent_ok st' p" for p
    using d(9) [of p] by (simp add: sent_ok_def st')
  ultimately show ?thesis by (simp add: qinv_def)
qed

lemma inv_consumer:
  assumes i: "qinv k st" and k: "1 \<le> k" "k < 32"
  shows "qinv k (cons_step (2 ^ k) st)"
proof -
  note d = invD [OF i]
  let ?R = "length (popped st)"
  show ?thesis
  proof (cases "cpc st")
    case C_Idle
    show ?thesis
      by (rule inv_cons_local [OF i])
         (use d(3,4,7) C_Idle in \<open>simp_all add: cons_step_def cons_ok_def Let_def rel_def\<close>)
  next
    case (C_Seq t)
    then have t: "t = of_nat ?R" "m_tail (que st) = t" "rel st = ?R"
      using d(7) by (simp_all add: cons_ok_def Let_def rel_def)
    have "slot_idx (2 ^ k) t = ?R mod 2 ^ k" unfolding t(1) by (rule slot_idx_of_nat [OF k(2)])
    then have s: "m_slots (que st) ! slot_idx (2 ^ k) t = slot_at k st ?R" by (simp add: slot_at_def)
    show ?thesis
    proof (cases "sub32 (seq (slot_at k st ?R)) (t + 1) = 0")
      case True
      then have pub: "seq (slot_at k st ?R) = of_nat ?R + 1" using t(1) by simp
      have "?R < length (claimed st)"
        using d(6) [unfolded slots_ok_def, rule_format, of ?R] t(3) pub by (auto split: if_splits)
      with pub t True C_Seq s show ?thesis
        by (intro inv_cons_local [OF i])
           (use d(3,4) in \<open>simp_all add: cons_step_def cons_ok_def Let_def rel_def slot_at_def\<close>)
    next
      case False
      then show ?thesis using t C_Seq s
        by (intro inv_cons_local [OF i])
           (use d(3,4) in \<open>simp_all add: cons_step_def cons_ok_def Let_def rel_def slot_at_def del: sub32_eq_0\<close>)
    qed
  next
    case (C_Read t)
    then have t: "t = of_nat ?R" "m_tail (que st) = t" "rel st = ?R" "?R < length (claimed st)"
        "seq (slot_at k st ?R) = of_nat ?R + 1"
      using d(7) by (simp_all add: cons_ok_def Let_def rel_def)
    have "slot_idx (2 ^ k) t = ?R mod 2 ^ k" unfolding t(1) by (rule slot_idx_of_nat [OF k(2)])
    then have s: "m_slots (que st) ! slot_idx (2 ^ k) t = slot_at k st ?R" by (simp add: slot_at_def)
    have out: "data (slot_at k st ?R) = snd (claimed st ! ?R)"
      using d(6) t(3,4,5) unfolding slots_ok_def by auto
    have "popped st @ [snd (claimed st ! ?R)] = map snd (take (Suc ?R) (claimed st))"
      using d(4) t(4) by (simp add: take_Suc_conv_app_nth)
    then show ?thesis using t C_Read s out
      by (intro inv_cons_local [OF i])
         (use d(3) in \<open>simp_all add: cons_step_def cons_ok_def Let_def rel_def slot_at_def\<close>)
  next
    case (C_Tail t e)
    show ?thesis
      by (rule inv_cons_local [OF i])
         (use d(3,4,7) C_Tail in \<open>simp_all add: cons_step_def cons_ok_def Let_def rel_def slot_at_def\<close>)
  next
    case (C_Rel t e)
    show ?thesis
      by (rule inv_release [OF i k C_Rel _ refl]) (simp add: cons_step_def C_Rel Let_def)
  qed
qed

lemma inv_producer:
  assumes i: "qinv k st" and k: "1 \<le> k" "k \<le> 30" and fr: "fresh st"
  shows "qinv k (prod_step (2 ^ k) p st)"
proof -
  note d = invD [OF i]
  let ?N = "length (claimed st)" and ?g = "ghd st p"
  have k': "k < 32" using k(2) by simp
  have gap: "?N - ?g < 2 ^ 30" if "in_loop (ppc st p)" using fr that by (simp add: fresh_def)
  show ?thesis
  proof (cases "ppc st p")
    case P_Idle
    then show ?thesis using i by (simp add: prod_step_def)
  next
    case (P_Load e)
    show ?thesis
      by (rule inv_local [OF i, where pc = "P_Seq e (m_head (que st))" and p = p and g = ?N])
         (use d(2) P_Load in \<open>simp_all add: prod_step_def prod_ok_def Let_def\<close>)
  next
    case (P_Seq e h)
    then have g: "h = of_nat ?g" "?g \<le> ?N" using d(8) [of p] by (simp_all add: prod_ok_def Let_def)
    have "slot_idx (2 ^ k) h = ?g mod 2 ^ k" unfolding g(1) by (rule slot_idx_of_nat [OF k'])
    then have s: "m_slots (que st) ! slot_idx (2 ^ k) h = slot_at k st ?g" by (simp add: slot_at_def)
    have "?g < rel st + 2 ^ k" if "seq (slot_at k st ?g) = h"
    proof (rule ccontr)
      assume "\<not> ?g < rel st + 2 ^ k"
      then have full: "rel st + 2 ^ k \<le> ?g" by simp
      have "in_loop (ppc st p)" by (simp add: P_Seq)
      with seen_seq(1) [OF i k g(2) _ full] gap
      have "sub32 (seq (slot_at k st ?g)) (of_nat ?g) < 0" by blast
      then show False using that g(1) by simp
    qed
    moreover have "?g < ?N" if "0 < sub32 (seq (slot_at k st ?g)) h"
      using seen_seq(3) [OF i k g(2)] gap P_Seq that g(1) by simp
    ultimately show ?thesis
      by (intro inv_local [OF i, where pc = "P_Test e h (seq (slot_at k st ?g))" and p = p and g = ?g])
         (use g s P_Seq in \<open>simp_all add: prod_step_def prod_ok_def Let_def\<close>)
  next
    case (P_Test e h s)
    then have g: "h = of_nat ?g" "?g \<le> ?N" using d(8) [of p] by (simp_all add: prod_ok_def Let_def)
    consider (cas) "s = h" "m_head (que st) = h" | (lost) "s = h" "m_head (que st) \<noteq> h"
      | (full) "sub32 s h < 0" | (stale) "0 < sub32 s h"
      using sub32_eq_0 [of s h] by linarith
    then show ?thesis
    proof cases
      case cas
      show ?thesis
        by (rule inv_cas [OF i, where p = p and e = e and h = h])
           (use P_Test cas gap in \<open>simp_all add: prod_step_def Let_def\<close>)
    next
      case lost
      then show ?thesis
        by (intro inv_local [OF i, where pc = "P_Seq e (m_head (que st))" and p = p and g = ?N])
           (use d(2) P_Test in \<open>simp_all add: prod_step_def prod_ok_def Let_def\<close>)
    next
      case full
      then have "sub32 s h \<noteq> 0" by linarith
      then show ?thesis
        by (intro inv_local [OF i, where pc = P_Idle and p = p and g = ?g])
           (use P_Test full in \<open>simp_all add: prod_step_def prod_ok_def Let_def\<close>)
    next
      case stale
      then have "sub32 s h \<noteq> 0" "\<not> sub32 s h < 0" by linarith+
      then show ?thesis
        by (intro inv_local [OF i, where pc = "P_Load e" and p = p and g = ?g])
           (use P_Test in \<open>simp_all add: prod_step_def prod_ok_def Let_def\<close>)
    qed
  next
    case (P_Write e h)
    show ?thesis
      by (rule inv_write [OF i k' P_Write _ refl]) (simp add: prod_step_def P_Write Let_def)
  next
    case (P_Publish e h)
    show ?thesis
      by (rule inv_publish [OF i k' P_Publish _ refl]) (simp add: prod_step_def P_Publish Let_def)
  qed
qed

lemma reach_inv:
  assumes "reach (2 ^ k) st" and "1 \<le> k" and "k \<le> 30"
  shows "qinv k st \<and> fresh st"
  using assms(1)
proof (induction rule: reach.induct)
  case (start junk)
  show ?case using inv_init by (simp add: mpsc_init_def fresh_def)
next
  case (next_step st st')
  from next_step.hyps(2) have "qinv k st'"
  proof cases
    case (call p e)
    then show ?thesis
      using next_step.IH
      by (intro inv_local [of k st p "P_Load e" st' "ghd st p"]) (simp_all add: prod_ok_def)
  next
    case (producer p)
    then show ?thesis using inv_producer next_step.IH assms by blast
  next
    case consumer
    have "k < 32" using assms(3) by simp
    with consumer show ?thesis using inv_consumer next_step.IH assms(2) by blast
  qed
  then show ?case using next_step.hyps by blast
qed

section \<open>Concrete executions\<close>

datatype 'e act = Call nat 'e | Prod nat | Cons

fun do_act :: "nat \<Rightarrow> 'e act \<Rightarrow> 'e mpsc \<Rightarrow> 'e mpsc" where
  "do_act cap (Call p e) st =
     (case ppc st p of P_Idle \<Rightarrow> st\<lparr>ppc := (ppc st)(p := P_Load e)\<rparr> | _ \<Rightarrow> st)"
| "do_act cap (Prod p) st = prod_step cap p st"
| "do_act cap Cons st = cons_step cap st"

fun run :: "nat \<Rightarrow> 'e act list \<Rightarrow> 'e mpsc \<Rightarrow> 'e mpsc" where
  "run cap [] st = st"
| "run cap (a # as) st = run cap as (do_act cap a st)"

lemma claimed_do_act: "length (claimed (do_act cap a st)) \<le> Suc (length (claimed st))"
  by (cases a) (auto simp: prod_step_def cons_step_def Let_def split: ppc.splits cpc.splits)

lemma fresh_small: "length (claimed st) < 2 ^ 30 \<Longrightarrow> fresh st"
  by (auto simp: fresh_def)

lemma do_act_reach:
  assumes "reach cap st" and "Suc (length (claimed st)) < 2 ^ 30"
  shows "reach cap (do_act cap a st)"
proof -
  have "fresh (do_act cap a st)"
    using assms(2) claimed_do_act [of cap a st] by (intro fresh_small) linarith
  moreover have "step cap st (do_act cap a st) \<or> do_act cap a st = st"
  proof (cases a)
    case (Call p e)
    then show ?thesis by (auto split: ppc.splits intro: step.call)
  next
    case (Prod p)
    show ?thesis
    proof (cases "ppc st p = P_Idle")
      case True
      then show ?thesis by (simp add: Prod prod_step_def)
    next
      case False
      then show ?thesis by (simp add: Prod step.producer)
    qed
  next
    case Cons
    then show ?thesis by (simp add: step.consumer)
  qed
  ultimately show ?thesis using reach.next_step [OF assms(1)] assms(1) by auto
qed

lemma run_reach:
  "reach cap st \<Longrightarrow> length (claimed st) + length as < 2 ^ 30 \<Longrightarrow> reach cap (run cap as st)"
proof (induction as arbitrary: st)
  case (Cons a as)
  have "reach cap (do_act cap a st)"
    using Cons.prems by (intro do_act_reach) simp_all
  moreover have "length (claimed (do_act cap a st)) + length as < 2 ^ 30"
    using Cons.prems(2) claimed_do_act [of cap a st] by simp
  ultimately show ?case using Cons.IH by simp
qed simp

lemmas run_init_reach = run_reach [OF reach.start]

section \<open>Properties\<close>

text \<open>
  C1: First in, first out, with nothing lost, duplicated or torn: in every reachable state
  the consumer has received exactly the first messages in the order in which the producers
  won their slots, the messages of one producer keep their order and are those for which
  \<open>TryPush\<close> returned true plus the one it is still writing, and at most \<open>2 ^ k\<close> messages
  are ahead of the consumer's releases.
\<close>

theorem mpsc_fifo:
  assumes "reach (2 ^ k) st" and "1 \<le> k" and "k \<le> 30"
  shows "popped st = map snd (take (length (popped st)) (claimed st)) \<and>
         length (popped st) \<le> length (claimed st) \<and>
         length (claimed st) \<le> length (popped st) + 2 ^ k \<and>
         (\<forall>p. map snd (filter (\<lambda>x. fst x = p) (claimed st)) = pushed st p @ writing (ppc st p))"
proof -
  note d = invD [OF conjunct1 [OF reach_inv [OF assms]]]
  show ?thesis
    using d(3,4,5,9) rel_le [of st] by (auto simp: sent_ok_def)
qed

theorem mpsc_fifo_witness:
  "let st = run 2 [Call 0 (10::nat), Call 1 20, Prod 0, Prod 1, Prod 0, Prod 1, Prod 1, Prod 0,
                   Prod 1, Prod 1, Prod 0, Prod 0, Cons, Cons, Cons] (mpsc_init 2 (\<lambda>_. 0))
   in popped st = [20] \<and> claimed st = [(1, 20), (0, 10)] \<and> pushed st 1 = [20] \<and>
      popped st = map snd (take (length (popped st)) (claimed st))"
proof -
  let ?acts = "[Call 0 (10::nat), Call 1 20, Prod 0, Prod 1, Prod 0, Prod 1, Prod 1, Prod 0,
                Prod 1, Prod 1, Prod 0, Prod 0, Cons, Cons, Cons]"
  have "reach (2 ^ 1) (run 2 ?acts (mpsc_init 2 (\<lambda>_. 0)))"
    using run_init_reach [of 2 "\<lambda>_. 0" ?acts] by (simp add: mpsc_init_def)
  from mpsc_fifo [OF this] show ?thesis
    by (simp add: Let_def mpsc_init_def LogQueue_init_def prod_step_def cons_step_def
        slot_idx_def sub32_def upt_rec)
qed

text \<open>
  When no call is in progress the ring is, for the sequential view of it, a queue that
  holds exactly the messages that producers were told are accepted and the consumer has not
  received, in order.
\<close>

theorem mpsc_quiescent:
  assumes "reach (2 ^ k) st" and "1 \<le> k" and "k \<le> 30"
    and "\<And>p. ppc st p = P_Idle" and "cpc st = C_Idle"
  shows "queue_at k (length (popped st)) (que st) (map snd (drop (length (popped st)) (claimed st))) \<and>
         (\<forall>p. map snd (filter (\<lambda>x. fst x = p) (claimed st)) = pushed st p)"
proof -
  note d = invD [OF conjunct1 [OF reach_inv [OF assms(1-3)]]]
  let ?R = "length (popped st)" and ?N = "length (claimed st)"
  have rel: "rel st = ?R" by (simp add: rel_def assms(5))
  have "\<not> owns st p n" for p n by (simp add: owns_def assms(4))
  then have slot: "?R \<le> n \<Longrightarrow> n < ?R + 2 ^ k \<Longrightarrow>
      (if n < ?N then seq (slot_at k st n) = of_nat n + 1 \<and> data (slot_at k st n) = snd (claimed st ! n)
       else seq (slot_at k st n) = of_nat n)" for n
    using d(6) unfolding slots_ok_def rel by metis
  have "queue_at k ?R (que st) (map snd (drop ?R (claimed st)))"
    unfolding queue_at_def
  proof (intro conjI allI impI)
    show "m_tail (que st) = of_nat ?R" using d(7) by (simp add: cons_ok_def assms(5) Let_def)
    show "m_head (que st) = of_nat (?R + length (map snd (drop ?R (claimed st))))"
      using d(2,3) by simp
  next
    fix i :: nat assume "i < 2 ^ k"
    then have "if ?R + i < ?N then seq (slot_at k st (?R + i)) = of_nat (?R + i) + 1
               else seq (slot_at k st (?R + i)) = of_nat (?R + i)"
      using slot [of "?R + i"] by (auto split: if_splits)
    moreover have "i < length (map snd (drop ?R (claimed st))) \<longleftrightarrow> ?R + i < ?N" by auto
    ultimately show "seq (m_slots (que st) ! ((?R + i) mod 2 ^ k))
        = (if i < length (map snd (drop ?R (claimed st))) then of_nat (?R + i + 1) else of_nat (?R + i))"
      unfolding slot_at_def by (cases "?R + i < ?N") simp_all
  next
    fix i assume "i < length (map snd (drop ?R (claimed st)))"
    then have i: "?R + i < ?N" "?R + i < ?R + 2 ^ k" using d(5) rel by simp_all
    then show "data (m_slots (que st) ! ((?R + i) mod 2 ^ k)) = map snd (drop ?R (claimed st)) ! i"
      using slot [of "?R + i"] by (simp add: slot_at_def)
  qed (use d(1,5) rel in simp_all)
  moreover have "map snd (filter (\<lambda>x. fst x = p) (claimed st)) = pushed st p" for p
    using d(9) [of p] by (simp add: sent_ok_def assms(4))
  ultimately show ?thesis by blast
qed

theorem mpsc_quiescent_witness:
  "let st = run 2 [Call 0 (10::nat), Call 1 20, Prod 0, Prod 1, Prod 0, Prod 1, Prod 1, Prod 0,
                   Prod 1, Prod 1, Prod 0, Prod 0, Prod 0, Prod 0, Prod 0] (mpsc_init 2 (\<lambda>_. 0))
   in claimed st = [(1, 20), (0, 10)] \<and> queue_at 1 0 (que st) [20, 10]"
proof -
  let ?acts = "[Call 0 (10::nat), Call 1 20, Prod 0, Prod 1, Prod 0, Prod 1, Prod 1, Prod 0,
                Prod 1, Prod 1, Prod 0, Prod 0, Prod 0, Prod 0, Prod 0]"
  let ?st = "run 2 ?acts (mpsc_init 2 (\<lambda>_. 0))"
  have r: "reach (2 ^ 1) ?st"
    using run_init_reach [of 2 "\<lambda>_. 0" ?acts] by (simp add: mpsc_init_def)
  have idle: "ppc ?st p = P_Idle" "cpc ?st = C_Idle" "popped ?st = []"
      "claimed ?st = [(1, 20), (0, 10)]" for p
    by (simp_all add: Let_def mpsc_init_def LogQueue_init_def prod_step_def cons_step_def
        slot_idx_def sub32_def upt_rec)
  have "queue_at 1 (length (popped ?st)) (que ?st)
      (map snd (drop (length (popped ?st)) (claimed ?st)))"
    by (rule conjunct1 [OF mpsc_quiescent [OF r _ _ idle(1,2)]]) simp_all
  then have "queue_at 1 0 (que ?st) [20, 10]" unfolding idle by simp
  then show ?thesis unfolding Let_def using idle(4) by blast
qed

text \<open>
  The slot whose payload a thread is about to access: producers write it, the consumer
  copies it.
\<close>

fun writes_slot :: "nat \<Rightarrow> 'e ppc \<Rightarrow> nat option" where
  "writes_slot cap (P_Write e h) = Some (slot_idx cap h)"
| "writes_slot cap _ = None"

fun reads_slot :: "nat \<Rightarrow> 'e cpc \<Rightarrow> nat option" where
  "reads_slot cap (C_Read t) = Some (slot_idx cap t)"
| "reads_slot cap _ = None"

text \<open>
  The payloads are never accessed by two threads at once: no two producers write the
  same slot, and no producer writes the slot the consumer copies.
\<close>

theorem mpsc_no_payload_race:
  assumes "reach (2 ^ k) st" and "1 \<le> k" and "k \<le> 30"
    and "writes_slot (2 ^ k) (ppc st p) = Some i"
  shows "(\<forall>p'. p' \<noteq> p \<longrightarrow> writes_slot (2 ^ k) (ppc st p') \<noteq> Some i) \<and>
         reads_slot (2 ^ k) (cpc st) \<noteq> Some i"
proof -
  note d = invD [OF conjunct1 [OF reach_inv [OF assms(1-3)]]]
  have k: "k < 32" using assms(3) by simp
  have wr: "\<exists>e. i' = ghd st p' mod 2 ^ k \<and> rel st \<le> ghd st p' \<and> ghd st p' < rel st + 2 ^ k \<and>
      claimed st ! ghd st p' = (p', e) \<and> seq (slot_at k st (ghd st p')) = of_nat (ghd st p')"
    if "writes_slot (2 ^ k) (ppc st p') = Some i'" for p' i'
    using that d(8) [of p'] d(5) slot_idx_of_nat [OF k]
    by (cases "ppc st p'") (auto simp: prod_ok_def Let_def)
  from wr [OF assms(4)] obtain e where
    w: "i = ghd st p mod 2 ^ k" "rel st \<le> ghd st p" "ghd st p < rel st + 2 ^ k"
      "claimed st ! ghd st p = (p, e)" "seq (slot_at k st (ghd st p)) = of_nat (ghd st p)"
    by blast
  have "writes_slot (2 ^ k) (ppc st p') \<noteq> Some i" if "p' \<noteq> p" for p'
  proof
    assume "writes_slot (2 ^ k) (ppc st p') = Some i"
    from wr [OF this] obtain e' where
      w': "i = ghd st p' mod 2 ^ k" "rel st \<le> ghd st p'" "ghd st p' < rel st + 2 ^ k"
        "claimed st ! ghd st p' = (p', e')" by blast
    have "ghd st p = ghd st p'"
      using window_slot [OF w(2,3) w'(2,3)] w(1) w'(1) by simp
    then show False using w(4) w'(4) that by simp
  qed
  moreover have "reads_slot (2 ^ k) (cpc st) \<noteq> Some i"
  proof
    assume r: "reads_slot (2 ^ k) (cpc st) = Some i"
    then obtain t where t: "cpc st = C_Read t" by (cases "cpc st") auto
    then have c: "t = of_nat (rel st)" "seq (slot_at k st (rel st)) = of_nat (rel st) + 1"
      using d(7) by (auto simp: cons_ok_def Let_def rel_def)
    have "i = rel st mod 2 ^ k" using r t slot_idx_of_nat [OF k] by (simp add: c(1))
    then have "ghd st p = rel st" using window_slot [OF w(2,3), of "rel st"] w(1) by simp
    then show False using w(5) c(2) by simp
  qed
  ultimately show ?thesis by blast
qed

theorem mpsc_no_payload_race_witness:
  "let st = run 2 [Call 0 (10::nat), Call 1 20, Prod 0, Prod 1, Prod 0, Prod 1, Prod 1, Prod 0,
                   Prod 1, Prod 1, Prod 0, Prod 0, Cons, Cons] (mpsc_init 2 (\<lambda>_. 0))
   in cpc st = C_Read 0 \<and> ppc st 0 = P_Write 10 1 \<and> reads_slot 2 (cpc st) \<noteq> Some 1"
proof -
  let ?acts = "[Call 0 (10::nat), Call 1 20, Prod 0, Prod 1, Prod 0, Prod 1, Prod 1, Prod 0,
                Prod 1, Prod 1, Prod 0, Prod 0, Cons, Cons]"
  let ?st = "run 2 ?acts (mpsc_init 2 (\<lambda>_. 0))"
  have r: "reach (2 ^ 1) ?st"
    using run_init_reach [of 2 "\<lambda>_. 0" ?acts] by (simp add: mpsc_init_def)
  have at: "cpc ?st = C_Read 0" "ppc ?st 0 = P_Write 10 1"
    by (simp_all add: Let_def mpsc_init_def LogQueue_init_def prod_step_def cons_step_def
        slot_idx_def sub32_def upt_rec)
  have "writes_slot (2 ^ 1) (ppc ?st 0) = Some 1" unfolding at by (simp add: slot_idx_def)
  from conjunct2 [OF mpsc_no_payload_race [OF r _ _ this]] show ?thesis
    unfolding Let_def using at by simp
qed

lemma loaded_seq:
  assumes "reach (2 ^ k) st" and "1 \<le> k" and "k \<le> 30" and "ppc st p = P_Seq e h"
  shows "h = of_nat (ghd st p)" and "ghd st p \<le> length (claimed st)"
    and "length (claimed st) - ghd st p < 2 ^ 30"
    and "ppc (prod_step (2 ^ k) p st) p = P_Test e h (seq (slot_at k st (ghd st p)))"
proof -
  note i = reach_inv [OF assms(1-3)]
  have k: "k < 32" using assms(3) by simp
  show h: "h = of_nat (ghd st p)" and "ghd st p \<le> length (claimed st)"
    using invD(8) [OF conjunct1 [OF i], of p] assms(4) by (simp_all add: prod_ok_def Let_def)
  show "length (claimed st) - ghd st p < 2 ^ 30"
    using i assms(4) by (simp add: fresh_def)
  have "slot_idx (2 ^ k) h = ghd st p mod 2 ^ k" unfolding h by (rule slot_idx_of_nat [OF k])
  then show "ppc (prod_step (2 ^ k) p st) p = P_Test e h (seq (slot_at k st (ghd st p)))"
    using assms(4) by (simp add: prod_step_def slot_at_def)
qed

text \<open>
  A message is refused only by a full queue: when the sequence number a producer loads
  makes its next test take the "queue full" branch, every one of the \<open>2 ^ k\<close> slots was
  claimed and not yet released at the moment of the load.
\<close>

theorem mpsc_refusal_means_full:
  assumes "reach (2 ^ k) st" and "1 \<le> k" and "k \<le> 30" and "ppc st p = P_Seq e h"
    and "ppc (prod_step (2 ^ k) p st) p = P_Test e h s" and "sub32 s h < 0"
  shows "length (claimed st) = rel st + 2 ^ k"
proof -
  note l = loaded_seq [OF assms(1-4)]
  note i = conjunct1 [OF reach_inv [OF assms(1-3)]]
  have s: "s = seq (slot_at k st (ghd st p))" using l(4) assms(5) by simp
  have "\<not> ghd st p < rel st + 2 ^ k"
    using seen_seq(2) [OF i assms(2,3) l(2,3)] assms(6) unfolding s l(1) by linarith
  then show ?thesis using l(2) invD(5) [OF i] by linarith
qed

theorem mpsc_refusal_means_full_witness:
  "let st = run 2 [Call 0 (10::nat), Prod 0, Prod 0, Prod 0, Prod 0, Prod 0,
                   Call 0 20, Prod 0, Prod 0, Prod 0, Prod 0, Prod 0, Call 1 30, Prod 1]
              (mpsc_init 2 (\<lambda>_. 0))
   in ppc (prod_step 2 1 st) 1 = P_Test 30 2 1 \<and> length (claimed st) = rel st + 2"
proof -
  let ?acts = "[Call 0 (10::nat), Prod 0, Prod 0, Prod 0, Prod 0, Prod 0,
                Call 0 20, Prod 0, Prod 0, Prod 0, Prod 0, Prod 0, Call 1 30, Prod 1]"
  let ?st = "run 2 ?acts (mpsc_init 2 (\<lambda>_. 0))"
  have r: "reach (2 ^ 1) ?st"
    using run_init_reach [of 2 "\<lambda>_. 0" ?acts] by (simp add: mpsc_init_def)
  have at: "ppc ?st 1 = P_Seq 30 2" "ppc (prod_step (2 ^ 1) 1 ?st) 1 = P_Test 30 2 1"
    by (simp_all add: Let_def mpsc_init_def LogQueue_init_def prod_step_def
        slot_idx_def sub32_def upt_rec)
  from mpsc_refusal_means_full [OF r _ _ at] at show ?thesis
    unfolding Let_def by (simp add: sub32_def)
qed

text \<open>
  The loop of \<open>TryPush\<close> is lock-free: a test sends a producer back to the beginning only
  if, since it loaded the head, another message has been claimed; otherwise the producer
  wins its slot or returns.
\<close>

theorem mpsc_retry_means_progress:
  assumes "reach (2 ^ k) st" and "1 \<le> k" and "k \<le> 30" and "ppc st p = P_Test e h s"
  shows "ghd st p < length (claimed st) \<or>
         ppc (prod_step (2 ^ k) p st) p \<in> {P_Write e h, P_Idle}"
proof -
  note d = invD [OF conjunct1 [OF reach_inv [OF assms(1-3)]]]
  have g: "h = of_nat (ghd st p)" "ghd st p \<le> length (claimed st)"
      "0 < sub32 s h \<Longrightarrow> ghd st p < length (claimed st)"
    using d(8) [of p] assms(4) by (simp_all add: prod_ok_def Let_def)
  show ?thesis
  proof (cases "ghd st p = length (claimed st)")
    case True
    then have "m_head (que st) = h" using d(2) g(1) by simp
    moreover have "\<not> 0 < sub32 s h" using True g(3) by (metis less_irrefl)
    ultimately show ?thesis
      using assms(4) by (auto simp: prod_step_def Let_def not_less)
  next
    case False
    then show ?thesis using g(2) by simp
  qed
qed

theorem mpsc_retry_means_progress_witness:
  "let st = run 2 [Call 0 (10::nat), Call 1 20, Prod 0, Prod 1, Prod 0, Prod 1, Prod 1]
              (mpsc_init 2 (\<lambda>_. 0))
   in ppc st 0 = P_Test 10 0 0 \<and> ppc (prod_step 2 0 st) 0 = P_Seq 10 1 \<and>
      ghd st 0 < length (claimed st)"
proof -
  let ?acts = "[Call 0 (10::nat), Call 1 20, Prod 0, Prod 1, Prod 0, Prod 1, Prod 1]"
  let ?st = "run 2 ?acts (mpsc_init 2 (\<lambda>_. 0))"
  have r: "reach (2 ^ 1) ?st"
    using run_init_reach [of 2 "\<lambda>_. 0" ?acts] by (simp add: mpsc_init_def)
  have at: "ppc ?st 0 = P_Test 10 0 0" "ppc (prod_step (2 ^ 1) 0 ?st) 0 = P_Seq 10 1"
    by (simp_all add: Let_def mpsc_init_def LogQueue_init_def prod_step_def
        slot_idx_def sub32_def upt_rec)
  from mpsc_retry_means_progress [OF r _ _ at(1)] at show ?thesis
    unfolding Let_def by auto
qed

end
