(* ===== verification/SysIO.thy ===== *)
theory SysIO
  imports Prelude "HOL-Library.Sublist"
begin

text \<open>
  The operating-system side of the sinks: \<open>write\<close> on a descriptor. What the kernel will
  answer is a list in the state of the device, one answer per call; when it is used up every
  further call fails with \<open>EAGAIN\<close>. An execution in which all calls return is described by
  such a list. The interface \<open>byte_sink\<close> states what the buffered sinks promise about the
  bytes they are given.
\<close>

section \<open>Devices\<close>

datatype errno = EOK | EINTR | EAGAIN | EIO

datatype answer = Wrote nat | Failed errno

record dev =
  answers :: "answer list"
  sent :: "char list"
  errno :: errno

text \<open>
  \<open>write(fd, bytes, length bytes)\<close>: the count written, or a negative value with \<open>errno\<close>
  set. A successful call leaves \<open>errno\<close> alone.
\<close>

fun sys_write :: "char list \<Rightarrow> dev \<Rightarrow> int \<times> dev" where
  "sys_write bytes d =
     (case answers d of
        [] \<Rightarrow> (-1, d\<lparr>errno := EAGAIN\<rparr>)
      | Wrote m # as \<Rightarrow> (int (min m (length bytes)),
                        d\<lparr>answers := as, sent := sent d @ take m bytes\<rparr>)
      | Failed e # as \<Rightarrow> (-1, d\<lparr>answers := as, errno := e\<rparr>))"

declare sys_write.simps [simp del]

lemma sys_write_cases:
  assumes "sys_write bytes d = (n, d')"
  obtains (progress) m where "n = int m" "m \<le> length bytes" "sent d' = sent d @ take m bytes"
      "length (answers d') < length (answers d)" "errno d' = errno d"
    | (retry) "n < 0" "sent d' = sent d" "length (answers d') < length (answers d)"
    | (over) "n < 0" "sent d' = sent d" "errno d' = EAGAIN" "answers d' = answers d"
proof (cases "answers d")
  case Nil
  then show ?thesis using assms over by (auto simp: sys_write.simps)
next
  case (Cons a as)
  show ?thesis
  proof (cases a)
    case (Wrote m)
    show ?thesis
      by (rule progress [of "min m (length bytes)"])
         (use assms Cons Wrote in \<open>auto simp: sys_write.simps min_def\<close>)
  next
    case (Failed e)
    then show ?thesis using assms Cons retry by (auto simp: sys_write.simps)
  qed
qed

text \<open>The answers of a device that takes everything it is given, at the latest at the end.\<close>

definition accepts_all :: "dev \<Rightarrow> nat \<Rightarrow> bool" where
  "accepts_all d n \<longleftrightarrow>
     (\<forall>a \<in> set (answers d). (\<exists>m. a = Wrote m \<and> 0 < m) \<or> a = Failed EINTR) \<and>
     n \<le> sum_list (map (\<lambda>a. case a of Wrote m \<Rightarrow> m | Failed e \<Rightarrow> 0) (answers d))"

section \<open>The interface of a byte sink\<close>

text \<open>
  A sink keeps pending bytes and hands them to a device in its state. Flushing sends a
  prefix of them and may give up on the oldest of the others; appending may flush first,
  may drop the oldest pending bytes and may cut the new ones. Bytes are never sent twice,
  reordered or made up.
\<close>

datatype sink_op = Append "char list" | Flush

fun op_data :: "sink_op \<Rightarrow> char list" where
  "op_data (Append bytes) = bytes"
| "op_data Flush = []"

locale byte_sink =
  fixes wf :: "'s \<Rightarrow> bool"
    and pending :: "'s \<Rightarrow> char list"
    and delivered :: "'s \<Rightarrow> char list"
    and capacity :: nat
    and flush :: "'s \<Rightarrow> 's"
    and append :: "char list \<Rightarrow> 's \<Rightarrow> 's"
  assumes wf_flush: "wf s \<Longrightarrow> wf (flush s)"
    and wf_append: "wf s \<Longrightarrow> wf (append bytes s)"
    and bounded: "wf s \<Longrightarrow> length (pending s) \<le> capacity"
    and flush_split: "wf s \<Longrightarrow> \<exists>w. delivered (flush s) = delivered s @ take w (pending s) \<and>
          suffix (pending (flush s)) (drop w (pending s))"
    and append_split: "wf s \<Longrightarrow> \<exists>w old new. delivered (append bytes s) = delivered s @ take w (pending s) \<and>
          pending (append bytes s) = old @ new \<and> suffix old (drop w (pending s)) \<and> subseq new bytes"
begin

fun perform :: "sink_op \<Rightarrow> 's \<Rightarrow> 's" where
  "perform (Append bytes) s = append bytes s"
| "perform Flush s = flush s"

definition perform_all :: "sink_op list \<Rightarrow> 's \<Rightarrow> 's" where
  "perform_all ops s = fold perform ops s"

lemma perform_step:
  assumes "wf s"
  shows "wf (perform c s) \<and>
         subseq (delivered (perform c s) @ pending (perform c s))
                (delivered s @ pending s @ op_data c)"
proof (cases c)
  case (Append bytes)
  from append_split [OF assms, of bytes] obtain w old new where
    eq: "delivered (append bytes s) = delivered s @ take w (pending s)"
      "pending (append bytes s) = old @ new" "suffix old (drop w (pending s))" "subseq new bytes"
    by blast
  have "subseq (take w (pending s) @ old @ new) (take w (pending s) @ drop w (pending s) @ bytes)"
    using eq(3,4) by (intro list_emb_append_mono) (simp_all add: suffix_imp_subseq)
  then have "subseq (take w (pending s) @ old @ new) (pending s @ bytes)"
    by (metis append_assoc append_take_drop_id)
  then have "subseq (delivered s @ (take w (pending s) @ old @ new)) (delivered s @ (pending s @ bytes))"
    by (rule list_emb_append_mono [OF subseq_order.order_refl])
  then show ?thesis
    using wf_append [OF assms] eq Append by simp
next
  case Flush
  from flush_split [OF assms] obtain w where
    eq: "delivered (flush s) = delivered s @ take w (pending s)"
      "suffix (pending (flush s)) (drop w (pending s))" by blast
  have "subseq (take w (pending s) @ pending (flush s)) (take w (pending s) @ drop w (pending s))"
    using eq(2) by (intro list_emb_append_mono) (simp_all add: suffix_imp_subseq)
  then have "subseq (delivered s @ (take w (pending s) @ pending (flush s))) (delivered s @ pending s)"
    by (intro list_emb_append_mono) simp_all
  then show ?thesis
    using wf_flush [OF assms] eq Flush by simp
qed

lemma perform_all_subseq:
  "wf s \<Longrightarrow>
     wf (perform_all ops s) \<and>
     subseq (delivered (perform_all ops s) @ pending (perform_all ops s))
            (delivered s @ pending s @ concat (map op_data ops)) \<and>
     length (pending (perform_all ops s)) \<le> capacity"
proof (induction ops arbitrary: s)
  case Nil
  then show ?case by (simp add: perform_all_def bounded)
next
  case (Cons c ops)
  note step = perform_step [OF Cons.prems, of c]
  let ?s = "perform c s"
  have "subseq (delivered (perform_all ops ?s) @ pending (perform_all ops ?s))
          ((delivered ?s @ pending ?s) @ concat (map op_data ops))"
    using Cons.IH [of ?s] step by simp
  also have "subseq \<dots> ((delivered s @ pending s @ op_data c) @ concat (map op_data ops))"
    by (rule list_emb_append_mono [OF conjunct2 [OF step] subseq_order.order_refl])
  finally have "subseq (delivered (perform_all ops ?s) @ pending (perform_all ops ?s))
          ((delivered s @ pending s @ op_data c) @ concat (map op_data ops))" .
  then show ?case
    using Cons.IH [of ?s] step by (simp add: perform_all_def)
qed

end

end
