(* ===== verification/StdoutSink.thy ===== *)
theory StdoutSink
  imports SysIO
begin

text \<open>
  The console sinks of \<open>dtRtLog.hpp\<close>: the colour table, \<open>ColorStdoutSinkT\<close> with its 64 KB
  buffer in front of a non-blocking descriptor, and \<open>ColorSyslogSinkT\<close>. The formatter of
  the logging library is a parameter: a formatted message is its text together with the
  colour range the formatter stores in the message.
\<close>

section \<open>Colours\<close>

definition SinkColorFor :: "LogLevel \<Rightarrow> char list" where
  "SinkColorFor lvl =
     (case lvl of
        L_trace \<Rightarrow> ESC # ''[37m''
      | L_debug \<Rightarrow> ESC # ''[36m''
      | L_info \<Rightarrow> ESC # ''[32m''
      | L_warn \<Rightarrow> ESC # ''[33m'' @ ESC # ''[1m''
      | L_err \<Rightarrow> ESC # ''[31m'' @ ESC # ''[1m''
      | L_critical \<Rightarrow> ESC # ''[1m'' @ ESC # ''[41m''
      | _ \<Rightarrow> [])"

record formatted =
  ftext :: "char list"
  color_start :: nat
  color_end :: nat

definition range_ok :: "formatted \<Rightarrow> bool" where
  "range_ok f \<longleftrightarrow> color_start f \<le> color_end f \<and> color_end f \<le> length (ftext f)"

section \<open>The buffered standard output\<close>

definition INTERNAL_BUF_SIZE :: nat where "INTERNAL_BUF_SIZE = 65536"

definition STDOUT_FILENO :: int where "STDOUT_FILENO = 1"

definition O_NONBLOCK :: int where "O_NONBLOCK = 2048"

record stdout_sink =
  m_buf :: "char list"
  m_pos :: nat
  m_stdout_fd :: int

text \<open>The constructor; \<open>opened\<close> is what \<open>open("/proc/self/fd/1", ...)\<close> returned.\<close>

definition ColorStdoutSink :: "int \<Rightarrow> stdout_sink" where
  "ColorStdoutSink opened =
     \<lparr>m_buf = replicate INTERNAL_BUF_SIZE NUL, m_pos = 0,
      m_stdout_fd = (if opened < 0 then STDOUT_FILENO else opened)\<rparr>"

function stdout_write_loop :: "char list \<Rightarrow> nat \<Rightarrow> nat \<Rightarrow> dev \<Rightarrow> nat \<times> dev" where
  "stdout_write_loop buf pos written d =
     (if written < pos then
        case sys_write (take (pos - written) (drop written buf)) d of
          (n, d') \<Rightarrow>
            if n < 0 then
              (if errno d' = EINTR then stdout_write_loop buf pos written d' else (written, d'))
            else if n = 0 then (written, d')
            else stdout_write_loop buf pos (written + nat n) d'
      else (written, d))"
  by pat_completeness auto
termination
proof (relation "measure (\<lambda>(buf, pos, written, d). length (answers d))", goal_cases)
  case (2 buf pos written d n d')
  from 2(2) [symmetric] show ?case using 2 by (cases rule: sys_write_cases) simp_all
next
  case (3 buf pos written d n d')
  from 3(2) [symmetric] show ?case using 3 by (cases rule: sys_write_cases) simp_all
qed simp

declare stdout_write_loop.simps [simp del]

definition Stdout_FlushBuffer :: "stdout_sink \<Rightarrow> dev \<Rightarrow> stdout_sink \<times> dev" where
  "Stdout_FlushBuffer s d =
     (if m_pos s = 0 then (s, d)
      else case stdout_write_loop (m_buf s) (m_pos s) 0 d of
        (written, d') \<Rightarrow>
          if m_pos s \<le> written then (s\<lparr>m_pos := 0\<rparr>, d')
          else let remaining = m_pos s - written
               in (s\<lparr>m_buf := (if remaining > 0 \<and> written > 0
                               then memmove_front (m_buf s) written remaining else m_buf s),
                     m_pos := remaining\<rparr>, d'))"

definition Stdout_AppendData :: "char list \<Rightarrow> stdout_sink \<Rightarrow> dev \<Rightarrow> stdout_sink \<times> dev" where
  "Stdout_AppendData bytes s d =
     (if bytes = [] then (s, d)
      else
        let data = (if INTERNAL_BUF_SIZE \<le> length bytes
                    then drop (length bytes - (INTERNAL_BUF_SIZE - 1)) bytes else bytes);
            len = length data;
            (s1, d1) =
              (if INTERNAL_BUF_SIZE < m_pos s + len then
                 case Stdout_FlushBuffer s d of
                   (s', d') \<Rightarrow>
                     if INTERNAL_BUF_SIZE < m_pos s' + len then
                       let discard = m_pos s' + len - INTERNAL_BUF_SIZE
                       in (s'\<lparr>m_buf := memmove_front (m_buf s') discard (m_pos s' - discard),
                              m_pos := m_pos s' - discard\<rparr>, d')
                     else (s', d')
               else (s, d))
        in (s1\<lparr>m_buf := memcpy_at (m_buf s1) (m_pos s1) data, m_pos := m_pos s1 + len\<rparr>, d1))"

definition Stdout_sink_it :: "formatted \<Rightarrow> LogLevel \<Rightarrow> stdout_sink \<Rightarrow> dev \<Rightarrow> stdout_sink \<times> dev" where
  "Stdout_sink_it f lvl s d =
     (let color = SinkColorFor lvl
      in if color \<noteq> [] \<and> color_start f < color_end f then
           let (s, d) = Stdout_AppendData (take (color_start f) (ftext f)) s d;
               (s, d) = Stdout_AppendData color s d;
               (s, d) = Stdout_AppendData (take (color_end f - color_start f) (drop (color_start f) (ftext f))) s d;
               (s, d) = Stdout_AppendData (ESC # ''[m'') s d
           in Stdout_AppendData (drop (color_end f) (ftext f)) s d
         else Stdout_AppendData (ftext f) s d)"

text \<open>
  The destructor: the calls on the private descriptor, and the sink and the device after the
  final flush. \<open>getfl\<close> is what \<open>fcntl(fd, F_GETFL)\<close> returns.
\<close>

datatype fd_call = F_SETFL int | Close int

definition Stdout_dtor :: "int \<Rightarrow> stdout_sink \<Rightarrow> dev \<Rightarrow> fd_call list \<times> stdout_sink \<times> dev" where
  "Stdout_dtor getfl s d =
     (let own = m_stdout_fd s \<noteq> STDOUT_FILENO;
          calls = (if own \<and> getfl \<noteq> -1 then [F_SETFL (getfl AND NOT O_NONBLOCK)] else []);
          (s', d') = Stdout_FlushBuffer s d
      in (calls @ (if own then [Close (m_stdout_fd s)] else []), s', d'))"

section \<open>The buffer is a byte queue that drops its oldest bytes\<close>

definition stdout_wf :: "stdout_sink \<Rightarrow> bool" where
  "stdout_wf s \<longleftrightarrow> length (m_buf s) = INTERNAL_BUF_SIZE \<and> m_pos s \<le> INTERNAL_BUF_SIZE"

definition stdout_pending :: "stdout_sink \<Rightarrow> char list" where
  "stdout_pending s = take (m_pos s) (m_buf s)"

definition lastn :: "nat \<Rightarrow> 'a list \<Rightarrow> 'a list" where
  "lastn n xs = drop (length xs - n) xs"

lemma lastn_all [simp]: "length xs \<le> n \<Longrightarrow> lastn n xs = xs"
  by (simp add: lastn_def)

lemma length_lastn [simp]: "length (lastn n xs) = min n (length xs)"
  by (simp add: lastn_def)

lemma suffix_lastn: "suffix (lastn n xs) xs"
  by (simp add: lastn_def suffix_drop)

lemma lastn_append:
  "length ys \<le> n \<Longrightarrow> lastn n (xs @ ys) = drop (length xs + length ys - n) xs @ ys"
  by (simp add: lastn_def)

lemma write_loop_sends:
  "stdout_write_loop buf pos written d = (w, d') \<Longrightarrow> written \<le> pos \<Longrightarrow> pos \<le> length buf \<Longrightarrow>
     written \<le> w \<and> w \<le> pos \<and> sent d' = sent d @ take (w - written) (drop written buf)"
proof (induction buf pos written d arbitrary: w d' rule: stdout_write_loop.induct)
  case (1 buf pos written d)
  let ?bytes = "take (pos - written) (drop written buf)"
  obtain n d1 where sw: "sys_write ?bytes d = (n, d1)" by fastforce
  show ?case
  proof (cases "written < pos")
    case False
    then show ?thesis using 1(3-5) by (simp add: stdout_write_loop.simps [of buf pos])
  next
    case True
    from sw show ?thesis
    proof (cases rule: sys_write_cases)
      case (progress m)
      have m: "m \<le> pos - written" using progress(2) by simp
      show ?thesis
      proof (cases "m = 0")
        case True
        then show ?thesis
          using 1(3,4) sw progress(1,3) \<open>written < pos\<close>
          by (simp add: stdout_write_loop.simps [of buf pos])
      next
        case False
        then have step: "stdout_write_loop buf pos (written + m) d1 = (w, d')"
          using 1(3) sw progress(1) True by (simp add: stdout_write_loop.simps [of buf pos written])
        have "written + m \<le> w \<and> w \<le> pos \<and>
              sent d' = sent d1 @ take (w - (written + m)) (drop (written + m) buf)"
          using 1(2) [OF True sw [symmetric], of w d'] step progress(1) False m True 1(5) by simp
        moreover from this have "take (w - written) (drop written buf)
            = take m (drop written buf) @ take (w - (written + m)) (drop (written + m) buf)"
          using take_add [of m "w - (written + m)" "drop written buf"] by (simp add: add.commute)
        moreover have "sent d1 = sent d @ take m (drop written buf)"
          using progress(3) m by (simp add: min_def)
        ultimately show ?thesis by simp
      qed
    next
      case retry
      then show ?thesis
        using 1(1) [OF True sw [symmetric] retry(1), of w d'] 1(3-5) sw True
        by (auto simp: stdout_write_loop.simps [of buf pos written] split: if_splits)
    next
      case over
      then show ?thesis
        using 1(3,4) sw True by (simp add: stdout_write_loop.simps [of buf pos written])
    qed
  qed
qed

lemma FlushBuffer_split:
  assumes "stdout_wf s" and "Stdout_FlushBuffer s d = (s', d')"
  obtains w where "w \<le> m_pos s" and "sent d' = sent d @ take w (stdout_pending s)"
    and "stdout_pending s' = drop w (stdout_pending s)" and "stdout_wf s'"
    and "m_pos s' = m_pos s - w"
proof (cases "m_pos s = 0")
  case True
  then have "s' = s" "d' = d" using assms(2) by (simp_all add: Stdout_FlushBuffer_def)
  then show ?thesis using assms(1) by (intro that [of 0]) simp_all
next
  case False
  obtain w d1 where loop: "stdout_write_loop (m_buf s) (m_pos s) 0 d = (w, d1)"
    by (cases "stdout_write_loop (m_buf s) (m_pos s) 0 d")
  have wf: "m_pos s \<le> length (m_buf s)" using assms(1) by (simp add: stdout_wf_def)
  from write_loop_sends [OF loop _ wf]
  have w: "w \<le> m_pos s" "sent d1 = sent d @ take w (m_buf s)" by simp_all
  show ?thesis
  proof (cases "m_pos s \<le> w")
    case True
    then have eq: "w = m_pos s" using w(1) by simp
    have "s' = s\<lparr>m_pos := 0\<rparr>" "d' = d1"
      using assms(2) loop False eq by (simp_all add: Stdout_FlushBuffer_def)
    then have "stdout_pending s' = []" "m_pos s' = 0" "stdout_wf s'" "sent d' = sent d @ take w (m_buf s)"
      using w(2) assms(1) by (simp_all add: stdout_pending_def stdout_wf_def)
    then show ?thesis
      by (intro that [of w]) (simp_all add: eq stdout_pending_def)
  next
    case more: False
    let ?r = "m_pos s - w"
    let ?buf = "if 0 < w then memmove_front (m_buf s) w ?r else m_buf s"
    have eq: "s' = s\<lparr>m_buf := ?buf, m_pos := ?r\<rparr>" "d' = d1"
      using assms(2) loop False more by (simp_all add: Stdout_FlushBuffer_def Let_def)
    have "take ?r ?buf = take ?r (drop w (m_buf s))" and "length ?buf = length (m_buf s)"
      using more wf by simp_all
    note buf = this
    show ?thesis
    proof (rule that [of w])
      show "sent d' = sent d @ take w (stdout_pending s)"
        using w eq(2) by (simp add: stdout_pending_def min_def)
      show "stdout_pending s' = drop w (stdout_pending s)"
        unfolding stdout_pending_def eq(1) using buf(1) by (simp add: drop_take)
      show "stdout_wf s'"
        using assms(1) buf(2) unfolding stdout_wf_def eq(1) by (simp add: le_diff_conv trans_le_add1)
      show "m_pos s' = m_pos s - w" by (simp add: eq(1))
    qed (rule w(1))
  qed
qed

lemma stdout_pending_length: "stdout_wf s \<Longrightarrow> length (stdout_pending s) = m_pos s"
  by (simp add: stdout_wf_def stdout_pending_def)

text \<open>Copying bytes behind the pending ones, when there is room.\<close>

lemma stdout_store:
  assumes "stdout_wf s" and "m_pos s + length data \<le> INTERNAL_BUF_SIZE"
  defines "s' \<equiv> s\<lparr>m_buf := memcpy_at (m_buf s) (m_pos s) data, m_pos := m_pos s + length data\<rparr>"
  shows "stdout_wf s'" and "stdout_pending s' = stdout_pending s @ data"
  using assms by (simp_all add: stdout_wf_def stdout_pending_def)

text \<open>Sliding the oldest pending bytes out.\<close>

lemma stdout_slide:
  assumes "stdout_wf s" and "n \<le> m_pos s"
  defines "s' \<equiv> s\<lparr>m_buf := memmove_front (m_buf s) n (m_pos s - n), m_pos := m_pos s - n\<rparr>"
  shows "stdout_wf s'" and "stdout_pending s' = drop n (stdout_pending s)"
proof -
  have "n + (m_pos s - n) \<le> length (m_buf s)" using assms(1,2) by (simp add: stdout_wf_def)
  note mv = length_memmove_front [OF this] take_memmove_front [OF this]
  show "stdout_pending s' = drop n (stdout_pending s)"
    using mv(2) by (simp add: s'_def stdout_pending_def drop_take)
  show "stdout_wf s'"
    using assms(1) mv(1) by (simp add: s'_def stdout_wf_def le_diff_conv trans_le_add1)
qed

definition kept_tail :: "char list \<Rightarrow> char list" where
  "kept_tail bytes = (if INTERNAL_BUF_SIZE \<le> length bytes then lastn (INTERNAL_BUF_SIZE - 1) bytes else bytes)"

lemma kept_tail_length: "length (kept_tail bytes) < INTERNAL_BUF_SIZE"
  by (auto simp: kept_tail_def INTERNAL_BUF_SIZE_def)

lemma AppendData_split:
  assumes wf: "stdout_wf s" and app: "Stdout_AppendData bytes s d = (s', d')"
  obtains w where "w \<le> m_pos s" and "sent d' = sent d @ take w (stdout_pending s)"
    and "stdout_pending s' = lastn INTERNAL_BUF_SIZE (drop w (stdout_pending s) @ kept_tail bytes)"
    and "stdout_wf s'"
    and "m_pos s + length (kept_tail bytes) \<le> INTERNAL_BUF_SIZE \<longrightarrow> w = 0 \<and> d' = d"
proof (cases "bytes = []")
  case True
  then show ?thesis
    using app wf stdout_pending_length [OF wf]
    by (intro that [of 0]) (auto simp: Stdout_AppendData_def kept_tail_def stdout_wf_def)
next
  case False
  let ?k = "kept_tail bytes" and ?p = "stdout_pending s"
  let ?put = "\<lambda>s1. s1\<lparr>m_buf := memcpy_at (m_buf s1) (m_pos s1) ?k, m_pos := m_pos s1 + length ?k\<rparr>"
  note k = kept_tail_length [of bytes]
  have data: "(if INTERNAL_BUF_SIZE \<le> length bytes
               then drop (length bytes - (INTERNAL_BUF_SIZE - 1)) bytes else bytes) = ?k"
    by (simp add: kept_tail_def lastn_def)
  show ?thesis
  proof (cases "INTERNAL_BUF_SIZE < m_pos s + length ?k")
    case fits: False
    then have "s' = ?put s" "d' = d"
      using app False by (simp_all only: Stdout_AppendData_def data Let_def if_False case_prod_conv prod.inject)
    then show ?thesis
      using stdout_store [OF wf, of ?k] fits stdout_pending_length [OF wf]
      by (intro that [of 0]) simp_all
  next
    case over: True
    obtain s1 d1 where fl: "Stdout_FlushBuffer s d = (s1, d1)" by (cases "Stdout_FlushBuffer s d")
    from FlushBuffer_split [OF wf fl] obtain w where
      w: "w \<le> m_pos s" "sent d1 = sent d @ take w ?p" "stdout_pending s1 = drop w ?p" "stdout_wf s1"
        "m_pos s1 = m_pos s - w" .
    show ?thesis
    proof (cases "INTERNAL_BUF_SIZE < m_pos s1 + length ?k")
      case still: True
      let ?n = "m_pos s1 + length ?k - INTERNAL_BUF_SIZE"
      let ?s2 = "s1\<lparr>m_buf := memmove_front (m_buf s1) ?n (m_pos s1 - ?n), m_pos := m_pos s1 - ?n\<rparr>"
      have "s' = ?put ?s2" "d' = d1"
        using app False over still fl
        by (simp_all only: Stdout_AppendData_def data Let_def if_False if_True case_prod_conv prod.inject)
      moreover have n: "?n \<le> m_pos s1" using k by linarith
      note sl = stdout_slide [OF w(4) n]
      have "m_pos ?s2 + length ?k \<le> INTERNAL_BUF_SIZE" using still k by simp
      note st = stdout_store [OF sl(1) this]
      have "lastn INTERNAL_BUF_SIZE (drop w ?p @ ?k) = drop ?n (drop w ?p) @ ?k"
        using k w(1,5) stdout_pending_length [OF wf] by (simp add: lastn_append)
      ultimately show ?thesis
        using w(1,2) st sl(2) w(3) over by (intro that [of w]) simp_all
    next
      case room: False
      have "s' = ?put s1" "d' = d1"
        using app False over room fl
        by (simp_all only: Stdout_AppendData_def data Let_def if_False if_True case_prod_conv prod.inject)
      then show ?thesis
        using stdout_store [OF w(4), of ?k] room w over stdout_pending_length [OF wf]
        by (intro that [of w]) simp_all
    qed
  qed
qed

interpretation stdout: byte_sink
    "\<lambda>(s, d). stdout_wf s" "\<lambda>(s, d). stdout_pending s" "\<lambda>(s, d). sent d" INTERNAL_BUF_SIZE
    "\<lambda>(s, d). Stdout_FlushBuffer s d" "\<lambda>bytes (s, d). Stdout_AppendData bytes s d"
proof (unfold_locales, goal_cases)
  case (1 x)
  obtain s d where x: "x = (s, d)" by (cases x)
  obtain s' d' where r: "Stdout_FlushBuffer s d = (s', d')" by (cases "Stdout_FlushBuffer s d")
  from 1 have "stdout_wf s" by (simp add: x)
  from FlushBuffer_split [OF this r] show ?case by (auto simp: x r)
next
  case (2 x bytes)
  obtain s d where x: "x = (s, d)" by (cases x)
  obtain s' d' where r: "Stdout_AppendData bytes s d = (s', d')" by (cases "Stdout_AppendData bytes s d")
  from 2 have "stdout_wf s" by (simp add: x)
  from AppendData_split [OF this r] show ?case by (auto simp: x r)
next
  case (3 x)
  then show ?case by (cases x) (simp add: stdout_pending_def stdout_wf_def)
next
  case (4 x)
  obtain s d where x: "x = (s, d)" by (cases x)
  obtain s' d' where r: "Stdout_FlushBuffer s d = (s', d')" by (cases "Stdout_FlushBuffer s d")
  from 4 have "stdout_wf s" by (simp add: x)
  from FlushBuffer_split [OF this r] show ?case unfolding x r case_prod_conv by (metis suffix_order.order_refl)
next
  case (5 x bytes)
  obtain s d where x: "x = (s, d)" by (cases x)
  obtain s' d' where r: "Stdout_AppendData bytes s d = (s', d')" by (cases "Stdout_AppendData bytes s d")
  from 5 have "stdout_wf s" by (simp add: x)
  from AppendData_split [OF this r] obtain w where
    w: "sent d' = sent d @ take w (stdout_pending s)"
      "stdout_pending s' = lastn INTERNAL_BUF_SIZE (drop w (stdout_pending s) @ kept_tail bytes)" .
  have "length (kept_tail bytes) \<le> INTERNAL_BUF_SIZE" using kept_tail_length [of bytes] by simp
  then obtain n where "stdout_pending s' = drop n (drop w (stdout_pending s)) @ kept_tail bytes"
    using w(2) by (metis lastn_append)
  moreover have "subseq (kept_tail bytes) bytes"
    by (simp add: kept_tail_def suffix_imp_subseq suffix_lastn)
  ultimately show ?case
    using w(1) suffix_drop unfolding x r case_prod_conv by blast
qed

section \<open>Formatting one message\<close>

definition colored :: "formatted \<Rightarrow> LogLevel \<Rightarrow> char list" where
  "colored f lvl =
     (if SinkColorFor lvl \<noteq> [] \<and> color_start f < color_end f
      then take (color_start f) (ftext f) @ SinkColorFor lvl @
           take (color_end f - color_start f) (drop (color_start f) (ftext f)) @
           ESC # ''[m'' @ drop (color_end f) (ftext f)
      else ftext f)"

lemma AppendData_fits:
  assumes "stdout_wf s" and "m_pos s + length bytes < INTERNAL_BUF_SIZE"
  obtains s' where "Stdout_AppendData bytes s d = (s', d)"
    and "stdout_wf s'" and "stdout_pending s' = stdout_pending s @ bytes"
    and "m_pos s' = m_pos s + length bytes"
proof -
  have k: "kept_tail bytes = bytes" using assms(2) by (simp add: kept_tail_def)
  obtain s' d' where r: "Stdout_AppendData bytes s d = (s', d')" by (cases "Stdout_AppendData bytes s d")
  from AppendData_split [OF assms(1) r] obtain w where w:
      "w \<le> m_pos s" "sent d' = sent d @ take w (stdout_pending s)"
      "stdout_pending s' = lastn INTERNAL_BUF_SIZE (drop w (stdout_pending s) @ kept_tail bytes)"
      "stdout_wf s'" "m_pos s + length (kept_tail bytes) \<le> INTERNAL_BUF_SIZE \<longrightarrow> w = 0 \<and> d' = d" .
  then have "w = 0" "d' = d" using assms(2) k by simp_all
  with w(3) k assms have "stdout_pending s' = stdout_pending s @ bytes"
    by (simp add: stdout_pending_length)
  then show ?thesis
    using that [of s'] r w(4) \<open>d' = d\<close> stdout_pending_length [OF w(4)] stdout_pending_length [OF assms(1)]
    by simp
qed

lemma write_loop_progress:
  "written < pos \<Longrightarrow> sys_write (take (pos - written) (drop written buf)) d = (int n, d1) \<Longrightarrow> 0 < n \<Longrightarrow>
     stdout_write_loop buf pos written d = stdout_write_loop buf pos (written + n) d1"
  by (subst stdout_write_loop.simps) simp

lemma write_loop_retry:
  "written < pos \<Longrightarrow> sys_write (take (pos - written) (drop written buf)) d = (-1, d1) \<Longrightarrow>
     errno d1 = EINTR \<Longrightarrow> stdout_write_loop buf pos written d = stdout_write_loop buf pos written d1"
  by (subst stdout_write_loop.simps) simp

lemma accepts_all_step:
  assumes "accepts_all d n" and "0 < n"
  obtains (wrote) m as where "answers d = Wrote m # as" and "0 < m" and
      "\<And>d'. answers d' = as \<Longrightarrow> accepts_all d' (n - m)"
    | (intr) as where "answers d = Failed EINTR # as" and "\<And>d'. answers d' = as \<Longrightarrow> accepts_all d' n"
proof (cases "answers d")
  case Nil
  then show ?thesis using assms by (simp add: accepts_all_def)
next
  case (Cons a as)
  consider m where "a = Wrote m" "0 < m" | "a = Failed EINTR"
    using assms(1) Cons by (auto simp: accepts_all_def)
  then show ?thesis
  proof cases
    case (1 m)
    have "accepts_all d' (n - m)" if "answers d' = as" for d' :: dev
      using assms(1) Cons 1 that by (auto simp: accepts_all_def)
    then show ?thesis using wrote Cons 1 by blast
  next
    case 2
    have "accepts_all d' n" if "answers d' = as" for d' :: dev
      using assms(1) Cons 2 that by (auto simp: accepts_all_def)
    then show ?thesis using intr Cons 2 by blast
  qed
qed

lemma write_loop_accepts:
  "written \<le> pos \<Longrightarrow> pos \<le> length buf \<Longrightarrow> accepts_all d (pos - written) \<Longrightarrow>
     fst (stdout_write_loop buf pos written d) = pos"
proof (induction "length (answers d)" arbitrary: written d rule: less_induct)
  case less
  let ?bytes = "take (pos - written) (drop written buf)"
  have len: "length ?bytes = pos - written" using less(3) by simp
  show ?case
  proof (cases "written < pos")
    case False
    then show ?thesis using less(2) by (simp add: stdout_write_loop.simps [of buf pos])
  next
    case True
    then have "0 < pos - written" by simp
    with less(4) show ?thesis
    proof (cases rule: accepts_all_step)
      case (wrote m as)
      define n where "n = min m (pos - written)"
      have n: "0 < n" "written + n \<le> pos" "n \<le> m" "pos - written - m = pos - (written + n)"
        using wrote(2) True by (simp_all add: n_def)
      let ?d = "d\<lparr>answers := as, sent := sent d @ take m ?bytes\<rparr>"
      have "sys_write ?bytes d = (int n, ?d)"
        using wrote(1) len by (simp add: sys_write.simps n_def del: length_take length_drop)
      from write_loop_progress [OF True this n(1)]
      have eq: "stdout_write_loop buf pos written d = stdout_write_loop buf pos (written + n) ?d" .
      have "accepts_all ?d (pos - written - m)" by (rule wrote(3)) simp
      then have "accepts_all ?d (pos - (written + n))" by (simp only: n(4))
      then show ?thesis
        unfolding eq using less(1) [of ?d "written + n"] wrote(1) n(2) less(3) by simp
    next
      case (intr as)
      let ?d = "d\<lparr>answers := as, errno := EINTR\<rparr>"
      have "sys_write ?bytes d = (-1, ?d)" using intr(1) by (simp add: sys_write.simps)
      from write_loop_retry [OF True this]
      have eq: "stdout_write_loop buf pos written d = stdout_write_loop buf pos written ?d" by simp
      show ?thesis
        unfolding eq using less(1) [of ?d written] intr less(2,3) by simp
    qed
  qed
qed

lemma FlushBuffer_accepts:
  assumes "stdout_wf s" and "accepts_all d (m_pos s)" and "Stdout_FlushBuffer s d = (s', d')"
  shows "stdout_pending s' = [] \<and> sent d' = sent d @ stdout_pending s"
proof (cases "m_pos s = 0")
  case True
  then show ?thesis using assms(3) by (auto simp: Stdout_FlushBuffer_def stdout_pending_def)
next
  case False
  obtain w d1 where loop: "stdout_write_loop (m_buf s) (m_pos s) 0 d = (w, d1)"
    by (cases "stdout_write_loop (m_buf s) (m_pos s) 0 d")
  have len: "m_pos s \<le> length (m_buf s)" using assms(1) by (simp add: stdout_wf_def)
  have w: "w = m_pos s" using write_loop_accepts [OF _ len, of 0 d] assms(2) by (simp add: loop)
  have "s' = s\<lparr>m_pos := 0\<rparr>" "d' = d1"
    using assms(3) loop False w by (simp_all add: Stdout_FlushBuffer_def)
  moreover have "sent d1 = sent d @ take (m_pos s) (m_buf s)"
    using write_loop_sends [OF loop _ len] w by simp
  ultimately show ?thesis by (simp add: stdout_pending_def)
qed

lemma ColorStdoutSink_wf: "stdout_wf (ColorStdoutSink opened)"
  and ColorStdoutSink_pending: "stdout_pending (ColorStdoutSink opened) = []"
  by (simp_all add: stdout_wf_def ColorStdoutSink_def stdout_pending_def)

section \<open>Properties\<close>

text \<open>
  Appending to the console buffer is memory safe and keeps the most recent bytes: some
  prefix of the pending bytes may be sent, and what is pending afterwards is the last 65536
  bytes of the others followed by the new ones (of which the last 65535 count). When there
  is room nothing is sent and nothing is dropped.
\<close>

theorem Stdout_AppendData_keeps_latest:
  assumes "stdout_wf s" and "Stdout_AppendData bytes s d = (s', d')"
  shows "\<exists>w \<le> m_pos s.
           sent d' = sent d @ take w (stdout_pending s) \<and>
           stdout_pending s' = lastn 65536 (drop w (stdout_pending s) @ lastn 65535 bytes) \<and>
           stdout_wf s' \<and>
           (m_pos s + length (lastn 65535 bytes) \<le> 65536 \<longrightarrow> w = 0 \<and> d' = d)"
proof -
  have "kept_tail bytes = lastn 65535 bytes" by (auto simp: kept_tail_def INTERNAL_BUF_SIZE_def)
  with AppendData_split [OF assms] show ?thesis unfolding INTERNAL_BUF_SIZE_def by metis
qed

theorem Stdout_AppendData_keeps_latest_witness:
  "\<exists>s' d'. Stdout_AppendData ''abc'' (ColorStdoutSink 5) \<lparr>answers = [], sent = [], errno = EOK\<rparr> = (s', d') \<and>
           stdout_pending s' = ''abc''"
proof -
  let ?d = "\<lparr>answers = [], sent = [], errno = EOK\<rparr>"
  obtain s' d' where r: "Stdout_AppendData ''abc'' (ColorStdoutSink 5) ?d = (s', d')"
    by (cases "Stdout_AppendData ''abc'' (ColorStdoutSink 5) ?d")
  from Stdout_AppendData_keeps_latest [OF ColorStdoutSink_wf this] show ?thesis
    using r by (auto simp: ColorStdoutSink_pending)
qed

text \<open>
  C9: Whatever the terminal answers, the console never invents, repeats or reorders a byte:
  after any sequence of appends and flushes on a new sink, the bytes sent followed by the
  pending ones are a subsequence of the bytes appended, and at most 65536 are pending.
\<close>

theorem Stdout_stream_order:
  "case stdout.perform_all ops (ColorStdoutSink opened, \<lparr>answers = as, sent = [], errno = EOK\<rparr>) of
     (s, d) \<Rightarrow> subseq (sent d @ stdout_pending s) (concat (map op_data ops)) \<and>
               length (stdout_pending s) \<le> 65536"
  using stdout.perform_all_subseq
    [of "(ColorStdoutSink opened, \<lparr>answers = as, sent = [], errno = EOK\<rparr>)" ops]
  by (auto simp: ColorStdoutSink_wf ColorStdoutSink_pending INTERNAL_BUF_SIZE_def split: prod.splits)

text \<open>
  A flush on a terminal that makes progress on every call, interrupted or not, delivers
  every pending byte and leaves the buffer empty; the destructor's last flush does the same,
  after making the private descriptor blocking and before closing it.
\<close>

theorem Stdout_flush_complete:
  assumes "stdout_wf s" and "accepts_all d (m_pos s)" and "m_stdout_fd s \<noteq> STDOUT_FILENO"
  shows "(case Stdout_FlushBuffer s d of
            (s', d') \<Rightarrow> stdout_pending s' = [] \<and> sent d' = sent d @ stdout_pending s) \<and>
         (case Stdout_dtor 2049 s d of
            (calls, s', d') \<Rightarrow> calls = [F_SETFL 1, Close (m_stdout_fd s)] \<and>
                              stdout_pending s' = [] \<and> sent d' = sent d @ stdout_pending s)"
proof -
  obtain s' d' where r: "Stdout_FlushBuffer s d = (s', d')" by (cases "Stdout_FlushBuffer s d")
  from FlushBuffer_accepts [OF assms(1,2) r] r assms(3) show ?thesis
    by (simp add: Stdout_dtor_def Let_def O_NONBLOCK_def)
qed

theorem Stdout_flush_complete_witness:
  "case Stdout_AppendData ''ab'' (ColorStdoutSink 5)
          \<lparr>answers = [Failed EINTR, Wrote 1, Wrote 9], sent = [], errno = EOK\<rparr> of
     (s, d) \<Rightarrow> (case Stdout_FlushBuffer s d of (s', d') \<Rightarrow> sent d' = ''ab'')"
proof -
  let ?d = "\<lparr>answers = [Failed EINTR, Wrote 1, Wrote 9], sent = [], errno = EOK\<rparr>"
  have room: "m_pos (ColorStdoutSink 5) + length ''ab'' < INTERNAL_BUF_SIZE"
    by (simp add: ColorStdoutSink_def INTERNAL_BUF_SIZE_def)
  from AppendData_fits [OF ColorStdoutSink_wf room, of ?d] obtain s' where
    s': "Stdout_AppendData ''ab'' (ColorStdoutSink 5) ?d = (s', ?d)" "stdout_wf s'"
      "stdout_pending s' = ''ab''" "m_pos s' = m_pos (ColorStdoutSink 5) + 2"
    by (auto simp: ColorStdoutSink_pending)
  have "m_stdout_fd s' = 5"
    using s'(1) room by (auto simp: Stdout_AppendData_def ColorStdoutSink_def INTERNAL_BUF_SIZE_def)
  then have "m_stdout_fd s' \<noteq> STDOUT_FILENO" by (simp add: STDOUT_FILENO_def)
  moreover have "accepts_all ?d (m_pos s')"
    using s'(4) by (auto simp: accepts_all_def ColorStdoutSink_def)
  ultimately show ?thesis
    using Stdout_flush_complete [OF s'(2), of ?d] s'(1,3) by (auto split: prod.splits)
qed

text \<open>
  A message that fits behind the pending bytes reaches the buffer whole and without a
  system call: its text with the level's colour sequence in front of the coloured range and
  the reset sequence behind it.
\<close>

theorem Stdout_sink_it_colored:
  assumes "stdout_wf s" and "m_pos s + length (colored f lvl) < 65536"
  shows "\<exists>s'. Stdout_sink_it f lvl s d = (s', d) \<and> stdout_wf s' \<and>
              stdout_pending s' = stdout_pending s @ colored f lvl"
proof (cases "SinkColorFor lvl \<noteq> [] \<and> color_start f < color_end f")
  case False
  then have "m_pos s + length (ftext f) < INTERNAL_BUF_SIZE"
    using assms(2) unfolding INTERNAL_BUF_SIZE_def colored_def if_not_P [OF False] by simp
  from AppendData_fits [OF assms(1) this, of d] obtain s' where
    "Stdout_AppendData (ftext f) s d = (s', d)" "stdout_wf s'"
      "stdout_pending s' = stdout_pending s @ ftext f" .
  then show ?thesis using False unfolding Stdout_sink_it_def colored_def Let_def by auto
next
  case True
  let ?a = "take (color_start f) (ftext f)" and ?b = "SinkColorFor lvl"
  let ?c = "take (color_end f - color_start f) (drop (color_start f) (ftext f))"
  let ?e = "ESC # ''[m''" and ?f = "drop (color_end f) (ftext f)"
  have c: "colored f lvl = ?a @ ?b @ ?c @ ?e @ ?f" using True by (simp add: colored_def)
  have len: "m_pos s + length ?a + length ?b + length ?c + length ?e + length ?f < INTERNAL_BUF_SIZE"
    using assms(2) unfolding INTERNAL_BUF_SIZE_def c by simp
  have l1: "m_pos s + length ?a < INTERNAL_BUF_SIZE" using len by linarith
  from AppendData_fits [OF assms(1) l1, of d] obtain s1 where s1: "Stdout_AppendData ?a s d = (s1, d)"
    "stdout_wf s1" "stdout_pending s1 = stdout_pending s @ ?a" "m_pos s1 = m_pos s + length ?a" .
  have l2: "m_pos s1 + length ?b < INTERNAL_BUF_SIZE" using len s1(4) by linarith
  from AppendData_fits [OF s1(2) l2, of d] obtain s2 where s2: "Stdout_AppendData ?b s1 d = (s2, d)"
    "stdout_wf s2" "stdout_pending s2 = stdout_pending s1 @ ?b" "m_pos s2 = m_pos s1 + length ?b" .
  have l3: "m_pos s2 + length ?c < INTERNAL_BUF_SIZE" using len s1(4) s2(4) by linarith
  from AppendData_fits [OF s2(2) l3, of d] obtain s3 where s3: "Stdout_AppendData ?c s2 d = (s3, d)"
    "stdout_wf s3" "stdout_pending s3 = stdout_pending s2 @ ?c" "m_pos s3 = m_pos s2 + length ?c" .
  have l4: "m_pos s3 + length ?e < INTERNAL_BUF_SIZE" using len s1(4) s2(4) s3(4) by linarith
  from AppendData_fits [OF s3(2) l4, of d] obtain s4 where s4: "Stdout_AppendData ?e s3 d = (s4, d)"
    "stdout_wf s4" "stdout_pending s4 = stdout_pending s3 @ ?e" "m_pos s4 = m_pos s3 + length ?e" .
  have l5: "m_pos s4 + length ?f < INTERNAL_BUF_SIZE" using len s1(4) s2(4) s3(4) s4(4) by linarith
  from AppendData_fits [OF s4(2) l5, of d] obtain s5 where s5: "Stdout_AppendData ?f s4 d = (s5, d)"
    "stdout_wf s5" "stdout_pending s5 = stdout_pending s4 @ ?f" .
  have "Stdout_sink_it f lvl s d = (s5, d)"
    using True s1(1) s2(1) s3(1) s4(1) s5(1) unfolding Stdout_sink_it_def Let_def by simp
  then show ?thesis using s1(3) s2(3) s3(3) s4(3) s5(2,3) by (simp add: c)
qed

theorem Stdout_sink_it_colored_witness:
  "\<exists>s'. Stdout_sink_it \<lparr>ftext = ''[I] hi'', color_start = 0, color_end = 3\<rparr> L_info (ColorStdoutSink 5)
            \<lparr>answers = [], sent = [], errno = EOK\<rparr> = (s', \<lparr>answers = [], sent = [], errno = EOK\<rparr>) \<and>
        stdout_pending s' = ESC # ''[32m[I]'' @ ESC # ''[m hi''"
proof -
  let ?f = "\<lparr>ftext = ''[I] hi'', color_start = 0, color_end = 3\<rparr>"
  have c: "colored ?f L_info = ESC # ''[32m[I]'' @ ESC # ''[m hi''"
    by (simp add: colored_def SinkColorFor_def)
  have "m_pos (ColorStdoutSink 5) + length (colored ?f L_info) < 65536"
    unfolding c by (simp add: ColorStdoutSink_def)
  from Stdout_sink_it_colored [OF ColorStdoutSink_wf this, of "\<lparr>answers = [], sent = [], errno = EOK\<rparr>"] show ?thesis
    unfolding c ColorStdoutSink_pending by auto
qed

section \<open>Syslog\<close>

text \<open>
  \<open>ColorSyslogSinkT\<close>: the calls made, in order. \<open>"%.*s"\<close> prints at most the given number of
  bytes and stops at a NUL. The priorities are those of \<open>syslog.h\<close>.
\<close>

datatype syslog_call =
    Openlog "char list option" int
  | Syslog int "char list"
  | Closelog

definition Syslog_new :: "char list \<Rightarrow> int \<Rightarrow> syslog_call list" where
  "Syslog_new ident facility = [Openlog (if ident = [] then None else Some ident) facility]"

definition Syslog_dtor :: "syslog_call list" where
  "Syslog_dtor = [Closelog]"

definition SyslogPriorityFor :: "LogLevel \<Rightarrow> int" where
  "SyslogPriorityFor lvl =
     (case lvl of
        L_trace \<Rightarrow> 7 | L_debug \<Rightarrow> 7 | L_info \<Rightarrow> 6 | L_warn \<Rightarrow> 4 | L_err \<Rightarrow> 3 | L_critical \<Rightarrow> 2
      | _ \<Rightarrow> 6)"

definition Syslog_sink_it :: "formatted \<Rightarrow> LogLevel \<Rightarrow> syslog_call list" where
  "Syslog_sink_it f lvl =
     (let buf = ftext f; len = length buf;
          len = (if 0 < len \<and> buf ! (len - 1) = NL then len - 1 else len)
      in [Syslog (SyslogPriorityFor lvl) (cstr (take len buf))])"

lemma Syslog_sink_it_line:
  assumes "no_nul rtext"
  shows "Syslog_sink_it \<lparr>ftext = rtext @ [NL], color_start = a, color_end = b\<rparr> lvl
           = [Syslog (SyslogPriorityFor lvl) rtext]"
  using assms by (simp add: Syslog_sink_it_def Let_def cstr_def no_nul_def takeWhile_eq_all_conv) metis

lemma SyslogPriorityFor_mono:
  "a \<le> b \<Longrightarrow> b \<le> L_critical \<Longrightarrow> SyslogPriorityFor b \<le> SyslogPriorityFor a"
  by (cases a; cases b) (simp_all add: SyslogPriorityFor_def less_eq_LogLevel_def)

end
