(* ===== verification/FileHelper.thy ===== *)
theory FileHelper
  imports Prelude
begin

text \<open>
  The path helpers of \<open>dtFileHelper.cpp\<close> and \<open>dtDir.cpp\<close>, and the copies of the directory
  functions that the logger keeps (\<open>RtLog::SplitByDirectory\<close>,
  \<open>RtLog::EnsureDirectoryExistes\<close>). Paths are strings; the directories that exist are a set
  of paths, and whether \<open>mkdir\<close> succeeds on a path is a parameter. Only the Linux branches
  of the conditional compilation are modelled.
\<close>

section \<open>Searching strings\<close>

text \<open>\<open>rfind(c)\<close> and \<open>find_last_of\<close> for a set of characters; \<open>None\<close> is \<open>npos\<close>.\<close>

fun rfind_if :: "(char \<Rightarrow> bool) \<Rightarrow> char list \<Rightarrow> nat option" where
  "rfind_if p [] = None"
| "rfind_if p (c # s) =
     (case rfind_if p s of
        Some i \<Rightarrow> Some (Suc i)
      | None \<Rightarrow> if p c then Some 0 else None)"

definition rfind :: "char \<Rightarrow> char list \<Rightarrow> nat option" where
  "rfind c s = rfind_if (\<lambda>x. x = c) s"

text \<open>\<open>find_first_of(c, from)\<close>.\<close>

fun find_from :: "char \<Rightarrow> char list \<Rightarrow> nat \<Rightarrow> nat option" where
  "find_from c [] k = None"
| "find_from c (x # s) 0 = (if x = c then Some 0 else map_option Suc (find_from c s 0))"
| "find_from c (x # s) (Suc k) = map_option Suc (find_from c s k)"

lemma rfind_if_None: "rfind_if p s = None \<longleftrightarrow> (\<forall>c \<in> set s. \<not> p c)"
  by (induction s) (auto split: option.splits)

lemma rfind_if_Some:
  "rfind_if p s = Some i \<Longrightarrow> i < length s \<and> p (s ! i) \<and> (\<forall>c \<in> set (drop (Suc i) s). \<not> p c)"
proof (induction s arbitrary: i)
  case (Cons c s)
  show ?case
  proof (cases "rfind_if p s")
    case None
    then show ?thesis using Cons.prems rfind_if_None [of p s] by (auto split: if_splits)
  next
    case (Some j)
    then show ?thesis using Cons.IH [OF Some] Cons.prems by auto
  qed
qed simp

lemma rfind_if_append:
  "rfind_if p (s @ t) =
     (case rfind_if p t of Some i \<Rightarrow> Some (length s + i) | None \<Rightarrow> rfind_if p s)"
  by (induction s) (auto split: option.splits)

lemma rfind_None: "rfind c s = None \<longleftrightarrow> c \<notin> set s"
  by (auto simp: rfind_def rfind_if_None)

lemma rfind_Some: "rfind c s = Some i \<Longrightarrow> i < length s \<and> s ! i = c \<and> c \<notin> set (drop (Suc i) s)"
  unfolding rfind_def using rfind_if_Some by blast

lemma find_from_Some: "find_from c s k = Some i \<Longrightarrow> k \<le> i \<and> i < length s \<and> s ! i = c"
  by (induction c s k arbitrary: i rule: find_from.induct) (auto split: if_splits)

section \<open>Splitting and joining paths\<close>

definition split_by_directory :: "char list \<Rightarrow> char list \<times> char list" where
  "split_by_directory fname =
     (case rfind CHR ''/'' fname of
        None \<Rightarrow> ([], fname)
      | Some dir_index \<Rightarrow>
          if dir_index = length fname - 1 then (fname, [])
          else (take (dir_index + 1) fname, drop (dir_index + 1) fname))"

definition SplitByDirectory :: "char list \<Rightarrow> char list \<times> char list" where
  "SplitByDirectory fname =
     (case rfind CHR ''/'' fname of
        None \<Rightarrow> ([], fname)
      | Some dirIndex \<Rightarrow>
          if dirIndex = length fname - 1 then (fname, [])
          else (take (dirIndex + 1) fname, drop (dirIndex + 1) fname))"

definition split_by_extension :: "char list \<Rightarrow> char list \<times> char list" where
  "split_by_extension fname =
     (case rfind CHR ''.'' fname of
        None \<Rightarrow> (fname, [])
      | Some ext_index \<Rightarrow>
          if ext_index = 0 \<or> ext_index = length fname - 1 then (fname, [])
          else
            (case rfind CHR ''/'' fname of
               Some folder_index \<Rightarrow>
                 if ext_index - 1 \<le> folder_index then (fname, [])
                 else (take ext_index fname, drop ext_index fname)
             | None \<Rightarrow> (take ext_index fname, drop ext_index fname)))"

definition join_path :: "char list \<Rightarrow> char list \<Rightarrow> char list" where
  "join_path pathname filename =
     (if pathname = [] then filename
      else if filename = [] then pathname
      else if last pathname = CHR ''/'' \<or> last pathname = CHR 0x5C then pathname @ filename
      else pathname @ ''/'' @ filename)"

text \<open>\<open>string_format\<close> renders into a buffer of exactly the needed size; its result is the
  rendered text. Here are the two formats it is used with.\<close>

fun pad0 :: "nat \<Rightarrow> char list \<Rightarrow> char list" where
  "pad0 w s = replicate (w - length s) CHR ''0'' @ s"

record tm =
  tm_year :: int
  tm_mon :: int
  tm_mday :: int
  tm_hour :: int
  tm_min :: int
  tm_sec :: int

definition fmt0d :: "nat \<Rightarrow> int \<Rightarrow> char list" where
  "fmt0d w i = (if i < 0 then CHR ''-'' # pad0 (w - 1) (nat_str (nat (- i))) else pad0 w (nat_str (nat i)))"

definition annotate_filename_datetime :: "tm \<Rightarrow> char list \<Rightarrow> char list" where
  "annotate_filename_datetime now file_basename =
     (case split_by_extension file_basename of
        (basename, ext) \<Rightarrow>
          cstr basename @ ''_'' @ fmt0d 4 (tm_year now + 1900) @ ''-'' @ fmt0d 2 (tm_mon now + 1) @ ''-'' @
          fmt0d 2 (tm_mday now) @ ''_'' @ fmt0d 2 (tm_hour now) @ ''-'' @ fmt0d 2 (tm_min now) @ ''-'' @
          fmt0d 2 (tm_sec now) @ cstr ext)"

text \<open>The index is a \<open>size_t\<close> printed with \<open>%d\<close>, which reads it as a 32-bit \<open>int\<close>.\<close>

definition annotate_filename_index :: "char list \<Rightarrow> nat \<Rightarrow> char list" where
  "annotate_filename_index file_basename index =
     (if index = 0 then file_basename
      else case split_by_extension file_basename of
        (basename, ext) \<Rightarrow> cstr basename @ ''.'' @ int_str (sint (of_nat index :: u32)) @ cstr ext)"

section \<open>Directories\<close>

text \<open>
  \<open>create_dir\<close> with the set of existing paths and the paths on which \<open>mkdir\<close> succeeds. The
  separator set is "/".
\<close>

function create_dir_loop :: "(char list \<Rightarrow> bool) \<Rightarrow> char list \<Rightarrow> nat \<Rightarrow> char list set \<Rightarrow> bool \<times> char list set" where
  "create_dir_loop mkdir_ok path search_offset fs =
     (let token_pos = (case find_from CHR ''/'' path search_offset of None \<Rightarrow> length path | Some i \<Rightarrow> i);
          subdir = take token_pos path;
          need = subdir \<noteq> [] \<and> subdir \<notin> fs
      in if need \<and> \<not> mkdir_ok subdir then (False, fs)
         else let fs = (if need then insert subdir fs else fs);
                  search_offset' = token_pos + 1
              in if search_offset' < length path then create_dir_loop mkdir_ok path search_offset' fs
                 else (True, fs))"
  by pat_completeness auto
termination
  by (relation "measure (\<lambda>(m, path, off, fs). length path - off)")
     (auto split: option.splits dest: find_from_Some)

declare create_dir_loop.simps [simp del]

definition create_dir :: "(char list \<Rightarrow> bool) \<Rightarrow> char list \<Rightarrow> char list set \<Rightarrow> bool \<times> char list set" where
  "create_dir mkdir_ok path fs =
     (if path \<in> fs then (True, fs)
      else if path = [] then (False, fs)
      else create_dir_loop mkdir_ok path 0 fs)"

text \<open>
  \<open>EnsureDirectoryExistes\<close>: what \<open>stat\<close> says about the path, and the errno \<open>mkdir\<close> fails
  with, are parameters; the result is the return value with the error code and whether
  \<open>mkdir\<close> made the directory.
\<close>

datatype path_kind = Missing | Directory | OtherFile

datatype mkdir_result = Made | MkdirErr int

definition ENOTDIR :: int where "ENOTDIR = 20"

definition EnsureDirectoryExistes :: "char list \<Rightarrow> path_kind \<Rightarrow> mkdir_result \<Rightarrow> bool \<times> int" where
  "EnsureDirectoryExistes dname st made =
     (if dname = [] then (True, 0)
      else case st of
        Directory \<Rightarrow> (True, 0)
      | OtherFile \<Rightarrow> (False, ENOTDIR)
      | Missing \<Rightarrow> (case made of Made \<Rightarrow> (True, 0) | MkdirErr e \<Rightarrow> (False, e)))"

section \<open>Files\<close>

type_synonym files = "char list \<Rightarrow> char list option"

definition path_exists :: "files \<Rightarrow> char list \<Rightarrow> bool" where
  "path_exists fs p \<longleftrightarrow> fs p \<noteq> None"

text \<open>\<open>rename(2)\<close> and \<open>unlink(2)\<close> on regular files; a missing source makes \<open>rename\<close> fail.\<close>

definition sys_rename :: "char list \<Rightarrow> char list \<Rightarrow> files \<Rightarrow> bool \<times> files" where
  "sys_rename src dst fs =
     (case fs src of
        None \<Rightarrow> (False, fs)
      | Some c \<Rightarrow> (True, if src = dst then fs else fs(src := None, dst := Some c)))"

definition sys_unlink :: "char list \<Rightarrow> files \<Rightarrow> files" where
  "sys_unlink p fs = fs(p := None)"

definition rename_file :: "char list \<Rightarrow> char list \<Rightarrow> files \<Rightarrow> bool \<times> files" where
  "rename_file src_filename target_filename fs =
     sys_rename src_filename target_filename (sys_unlink target_filename fs)"

text \<open>
  \<open>filesize\<close>: the argument is \<open>None\<close> for a null pointer, otherwise what \<open>fstat64\<close> reports;
  both failures throw a C string.
\<close>

definition filesize :: "nat option option \<Rightarrow> char list + nat" where
  "filesize f =
     (case f of
        None \<Rightarrow> Inl ''Failed getting file size. fd is null''
      | Some (Some n) \<Rightarrow> Inr n
      | Some None \<Rightarrow> Inl ''Failed getting file size from fd'')"

section \<open>Directories of the program\<close>

text \<open>
  \<open>GetExecutableDir\<close>. The answers of \<open>readlink\<close> are a function of the buffer size: the
  number of bytes, or an errno. The buffer doubles until the path fits; the 32-bit size is
  reached after 25 doublings, which bounds the loop here.
\<close>

datatype link_result = LinkBytes "char list" | LinkEINVAL | LinkErr

fun readlink_grow :: "nat \<Rightarrow> link_result \<Rightarrow> nat \<Rightarrow> char list option" where
  "readlink_grow 0 link buf_size = None"
| "readlink_grow (Suc fuel) link buf_size =
     (case link of
        LinkEINVAL \<Rightarrow> Some ''/proc/self/exe''
      | LinkErr \<Rightarrow> Some []
      | LinkBytes target \<Rightarrow>
          if min buf_size (length target) < buf_size then Some (cstr (target @ [NUL]))
          else readlink_grow fuel link (2 * buf_size))"

fun scan_sep :: "char list \<Rightarrow> nat \<Rightarrow> char list" where
  "scan_sep realpath 0 = []"
| "scan_sep realpath (Suc i) =
     (if realpath ! Suc i = CHR ''/'' then take (Suc i) realpath else scan_sep realpath i)"

definition GetExecutableDir :: "link_result \<Rightarrow> char list option" where
  "GetExecutableDir link =
     (case readlink_grow 25 link 128 of
        None \<Rightarrow> None
      | Some realpath \<Rightarrow> Some (if realpath = [] then [] else scan_sep realpath (length realpath - 1)))"

text \<open>\<open>find_last_of("/\\", pos)\<close> looks at the characters up to and including \<open>pos\<close>.\<close>

definition is_sep :: "char \<Rightarrow> bool" where
  "is_sep c \<longleftrightarrow> c = CHR ''/'' \<or> c = CHR 0x5C"

definition parent_of_dir :: "char list \<Rightarrow> char list" where
  "parent_of_dir dir =
     (let before = (case rfind_if is_sep dir of
                      None \<Rightarrow> dir
                    | Some 0 \<Rightarrow> dir
                    | Some i \<Rightarrow> take i dir)
      in case rfind_if is_sep before of None \<Rightarrow> dir | Some j \<Rightarrow> take j dir)"

definition GetTasksDir :: "char list option \<Rightarrow> link_result \<Rightarrow> char list option" where
  "GetTasksDir env link =
     (case env of
        Some tasks_dir \<Rightarrow> Some tasks_dir
      | None \<Rightarrow> map_option parent_of_dir (GetExecutableDir link))"

definition GetModelPath :: "char list option \<Rightarrow> link_result \<Rightarrow> char list \<Rightarrow> char list option" where
  "GetModelPath env link path = map_option (\<lambda>d. d @ ''/model/'' @ path) (GetTasksDir env link)"

definition GetFileExtension :: "char list \<Rightarrow> char list" where
  "GetFileExtension filePath =
     (case rfind CHR ''.'' filePath of Some pos \<Rightarrow> drop pos filePath | None \<Rightarrow> [])"

definition GetUserHomeDir :: "char list option \<Rightarrow> char list" where
  "GetUserHomeDir home = (case home of Some h \<Rightarrow> h | None \<Rightarrow> [])"

section \<open>Properties\<close>

lemma SplitByDirectory_eq: "SplitByDirectory = split_by_directory"
  by (simp add: fun_eq_iff SplitByDirectory_def split_by_directory_def)

text \<open>
  Splitting a path into directory and file loses nothing: joining the parts gives the
  path back, the file part has no separator, and the directory part is empty or ends in one.
  The logger's copy of the function agrees with the library's.
\<close>

theorem split_by_directory_roundtrip:
  "case split_by_directory fname of (dir, file) \<Rightarrow>
     join_path dir file = fname \<and> CHR ''/'' \<notin> set file \<and>
     (dir = [] \<or> last dir = CHR ''/'') \<and> SplitByDirectory fname = (dir, file)"
proof (cases "rfind CHR ''/'' fname")
  case None
  moreover from None have "CHR ''/'' \<notin> set fname" by (rule iffD1 [OF rfind_None])
  ultimately show ?thesis
    by (simp add: SplitByDirectory_eq split_by_directory_def join_path_def)
next
  case (Some i)
  note i = rfind_Some [OF Some]
  then have l: "take (Suc i) fname \<noteq> []" "last (take (Suc i) fname) = CHR ''/''"
    by (auto simp: take_Suc_conv_app_nth)
  show ?thesis
  proof (cases "i = length fname - 1")
    case True
    then have "take (Suc i) fname = fname" using i by simp
    then show ?thesis using Some True l
      by (simp add: SplitByDirectory_eq split_by_directory_def join_path_def)
  next
    case False
    then have "Suc i < length fname" using i by linarith
    then have "drop (Suc i) fname \<noteq> []" by simp
    then show ?thesis using Some False l i
      by (simp add: SplitByDirectory_eq split_by_directory_def join_path_def)
  qed
qed

lemma split_by_extension_append: "split_by_extension fname = (b, e) \<Longrightarrow> b @ e = fname"
  by (auto simp: split_by_extension_def split: option.splits if_splits)

text \<open>
  Splitting off the extension loses nothing, and the extension is what the documentation
  promises: empty, or the part of the file name from its last dot on, never the whole of a
  hidden file's name, never reaching back into a directory.
\<close>

theorem split_by_extension_spec:
  "case split_by_extension fname of (base, ext) \<Rightarrow>
     base @ ext = fname \<and>
     (ext = [] \<or>
      (\<exists>e. ext = CHR ''.'' # e \<and> e \<noteq> [] \<and> CHR ''.'' \<notin> set e \<and> CHR ''/'' \<notin> set e \<and>
           base \<noteq> [] \<and> last base \<noteq> CHR ''/''))"
proof (cases "snd (split_by_extension fname) = []")
  case True
  then have "split_by_extension fname = (fname, [])"
    using split_by_extension_append [of fname "fst (split_by_extension fname)"]
    by (metis append_Nil2 prod.collapse)
  then show ?thesis by simp
next
  case False
  from False obtain i where i1: "rfind CHR ''.'' fname = Some i"
    by (cases "rfind CHR ''.'' fname") (simp_all add: split_by_extension_def)
  have i2: "\<not> (i = 0 \<or> i = length fname - 1)"
    using False i1 by (auto simp: split_by_extension_def split: if_splits)
  have fold: "f < i - 1" if "rfind CHR ''/'' fname = Some f" for f
    using False i1 i2 that by (simp add: split_by_extension_def split: if_splits)
  have sp: "split_by_extension fname = (take i fname, drop i fname)"
    using i1 i2 fold by (cases "rfind CHR ''/'' fname") (simp_all add: split_by_extension_def not_le)
  note i = i1 i2 [unfolded de_Morgan_disj, THEN conjunct1] i2 [unfolded de_Morgan_disj, THEN conjunct2]
  note r = rfind_Some [OF i(1)]
  have drop: "drop i fname = CHR ''.'' # drop (Suc i) fname"
    using r Cons_nth_drop_Suc [of i fname] by metis
  have slash: "CHR ''/'' \<notin> set (drop (i - 1) fname)"
  proof (cases "rfind CHR ''/'' fname")
    case None
    then have "CHR ''/'' \<notin> set fname" by (rule iffD1 [OF rfind_None])
    then show ?thesis by (blast dest: in_set_dropD)
  next
    case (Some f)
    have "set (drop (i - 1) fname) \<subseteq> set (drop (Suc f) fname)"
      using fold [OF Some] by (intro set_drop_subset_set_drop) simp
    then show ?thesis using rfind_Some [OF Some] by blast
  qed
  have "drop (i - 1) fname = fname ! (i - 1) # drop i fname"
  proof -
    have "Suc (i - 1) = i" "i - 1 < length fname" using i(2) r by linarith+
    with Cons_nth_drop_Suc [of "i - 1" fname] show ?thesis by metis
  qed
  then have s: "fname ! (i - 1) \<noteq> CHR ''/''" "CHR ''/'' \<notin> set (drop (Suc i) fname)"
    using slash drop by auto
  have ne: "take i fname \<noteq> []" using i(2) r by auto
  have la: "last (take i fname) \<noteq> CHR ''/''"
    using ne r s(1) by (simp add: last_conv_nth min_def)
  have dn: "drop (Suc i) fname \<noteq> []" using i(3) r by auto
  show ?thesis
    unfolding sp case_prod_conv
  proof (intro conjI disjI2 exI [of _ "drop (Suc i) fname"])
    show "take i fname @ drop i fname = fname" by (rule append_take_drop_id)
  qed (rule drop dn s(2) ne la conjunct2 [OF conjunct2 [OF r]])+
qed

lemma int_str_sint_u32: "i < 2 ^ 31 \<Longrightarrow> int_str (sint (of_nat i :: u32)) = nat_str i"
  by (simp add: sint_u32_of_nat_small int_str_def)

lemma cstr_no_nul [simp]: "no_nul s \<Longrightarrow> cstr s = s"
  by (simp add: cstr_def no_nul_def takeWhile_eq_all_conv) metis

lemma annotate_index_inj:
  assumes "no_nul file_basename" and "i < 2 ^ 31" and "j < 2 ^ 31"
    and "annotate_filename_index file_basename i = annotate_filename_index file_basename j"
  shows "i = j"
proof -
  obtain b e where be: "split_by_extension file_basename = (b, e)"
    by (cases "split_by_extension file_basename")
  then have f: "b @ e = file_basename" by (rule split_by_extension_append)
  then have nn: "no_nul b" "no_nul e" using assms(1) by (auto simp: no_nul_def)
  have idx: "annotate_filename_index file_basename n
      = (if n = 0 then b @ e else b @ ''.'' @ nat_str n @ e)" if "n < 2 ^ 31" for n
    using that be f nn by (simp add: annotate_filename_index_def int_str_sint_u32)
  have "b @ e \<noteq> b @ ''.'' @ nat_str n @ e" for n
  proof
    assume "b @ e = b @ ''.'' @ nat_str n @ e"
    then have "length (b @ e) = length (b @ ''.'' @ nat_str n @ e)" by (rule arg_cong)
    then show False by simp
  qed
  then show ?thesis
    using assms(4) idx [OF assms(2)] idx [OF assms(3)] by (auto split: if_splits)
qed

text \<open>
  Indexed file names never clash: on a base name without NUL bytes, the names of two
  different indices below \<open>2 ^ 31\<close> differ, the unindexed name included.
\<close>

theorem annotate_filename_index_inj:
  assumes "no_nul file_basename" and "i < 2 ^ 31" and "j < 2 ^ 31"
    and "annotate_filename_index file_basename i = annotate_filename_index file_basename j"
  shows "i = j"
  by (rule annotate_index_inj [OF assms])

theorem annotate_filename_index_inj_witness:
  "annotate_filename_index ''a/b.mcap'' 1 \<noteq> annotate_filename_index ''a/b.mcap'' 2 \<and>
   annotate_filename_index ''a/b.mcap'' 1 = ''a/b.1.mcap''"
proof
  have "no_nul ''a/b.mcap''" by (simp add: no_nul_def)
  from annotate_filename_index_inj [OF this, of 1 2]
  show "annotate_filename_index ''a/b.mcap'' 1 \<noteq> annotate_filename_index ''a/b.mcap'' 2" by auto
  show "annotate_filename_index ''a/b.mcap'' 1 = ''a/b.1.mcap''"
    by (simp add: annotate_filename_index_def split_by_extension_def rfind_def cstr_def
        int_str_def nat_str.simps digit_char_def char_of_def bit_Suc_0_iff)
qed

definition ancestor :: "char list \<Rightarrow> nat \<Rightarrow> bool" where
  "ancestor path n \<longleftrightarrow> 0 < n \<and> n \<le> length path \<and> (n = length path \<or> path ! n = CHR ''/'')"

lemma find_from_None: "find_from c s k = None \<Longrightarrow> k \<le> i \<Longrightarrow> i < length s \<Longrightarrow> s ! i \<noteq> c"
proof (induction c s k arbitrary: i rule: find_from.induct)
  case (2 c x s)
  then show ?case by (cases i) (auto split: if_splits)
next
  case (3 c x s k)
  then show ?case by (cases i) auto
qed simp

lemma find_from_first: "find_from c s k = Some j \<Longrightarrow> k \<le> i \<Longrightarrow> i < j \<Longrightarrow> s ! i \<noteq> c"
proof (induction c s k arbitrary: i j rule: find_from.induct)
  case (2 c x s)
  then show ?case by (cases i) (auto split: if_splits)
next
  case (3 c x s k)
  then show ?case by (cases i) auto
qed simp

lemma create_dir_loop_makes:
  "(\<And>p. mkdir_ok p) \<Longrightarrow> off < length path \<or> off = 0 \<Longrightarrow>
     (\<And>n. ancestor path n \<Longrightarrow> n < off \<Longrightarrow> take n path \<in> fs) \<Longrightarrow>
     fst (create_dir_loop mkdir_ok path off fs) \<and> fs \<subseteq> snd (create_dir_loop mkdir_ok path off fs) \<and>
     (\<forall>n. ancestor path n \<and> \<not> (n = length path \<and> path ! (n - 1) = CHR ''/'') \<longrightarrow>
          take n path \<in> snd (create_dir_loop mkdir_ok path off fs))"
proof (induction "length path - off" arbitrary: off fs rule: less_induct)
  case less
  define tok where "tok = (case find_from CHR ''/'' path off of None \<Rightarrow> length path | Some i \<Rightarrow> i)"
  define fs' where "fs' = (if take tok path \<noteq> [] \<and> take tok path \<notin> fs then insert (take tok path) fs else fs)"
  have eq: "create_dir_loop mkdir_ok path off fs
      = (if tok + 1 < length path then create_dir_loop mkdir_ok path (tok + 1) fs' else (True, fs'))"
    using less(2) by (subst create_dir_loop.simps) (simp add: Let_def tok_def fs'_def)
  have tok: "off \<le> tok \<or> tok = length path" "tok \<le> length path"
    by (auto simp: tok_def dest: find_from_Some split: option.splits)
  have no: "path ! i \<noteq> CHR ''/''" if "off \<le> i" "i < tok" "i < length path" for i
    using that by (auto simp: tok_def dest: find_from_None find_from_first split: option.splits)
  have made: "take n path \<in> fs'" if "ancestor path n" "n < tok + 1" for n
  proof (cases "n < off")
    case True
    then show ?thesis using less(4) that(1) by (auto simp: fs'_def)
  next
    case False
    have "\<not> n < tok" using no [of n] that(1) False tok(2) by (auto simp: ancestor_def)
    then have "n = tok" using that(2) by simp
    then show ?thesis using that(1) by (auto simp: fs'_def ancestor_def)
  qed
  show ?case
  proof (cases "tok + 1 < length path")
    case True
    have "fst (create_dir_loop mkdir_ok path (tok + 1) fs') \<and>
          fs' \<subseteq> snd (create_dir_loop mkdir_ok path (tok + 1) fs') \<and>
          (\<forall>n. ancestor path n \<and> \<not> (n = length path \<and> path ! (n - 1) = CHR ''/'') \<longrightarrow>
               take n path \<in> snd (create_dir_loop mkdir_ok path (tok + 1) fs'))"
    proof (rule less(1))
      show "length path - (tok + 1) < length path - off" using True tok(1) by linarith
      show "mkdir_ok p" for p by (rule less(2))
      show "tok + 1 < length path \<or> tok + 1 = 0" using True by simp
      show "take n path \<in> fs'" if "ancestor path n" "n < tok + 1" for n using made that .
    qed
    then show ?thesis unfolding eq using True by (auto simp: fs'_def)
  next
    case False
    have "take n path \<in> fs'" if "ancestor path n" "\<not> (n = length path \<and> path ! (n - 1) = CHR ''/'')" for n
    proof (cases "n < tok + 1")
      case True
      then show ?thesis using made that(1) by blast
    next
      case nt: False
      then have "n = length path" "tok = n - 1" "0 < n" using that(1) False tok(2) by (auto simp: ancestor_def)
      moreover have "path ! tok = CHR ''/''"
      proof (cases "find_from CHR ''/'' path off")
        case None
        then have "tok = length path" by (simp add: tok_def)
        then have False using calculation by (cases path) simp_all
        then show ?thesis ..
      next
        case (Some j)
        then show ?thesis using find_from_Some [OF Some] by (simp add: tok_def)
      qed
      ultimately show ?thesis using that(2) by simp
    qed
    then show ?thesis unfolding eq using False by (auto simp: fs'_def)
  qed
qed

text \<open>
  When \<open>mkdir\<close> does not fail, \<open>create_dir\<close> returns true and afterwards every directory
  on the way exists: each prefix of the path that ends before a separator, and the whole
  path unless it ends in one.
\<close>

theorem create_dir_makes_ancestors:
  assumes "\<And>p. mkdir_ok p" and "path \<noteq> []" and "path \<notin> fs"
  shows "fst (create_dir mkdir_ok path fs) \<and>
         (\<forall>n. ancestor path n \<and> \<not> (n = length path \<and> path ! (n - 1) = CHR ''/'') \<longrightarrow>
              take n path \<in> snd (create_dir mkdir_ok path fs))"
  using create_dir_loop_makes [of mkdir_ok 0 path fs] assms by (simp add: create_dir_def)

theorem create_dir_makes_ancestors_witness:
  "create_dir (\<lambda>_. True) ''/var/log'' {} = (True, {''/var/log'', ''/var''}) \<and>
   ''/var'' \<in> snd (create_dir (\<lambda>_. True) ''/var/log'' {})"
proof -
  have "ancestor ''/var/log'' 4" by (simp add: ancestor_def)
  moreover have "\<not> (4 = length ''/var/log'' \<and> ''/var/log'' ! (4 - 1) = CHR ''/'')" by simp
  ultimately have "take 4 ''/var/log'' \<in> snd (create_dir (\<lambda>_. True) ''/var/log'' {})"
    using create_dir_makes_ancestors [of "\<lambda>_. True" "''/var/log''" "{}"] by blast
  then show ?thesis
    by (simp add: create_dir_def create_dir_loop.simps Let_def)
qed

end
