(* ===== verification/Rotation.thy ===== *)
theory Rotation
  imports FileHelper
begin

text \<open>
  What the two file rotations of the library (the log file sink and the MCAP rotator) have in
  common: numbered generations of one file, shifted by one when the current file is full. The
  interface \<open>file_rotation\<close> states the contract; the chain of renames that both perform is
  analysed here once.
\<close>

locale file_rotation =
  fixes name :: "nat \<Rightarrow> char list"
    and count :: nat
    and rotate :: "files \<Rightarrow> files"
  assumes count_pos: "0 < count"
    and name_inj: "i \<le> count \<Longrightarrow> j \<le> count \<Longrightarrow> name i = name j \<Longrightarrow> i = j"
    and shifted: "i < count \<Longrightarrow> fs (name i) = Some c \<Longrightarrow> rotate fs (name (Suc i)) = Some c"
    and hole: "i < count \<Longrightarrow> fs (name i) = None \<Longrightarrow>
          rotate fs (name (Suc i)) = None \<or> rotate fs (name (Suc i)) = fs (name (Suc i))"
    and vacated: "rotate fs (name 0) = None"
    and others: "p \<notin> name ` {0..count} \<Longrightarrow> rotate fs p = fs p"
begin

definition gapless :: "files \<Rightarrow> bool" where
  "gapless fs \<longleftrightarrow> (\<forall>i < count. fs (name i) = None \<longrightarrow> fs (name (Suc i)) = None)"

definition bytes_of :: "files \<Rightarrow> nat \<Rightarrow> char list" where
  "bytes_of fs i = (case fs (name i) of Some c \<Rightarrow> c | None \<Rightarrow> [])"

text \<open>All that is kept, oldest byte first.\<close>

definition kept :: "files \<Rightarrow> char list" where
  "kept fs = concat (map (bytes_of fs) (rev [0..<Suc count]))"

lemma rotate_moves:
  assumes "gapless fs" and "i < count"
  shows "rotate fs (name (Suc i)) = fs (name i)"
proof (cases "fs (name i)")
  case None
  then have "fs (name (Suc i)) = None" using assms by (simp add: gapless_def)
  then show ?thesis using None hole [of i fs] assms(2) by auto
next
  case (Some c)
  then show ?thesis using shifted [of i fs c] assms(2) by simp
qed

lemma rotate_current:
  assumes "gapless fs"
  shows "gapless ((rotate fs)(name 0 := Some c))"
  unfolding gapless_def
proof (intro allI impI)
  fix i assume i: "i < count" and n: "((rotate fs)(name 0 := Some c)) (name i) = None"
  then have i0: "i \<noteq> 0" by (cases i) simp_all
  then obtain j where j: "i = Suc j" by (cases i) auto
  have ne: "name i \<noteq> name 0" "name (Suc i) \<noteq> name 0"
    using name_inj [of i 0] name_inj [of "Suc i" 0] i i0 by auto
  have "fs (name j) = None" using n ne rotate_moves [OF assms, of j] i j by simp
  then have "fs (name i) = None" using assms i j by (auto simp: gapless_def)
  then show "((rotate fs)(name 0 := Some c)) (name (Suc i)) = None"
    using ne rotate_moves [OF assms i] by simp
qed

lemma rotate_drops_oldest:
  assumes "gapless fs"
  shows "kept fs = bytes_of fs count @ kept ((rotate fs)(name 0 := Some []))"
proof -
  let ?fs = "(rotate fs)(name 0 := Some [])"
  have shift: "bytes_of ?fs (Suc i) = bytes_of fs i" if "i < count" for i
  proof -
    have "name (Suc i) \<noteq> name 0" using name_inj [of "Suc i" 0] that by auto
    then show ?thesis using rotate_moves [OF assms that] by (simp add: bytes_of_def)
  qed
  have "map (bytes_of ?fs) [0..<Suc count] = [] # map (bytes_of fs) [0..<count]"
  proof (rule nth_equalityI)
    fix i assume "i < length (map (bytes_of ?fs) [0..<Suc count])"
    then show "map (bytes_of ?fs) [0..<Suc count] ! i = ([] # map (bytes_of fs) [0..<count]) ! i"
      using shift by (cases i) (simp_all add: bytes_of_def nth_append del: upt_Suc)
  qed (simp del: upt_Suc)
  then have "concat (rev (map (bytes_of ?fs) [0..<Suc count]))
      = concat (rev (map (bytes_of fs) [0..<count]))"
    by (simp del: upt_Suc)
  then show ?thesis unfolding kept_def by (simp add: rev_map)
qed

end

section \<open>The chain of renames\<close>

fun rename_chain :: "(nat \<Rightarrow> char list) \<Rightarrow> nat \<Rightarrow> files \<Rightarrow> files" where
  "rename_chain name 0 fs = fs"
| "rename_chain name (Suc i) fs =
     rename_chain name i (snd (sys_rename (name i) (name (Suc i)) fs))"

lemma sys_rename_at:
  assumes "src \<noteq> dst"
  shows "snd (sys_rename src dst fs) p =
           (if p = dst \<and> fs src \<noteq> None then fs src else if p = src then None else fs p)"
  using assms by (auto simp: sys_rename_def split: option.splits)

lemma rename_chain_spec:
  "inj_on name {0..n} \<Longrightarrow>
     (\<forall>i < n. rename_chain name n fs (name (Suc i)) =
                (if fs (name i) \<noteq> None then fs (name i)
                 else if Suc i = n then fs (name n) else None)) \<and>
     (0 < n \<longrightarrow> rename_chain name n fs (name 0) = None) \<and>
     (\<forall>p. p \<notin> name ` {0..n} \<longrightarrow> rename_chain name n fs p = fs p)"
proof (induction n arbitrary: fs)
  case (Suc n)
  let ?fs = "snd (sys_rename (name n) (name (Suc n)) fs)"
  have ne: "name n \<noteq> name (Suc n)" using inj_onD [OF Suc.prems, of n "Suc n"] by auto
  note at = sys_rename_at [OF ne]
  have inj: "name i = name j \<longleftrightarrow> i = j" if "i \<le> Suc n" "j \<le> Suc n" for i j
    using inj_onD [OF Suc.prems, of i j] that by auto
  have IH: "(\<forall>i < n. rename_chain name n ?fs (name (Suc i)) =
                (if ?fs (name i) \<noteq> None then ?fs (name i)
                 else if Suc i = n then ?fs (name n) else None)) \<and>
     (0 < n \<longrightarrow> rename_chain name n ?fs (name 0) = None) \<and>
     (\<forall>p. p \<notin> name ` {0..n} \<longrightarrow> rename_chain name n ?fs p = ?fs p)"
    by (rule Suc.IH) (rule inj_on_subset [OF Suc.prems], simp)
  have top: "name (Suc n) \<notin> name ` {0..n}" using inj by auto
  have "rename_chain name (Suc n) fs (name (Suc i)) =
          (if fs (name i) \<noteq> None then fs (name i)
           else if Suc i = Suc n then fs (name (Suc n)) else None)" if "i < Suc n" for i
  proof (cases "i = n")
    case True
    then show ?thesis using IH top by (simp add: at ne)
  next
    case False
    then show ?thesis using IH that inj by (simp add: at)
  qed
  moreover have "rename_chain name (Suc n) fs (name 0) = None"
  proof (cases "n = 0")
    case True
    then show ?thesis using at [of fs "name 0"] ne by simp
  next
    case False
    then show ?thesis using IH by simp
  qed
  moreover have "rename_chain name (Suc n) fs p = fs p" if "p \<notin> name ` {0..Suc n}" for p
  proof -
    have "p \<notin> name ` {0..n}" "p \<noteq> name n" "p \<noteq> name (Suc n)" using that by auto
    then show ?thesis using IH at [of fs p] by simp
  qed
  ultimately show ?case by blast
qed simp

lemma rename_chain_rotation:
  assumes n: "0 < n" and inj: "inj_on name {0..n}"
  shows "file_rotation name n (rename_chain name n)"
proof
  show "0 < n" by (rule n)
  show "i = j" if "i \<le> n" "j \<le> n" "name i = name j" for i j
    using inj_onD [OF inj that(3)] that(1,2) by simp
  note spec = rename_chain_spec [OF inj]
  show "rename_chain name n fs (name (Suc i)) = Some c" if "i < n" "fs (name i) = Some c" for i fs c
    using conjunct1 [OF spec] that by simp
  show "rename_chain name n fs (name (Suc i)) = None \<or>
        rename_chain name n fs (name (Suc i)) = fs (name (Suc i))" if "i < n" "fs (name i) = None" for i fs
  proof -
    have "rename_chain name n fs (name (Suc i)) = (if Suc i = n then fs (name n) else None)"
      using conjunct1 [OF spec] that by simp
    then show ?thesis by (cases "Suc i = n") (simp_all only: if_True if_False simp_thms)
  qed
  show "rename_chain name n fs (name 0) = None" for fs
    using conjunct1 [OF conjunct2 [OF spec]] n by blast
  show "rename_chain name n fs p = fs p" if "p \<notin> name ` {0..n}" for p fs
    using conjunct2 [OF conjunct2 [OF spec]] that by blast
qed

end
