(* ===== verification/FileSink.thy ===== *)
theory FileSink
  imports StdoutSink Rotation
begin

text \<open>
  \<open>BasicFileSinkT\<close> of \<open>dtRtLog.hpp\<close>: the buffered log file with rotation. The state of the
  world is the set of files, the answers the kernel gives to \<open>write\<close> and \<open>open\<close>, and what was
  printed on the standard error. The sink is the only writer of its file, so a write at the
  descriptor's offset appends to the file. The allocation failures caught inside
  \<open>RotateFiles\<close> are not modelled.
\<close>

record fenv =
  files :: files
  io :: dev
  opens :: "bool list"
  stderr :: "char list list"

record file_sink =
  m_fd :: int
  m_baseFilename :: "char list"
  m_buffer :: "char list"
  m_bufPos :: nat
  m_currentSize :: nat
  m_maxSize :: nat
  m_maxFiles :: nat

text \<open>\<open>write\<close> to the log file behind the descriptor; a closed descriptor fails (\<open>EBADF\<close>).\<close>

definition file_write :: "int \<Rightarrow> char list \<Rightarrow> char list \<Rightarrow> fenv \<Rightarrow> int \<times> fenv" where
  "file_write fd path bytes env =
     (if fd < 0 then (-1, env\<lparr>io := (io env)\<lparr>errno := EIO\<rparr>\<rparr>)
      else case sys_write bytes ((io env)\<lparr>sent := []\<rparr>) of
        (n, d) \<Rightarrow>
          (n, env\<lparr>io := d\<lparr>sent := sent (io env) @ sent d\<rparr>,
                 files := (case files env path of
                             None \<Rightarrow> files env
                           | Some c \<Rightarrow> (files env)(path := Some (c @ sent d)))\<rparr>))"

lemma file_write_answers:
  assumes "file_write fd path bytes env = (n, env')"
  shows "(n < 0 \<longrightarrow> errno (io env') = EINTR \<longrightarrow> length (answers (io env')) < length (answers (io env))) \<and>
         (0 \<le> n \<longrightarrow> length (answers (io env')) < length (answers (io env)))"
proof (cases "fd < 0")
  case True
  then show ?thesis using assms by (auto simp: file_write_def)
next
  case False
  then obtain d where d: "sys_write bytes ((io env)\<lparr>sent := []\<rparr>) = (n, d)"
      "errno (io env') = errno d" "answers (io env') = answers d"
    using assms by (auto simp: file_write_def split: prod.splits)
  from d(1) show ?thesis using d(2,3) by (cases rule: sys_write_cases) simp_all
qed

text \<open>\<open>open\<close> for writing: the descriptor, or a negative value.\<close>

definition file_open :: "char list \<Rightarrow> bool \<Rightarrow> fenv \<Rightarrow> int \<times> fenv" where
  "file_open path trunc env =
     (let ok = (case opens env of [] \<Rightarrow> True | b # _ \<Rightarrow> b);
          env = env\<lparr>opens := tl (opens env)\<rparr>
      in if ok then
           (3, env\<lparr>files := (files env)(path :=
                 (if trunc then Some [] else case files env path of None \<Rightarrow> Some [] | Some c \<Rightarrow> Some c))\<rparr>)
         else (-1, env))"

definition File_OpenFile :: "bool \<Rightarrow> file_sink \<Rightarrow> fenv \<Rightarrow> file_sink \<times> fenv" where
  "File_OpenFile trunc s env =
     (let s = s\<lparr>m_currentSize :=
                 (if trunc then 0
                  else case files env (m_baseFilename s) of Some c \<Rightarrow> length c | None \<Rightarrow> 0)\<rparr>
      in case file_open (m_baseFilename s) trunc env of
           (fd, env') \<Rightarrow>
             (s\<lparr>m_fd := fd\<rparr>,
              if fd < 0 then env'\<lparr>stderr := stderr env' @ [''[RtLog] failed to open log file'' @ [NL]]\<rparr>
              else env'))"

function file_flush_loop :: "int \<Rightarrow> char list \<Rightarrow> char list \<Rightarrow> nat \<Rightarrow> nat \<Rightarrow> fenv \<Rightarrow> nat \<times> fenv" where
  "file_flush_loop fd path buf bufPos tot env =
     (if tot < bufPos then
        case file_write fd path (take (bufPos - tot) (drop tot buf)) env of
          (written, env') \<Rightarrow>
            if written < 0 then
              (if errno (io env') = EINTR then file_flush_loop fd path buf bufPos tot env'
               else (tot, env'\<lparr>stderr := stderr env' @ [''[RtLog] file write error, log data lost'' @ [NL]]\<rparr>))
            else if written = 0 then
              (tot, env'\<lparr>stderr := stderr env' @ [''[RtLog] disk full, log data lost'' @ [NL]]\<rparr>)
            else file_flush_loop fd path buf bufPos (tot + nat written) env'
      else (tot, env))"
  by pat_completeness auto
termination
proof (relation "measure (\<lambda>(fd, path, buf, pos, tot, env). length (answers (io env)))", goal_cases)
  case (2 fd path buf pos tot env n env')
  from file_write_answers [OF 2(2) [symmetric]] 2 show ?case by auto
next
  case (3 fd path buf pos tot env n env')
  from file_write_answers [OF 3(2) [symmetric]] 3 show ?case by auto
qed simp

declare file_flush_loop.simps [simp del]

definition File_FlushBuffer :: "file_sink \<Rightarrow> fenv \<Rightarrow> file_sink \<times> fenv" where
  "File_FlushBuffer s env =
     (if m_fd s < 0 \<or> m_bufPos s = 0 then (s, env)
      else case file_flush_loop (m_fd s) (m_baseFilename s) (m_buffer s) (m_bufPos s) 0 env of
        (total_written, env') \<Rightarrow>
          (s\<lparr>m_currentSize := m_currentSize s + total_written, m_bufPos := 0\<rparr>, env'))"

definition backup_name :: "char list \<Rightarrow> nat \<Rightarrow> char list" where
  "backup_name base i = base @ ''.'' @ nat_str i"

fun File_rename_loop :: "char list \<Rightarrow> nat \<Rightarrow> nat \<Rightarrow> files \<Rightarrow> files" where
  "File_rename_loop base maxFiles 0 fs = fs"
| "File_rename_loop base maxFiles (Suc i) fs =
     (let src = backup_name base (Suc i);
          dst = backup_name base (Suc i + 1);
          fs = (if Suc i = maxFiles - 1 then sys_unlink dst fs else fs)
      in File_rename_loop base maxFiles i (snd (sys_rename src dst fs)))"

definition File_rename_all :: "char list \<Rightarrow> nat \<Rightarrow> files \<Rightarrow> files" where
  "File_rename_all base maxFiles fs =
     snd (sys_rename base (backup_name base 1) (File_rename_loop base maxFiles (maxFiles - 1) fs))"

definition File_RotateFiles :: "file_sink \<Rightarrow> fenv \<Rightarrow> file_sink \<times> fenv" where
  "File_RotateFiles s env =
     (case File_FlushBuffer s env of
        (s, env) \<Rightarrow>
          let s = (if 0 \<le> m_fd s then s\<lparr>m_fd := -1\<rparr> else s)
          in File_OpenFile True s
               (env\<lparr>files := File_rename_all (m_baseFilename s) (m_maxFiles s) (files env)\<rparr>))"

definition BasicFileSink :: "char list \<Rightarrow> nat \<Rightarrow> nat \<Rightarrow> bool \<Rightarrow> fenv \<Rightarrow> file_sink \<times> fenv" where
  "BasicFileSink filename max_size max_files trunc env =
     File_OpenFile trunc
       \<lparr>m_fd = -1, m_baseFilename = filename, m_buffer = replicate INTERNAL_BUF_SIZE NUL, m_bufPos = 0,
        m_currentSize = 0, m_maxSize = max_size, m_maxFiles = (if max_files = 0 then 1 else max_files)\<rparr> env"

definition File_dtor :: "file_sink \<Rightarrow> fenv \<Rightarrow> fenv" where
  "File_dtor s env = (if 0 \<le> m_fd s then snd (File_FlushBuffer s env) else env)"

text \<open>
  The direct write of a message larger than the buffer. A return value of zero is handled
  like an error, with whatever \<open>errno\<close> an earlier call has left.
\<close>

function file_direct_loop :: "int \<Rightarrow> char list \<Rightarrow> char list \<Rightarrow> nat \<Rightarrow> fenv \<Rightarrow> nat \<times> fenv" where
  "file_direct_loop fd path buf tot env =
     (if tot < length buf then
        case file_write fd path (drop tot buf) env of
          (n, env') \<Rightarrow>
            if n \<le> 0 then
              (if errno (io env') = EINTR then file_direct_loop fd path buf tot env' else (tot, env'))
            else file_direct_loop fd path buf (tot + nat n) env'
      else (tot, env))"
  by pat_completeness auto
termination
proof (relation "measure (\<lambda>(fd, path, buf, tot, env). length (answers (io env)))", goal_cases)
  case (2 fd path buf tot env n env')
  from file_write_answers [OF 2(2) [symmetric]] 2 show ?case by auto
next
  case (3 fd path buf tot env n env')
  from file_write_answers [OF 3(2) [symmetric]] 3 show ?case by auto
qed simp

declare file_direct_loop.simps [simp del]

definition File_sink_it :: "char list \<Rightarrow> file_sink \<Rightarrow> fenv \<Rightarrow> file_sink \<times> fenv" where
  "File_sink_it buf s env =
     (if m_fd s < 0 then (s, env)
      else
        let (s, env) =
              (if 0 < m_maxSize s \<and> m_maxSize s < m_currentSize s + m_bufPos s + length buf
               then File_RotateFiles s env else (s, env))
        in if INTERNAL_BUF_SIZE < length buf then
             let (s, env) = File_FlushBuffer s env;
                 (tot, env) = file_direct_loop (m_fd s) (m_baseFilename s) buf 0 env
             in (s\<lparr>m_currentSize := m_currentSize s + tot\<rparr>, env)
           else
             let (s, env) = (if INTERNAL_BUF_SIZE < m_bufPos s + length buf
                             then File_FlushBuffer s env else (s, env))
             in (s\<lparr>m_buffer := memcpy_at (m_buffer s) (m_bufPos s) buf,
                   m_bufPos := m_bufPos s + length buf\<rparr>, env))"

section \<open>What the loops write\<close>

definition steady :: "dev \<Rightarrow> nat \<Rightarrow> bool" where
  "steady d n \<longleftrightarrow>
     (\<forall>a \<in> set (answers d). (\<exists>m. a = Wrote m \<and> 0 < m) \<or> a = Failed EINTR) \<and>
     n \<le> length (filter (\<lambda>a. a \<noteq> Failed EINTR) (answers d))"

lemma file_write_cases:
  assumes "file_write fd path bytes env = (n, env')" and "files env path = Some c"
  obtains (progress) m where "n = int m" "m \<le> length bytes"
      "files env' = (files env)(path := Some (c @ take m bytes))"
      "\<And>k. steady (io env) k \<Longrightarrow> bytes \<noteq> [] \<Longrightarrow> 0 < m \<and> steady (io env') (k - m)"
    | (error) "n < 0" "files env' = files env"
      "\<And>k. 0 \<le> fd \<Longrightarrow> 0 < k \<Longrightarrow> steady (io env) k \<Longrightarrow> errno (io env') = EINTR \<and> steady (io env') k"
proof (cases "fd < 0")
  case True
  then show ?thesis using assms error by (auto simp: file_write_def)
next
  case False
  then obtain d where d: "sys_write bytes ((io env)\<lparr>sent := []\<rparr>) = (n, d)"
      "env' = env\<lparr>io := d\<lparr>sent := sent (io env) @ sent d\<rparr>, files := (files env)(path := Some (c @ sent d))\<rparr>"
    using assms by (auto simp: file_write_def split: prod.splits)
  show ?thesis
  proof (cases "answers (io env)")
    case Nil
    then show ?thesis using d assms(2)
      by (intro error) (auto simp: sys_write.simps steady_def)
  next
    case (Cons a as)
    show ?thesis
    proof (cases a)
      case (Wrote m)
      then have n: "n = int (min m (length bytes))" "answers (io env') = as"
          "files env' = (files env)(path := Some (c @ take (min m (length bytes)) bytes))"
        using d Cons by (auto simp: sys_write.simps min_def)
      have "0 < min m (length bytes) \<and> steady (io env') (k - min m (length bytes))"
        if "steady (io env) k" "bytes \<noteq> []" for k
      proof -
        have a: "\<forall>a \<in> set as. (\<exists>m. a = Wrote m \<and> 0 < m) \<or> a = Failed EINTR" "0 < m"
            "k \<le> Suc (length (filter (\<lambda>a. a \<noteq> Failed EINTR) as))"
          using that Cons Wrote by (auto simp: steady_def)
        then have "0 < min m (length bytes)" using that(2) by simp
        then have "k - min m (length bytes) \<le> k - 1" by linarith
        then show ?thesis using a \<open>0 < min m (length bytes)\<close> n(2) unfolding steady_def
          by (simp del: min_less_iff_conj)
      qed
      then show ?thesis using n by (intro progress [of "min m (length bytes)"]) simp_all
    next
      case (Failed e)
      then show ?thesis using d Cons assms(2)
        by (intro error) (auto simp: sys_write.simps steady_def)
    qed
  qed
qed

lemma flush_loop_writes:
  "file_flush_loop fd path buf pos tot env = (w, env') \<Longrightarrow> tot \<le> pos \<Longrightarrow> pos \<le> length buf \<Longrightarrow>
     files env path = Some c \<Longrightarrow> 0 \<le> fd \<Longrightarrow>
     tot \<le> w \<and> w \<le> pos \<and>
     files env' = (files env)(path := Some (c @ take (w - tot) (drop tot buf))) \<and>
     (\<forall>k. steady (io env) (pos - tot + k) \<longrightarrow> w = pos \<and> steady (io env') k)"
proof (induction fd path buf pos tot env arbitrary: w env' c rule: file_flush_loop.induct)
  case (1 fd path buf pos tot env)
  let ?bytes = "take (pos - tot) (drop tot buf)"
  note prems = 1(3-7)
  show ?case
  proof (cases "tot < pos")
    case False
    then show ?thesis using prems
      by (auto simp: file_flush_loop.simps [of fd path buf pos] fun_upd_idem)
  next
    case True
    obtain n env1 where fw: "file_write fd path ?bytes env = (n, env1)"
      by (cases "file_write fd path ?bytes env")
    have bl: "length ?bytes = pos - tot" "?bytes \<noteq> []" using prems(3) True by auto
    from fw prems(4) show ?thesis
    proof (cases rule: file_write_cases)
      case (progress m)
      have m: "m \<le> pos - tot" using progress(2) bl(1) by simp
      have f1: "files env1 path = Some (c @ take m (drop tot buf))"
        using progress(3) m by (simp add: min_absorb1)
      show ?thesis
      proof (cases "m = 0")
        case True
        have "\<not> steady (io env) k" for k using progress(4) [of k] bl(2) True by blast
        then show ?thesis
          using prems(1-4) fw progress(1,3) \<open>tot < pos\<close> True
          by (auto simp: file_flush_loop.simps [of fd path buf pos] fun_upd_idem)
      next
        case False
        have step: "file_flush_loop fd path buf pos (tot + m) env1 = (w, env')"
          using prems(1) fw progress(1) True False
          by (simp add: file_flush_loop.simps [of fd path buf pos tot env])
        have IH: "tot + m \<le> w \<and> w \<le> pos \<and>
            files env' = (files env1)(path := Some ((c @ take m (drop tot buf)) @
              take (w - (tot + m)) (drop (tot + m) buf))) \<and>
            (\<forall>k. steady (io env1) (pos - (tot + m) + k) \<longrightarrow> w = pos \<and> steady (io env') k)"
        proof -
          have nm: "nat n = m" "\<not> n < 0" "n \<noteq> 0" using progress(1) False by simp_all
          have "tot + m \<le> pos" using m True by simp
          from 1(2) [OF True fw [symmetric] nm(2,3), unfolded nm(1), OF step this prems(3) f1 prems(5)]
          show ?thesis .
        qed
        have tk: "take (w - tot) (drop tot buf)
            = take m (drop tot buf) @ take (w - (tot + m)) (drop (tot + m) buf)"
          using IH take_add [of m "w - (tot + m)" "drop tot buf"] by (simp add: add.commute)
        have st: "steady (io env1) (pos - (tot + m) + k)" if "steady (io env) (pos - tot + k)" for k
        proof -
          have "pos - tot + k - m = pos - (tot + m) + k" using m by simp
          then show ?thesis using progress(4) [OF that bl(2)] by metis
        qed
        have "\<forall>k. steady (io env) (pos - tot + k) \<longrightarrow> w = pos \<and> steady (io env') k"
          using IH st by blast
        moreover have "files env' = (files env)(path := Some (c @ take (w - tot) (drop tot buf)))"
          using IH progress(3) by (simp add: tk fun_eq_iff)
        ultimately show ?thesis using IH by auto
      qed
    next
      case error
      show ?thesis
      proof (cases "errno (io env1) = EINTR")
        case True
        have step: "file_flush_loop fd path buf pos tot env1 = (w, env')"
          using prems(1) fw error(1) True \<open>tot < pos\<close>
          by (simp add: file_flush_loop.simps [of fd path buf pos tot env])
        have st: "steady (io env1) (pos - tot + k)" if "steady (io env) (pos - tot + k)" for k
          using error(3) [OF prems(5) _ that] \<open>tot < pos\<close> by simp
        have "files env1 path = Some c" using error(2) prems(4) by simp
        note IH = 1(1) [OF \<open>tot < pos\<close> fw [symmetric] error(1) True step prems(2,3) this prems(5)]
        have "\<forall>k. steady (io env) (pos - tot + k) \<longrightarrow> w = pos \<and> steady (io env') k"
          using IH st by blast
        then show ?thesis using IH error(2) by simp
      next
        case False
        have "\<not> steady (io env) (pos - tot + k)" for k
          using error(3) [OF prems(5), of "pos - tot + k"] \<open>tot < pos\<close> False by auto
        then show ?thesis
          using prems(1-4) fw error(1,2) False \<open>tot < pos\<close>
          by (auto simp: file_flush_loop.simps [of fd path buf pos tot env] fun_upd_idem)
      qed
    qed
  qed
qed

lemma direct_loop_writes:
  "file_direct_loop fd path buf tot env = (w, env') \<Longrightarrow> tot \<le> length buf \<Longrightarrow>
     files env path = Some c \<Longrightarrow> 0 \<le> fd \<Longrightarrow>
     tot \<le> w \<and> w \<le> length buf \<and>
     files env' = (files env)(path := Some (c @ take (w - tot) (drop tot buf))) \<and>
     (\<forall>k. steady (io env) (length buf - tot + k) \<longrightarrow> w = length buf \<and> steady (io env') k)"
proof (induction fd path buf tot env arbitrary: w env' c rule: file_direct_loop.induct)
  case (1 fd path buf tot env)
  let ?bytes = "drop tot buf"
  note prems = 1(3-6)
  show ?case
  proof (cases "tot < length buf")
    case False
    then show ?thesis using prems
      by (auto simp: file_direct_loop.simps [of fd path buf] fun_upd_idem)
  next
    case True
    obtain n env1 where fw: "file_write fd path ?bytes env = (n, env1)"
      by (cases "file_write fd path ?bytes env")
    have bl: "length ?bytes = length buf - tot" "?bytes \<noteq> []" using True by auto
    from fw prems(3) show ?thesis
    proof (cases rule: file_write_cases)
      case (progress m)
      have m: "m \<le> length buf - tot" using progress(2) bl(1) by simp
      have f1: "files env1 path = Some (c @ take m (drop tot buf))"
        using progress(3) by simp
      show ?thesis
      proof (cases "m = 0")
        case m0: True
        have ns: "\<not> steady (io env) k" for k using progress(4) [of k] bl(2) m0 by blast
        have f0: "files env1 = files env" using progress(3) m0 prems(3) by (simp add: fun_upd_idem)
        show ?thesis
        proof (cases "errno (io env1) = EINTR")
          case ei: True
          have le: "n \<le> 0" using progress(1) m0 by simp
          have step: "file_direct_loop fd path buf tot env1 = (w, env')"
            using prems(1) fw le ei True
            by (simp add: file_direct_loop.simps [of fd path buf tot env])
          have "files env1 path = Some c" using f0 prems(3) by simp
          from 1(1) [OF True fw [symmetric] le ei step prems(2) this prems(4)]
          show ?thesis using ns f0 by simp
        next
          case ne: False
          have le: "n \<le> 0" using progress(1) m0 by simp
          have "w = tot" "env' = env1"
            using prems(1) fw le ne True
            by (simp_all add: file_direct_loop.simps [of fd path buf tot env])
          then show ?thesis using ns f0 prems(2,3) by (simp add: fun_upd_idem)
        qed
      next
        case False
        have nm: "nat n = m" "\<not> n \<le> 0" using progress(1) False by simp_all
        have step: "file_direct_loop fd path buf (tot + m) env1 = (w, env')"
          using prems(1) fw nm True
          by (simp add: file_direct_loop.simps [of fd path buf tot env])
        have "tot + m \<le> length buf" using m True by simp
        note IH = 1(2) [OF True fw [symmetric] nm(2), unfolded nm(1), OF step this f1 prems(4)]
        have tk: "take (w - tot) (drop tot buf)
            = take m (drop tot buf) @ take (w - (tot + m)) (drop (tot + m) buf)"
          using IH take_add [of m "w - (tot + m)" "drop tot buf"] by (simp add: add.commute)
        have st: "steady (io env1) (length buf - (tot + m) + k)" if "steady (io env) (length buf - tot + k)" for k
        proof -
          have "length buf - tot + k - m = length buf - (tot + m) + k" using m by simp
          then show ?thesis using progress(4) [OF that bl(2)] by metis
        qed
        have "\<forall>k. steady (io env) (length buf - tot + k) \<longrightarrow> w = length buf \<and> steady (io env') k"
          using IH st by blast
        moreover have "files env' = (files env)(path := Some (c @ take (w - tot) (drop tot buf)))"
          using IH progress(3) by (simp add: tk fun_eq_iff)
        ultimately show ?thesis using IH by auto
      qed
    next
      case error
      have le: "n \<le> 0" using error(1) by simp
      show ?thesis
      proof (cases "errno (io env1) = EINTR")
        case ei: True
        have step: "file_direct_loop fd path buf tot env1 = (w, env')"
          using prems(1) fw le ei True
          by (simp add: file_direct_loop.simps [of fd path buf tot env])
        have st: "steady (io env1) (length buf - tot + k)" if "steady (io env) (length buf - tot + k)" for k
          using error(3) [OF prems(4) _ that] True by simp
        have "files env1 path = Some c" using error(2) prems(3) by simp
        note IH = 1(1) [OF True fw [symmetric] le ei step prems(2) this prems(4)]
        have "\<forall>k. steady (io env) (length buf - tot + k) \<longrightarrow> w = length buf \<and> steady (io env') k"
          using IH st by blast
        then show ?thesis using IH error(2) by simp
      next
        case ne: False
        have "\<not> steady (io env) (length buf - tot + k)" for k
          using error(3) [OF prems(4), of "length buf - tot + k"] True ne by auto
        moreover have "w = tot" "env' = env1"
          using prems(1) fw le ne True
          by (simp_all add: file_direct_loop.simps [of fd path buf tot env])
        ultimately show ?thesis using error(2) prems(2,3) by (simp add: fun_upd_idem)
      qed
    qed
  qed
qed

section \<open>The state of the sink\<close>

definition file_pending :: "file_sink \<Rightarrow> char list" where
  "file_pending s = take (m_bufPos s) (m_buffer s)"

definition file_ok :: "file_sink \<Rightarrow> fenv \<Rightarrow> bool" where
  "file_ok s env \<longleftrightarrow>
     length (m_buffer s) = INTERNAL_BUF_SIZE \<and> m_bufPos s \<le> INTERNAL_BUF_SIZE \<and>
     (0 \<le> m_fd s \<longrightarrow> (\<exists>c. files env (m_baseFilename s) = Some c \<and> m_currentSize s = length c))"

lemma File_FlushBuffer_spec:
  assumes "file_ok s env" and "0 \<le> m_fd s" and "files env (m_baseFilename s) = Some c"
    and "File_FlushBuffer s env = (s', env')"
  obtains w where "w \<le> m_bufPos s"
    and "s' = s\<lparr>m_currentSize := m_currentSize s + w, m_bufPos := 0\<rparr>"
    and "files env' = (files env)(m_baseFilename s := Some (c @ take w (file_pending s)))"
    and "file_ok s' env'"
    and "\<And>k. steady (io env) (m_bufPos s + k) \<Longrightarrow> w = m_bufPos s \<and> steady (io env') k"
proof (cases "m_bufPos s = 0")
  case True
  then have "s' = s" "env' = env" using assms(4) by (simp_all add: File_FlushBuffer_def)
  then show ?thesis
    using True assms(1,3) by (intro that [of 0]) (simp_all add: fun_upd_idem)
next
  case False
  obtain w env1 where loop:
    "file_flush_loop (m_fd s) (m_baseFilename s) (m_buffer s) (m_bufPos s) 0 env = (w, env1)"
    by (cases "file_flush_loop (m_fd s) (m_baseFilename s) (m_buffer s) (m_bufPos s) 0 env")
  have "m_bufPos s \<le> length (m_buffer s)" using assms(1) by (simp add: file_ok_def)
  from flush_loop_writes [OF loop _ this assms(3,2)]
  have w: "w \<le> m_bufPos s"
    "files env1 = (files env)(m_baseFilename s := Some (c @ take w (m_buffer s)))"
    "\<And>k. steady (io env) (m_bufPos s + k) \<Longrightarrow> w = m_bufPos s \<and> steady (io env1) k" by simp_all
  have eq: "s' = s\<lparr>m_currentSize := m_currentSize s + w, m_bufPos := 0\<rparr>" "env' = env1"
    using assms(2,4) False loop by (simp_all add: File_FlushBuffer_def)
  have tk: "take w (file_pending s) = take w (m_buffer s)" using w(1) by (simp add: file_pending_def min_def)
  have "file_ok s' env'" using assms(1-3) w(1,2) unfolding file_ok_def eq by simp
  then show ?thesis using that [of w] w eq tk by simp
qed

section \<open>Rotation\<close>

definition file_name :: "char list \<Rightarrow> nat \<Rightarrow> char list" where
  "file_name base i = (if i = 0 then base else backup_name base i)"

lemma file_name_inj: "file_name base i = file_name base j \<longleftrightarrow> i = j"
  by (auto simp: file_name_def backup_name_def)

lemma rename_chain_from_1:
  "rename_chain name (Suc i) fs =
     snd (sys_rename (name 0) (name 1) (rename_chain (\<lambda>j. name (Suc j)) i fs))"
  by (induction i arbitrary: fs) simp_all

lemma File_rename_loop_chain:
  "i < m - 1 \<Longrightarrow> File_rename_loop base m i fs = rename_chain (\<lambda>j. backup_name base (Suc j)) i fs"
  by (induction i arbitrary: fs) (simp_all add: Let_def)

lemma File_rename_all_chain:
  "File_rename_all base (Suc n) fs =
     rename_chain (file_name base) (Suc n)
       (if n = 0 then fs else sys_unlink (file_name base (Suc n)) fs)"
proof -
  have names: "(\<lambda>j. backup_name base (Suc j)) = (\<lambda>j. file_name base (Suc j))"
    by (simp add: file_name_def)
  have "File_rename_loop base (Suc n) n fs
      = rename_chain (\<lambda>j. file_name base (Suc j)) n
          (if n = 0 then fs else sys_unlink (file_name base (Suc n)) fs)"
  proof (cases n)
    case (Suc i)
    have "File_rename_loop base (Suc n) i fs' = rename_chain (\<lambda>j. file_name base (Suc j)) i fs'" for fs'
      using File_rename_loop_chain [of i "Suc n" base fs'] Suc by (simp add: names)
    then show ?thesis using Suc by (simp add: Let_def file_name_def)
  qed simp
  then show ?thesis
    unfolding File_rename_all_def rename_chain_from_1 by (simp add: file_name_def)
qed

interpretation file_gen: file_rotation "file_name base" "Suc n" "File_rename_all base (Suc n)"
  for base n
proof -
  have inj: "inj_on (file_name base) {0..Suc n}" by (simp add: inj_on_def file_name_inj)
  have chain: "file_rotation (file_name base) (Suc n) (rename_chain (file_name base) (Suc n))"
    by (rule rename_chain_rotation [OF _ inj]) simp
  let ?cl = "\<lambda>fs. if n = 0 then fs else sys_unlink (file_name base (Suc n)) fs"
  have keep: "?cl fs (file_name base i) = fs (file_name base i)" if "i < Suc n" for fs i
    using that by (simp add: sys_unlink_def file_name_inj)
  show "file_rotation (file_name base) (Suc n) (File_rename_all base (Suc n))"
  proof
    show "i = j" if "file_name base i = file_name base j" for i j using that by (simp add: file_name_inj)
    fix i fs
    assume i: "i < Suc n"
    show "File_rename_all base (Suc n) fs (file_name base (Suc i)) = Some c"
      if "fs (file_name base i) = Some c" for c
      unfolding File_rename_all_chain
      by (rule file_rotation.shifted [OF chain i]) (simp add: keep [OF i] that)
    show "File_rename_all base (Suc n) fs (file_name base (Suc i)) = None \<or>
          File_rename_all base (Suc n) fs (file_name base (Suc i)) = fs (file_name base (Suc i))"
      if "fs (file_name base i) = None"
    proof -
      have "?cl fs (file_name base (Suc i)) = None \<or>
            ?cl fs (file_name base (Suc i)) = fs (file_name base (Suc i))"
        by (simp add: sys_unlink_def)
      moreover have "?cl fs (file_name base i) = None" using keep [OF i] that by simp
      ultimately show ?thesis
        unfolding File_rename_all_chain using file_rotation.hole [OF chain i, of "?cl fs"] by metis
    qed
  next
    show "File_rename_all base (Suc n) fs (file_name base 0) = None" for fs
      unfolding File_rename_all_chain by (rule file_rotation.vacated [OF chain])
    fix p fs assume p: "p \<notin> file_name base ` {0..Suc n}"
    then have "?cl fs p = fs p" by (auto simp: sys_unlink_def)
    then show "File_rename_all base (Suc n) fs p = fs p"
      unfolding File_rename_all_chain using file_rotation.others [OF chain p, of "?cl fs"] by simp
  qed simp
qed

text \<open>Every backup below a missing one is missing.\<close>

definition gapless_backups :: "char list \<Rightarrow> nat \<Rightarrow> files \<Rightarrow> bool" where
  "gapless_backups base n fs \<longleftrightarrow>
     (\<forall>i < n. fs (file_name base i) = None \<longrightarrow> fs (file_name base (Suc i)) = None)"

lemma gapless_backups_eq: "gapless_backups base (Suc n) fs = file_gen.gapless base n fs"
  by (simp add: gapless_backups_def file_gen.gapless_def)

lemma File_RotateFiles_spec:
  assumes ok: "file_ok s env" and fd: "0 \<le> m_fd s" and cur: "files env (m_baseFilename s) = Some c"
    and m: "m_maxFiles s = Suc n" and rot: "File_RotateFiles s env = (s', env')"
  obtains w and env1 :: fenv where "w \<le> m_bufPos s"
    and "files env1 = (files env)(m_baseFilename s := Some (c @ take w (file_pending s)))"
    and "m_bufPos s' = 0" and "m_currentSize s' = 0" and "m_baseFilename s' = m_baseFilename s"
    and "m_maxFiles s' = Suc n" and "m_maxSize s' = m_maxSize s" and "file_ok s' env'"
    and "0 \<le> m_fd s' \<longleftrightarrow> (case opens env1 of [] \<Rightarrow> True | b # _ \<Rightarrow> b)"
    and "files env' = (let fs = File_rename_all (m_baseFilename s) (Suc n) (files env1)
                       in if 0 \<le> m_fd s' then fs(m_baseFilename s := Some []) else fs)"
proof -
  obtain s1 env1 where fl: "File_FlushBuffer s env = (s1, env1)" by (cases "File_FlushBuffer s env")
  from File_FlushBuffer_spec [OF ok fd cur fl] obtain w where
    w: "w \<le> m_bufPos s" "s1 = s\<lparr>m_currentSize := m_currentSize s + w, m_bufPos := 0\<rparr>"
      "files env1 = (files env)(m_baseFilename s := Some (c @ take w (file_pending s)))"
    by metis
  show ?thesis
    by (rule that [OF w(1,3)])
       (use rot ok fd m in \<open>auto simp: File_RotateFiles_def fl w(2) File_OpenFile_def file_open_def
          file_ok_def Let_def split: list.splits if_splits\<close>)
qed

section \<open>Properties\<close>

text \<open>
  C10: Rotation keeps the history: after the pending bytes have been flushed, the current file
  and every backup move up by one number, the oldest of the \<open>maxFiles\<close> backups is the only
  one lost, the current file is new and empty, and no other file is touched. The numbering
  stays gapless.
\<close>

theorem File_rotation_shifts:
  assumes "file_ok s env" and "0 \<le> m_fd s" and "files env (m_baseFilename s) = Some c"
    and "0 < m_maxFiles s" and "gapless_backups (m_baseFilename s) (m_maxFiles s) (files env)"
    and "File_RotateFiles s env = (s', env')" and "0 \<le> m_fd s'"
  shows "files env' (m_baseFilename s) = Some [] \<and> m_currentSize s' = 0 \<and> m_bufPos s' = 0 \<and>
         (\<exists>w \<le> m_bufPos s. files env' (backup_name (m_baseFilename s) 1)
                             = Some (c @ take w (file_pending s))) \<and>
         (\<forall>i. 0 < i \<and> i < m_maxFiles s \<longrightarrow>
              files env' (backup_name (m_baseFilename s) (Suc i))
                = files env (backup_name (m_baseFilename s) i)) \<and>
         (\<forall>p. p \<notin> file_name (m_baseFilename s) ` {0..m_maxFiles s} \<longrightarrow> files env' p = files env p) \<and>
         gapless_backups (m_baseFilename s) (m_maxFiles s) (files env')"
proof -
  let ?b = "m_baseFilename s"
  obtain n where n: "m_maxFiles s = Suc n" using assms(4) by (cases "m_maxFiles s") auto
  from File_RotateFiles_spec [OF assms(1-3) n assms(6)] obtain w and env1 :: fenv where
    w0: "w \<le> m_bufPos s" "files env1 = (files env)(?b := Some (c @ take w (file_pending s)))"
      "m_bufPos s' = 0" "m_currentSize s' = 0"
      "files env' = (let fs = File_rename_all ?b (Suc n) (files env1)
                     in if 0 \<le> m_fd s' then fs(?b := Some []) else fs)"
    by metis
  have "files env' = (File_rename_all ?b (Suc n) (files env1))(?b := Some [])"
    using w0(5) assms(7) by (simp add: Let_def)
  note w = w0(1-4) this
  have n0: "file_name ?b 0 = ?b" by (simp add: file_name_def)
  have ne: "file_name ?b (Suc i) \<noteq> ?b" for i using file_name_inj [of ?b "Suc i" 0] by (simp add: n0)
  have gap: "file_gen.gapless ?b n (files env1)"
    using assms(5) ne unfolding n gapless_backups_eq file_gen.gapless_def w(2)
    by (auto simp: n0)
  have move: "files env' (file_name ?b (Suc i)) = files env1 (file_name ?b i)" if "i < Suc n" for i
    using file_gen.rotate_moves [OF gap that] ne by (simp add: w(5))
  have "files env' (backup_name ?b 1) = Some (c @ take w (file_pending s))"
    using move [of 0] by (simp add: file_name_def w(2))
  moreover have "files env' (backup_name ?b (Suc i)) = files env (backup_name ?b i)"
    if "0 < i" "i < Suc n" for i
  proof -
    have "backup_name ?b i \<noteq> ?b" by (simp add: backup_name_def)
    then show ?thesis using move [OF that(2)] that(1) by (simp add: file_name_def w(2))
  qed
  moreover have "files env' p = files env p" if "p \<notin> file_name ?b ` {0..Suc n}" for p
  proof -
    have "p \<noteq> ?b" using that n0 by (metis atLeastAtMost_iff imageI le0)
    then show ?thesis using file_gen.others [OF that, of "files env1"] by (simp add: w(2,5))
  qed
  moreover have "gapless_backups ?b (Suc n) (files env')"
    unfolding gapless_backups_eq w(5) using file_gen.rotate_current [OF gap, of "[]"] by (simp add: n0)
  ultimately show ?thesis using w by (auto simp: n)
qed

lemma File_flush_keeps:
  assumes "file_ok s env" and "File_FlushBuffer s env = (s', env')"
  shows "file_ok s' env' \<and> m_currentSize s' + m_bufPos s' \<le> m_currentSize s + m_bufPos s \<and>
         m_maxSize s' = m_maxSize s \<and> m_fd s' = m_fd s \<and> m_baseFilename s' = m_baseFilename s \<and>
         (0 \<le> m_fd s \<longrightarrow> m_bufPos s' = 0)"
proof (cases "m_fd s < 0")
  case True
  then have "s' = s" "env' = env" using assms(2) by (simp_all add: File_FlushBuffer_def)
  then show ?thesis using assms(1) True by simp
next
  case False
  then obtain c where "files env (m_baseFilename s) = Some c" using assms(1) by (auto simp: file_ok_def)
  then obtain w where "w \<le> m_bufPos s" "s' = s\<lparr>m_currentSize := m_currentSize s + w, m_bufPos := 0\<rparr>"
      "file_ok s' env'"
    using File_FlushBuffer_spec [OF assms(1) _ _ assms(2)] False by (metis not_le)
  then show ?thesis by simp
qed

lemma File_rotate_resets:
  assumes ok: "file_ok s env" and fd: "0 \<le> m_fd s" and m: "0 < m_maxFiles s"
    and rot: "File_RotateFiles s env = (s', env')"
  shows "file_ok s' env' \<and> m_bufPos s' = 0 \<and> m_currentSize s' = 0 \<and> m_maxSize s' = m_maxSize s \<and>
         m_maxFiles s' = m_maxFiles s"
proof -
  obtain c where c: "files env (m_baseFilename s) = Some c" using ok fd by (auto simp: file_ok_def)
  obtain n where n: "m_maxFiles s = Suc n" using m by (cases "m_maxFiles s") auto
  show ?thesis by (rule File_RotateFiles_spec [OF ok fd c n rot]) (simp add: n)
qed

lemma File_store:
  assumes "file_ok s env" and "m_bufPos s + length buf \<le> INTERNAL_BUF_SIZE"
  defines "s' \<equiv> s\<lparr>m_buffer := memcpy_at (m_buffer s) (m_bufPos s) buf, m_bufPos := m_bufPos s + length buf\<rparr>"
  shows "file_ok s' env" and "file_pending s' = file_pending s @ buf"
  using assms by (simp_all add: file_ok_def file_pending_def)

text \<open>The part of \<open>sink_it_\<close> after the rotation.\<close>

definition File_put :: "char list \<Rightarrow> file_sink \<Rightarrow> fenv \<Rightarrow> file_sink \<times> fenv" where
  "File_put buf s env =
     (if INTERNAL_BUF_SIZE < length buf then
        let (s, env) = File_FlushBuffer s env;
            (tot, env) = file_direct_loop (m_fd s) (m_baseFilename s) buf 0 env
        in (s\<lparr>m_currentSize := m_currentSize s + tot\<rparr>, env)
      else
        let (s, env) = (if INTERNAL_BUF_SIZE < m_bufPos s + length buf
                        then File_FlushBuffer s env else (s, env))
        in (s\<lparr>m_buffer := memcpy_at (m_buffer s) (m_bufPos s) buf,
              m_bufPos := m_bufPos s + length buf\<rparr>, env))"

lemma File_sink_it_put:
  "File_sink_it buf s env =
     (if m_fd s < 0 then (s, env)
      else case (if 0 < m_maxSize s \<and> m_maxSize s < m_currentSize s + m_bufPos s + length buf
                 then File_RotateFiles s env else (s, env)) of
             (s1, env1) \<Rightarrow> File_put buf s1 env1)"
  by (simp add: File_sink_it_def File_put_def)

lemma File_put_spec:
  assumes ok: "file_ok s env" and fd: "0 \<le> m_fd s" and cur: "files env (m_baseFilename s) = Some c"
    and put: "File_put buf s env = (s', env')"
  shows "file_ok s' env' \<and>
         m_currentSize s' + m_bufPos s' \<le> m_currentSize s + m_bufPos s + length buf \<and>
         m_baseFilename s' = m_baseFilename s \<and>
         (steady (io env) (m_bufPos s + length buf) \<longrightarrow>
            (\<exists>c'. files env' (m_baseFilename s) = Some c' \<and>
                  c' @ file_pending s' = c @ file_pending s @ buf))"
proof -
  obtain s1 env1 where fl: "File_FlushBuffer s env = (s1, env1)" by (cases "File_FlushBuffer s env")
  from File_FlushBuffer_spec [OF ok fd cur fl] obtain w where
    w: "w \<le> m_bufPos s" "s1 = s\<lparr>m_currentSize := m_currentSize s + w, m_bufPos := 0\<rparr>"
      "files env1 = (files env)(m_baseFilename s := Some (c @ take w (file_pending s)))" "file_ok s1 env1"
      "\<And>k. steady (io env) (m_bufPos s + k) \<Longrightarrow> w = m_bufPos s \<and> steady (io env1) k" by blast
  have full: "take (m_bufPos s) (file_pending s) = file_pending s" by (simp add: file_pending_def)
  have c1: "files env1 (m_baseFilename s1) = Some (c @ take w (file_pending s))" by (simp add: w(2,3))
  have fd1: "0 \<le> m_fd s1" using fd by (simp add: w(2))
  consider (big) "INTERNAL_BUF_SIZE < length buf"
    | (flush) "length buf \<le> INTERNAL_BUF_SIZE" "INTERNAL_BUF_SIZE < m_bufPos s + length buf"
    | (room) "m_bufPos s + length buf \<le> INTERNAL_BUF_SIZE" by linarith
  then show ?thesis
  proof cases
    case big
    obtain v env2 where dl: "file_direct_loop (m_fd s1) (m_baseFilename s1) buf 0 env1 = (v, env2)"
      by (cases "file_direct_loop (m_fd s1) (m_baseFilename s1) buf 0 env1")
    from direct_loop_writes [OF dl _ c1 fd1]
    have v: "v \<le> length buf" "files env2 = (files env1)(m_baseFilename s1 :=
          Some ((c @ take w (file_pending s)) @ take v buf))"
        "\<And>k. steady (io env1) (length buf + k) \<Longrightarrow> v = length buf" by auto
    have r: "s' = s1\<lparr>m_currentSize := m_currentSize s1 + v\<rparr>" "env' = env2"
      using put big fl dl by (simp_all add: File_put_def)
    have "w = m_bufPos s \<and> v = length buf" if "steady (io env) (m_bufPos s + length buf)"
      using w(5) [OF that] v(3) [of 0] by simp
    then show ?thesis
      using r v(1,2) w(1,2,4) c1 full by (auto simp: file_ok_def file_pending_def)
  next
    case flush
    have r: "s' = s1\<lparr>m_buffer := memcpy_at (m_buffer s1) (m_bufPos s1) buf,
                     m_bufPos := m_bufPos s1 + length buf\<rparr>" "env' = env1"
      using put flush fl by (simp_all add: File_put_def)
    have "m_bufPos s1 + length buf \<le> INTERNAL_BUF_SIZE" using flush(1) by (simp add: w(2))
    note st = File_store [OF w(4) this, folded r(1)]
    have "file_pending s1 = []" by (simp add: w(2) file_pending_def)
    then show ?thesis using st w(1) w(5) [of "length buf"] c1 r full by (auto simp: w(2))
  next
    case room
    have "length buf \<le> INTERNAL_BUF_SIZE" using room by simp
    then have r: "s' = s\<lparr>m_buffer := memcpy_at (m_buffer s) (m_bufPos s) buf,
                     m_bufPos := m_bufPos s + length buf\<rparr>" "env' = env"
      using put room by (simp_all add: File_put_def)
    show ?thesis using File_store [OF ok room, folded r(1)] r cur by simp
  qed
qed

text \<open>After a rotation that could not open the new file: nothing is written, the buffer is kept.\<close>

lemma File_put_closed:
  assumes "file_ok s env" and closed: "\<not> 0 \<le> m_fd s" and pos: "m_bufPos s = 0" "m_currentSize s = 0"
    and put: "File_put buf s env = (s', env')"
  shows "file_ok s' env' \<and> m_currentSize s' + m_bufPos s' \<le> length buf"
proof -
  have fl: "File_FlushBuffer s env = (s, env)" using closed by (simp add: File_FlushBuffer_def)
  have dl: "fst (file_direct_loop (m_fd s) (m_baseFilename s) buf 0 env) = 0"
    using closed by (subst file_direct_loop.simps) (simp add: file_write_def)
  show ?thesis
  proof (cases "INTERNAL_BUF_SIZE < length buf")
    case True
    then have "s' = s\<lparr>m_currentSize := 0\<rparr>"
      using put fl dl pos by (auto simp: File_put_def split: prod.splits)
    then show ?thesis using assms(1) pos closed by (simp add: file_ok_def)
  next
    case False
    then have "s' = s\<lparr>m_buffer := memcpy_at (m_buffer s) (m_bufPos s) buf,
                   m_bufPos := m_bufPos s + length buf\<rparr>" "env' = env"
      using put fl pos by (simp_all add: File_put_def)
    then show ?thesis using File_store [OF assms(1), of buf] False pos by simp
  qed
qed

text \<open>
  C33: The log file stays within its limit: after each message, what the file holds and what
  is still buffered for it together exceed \<open>m_maxSize\<close> only if that one message does. The
  size the sink counts is the size of the file, whatever the writes return.
\<close>

theorem File_size_bound:
  assumes "file_ok s env" and "0 < m_maxSize s" and "0 < m_maxFiles s"
    and fd: "0 \<le> m_fd s" and "File_sink_it buf s env = (s', env')"
  shows "file_ok s' env' \<and>
         m_currentSize s' + m_bufPos s' \<le> max (m_maxSize s) (length buf)"
proof -
  let ?rot = "0 < m_maxSize s \<and> m_maxSize s < m_currentSize s + m_bufPos s + length buf"
  obtain s1 env1 where r: "(if ?rot then File_RotateFiles s env else (s, env)) = (s1, env1)"
    by (cases "if ?rot then File_RotateFiles s env else (s, env)")
  have put: "File_put buf s1 env1 = (s', env')"
    using assms(5) fd r by (simp add: File_sink_it_put)
  have s1: "file_ok s1 env1 \<and> m_currentSize s1 + m_bufPos s1 + length buf \<le> max (m_maxSize s) (length buf)"
  proof (cases ?rot)
    case True
    then have "File_RotateFiles s env = (s1, env1)" using r by simp
    from File_rotate_resets [OF assms(1) fd assms(3) this] show ?thesis by simp
  next
    case False
    then show ?thesis using r assms(1,2) by auto
  qed
  show ?thesis
  proof (cases "0 \<le> m_fd s1")
    case True
    then obtain c where "files env1 (m_baseFilename s1) = Some c" using s1 by (auto simp: file_ok_def)
    from File_put_spec [OF conjunct1 [OF s1] True this put] s1 show ?thesis by auto
  next
    case closed: False
    have "m_bufPos s1 = 0" "m_currentSize s1 = 0"
      using closed fd r File_rotate_resets [OF assms(1) fd assms(3)] by (auto split: if_splits)
    from File_put_closed [OF conjunct1 [OF s1] closed this put] show ?thesis by auto
  qed
qed

text \<open>
  Nothing is lost on a disk that keeps accepting bytes: as long as no rotation is due,
  each message, of whatever length, is appended to the file followed by the buffer, exactly
  once and after everything logged before it.
\<close>

theorem File_sink_it_lossless:
  assumes "file_ok s env" and "0 \<le> m_fd s" and "files env (m_baseFilename s) = Some c"
    and "m_maxSize s = 0 \<or> m_currentSize s + m_bufPos s + length buf \<le> m_maxSize s"
    and "steady (io env) (m_bufPos s + length buf)"
    and "File_sink_it buf s env = (s', env')"
  shows "\<exists>c'. files env' (m_baseFilename s) = Some c' \<and>
              c' @ file_pending s' = c @ file_pending s @ buf"
proof -
  have "File_put buf s env = (s', env')"
    using assms(2,4,6) by (auto simp: File_sink_it_put)
  from File_put_spec [OF assms(1-3) this] assms(5) show ?thesis by blast
qed

section \<open>Instances\<close>

definition ex_sink :: file_sink where
  "ex_sink = \<lparr>m_fd = 3, m_baseFilename = ''a.log'', m_buffer = replicate INTERNAL_BUF_SIZE NUL,
              m_bufPos = 0, m_currentSize = 2, m_maxSize = 3, m_maxFiles = 2\<rparr>"

definition ex_env :: fenv where
  "ex_env = \<lparr>files = [''a.log'' \<mapsto> ''xy''], io = \<lparr>answers = [Wrote 1], sent = [], errno = EOK\<rparr>,
             opens = [], stderr = []\<rparr>"

lemma ex_ok: "file_ok ex_sink ex_env"
  by (simp add: file_ok_def ex_sink_def ex_env_def)

lemma ex_gapless: "gapless_backups ''a.log'' 2 (files ex_env)"
  by (simp add: gapless_backups_def ex_env_def file_name_def backup_name_def)

theorem File_rotation_shifts_witness:
  "files (snd (File_RotateFiles ex_sink ex_env)) (backup_name ''a.log'' 1) = Some ''xy''"
proof -
  obtain s' env' where r: "File_RotateFiles ex_sink ex_env = (s', env')"
    by (cases "File_RotateFiles ex_sink ex_env")
  then have "m_fd s' = 3"
    by (auto simp: File_RotateFiles_def File_FlushBuffer_def ex_sink_def ex_env_def File_OpenFile_def
        file_open_def Let_def)
  then have "0 \<le> m_fd s'" by simp
  from File_rotation_shifts [OF ex_ok _ _ _ _ r this, of "''xy''"] ex_gapless show ?thesis
    unfolding r by (simp add: ex_sink_def ex_env_def file_pending_def)
qed

theorem File_size_bound_witness:
  "m_currentSize (fst (File_sink_it ''ab'' ex_sink ex_env)) +
   m_bufPos (fst (File_sink_it ''ab'' ex_sink ex_env)) \<le> 3"
proof -
  obtain s' env' where r: "File_sink_it ''ab'' ex_sink ex_env = (s', env')"
    by (cases "File_sink_it ''ab'' ex_sink ex_env")
  from File_size_bound [OF ex_ok _ _ _ r] show ?thesis
    unfolding r by (simp add: ex_sink_def)
qed

theorem File_sink_it_lossless_witness:
  "\<exists>c'. files (snd (File_sink_it ''a'' ex_sink ex_env)) ''a.log'' = Some c' \<and>
        c' @ file_pending (fst (File_sink_it ''a'' ex_sink ex_env)) = ''xya''"
proof -
  obtain s' env' where r: "File_sink_it ''a'' ex_sink ex_env = (s', env')"
    by (cases "File_sink_it ''a'' ex_sink ex_env")
  have "steady (io ex_env) 1" by (simp add: steady_def ex_env_def)
  with File_sink_it_lossless [OF ex_ok _ _ _ _ r, of "''xy''"] show ?thesis
    unfolding r by (simp add: ex_sink_def ex_env_def file_pending_def)
qed

end
