(* ===== verification/Mcap.thy ===== *)
theory Mcap
  imports FileSink
begin

text \<open>
  The MCAP file sinks: \<open>FileWriterCustom\<close> and \<open>DataSinkPBMcap\<close> of \<open>dtDataSinkPBMcap.hpp\<close> and
  the rotator of \<open>dtDataSinkPBMcapRotator.hpp\<close>. The MCAP library's writer is a parameter: what
  the sink does with it is the list of calls it makes, and whether a write succeeds is an
  answer in the state. Protocol-buffer file descriptors are names with a dependency function.
\<close>

section \<open>The file behind the writer\<close>

record fwriter =
  fw_fd :: int
  fw_size :: nat

definition fwriter_new :: fwriter where
  "fwriter_new = \<lparr>fw_fd = -1, fw_size = 0\<rparr>"

text \<open>\<open>seek_end\<close> is whether \<open>lseek(fd, 0, SEEK_END)\<close> succeeds; it then returns the file's size.\<close>

definition FW_open :: "char list \<Rightarrow> bool \<Rightarrow> bool \<Rightarrow> fwriter \<Rightarrow> fenv \<Rightarrow> int \<times> fwriter \<times> fenv" where
  "FW_open filename trunc seek_end w env =
     (case file_open filename trunc env of
        (fd, env') \<Rightarrow>
          if fd < 0 then (-1, w\<lparr>fw_fd := fd\<rparr>, env')
          else if trunc then (0, w\<lparr>fw_fd := fd, fw_size := 0\<rparr>, env')
          else if \<not> seek_end then (-1, w\<lparr>fw_fd := -1\<rparr>, env')
          else (0, w\<lparr>fw_fd := fd, fw_size := (case files env' filename of Some c \<Rightarrow> length c | None \<Rightarrow> 0)\<rparr>, env'))"

function FW_handleWrite :: "char list \<Rightarrow> char list \<Rightarrow> fwriter \<Rightarrow> fenv \<Rightarrow> fwriter \<times> fenv" where
  "FW_handleWrite path ptr w env =
     (if ptr = [] then (w, env)
      else case file_write (fw_fd w) path ptr env of
        (written, env') \<Rightarrow>
          if written < 0 then
            (if errno (io env') = EINTR then FW_handleWrite path ptr w env' else (w, env'))
          else FW_handleWrite path (drop (nat written) ptr) (w\<lparr>fw_size := fw_size w + nat written\<rparr>) env')"
  by pat_completeness auto
termination
proof (relation "measure (\<lambda>(path, ptr, w, env). length (answers (io env)))", goal_cases)
  case (2 path ptr w env n env')
  from file_write_answers [OF 2(2) [symmetric]] 2 show ?case by auto
next
  case (3 path ptr w env n env')
  from file_write_answers [OF 3(2) [symmetric]] 3 show ?case by auto
qed simp

declare FW_handleWrite.simps [simp del]

definition FW_end :: "fwriter \<Rightarrow> fwriter" where
  "FW_end w = w\<lparr>fw_fd := (if 0 \<le> fw_fd w then -1 else fw_fd w), fw_size := 0\<rparr>"

section \<open>The sink\<close>

record mcap_msg =
  channelId :: nat
  sequence :: u32
  stamp :: int
  payload :: "char list"

datatype writer_call =
    W_open nat bool
  | W_addSchema "char list" "char list list"
  | W_addChannel "char list"
  | W_write mcap_msg
  | W_terminate
  | W_close

record mcap_sink =
  mc_topic :: "char list"
  mc_file :: "char list"
  mc_writer :: fwriter
  mc_calls :: "writer_call list"
  mc_channel :: nat
  mc_count :: u32
  mc_open :: bool
  mc_log :: "char list list"
  mc_results :: "bool list"

text \<open>
  \<open>BuildFileDescriptorSet\<close>: breadth-first over the imports of a file, each file once. On an
  infinite import graph it would not end.
\<close>

fun add_deps :: "'f list \<Rightarrow> 'f list \<Rightarrow> 'f list \<Rightarrow> 'f list \<times> 'f list" where
  "add_deps [] seen toAdd = (seen, toAdd)"
| "add_deps (dep # deps) seen toAdd =
     (if dep \<in> set seen then add_deps deps seen toAdd
      else add_deps deps (seen @ [dep]) (toAdd @ [dep]))"

partial_function (option) descriptor_loop ::
    "('f \<Rightarrow> 'f list) \<Rightarrow> 'f list \<Rightarrow> 'f list \<Rightarrow> 'f list \<Rightarrow> 'f list option" where
  "descriptor_loop dependency seen toAdd fdSet =
     (case toAdd of
        [] \<Rightarrow> Some fdSet
      | nxt # rest \<Rightarrow>
          (case add_deps (dependency nxt) seen rest of
             (seen', toAdd') \<Rightarrow> descriptor_loop dependency seen' toAdd' (fdSet @ [nxt])))"

definition BuildFileDescriptorSet :: "('f \<Rightarrow> 'f list) \<Rightarrow> 'f \<Rightarrow> 'f list option" where
  "BuildFileDescriptorSet dependency toplevel = descriptor_loop dependency [toplevel] [toplevel] []"

text \<open>
  The constructor after the file name has been decided and its directory has been made
  (\<open>dir_ok\<close>): when the file cannot be opened the sink stays closed. The channel id is
  what the library assigns.
\<close>

definition DataSinkPBMcap ::
    "char list \<Rightarrow> char list \<Rightarrow> bool \<Rightarrow> bool \<Rightarrow> nat \<Rightarrow> bool \<Rightarrow> bool \<Rightarrow> char list \<Rightarrow> char list list \<Rightarrow> nat \<Rightarrow>
     bool list \<Rightarrow> fenv \<Rightarrow> mcap_sink \<times> fenv" where
  "DataSinkPBMcap topic_name fname trunc no_chunking chunk_size dir_ok seek_ok schema fds chan results env =
     (let dirname = fst (split_by_directory fname);
          log = (if dirname \<noteq> [] \<and> \<not> dir_ok
                 then [''[MCAP] Failed to create containing directory ('' @ dirname @ '').''] else []);
          s = \<lparr>mc_topic = topic_name, mc_file = fname, mc_writer = fwriter_new, mc_calls = [],
               mc_channel = 0, mc_count = 0, mc_open = False, mc_log = log, mc_results = results\<rparr>
      in case FW_open fname trunc seek_ok fwriter_new env of
           (ret, w, env') \<Rightarrow>
             if ret < 0 then (s\<lparr>mc_writer := w\<rparr>, env')
             else (s\<lparr>mc_writer := w, mc_open := True,
                     mc_calls := [W_open chunk_size no_chunking, W_addSchema schema fds, W_addChannel topic_name],
                     mc_channel := chan\<rparr>, env'))"

definition Mcap_HandleWriteError :: "mcap_sink \<Rightarrow> mcap_sink" where
  "Mcap_HandleWriteError s =
     s\<lparr>mc_open := False, mc_log := mc_log s @ [''[MCAP] Failed to write message.'' @ [NL]],
       mc_calls := mc_calls s @ [W_terminate, W_close]\<rparr>"

definition writer_write :: "mcap_msg \<Rightarrow> mcap_sink \<Rightarrow> bool \<times> mcap_sink" where
  "writer_write m s =
     ((case mc_results s of [] \<Rightarrow> True | r # _ \<Rightarrow> r),
      s\<lparr>mc_calls := mc_calls s @ [W_write m], mc_results := tl (mc_results s)\<rparr>)"

definition Mcap_Publish :: "int \<Rightarrow> char list \<Rightarrow> mcap_sink \<Rightarrow> mcap_sink" where
  "Mcap_Publish publishTime serialized s =
     (if \<not> mc_open s then s\<lparr>mc_log := mc_log s @ [''[MCAP] Publish error: file is not opened!!!'']\<rparr>
      else
        let m = \<lparr>channelId = mc_channel s, sequence = mc_count s, stamp = publishTime, payload = serialized\<rparr>;
            s = s\<lparr>mc_count := mc_count s + 1\<rparr>;
            (ok, s) = writer_write m s
        in if ok then s else Mcap_HandleWriteError s)"

definition Mcap_Write :: "mcap_msg \<Rightarrow> mcap_sink \<Rightarrow> mcap_sink" where
  "Mcap_Write m s =
     (if \<not> mc_open s then s\<lparr>mc_log := mc_log s @ [''[MCAP] Write error: file is not opened!!!'']\<rparr>
      else let (ok, s) = writer_write m s in if ok then s else Mcap_HandleWriteError s)"

definition Mcap_Close :: "mcap_sink \<Rightarrow> mcap_sink" where
  "Mcap_Close s =
     (if \<not> mc_open s then s
      else s\<lparr>mc_open := False, mc_calls := mc_calls s @ [W_close],
             mc_log := mc_log s @ [''Closed MCAP file: '' @ mc_file s]\<rparr>)"

definition Mcap_IsOpen :: "mcap_sink \<Rightarrow> bool" where
  "Mcap_IsOpen s = mc_open s"

section \<open>The rotator\<close>

text \<open>
  \<open>bytes\<close> is what the MCAP library has written to the file for a list of calls; when a sink
  is destroyed its file holds the bytes of all calls. \<open>refuses\<close> are the sources on which
  \<open>rename\<close> fails. The result of a rotation is the exception's message or the new state.
\<close>

record rotator =
  rt_current :: "mcap_sink option"
  rt_topic :: "char list"
  rt_file :: "char list"
  rt_max_size :: nat
  rt_max_count :: nat
  rt_size :: nat
  rt_no_chunking :: bool
  rt_chunk :: nat

fun rotator_loop :: "(char list \<Rightarrow> bool) \<Rightarrow> char list \<Rightarrow> nat \<Rightarrow> files \<Rightarrow> (char list \<times> files) + files" where
  "rotator_loop refuses base 0 fs = Inr fs"
| "rotator_loop refuses base (Suc i) fs =
     (let source = annotate_filename_index base i
      in if \<not> path_exists fs source then rotator_loop refuses base i fs
         else
           let target = annotate_filename_index base (Suc i)
           in if refuses source then
                Inl (''rotating_file_sink: failed renaming '' @ source @ '' to '' @ target, sys_unlink target fs)
              else rotator_loop refuses base i (snd (rename_file source target fs)))"

definition new_mcap :: "rotator \<Rightarrow> fenv \<Rightarrow> mcap_sink \<times> fenv" where
  "new_mcap r env =
     DataSinkPBMcap (rt_topic r) (rt_file r) True (rt_no_chunking r) (rt_chunk r) True True [] [] 1 [] env"

definition Rotate ::
    "(writer_call list \<Rightarrow> char list) \<Rightarrow> (char list \<Rightarrow> bool) \<Rightarrow> rotator \<Rightarrow> fenv \<Rightarrow>
     char list option \<times> rotator \<times> fenv" where
  "Rotate bytes refuses r env =
     (let fs = (case rt_current r of
                  None \<Rightarrow> files env
                | Some s \<Rightarrow> (files env)(mc_file s := Some (bytes (mc_calls (Mcap_Close s)))))
      in case rotator_loop refuses (rt_file r) (rt_max_count r) fs of
           Inl (err, fs') \<Rightarrow>
             (case new_mcap r (env\<lparr>files := fs'\<rparr>) of
                (s, env') \<Rightarrow> (Some err, r\<lparr>rt_current := Some s\<rparr>, env'))
         | Inr fs' \<Rightarrow>
             (case new_mcap r (env\<lparr>files := fs'\<rparr>) of
                (s, env') \<Rightarrow> (None, r\<lparr>rt_current := Some s\<rparr>, env')))"

text \<open>\<open>Publish\<close> and \<open>Write\<close> of the rotator; an exception leaves before anything is written.\<close>

definition Rotator_put ::
    "(mcap_sink \<Rightarrow> mcap_sink) \<Rightarrow> nat \<Rightarrow> (writer_call list \<Rightarrow> char list) \<Rightarrow> (char list \<Rightarrow> bool) \<Rightarrow>
     rotator \<Rightarrow> fenv \<Rightarrow> char list option \<times> rotator \<times> fenv" where
  "Rotator_put emit expected_msg_size bytes refuses r env =
     (case rt_current r of
        None \<Rightarrow> (None, r, env)
      | Some _ \<Rightarrow>
          let new_file_size = rt_size r + expected_msg_size;
              (err, r, env, new_file_size) =
                (if rt_max_size r < new_file_size
                 then case Rotate bytes refuses r env of
                        (err, r', env') \<Rightarrow> (err, r', env', expected_msg_size)
                 else (None, r, env, new_file_size))
          in if err \<noteq> None then (err, r, env)
             else (None, r\<lparr>rt_current := map_option emit (rt_current r), rt_size := new_file_size\<rparr>, env))"

definition Rotator_Publish where
  "Rotator_Publish publishTime serialized =
     Rotator_put (Mcap_Publish publishTime serialized) (length serialized)"

definition Rotator_Write where
  "Rotator_Write m = Rotator_put (Mcap_Write m) (length (payload m))"

text \<open>
  The constructor. \<open>trunc\<close> is accepted and not used: the file is always truncated.
\<close>

definition DataSinkPBMcapRotator ::
    "char list \<Rightarrow> char list \<Rightarrow> bool \<Rightarrow> nat \<Rightarrow> nat \<Rightarrow> bool \<Rightarrow> nat \<Rightarrow> fenv \<Rightarrow> rotator \<times> fenv" where
  "DataSinkPBMcapRotator topic_name fname trunc max_file_size max_file_count no_chunking chunk_size env =
     (let r = \<lparr>rt_current = None, rt_topic = topic_name, rt_file = fname, rt_max_size = max_file_size,
               rt_max_count = max_file_count, rt_size = 0, rt_no_chunking = no_chunking, rt_chunk = chunk_size\<rparr>
      in case new_mcap r env of (s, env') \<Rightarrow> (r\<lparr>rt_current := Some s\<rparr>, env'))"

section \<open>The descriptor closure\<close>

lemma add_deps_spec:
  "add_deps deps seen toAdd = (seen', toAdd') \<Longrightarrow> distinct seen \<Longrightarrow>
     distinct seen' \<and> set seen' = set seen \<union> set deps \<and> (\<exists>new. seen' = seen @ new \<and> toAdd' = toAdd @ new)"
proof (induction deps seen toAdd rule: add_deps.induct)
  case (2 dep deps seen toAdd)
  then show ?case by (cases "dep \<in> set seen") auto
qed simp

lemma descriptor_loop_complete:
  assumes fin: "finite R" and closed: "\<And>f. f \<in> R \<Longrightarrow> set (dependency f) \<subseteq> R"
    and reach: "\<And>S. set seen \<subseteq> S \<Longrightarrow> (\<forall>f \<in> S. set (dependency f) \<subseteq> S) \<Longrightarrow> R \<subseteq> S"
  shows "seen = fdSet @ toAdd \<Longrightarrow> distinct seen \<Longrightarrow> set seen \<subseteq> R \<Longrightarrow>
     (\<forall>f \<in> set fdSet. set (dependency f) \<subseteq> set seen) \<Longrightarrow>
     \<exists>out. descriptor_loop dependency seen toAdd fdSet = Some (fdSet @ out) \<and>
           distinct (fdSet @ out) \<and> set (fdSet @ out) = R \<and> prefix toAdd out"
  using reach
proof (induction "card R - length fdSet" arbitrary: seen toAdd fdSet rule: less_induct)
  case less
  show ?case
  proof (cases toAdd)
    case Nil
    then have "R \<subseteq> set seen" using less(2,5) less(6) [of "set seen"] by auto
    then show ?thesis using Nil less(2-4) by (auto simp: descriptor_loop.simps)
  next
    case (Cons nxt rest)
    obtain seen' toAdd' where ad: "add_deps (dependency nxt) seen rest = (seen', toAdd')"
      by (cases "add_deps (dependency nxt) seen rest")
    from add_deps_spec [OF ad less(3)] obtain new where
      s: "distinct seen'" "set seen' = set seen \<union> set (dependency nxt)" "seen' = seen @ new"
        "toAdd' = rest @ new" by blast
    have "length seen \<le> card R"
      using less(3,4) fin by (metis card_mono distinct_card)
    then have "card R - length (fdSet @ [nxt]) < card R - length fdSet"
      using less(2) Cons by simp
    moreover have "seen' = (fdSet @ [nxt]) @ toAdd'" using s(3,4) less(2) Cons by simp
    moreover have "set seen' \<subseteq> R" using s(2) less(2,4) Cons closed [of nxt] by auto
    moreover have "\<forall>f \<in> set (fdSet @ [nxt]). set (dependency f) \<subseteq> set seen'"
      using less(5) s(2) by auto
    moreover have "R \<subseteq> S" if "set seen' \<subseteq> S" "\<forall>f \<in> S. set (dependency f) \<subseteq> S" for S
      using less(6) [of S] that s(2) by auto
    ultimately obtain out where
      out: "descriptor_loop dependency seen' toAdd' (fdSet @ [nxt]) = Some ((fdSet @ [nxt]) @ out)"
        "distinct ((fdSet @ [nxt]) @ out)" "set ((fdSet @ [nxt]) @ out) = R" "prefix toAdd' out"
      using less(1) [of "fdSet @ [nxt]" seen' toAdd'] s(1) by blast
    have "descriptor_loop dependency seen toAdd fdSet = Some (fdSet @ nxt # out)"
      using out(1) by (subst descriptor_loop.simps) (simp add: Cons ad)
    moreover have "prefix toAdd (nxt # out)" using out(4) s(4) Cons by (auto simp: prefix_def)
    ultimately show ?thesis using out(2,3) by (intro exI [of _ "nxt # out"]) simp
  qed
qed

text \<open>
  C35: The descriptor set a sink stores is complete: on a finite import graph the search
  returns, the message's own file comes first, no file appears twice, and the files are
  exactly those reachable by imports.
\<close>

theorem BuildFileDescriptorSet_complete:
  assumes "finite {g. (toplevel, g) \<in> {(f, g). g \<in> set (dependency f)}\<^sup>*}"
  shows "\<exists>out. BuildFileDescriptorSet dependency toplevel = Some (toplevel # out) \<and>
               distinct (toplevel # out) \<and>
               set (toplevel # out) = {g. (toplevel, g) \<in> {(f, g). g \<in> set (dependency f)}\<^sup>*}"
proof -
  let ?r = "{(f, g). g \<in> set (dependency f)}"
  let ?R = "{g. (toplevel, g) \<in> ?r\<^sup>*}"
  have "?R \<subseteq> S" if "set [toplevel] \<subseteq> S" "\<forall>f \<in> S. set (dependency f) \<subseteq> S" for S
  proof
    fix g assume "g \<in> ?R"
    then have "(toplevel, g) \<in> ?r\<^sup>*" by simp
    then show "g \<in> S" by induction (use that in auto)
  qed
  moreover have "set (dependency f) \<subseteq> ?R" if "f \<in> ?R" for f
    using that by (auto intro: rtrancl_into_rtrancl)
  ultimately obtain out where
    out: "descriptor_loop dependency [toplevel] [toplevel] [] = Some ([] @ out)" "distinct ([] @ out)"
      "set ([] @ out) = ?R" "prefix [toplevel] out"
    using descriptor_loop_complete [OF assms, of dependency "[toplevel]" "[]" "[toplevel]"] by auto
  then show ?thesis by (auto simp: BuildFileDescriptorSet_def prefix_def)
qed

theorem BuildFileDescriptorSet_complete_witness:
  "\<exists>out. BuildFileDescriptorSet (\<lambda>n :: nat. if n < 3 then [n + 1, 3] else []) 1 = Some (1 # out) \<and>
         distinct (1 # out)"
proof -
  let ?dep = "\<lambda>n :: nat. if n < 3 then [n + 1, 3] else []"
  have "g \<le> 3" if "(1, g) \<in> {(f, g). g \<in> set (?dep f)}\<^sup>*" for g
    using that by induction (auto split: if_splits)
  then have "finite {g. (1, g) \<in> {(f, g). g \<in> set (?dep f)}\<^sup>*}"
    by (intro finite_subset [OF _ finite_atMost [of 3]]) auto
  from BuildFileDescriptorSet_complete [OF this] show ?thesis by blast
qed

section \<open>Sessions of a sink\<close>

datatype mcap_op = OPublish int "char list" | OWrite mcap_msg | OClose

fun mcap_do :: "mcap_op \<Rightarrow> mcap_sink \<Rightarrow> mcap_sink" where
  "mcap_do (OPublish tm serialized) s = Mcap_Publish tm serialized s"
| "mcap_do (OWrite m) s = Mcap_Write m s"
| "mcap_do OClose s = Mcap_Close s"

definition session_wf :: "writer_call list \<Rightarrow> mcap_sink \<Rightarrow> bool" where
  "session_wf header s \<longleftrightarrow>
     (\<exists>ms tail. mc_calls s = header @ map W_write ms @ tail \<and>
        tail \<in> {[], [W_close], [W_terminate, W_close]} \<and> (mc_open s \<longrightarrow> tail = []) \<and>
        (\<not> mc_open s \<longrightarrow> header = [] \<and> ms = [] \<and> tail = [] \<or> tail \<noteq> []))"

lemma writer_write_simps [simp]:
  "mc_calls (snd (writer_write m s)) = mc_calls s @ [W_write m]"
  "mc_open (snd (writer_write m s)) = mc_open s"
  by (simp_all add: writer_write_def)

lemma session_write:
  assumes "session_wf header s" and "mc_open s" and "mc_calls s' = mc_calls s @ [W_write m]" and "mc_open s'"
  shows "session_wf header s'" and "session_wf header (Mcap_HandleWriteError s')"
proof -
  obtain ms where "mc_calls s = header @ map W_write ms" using assms(1,2) by (auto simp: session_wf_def)
  then have c: "mc_calls s' = header @ map W_write (ms @ [m])" using assms(3) by simp
  show "session_wf header s'"
    unfolding session_wf_def using c assms(4)
    by (intro exI [of _ "ms @ [m]"] exI [of _ "[]"]) simp
  show "session_wf header (Mcap_HandleWriteError s')"
    unfolding session_wf_def using c
    by (intro exI [of _ "ms @ [m]"] exI [of _ "[W_terminate, W_close]"]) (simp add: Mcap_HandleWriteError_def)
qed

lemma session_step:
  assumes "session_wf header s"
  shows "session_wf header (mcap_do c s)"
proof (cases "mc_open s")
  case False
  then have "mc_calls (mcap_do c s) = mc_calls s" "\<not> mc_open (mcap_do c s)"
    by (cases c; simp add: Mcap_Publish_def Mcap_Write_def Mcap_Close_def)+
  then show ?thesis using assms False by (simp add: session_wf_def)
next
  case True
  show ?thesis
  proof (cases c)
    case (OPublish tm ser)
    let ?m = "\<lparr>channelId = mc_channel s, sequence = mc_count s, stamp = tm, payload = ser\<rparr>"
    let ?s = "s\<lparr>mc_count := mc_count s + 1\<rparr>"
    obtain ok s' where w: "writer_write ?m ?s = (ok, s')" by (cases "writer_write ?m ?s")
    then have "mc_calls s' = mc_calls s @ [W_write ?m]" "mc_open s'"
      using True by (auto simp: writer_write_def)
    from session_write [OF assms True this] show ?thesis
      using True w by (simp add: OPublish Mcap_Publish_def Let_def)
  next
    case (OWrite m)
    obtain ok s' where w: "writer_write m s = (ok, s')" by (cases "writer_write m s")
    then have "mc_calls s' = mc_calls s @ [W_write m]" "mc_open s'"
      using True by (auto simp: writer_write_def)
    from session_write [OF assms True this] show ?thesis
      using True w by (simp add: OWrite Mcap_Write_def)
  next
    case OClose
    obtain ms where "mc_calls s = header @ map W_write ms" using assms True by (auto simp: session_wf_def)
    then show ?thesis
      unfolding session_wf_def using True
      by (intro exI [of _ ms] exI [of _ "[W_close]"]) (simp add: OClose Mcap_Close_def)
  qed
qed

lemma session_run: "session_wf header s \<Longrightarrow> session_wf header (fold mcap_do cs s)"
  by (induction cs arbitrary: s) (simp_all add: session_step)

text \<open>
  C34: The MCAP library is driven correctly in every session: a sink whose file could be
  opened makes the calls open, schema, channel, then message writes, then at most one
  closing, which a write error precedes by a terminate; nothing is written after closing.
  A sink whose file could not be opened makes no call at all, whatever it is asked to do.
\<close>

theorem Mcap_session_protocol:
  "case DataSinkPBMcap topic fn trunc nc cs dir_ok seek_ok schema fds chan results env of
     (s, env') \<Rightarrow>
       if mc_open s then session_wf [W_open cs nc, W_addSchema schema fds, W_addChannel topic] (fold mcap_do ops s)
       else mc_calls (fold mcap_do ops s) = []"
proof -
  obtain s env' where c:
    "DataSinkPBMcap topic fn trunc nc cs dir_ok seek_ok schema fds chan results env = (s, env')"
    by (cases "DataSinkPBMcap topic fn trunc nc cs dir_ok seek_ok schema fds chan results env")
  then have calls: "mc_calls s =
      (if mc_open s then [W_open cs nc, W_addSchema schema fds, W_addChannel topic] else [])"
    by (auto simp: DataSinkPBMcap_def Let_def split: prod.splits if_splits)
  then have "session_wf (if mc_open s then [W_open cs nc, W_addSchema schema fds, W_addChannel topic] else []) s"
    by (auto simp: session_wf_def)
  moreover have "mc_calls (fold mcap_do ops s) = [] \<and> \<not> mc_open (fold mcap_do ops s)"
    if "\<not> mc_open s" "mc_calls s = []" for s
    using that
  proof (induction ops arbitrary: s)
    case (Cons c ops)
    then have "mc_calls (mcap_do c s) = []" "\<not> mc_open (mcap_do c s)"
      by (cases c; simp add: Mcap_Publish_def Mcap_Write_def Mcap_Close_def)+
    then show ?case using Cons.IH by simp
  qed simp
  ultimately show ?thesis using c session_run calls by (auto split: if_splits)
qed

section \<open>The byte count of the writer\<close>

lemma handleWrite_appends:
  "FW_handleWrite path ptr w env = (w', env') \<Longrightarrow> 0 \<le> fw_fd w \<Longrightarrow> files env path = Some c \<Longrightarrow>
     \<exists>n \<le> length ptr. files env' = (files env)(path := Some (c @ take n ptr)) \<and>
        w' = w\<lparr>fw_size := fw_size w + n\<rparr> \<and> (steady (io env) (length ptr) \<longrightarrow> n = length ptr)"
proof (induction path ptr w env arbitrary: w' env' c rule: FW_handleWrite.induct)
  case (1 path ptr w env)
  note prems = 1(3-5)
  show ?case
  proof (cases "ptr = []")
    case True
    then show ?thesis using prems by (auto simp: FW_handleWrite.simps fun_upd_idem)
  next
    case False
    obtain n env1 where fw: "file_write (fw_fd w) path ptr env = (n, env1)"
      by (cases "file_write (fw_fd w) path ptr env")
    from fw prems(3) show ?thesis
    proof (cases rule: file_write_cases)
      case (progress m)
      let ?w = "w\<lparr>fw_size := fw_size w + m\<rparr>"
      have nm: "nat n = m" "\<not> n < 0" using progress(1) by simp_all
      have step: "FW_handleWrite path (drop m ptr) ?w env1 = (w', env')"
        using prems(1) fw nm False by (simp add: FW_handleWrite.simps [of path ptr])
      have f1: "files env1 path = Some (c @ take m ptr)" using progress(3) by simp
      have fd: "0 \<le> fw_fd ?w" using prems(2) by simp
      from 1(2) [OF False fw [symmetric] nm(2), unfolded nm(1), OF step fd f1] obtain k where
        k: "k \<le> length (drop m ptr)" "files env' = (files env1)(path := Some ((c @ take m ptr) @ take k (drop m ptr)))"
          "w' = ?w\<lparr>fw_size := fw_size ?w + k\<rparr>"
          "steady (io env1) (length (drop m ptr)) \<longrightarrow> k = length (drop m ptr)" by blast
      show ?thesis
      proof (intro exI [of _ "m + k"] conjI impI)
        show "m + k \<le> length ptr" using k(1) progress(2) by simp
        show "files env' = (files env)(path := Some (c @ take (m + k) ptr))"
          using k(2) progress(3) by (simp add: take_add fun_eq_iff)
        show "w' = w\<lparr>fw_size := fw_size w + (m + k)\<rparr>" using k(3) by simp
        assume "steady (io env) (length ptr)"
        from progress(4) [OF this False] show "m + k = length ptr" using k(4) progress(2) by simp
      qed
    next
      case error
      show ?thesis
      proof (cases "errno (io env1) = EINTR")
        case True
        have step: "FW_handleWrite path ptr w env1 = (w', env')"
          using prems(1) fw error(1) True False by (simp add: FW_handleWrite.simps [of path ptr w env])
        have "files env1 path = Some c" using error(2) prems(3) by simp
        from 1(1) [OF False fw [symmetric] error(1) True step prems(2) this]
        show ?thesis using error(2,3) prems(2) False by auto
      next
        case ne: False
        have "w' = w" "env' = env1"
          using prems(1) fw error(1) ne False by (simp_all add: FW_handleWrite.simps [of path ptr w env])
        moreover have "\<not> steady (io env) (length ptr)"
          using error(3) [of "length ptr"] prems(2) False ne by auto
        ultimately show ?thesis using error(2) prems(3) by (intro exI [of _ 0]) (simp add: fun_upd_idem)
      qed
    qed
  qed
qed

text \<open>
  The size the MCAP library asks for is the size of the file: opening, for a new file or
  to append, and every write, complete or cut short by an error, keep \<open>size()\<close> equal to the
  number of bytes in the file; a disk that keeps accepting bytes gets all of them.
\<close>

theorem FW_size_is_file_size:
  assumes "FW_open path trunc seek_end w env = (0, w1, env1)"
    and "FW_handleWrite path data w1 env1 = (w2, env2)"
  shows "\<exists>c n. files env1 path = Some c \<and> fw_size w1 = length c \<and> n \<le> length data \<and>
               files env2 path = Some (c @ take n data) \<and> fw_size w2 = length (c @ take n data) \<and>
               (steady (io env1) (length data) \<longrightarrow> n = length data)"
proof -
  obtain c where c: "files env1 path = Some c" "fw_size w1 = length c" "0 \<le> fw_fd w1"
    using assms(1)
    by (auto simp: FW_open_def file_open_def Let_def split: list.splits if_splits option.splits)
  from handleWrite_appends [OF assms(2) c(3,1)] obtain n where
    "n \<le> length data" "files env2 = (files env1)(path := Some (c @ take n data))"
      "w2 = w1\<lparr>fw_size := fw_size w1 + n\<rparr>" "steady (io env1) (length data) \<longrightarrow> n = length data" by blast
  then show ?thesis using c by auto
qed

theorem FW_size_is_file_size_witness:
  "\<exists>w1 env1 w2 env2.
     FW_open ''f'' False True fwriter_new (ex_env\<lparr>files := [''f'' \<mapsto> ''ab'']\<rparr>) = (0, w1, env1) \<and>
     FW_handleWrite ''f'' ''c'' w1 env1 = (w2, env2) \<and> fw_size w2 = 3"
proof -
  let ?env = "ex_env\<lparr>files := [''f'' \<mapsto> ''ab'']\<rparr>"
  have op: "FW_open ''f'' False True fwriter_new ?env
      = (0, \<lparr>fw_fd = 3, fw_size = 2\<rparr>, ?env)"
    by (auto simp: FW_open_def file_open_def ex_env_def fwriter_new_def)
  obtain w2 env2 where wr: "FW_handleWrite ''f'' ''c'' \<lparr>fw_fd = 3, fw_size = 2\<rparr> ?env = (w2, env2)"
    by (cases "FW_handleWrite ''f'' ''c'' \<lparr>fw_fd = 3, fw_size = 2\<rparr> ?env")
  have "steady (io ?env) (length ''c'')" by (simp add: steady_def ex_env_def)
  with FW_size_is_file_size [OF op wr] have "fw_size w2 = 3" by auto
  then show ?thesis using op wr by blast
qed

section \<open>Rotating MCAP files\<close>

lemma annotate_inj_on:
  assumes "no_nul base" and "n < 2 ^ 31"
  shows "inj_on (annotate_filename_index base) {0..n}"
  using annotate_index_inj [OF assms(1)] assms(2) by (auto simp: inj_on_def)

lemma rotator_loop_chain:
  assumes "no_nul base" and "\<And>p. \<not> refuses p"
  shows "n < 2 ^ 31 \<Longrightarrow> rotator_loop refuses base n fs = Inr (rename_chain (annotate_filename_index base) n fs)"
proof (induction n arbitrary: fs)
  case (Suc i)
  let ?s = "annotate_filename_index base i" and ?t = "annotate_filename_index base (Suc i)"
  have "?s \<noteq> ?t" using annotate_index_inj [OF assms(1), of i "Suc i"] Suc.prems by auto
  then have "snd (rename_file ?s ?t fs) = snd (sys_rename ?s ?t fs)" if "path_exists fs ?s"
    using that by (auto simp: rename_file_def sys_rename_def sys_unlink_def path_exists_def)
  moreover have "snd (sys_rename ?s ?t fs) = fs" if "\<not> path_exists fs ?s"
    using that by (simp add: sys_rename_def path_exists_def)
  ultimately show ?case using Suc assms(2) by (simp add: Let_def)
qed simp

lemma mcap_rotation:
  assumes "no_nul base" and "0 < n" and "n < 2 ^ 31"
  shows "file_rotation (annotate_filename_index base) n (rename_chain (annotate_filename_index base) n)"
  by (rule rename_chain_rotation [OF assms(2) annotate_inj_on [OF assms(1,3)]])

lemma new_mcap_files:
  assumes "new_mcap r env = (s, env')"
  shows "files env' = (if mc_open s then (files env)(rt_file r := Some []) else files env)"
  using assms by (auto simp: new_mcap_def DataSinkPBMcap_def FW_open_def file_open_def Let_def
      split: prod.splits if_splits list.splits)

text \<open>
  Rotating MCAP recordings keeps the history: the finished recording gets index 1, every
  older one moves up by one, only the one with the highest index is lost, and a new empty
  recording is started.
\<close>

theorem Rotate_keeps_history:
  assumes "no_nul (rt_file r)" and "0 < rt_max_count r" and "rt_max_count r < 2 ^ 31"
    and "\<And>p. \<not> refuses p" and "rt_current r = Some s" and "mc_file s = rt_file r"
    and "\<And>i. i < rt_max_count r \<Longrightarrow> 0 < i \<Longrightarrow> files env (annotate_filename_index (rt_file r) i) = None \<Longrightarrow>
              files env (annotate_filename_index (rt_file r) (Suc i)) = None"
    and "Rotate bytes refuses r env = (err, r', env')"
  shows "err = None \<and>
         (\<exists>s'. rt_current r' = Some s' \<and>
               (mc_open s' \<longrightarrow> files env' (rt_file r) = Some [])) \<and>
         files env' (annotate_filename_index (rt_file r) 1) = Some (bytes (mc_calls (Mcap_Close s))) \<and>
         (\<forall>i. 0 < i \<and> i < rt_max_count r \<longrightarrow>
              files env' (annotate_filename_index (rt_file r) (Suc i))
                = files env (annotate_filename_index (rt_file r) i))"
proof -
  let ?name = "annotate_filename_index (rt_file r)" and ?n = "rt_max_count r"
  let ?fs = "(files env)(rt_file r := Some (bytes (mc_calls (Mcap_Close s))))"
  note inj = annotate_index_inj [OF assms(1)]
  have n0: "?name 0 = rt_file r" by (simp add: annotate_filename_index_def)
  have ne: "?name i \<noteq> rt_file r" if "0 < i" "i \<le> ?n" for i
    using inj [of i 0] that assms(3) n0 by auto
  obtain s' env1 where nw: "new_mcap r (env\<lparr>files := rename_chain ?name ?n ?fs\<rparr>) = (s', env1)"
    by (cases "new_mcap r (env\<lparr>files := rename_chain ?name ?n ?fs\<rparr>)")
  have res: "err = None" "r' = r\<lparr>rt_current := Some s'\<rparr>" "env' = env1"
    using assms(8) rotator_loop_chain [OF assms(1,4,3)] nw assms(5,6) by (auto simp: Rotate_def Let_def)
  note files' = new_mcap_files [OF nw]
  note rot = mcap_rotation [OF assms(1-3)]
  have gap: "file_rotation.gapless ?name ?n ?fs"
    unfolding file_rotation.gapless_def [OF rot]
  proof (intro allI impI)
    fix i assume i: "i < ?n" "?fs (?name i) = None"
    then have "0 < i" using n0 by (cases i) auto
    then show "?fs (?name (Suc i)) = None"
      using assms(7) [OF i(1)] i ne [of i] ne [of "Suc i"] by simp
  qed
  have move: "files env' (?name (Suc i)) = ?fs (?name i)" if "i < ?n" for i
    using file_rotation.rotate_moves [OF rot gap that] files' ne [of "Suc i"] that
    by (simp add: res(3))
  have "files env' (?name 1) = Some (bytes (mc_calls (Mcap_Close s)))"
    using move [of 0] assms(2) n0 by simp
  moreover have "files env' (?name (Suc i)) = files env (?name i)" if "0 < i" "i < ?n" for i
    using move [OF that(2)] ne [of i] that by simp
  moreover have "mc_open s' \<longrightarrow> files env' (rt_file r) = Some []" using files' res(3) by simp
  ultimately show ?thesis using res by simp
qed

theorem Rotate_keeps_history_witness:
  "let s = \<lparr>mc_topic = ''t'', mc_file = ''r.mcap'', mc_writer = fwriter_new, mc_calls = [], mc_channel = 0,
             mc_count = 0, mc_open = True, mc_log = [], mc_results = []\<rparr>;
       r = \<lparr>rt_current = Some s, rt_topic = ''t'', rt_file = ''r.mcap'', rt_max_size = 10, rt_max_count = 3,
             rt_size = 0, rt_no_chunking = False, rt_chunk = 1\<rparr>
   in files (snd (snd (Rotate (\<lambda>cs. replicate (length cs) CHR ''x'') (\<lambda>_. False) r ex_env)))
        (annotate_filename_index ''r.mcap'' 1) = Some ''x''"
proof -
  let ?s = "\<lparr>mc_topic = ''t'', mc_file = ''r.mcap'', mc_writer = fwriter_new, mc_calls = [], mc_channel = 0,
             mc_count = 0, mc_open = True, mc_log = [], mc_results = []\<rparr>"
  let ?r = "\<lparr>rt_current = Some ?s, rt_topic = ''t'', rt_file = ''r.mcap'', rt_max_size = 10, rt_max_count = 3,
             rt_size = 0, rt_no_chunking = False, rt_chunk = 1\<rparr>"
  let ?b = "\<lambda>cs :: writer_call list. replicate (length cs) CHR ''x''"
  obtain err r' env' where rt: "Rotate ?b (\<lambda>_. False) ?r ex_env = (err, r', env')"
    by (cases "Rotate ?b (\<lambda>_. False) ?r ex_env")
  have nn: "no_nul (rt_file ?r)" by (simp add: no_nul_def)
  have sp: "split_by_extension ''r.mcap'' = (''r'', ''.mcap'')"
    by (simp add: split_by_extension_def rfind_def)
  have "annotate_filename_index ''r.mcap'' i \<noteq> ''a.log''" for i
    by (simp add: annotate_filename_index_def sp cstr_def)
  then have gap: "files ex_env (annotate_filename_index (rt_file ?r) i) = None" for i
    by (simp add: ex_env_def)
  have cnt: "0 < rt_max_count ?r" "rt_max_count ?r < 2 ^ 31" by simp_all
  have cur: "rt_current ?r = Some ?s" "mc_file ?s = rt_file ?r" by simp_all
  have "files env' (annotate_filename_index ''r.mcap'' 1) = Some (?b (mc_calls (Mcap_Close ?s)))"
    using Rotate_keeps_history [OF nn cnt _ cur _ rt] gap by simp
  then show ?thesis unfolding Let_def rt by (simp add: Mcap_Close_def)
qed

text \<open>
  The rotator bounds its recordings by message bytes: after each accepted message the
  counted size is at most \<open>_max_file_size\<close>, or that of the one message if it is larger, and
  the message went to the current recording, a fresh one if the old one was full. When a
  rename fails the exception leaves the message unwritten and the count as it was.
\<close>

theorem Rotator_put_bound:
  assumes "rt_current r = Some s" and "Rotator_put emit n bytes refuses r env = (err, r', env')"
  shows "(err = None \<longrightarrow>
            rt_size r' \<le> max (rt_max_size r) n \<and> n \<le> rt_size r' \<and>
            (if rt_size r + n \<le> rt_max_size r
             then rt_current r' = Some (emit s) \<and> env' = env
             else rt_current r' = map_option emit (rt_current (fst (snd (Rotate bytes refuses r env)))))) \<and>
         (err \<noteq> None \<longrightarrow> rt_size r' = rt_size r \<and>
            rt_current r' = rt_current (fst (snd (Rotate bytes refuses r env))))"
proof -
  obtain e r1 env1 where rot: "Rotate bytes refuses r env = (e, r1, env1)"
    by (cases "Rotate bytes refuses r env")
  then have sz: "rt_size r1 = rt_size r" by (auto simp: Rotate_def Let_def split: sum.splits prod.splits)
  show ?thesis
    using assms rot sz by (auto simp: Rotator_put_def Let_def split: if_splits)
qed

theorem Rotator_put_bound_witness:
  "rt_size (fst (snd (Rotator_put (\<lambda>s. s) 4 (\<lambda>_. []) (\<lambda>_. False)
     (fst (DataSinkPBMcapRotator ''t'' ''r.mcap'' True 10 3 False 1 ex_env)) ex_env))) \<le> 10"
proof -
  let ?r = "fst (DataSinkPBMcapRotator ''t'' ''r.mcap'' True 10 3 False 1 ex_env)"
  have r: "rt_current ?r \<noteq> None" "rt_max_size ?r = 10" "rt_size ?r = 0"
    by (auto simp: DataSinkPBMcapRotator_def Let_def split: prod.splits)
  then obtain s where s: "rt_current ?r = Some s" by auto
  obtain err r' env' where p: "Rotator_put (\<lambda>s. s) 4 (\<lambda>_. []) (\<lambda>_. False) ?r ex_env = (err, r', env')"
    by (cases "Rotator_put (\<lambda>s. s) 4 (\<lambda>_. []) (\<lambda>_. False) ?r ex_env")
  show ?thesis unfolding p fst_conv snd_conv
    using Rotator_put_bound [OF s p] r by (cases err) auto
qed

end
