(* ===== verification/LogStream.thy ===== *)
theory LogStream
  imports Prelude "HOL-Library.Sublist"
begin

text \<open>
  The line streams of \<open>dtRtLog.hpp\<close> and \<open>dtRtLog.cpp\<close>: \<open>LogRtStream\<close> behind \<open>LOG(level)\<close>,
  \<open>NamedLogRtStream\<close> behind \<open>LOG_U\<close> and \<open>LogRtContStream\<close> behind \<open>LOG_CONT\<close>. Each formats into a
  buffer of 1024 bytes on the stack and hands the text to the logger at the end of the
  statement. The three classes repeat the same members; each has its own group of
  definitions here, and the interface \<open>line_stream\<close> states what they share: text is only ever
  appended, the buffer is never overrun, and what does not fit is marked.
\<close>

section \<open>Formatting integers\<close>

definition BUF_LEN :: nat where "BUF_LEN = 1024"

definition hex_digit :: "nat \<Rightarrow> char" where
  "hex_digit d = char_of (if d < 10 then 48 + d else 55 + d)"

fun hex_str :: "nat \<Rightarrow> char list" where
  "hex_str n = (if n < 16 then [hex_digit n] else hex_str (n div 16) @ [hex_digit (n mod 16)])"

declare hex_str.simps [simp del]

definition is_digit :: "char \<Rightarrow> bool" where
  "is_digit c \<longleftrightarrow> 48 \<le> (of_char c :: nat) \<and> (of_char c :: nat) < 58"

text \<open>
  What \<open>snprintf\<close> makes of one conversion "%[0][width]lld", "llu" or "llX" and a 64-bit
  value; \<open>None\<close> for any other format string, on which the C library's behaviour is undefined.
\<close>

definition pad_num :: "bool \<Rightarrow> nat \<Rightarrow> bool \<Rightarrow> char list \<Rightarrow> char list" where
  "pad_num zero width neg digits =
     (let sign = (if neg then ''-'' else []);
          fill = width - length sign - length digits
      in if zero then sign @ replicate fill CHR ''0'' @ digits
         else replicate fill CHR '' '' @ sign @ digits)"

definition printf_ll :: "char list \<Rightarrow> int \<Rightarrow> char list option" where
  "printf_ll fmt val =
     (case fmt of
        [] \<Rightarrow> None
      | c # rest \<Rightarrow>
          if c \<noteq> CHR ''%'' then None
          else
            let zero = rest \<noteq> [] \<and> hd rest = CHR ''0'';
                rest = dropWhile (\<lambda>c. c = CHR ''0'') rest;
                width = str_nat (takeWhile is_digit rest);
                conv = dropWhile is_digit rest
            in if conv = ''lld'' then Some (pad_num zero width (val < 0) (nat_str (nat \<bar>val\<bar>)))
               else if conv = ''llu'' then Some (pad_num zero width False (nat_str (nat (val mod 2 ^ 64))))
               else if conv = ''llX'' then Some (pad_num zero width False (hex_str (nat (val mod 2 ^ 64))))
               else None)"

text \<open>\<open>char('0' + n)\<close>.\<close>

definition chr0 :: "int \<Rightarrow> char" where
  "chr0 n = char_of (nat ((48 + n) mod 256))"

section \<open>The streams\<close>

record stream =
  ls_level :: LogLevel
  ls_active :: bool
  ls_pos :: nat
  ls_buf :: "char list"
  ls_hex :: bool
  ls_width :: int
  ls_fill :: char

record rt_stream = stream +
  ls_submitted :: bool

record nm_stream = rt_stream +
  ls_name :: "char list"

text \<open>
  The arguments of the stream operators: integers by signedness, enums, \<open>bool\<close>, and the
  texts "%p" and "%.6f" render pointers and floating-point numbers to.
\<close>

datatype elem = V_ptr "char list" | V_enum int | V_bool bool | V_float "char list" | V_int int | V_uint nat

datatype manip = M_hex | M_dec | M_other

text \<open>What a stream asks the logger to log.\<close>

datatype request =
    Req_rt LogLevel "char list option"
  | Req_named "char list" LogLevel "char list option"
  | Req_cont LogLevel "char list"

subsection \<open>LogRtStream\<close>

definition Rt_Append :: "char list \<Rightarrow> 'z stream_scheme \<Rightarrow> 'z stream_scheme" where
  "Rt_Append src s =
     (let len = length src;
          avail = BUF_LEN - 1 - ls_pos s;
          copy = (if len < avail then len else avail);
          buf = memcpy_at (ls_buf s) (ls_pos s) (take copy src);
          pos = ls_pos s + copy
      in s\<lparr>ls_buf := buf[pos := NUL], ls_pos := pos\<rparr>)"

definition Rt_AddTruncation :: "'z stream_scheme \<Rightarrow> 'z stream_scheme" where
  "Rt_AddTruncation s =
     (let p = ls_pos s
      in if p + 3 < BUF_LEN
         then s\<lparr>ls_buf := (ls_buf s)[p := CHR ''.'', p + 1 := CHR ''.'', p + 2 := CHR ''.'', p + 3 := NUL],
                ls_pos := p + 3\<rparr>
         else s)"

definition Rt_AddSeparator :: "'z stream_scheme \<Rightarrow> bool \<times> 'z stream_scheme" where
  "Rt_AddSeparator s =
     (let p = ls_pos s
      in if p + 2 < BUF_LEN
         then (True, s\<lparr>ls_buf := (ls_buf s)[p := CHR '','', p + 1 := CHR '' ''], ls_pos := p + 2\<rparr>)
         else (False, s))"

definition Rt_CloseArray :: "'z stream_scheme \<Rightarrow> 'z stream_scheme" where
  "Rt_CloseArray s =
     (let p = ls_pos s
      in if p + 1 < BUF_LEN
         then s\<lparr>ls_buf := (ls_buf s)[p := CHR '']'', p + 1 := NUL], ls_pos := p + 1\<rparr>
         else s)"

text \<open>The format string built in \<open>fmtbuf\<close>, and the call.\<close>

definition Rt_int_format :: "int \<Rightarrow> char \<Rightarrow> bool \<Rightarrow> bool \<Rightarrow> char list" where
  "Rt_int_format w fill hex is_signed =
     ''%'' @ (if 0 < w \<and> fill = CHR ''0'' then ''0'' else []) @
     (if 100 \<le> w then [chr0 (w div 100), chr0 ((w mod 100) div 10), chr0 (w mod 10)]
      else if 10 \<le> w then [chr0 (w div 10), chr0 (w mod 10)]
      else if 0 < w then [chr0 w] else []) @
     ''ll'' @ (if hex then ''X'' else if is_signed then ''d'' else ''u'')"

definition Rt_FormatIntState :: "int \<Rightarrow> bool \<Rightarrow> 'z stream_scheme \<Rightarrow> int \<times> 'z stream_scheme" where
  "Rt_FormatIntState val is_signed s =
     (let w = ls_width s;
          s = s\<lparr>ls_width := 0\<rparr>;
          out = printf_ll (Rt_int_format w (ls_fill s) (ls_hex s) is_signed) val
      in (snprintf_ret out,
          s\<lparr>ls_buf := snprintf_at (ls_buf s) (ls_pos s) (BUF_LEN - ls_pos s) out\<rparr>))"

definition Rt_FormatElement :: "elem \<Rightarrow> 'z stream_scheme \<Rightarrow> bool \<times> 'z stream_scheme" where
  "Rt_FormatElement v s =
     (if BUF_LEN \<le> ls_pos s + 10 then (False, s)
      else
        let put = (\<lambda>out. (snprintf_ret (Some out),
                         s\<lparr>ls_buf := snprintf_at (ls_buf s) (ls_pos s) (BUF_LEN - ls_pos s) (Some out)\<rparr>));
            (written, s1) =
              (case v of
                 V_ptr t \<Rightarrow> put t
               | V_enum i \<Rightarrow> put (int_str i)
               | V_bool b \<Rightarrow> put (if b then ''true'' else ''false'')
               | V_float t \<Rightarrow> put t
               | V_int i \<Rightarrow> Rt_FormatIntState i True s
               | V_uint n \<Rightarrow> Rt_FormatIntState (int n) False s)
        in if written < 0 \<or> int (BUF_LEN - ls_pos s1) \<le> written then (False, s1)
           else let pos = ls_pos s1 + nat written
                in (True, s1\<lparr>ls_pos := pos,
                              ls_buf := (if pos < BUF_LEN then (ls_buf s1)[pos := NUL] else ls_buf s1)\<rparr>))"

definition Rt_put_value :: "elem \<Rightarrow> 'z stream_scheme \<Rightarrow> 'z stream_scheme" where
  "Rt_put_value v s =
     (if \<not> ls_active s then s
      else case Rt_FormatElement v s of (ok, s1) \<Rightarrow> if \<not> ok then Rt_AddTruncation s1 else s1)"

fun Rt_elements :: "elem list \<Rightarrow> 'z stream_scheme \<Rightarrow> 'z stream_scheme" where
  "Rt_elements [] s = s"
| "Rt_elements (v # vs) s =
     (case Rt_FormatElement v s of
        (ok, s1) \<Rightarrow>
          if \<not> ok then Rt_AddTruncation s1
          else if vs \<noteq> [] then
            (case Rt_AddSeparator s1 of
               (sep, s2) \<Rightarrow> if \<not> sep then s2 else Rt_elements vs s2)
          else Rt_elements vs s1)"

definition Rt_put_vector :: "elem list \<Rightarrow> 'z stream_scheme \<Rightarrow> 'z stream_scheme" where
  "Rt_put_vector value s =
     (if \<not> ls_active s then s
      else if BUF_LEN \<le> ls_pos s + 1 then s
      else Rt_CloseArray
             (Rt_elements value
               (s\<lparr>ls_buf := (ls_buf s)[ls_pos s := CHR ''[''], ls_pos := ls_pos s + 1\<rparr>)))"

text \<open>\<open>operator<<\<close> for a C string (\<open>None\<close> is the null pointer), a string and a character.\<close>

definition Rt_put_cstr :: "char list option \<Rightarrow> 'z stream_scheme \<Rightarrow> 'z stream_scheme" where
  "Rt_put_cstr str s =
     (case str of
        None \<Rightarrow> s
      | Some t \<Rightarrow> if ls_active s then Rt_Append (take BUF_LEN (cstr t)) s else s)"

definition Rt_put_string :: "char list \<Rightarrow> 'z stream_scheme \<Rightarrow> 'z stream_scheme" where
  "Rt_put_string str s = (if ls_active s then Rt_Append str s else s)"

definition Rt_put_char :: "char \<Rightarrow> 'z stream_scheme \<Rightarrow> 'z stream_scheme" where
  "Rt_put_char c s =
     (if ls_active s \<and> ls_pos s + 1 < BUF_LEN
      then s\<lparr>ls_buf := (ls_buf s)[ls_pos s := c, ls_pos s + 1 := NUL], ls_pos := ls_pos s + 1\<rparr>
      else s)"

definition Rt_put_manip :: "manip \<Rightarrow> 'z stream_scheme \<Rightarrow> 'z stream_scheme" where
  "Rt_put_manip fn s =
     (if \<not> ls_active s then s
      else if fn = M_hex then s\<lparr>ls_hex := True\<rparr>
      else if fn = M_dec then s\<lparr>ls_hex := False\<rparr> else s)"

definition Rt_setw :: "int \<Rightarrow> 'z stream_scheme \<Rightarrow> 'z stream_scheme" where
  "Rt_setw w s = (if ls_active s then s\<lparr>ls_width := w\<rparr> else s)"

definition Rt_setfill :: "char \<Rightarrow> 'z stream_scheme \<Rightarrow> 'z stream_scheme" where
  "Rt_setfill c s = (if ls_active s then s\<lparr>ls_fill := c\<rparr> else s)"

text \<open>
  Construction, \<open>printf\<close> and \<open>format\<close>, which go to the logger at once, and destruction. \<open>junk\<close> is
  the uninitialised buffer; \<open>active\<close> is \<open>IsInitialized() && IsActiveLevel(lvl)\<close>. The argument
  of \<open>printf\<close> is \<open>None\<close> for a null format, otherwise what the format renders to.
\<close>

definition LogRtStream :: "LogLevel \<Rightarrow> bool \<Rightarrow> char list \<Rightarrow> rt_stream" where
  "LogRtStream lvl active junk =
     \<lparr>ls_level = lvl, ls_active = active, ls_pos = 0, ls_buf = junk[0 := NUL], ls_hex = False,
      ls_width = 0, ls_fill = CHR '' '', ls_submitted = False\<rparr>"

definition Rt_printf :: "char list option option \<Rightarrow> rt_stream \<Rightarrow> rt_stream \<times> request list" where
  "Rt_printf fmt s =
     (if \<not> ls_active s \<or> fmt = None then (s, [])
      else (s\<lparr>ls_submitted := True\<rparr>, [Req_rt (ls_level s) (the fmt)]))"

definition Rt_format :: "char list option \<Rightarrow> rt_stream \<Rightarrow> rt_stream \<times> request list" where
  "Rt_format out s =
     (if \<not> ls_active s then (s, [])
      else (s\<lparr>ls_submitted := True\<rparr>, [Req_rt (ls_level s) out]))"

definition Rt_dtor :: "rt_stream \<Rightarrow> request list" where
  "Rt_dtor s =
     (if ls_active s \<and> \<not> ls_submitted s \<and> 0 < ls_pos s
      then [Req_rt (ls_level s) (Some (cstr (take (ls_pos s) (ls_buf s) @ [NUL])))] else [])"

subsection \<open>NamedLogRtStream\<close>

definition Nm_Append :: "char list \<Rightarrow> 'z stream_scheme \<Rightarrow> 'z stream_scheme" where
  "Nm_Append src s =
     (let len = length src;
          avail = BUF_LEN - 1 - ls_pos s;
          copy = (if len < avail then len else avail);
          buf = memcpy_at (ls_buf s) (ls_pos s) (take copy src);
          pos = ls_pos s + copy
      in s\<lparr>ls_buf := buf[pos := NUL], ls_pos := pos\<rparr>)"

definition Nm_AddTruncation :: "'z stream_scheme \<Rightarrow> 'z stream_scheme" where
  "Nm_AddTruncation s =
     (let p = ls_pos s
      in if p + 3 < BUF_LEN
         then s\<lparr>ls_buf := (ls_buf s)[p := CHR ''.'', p + 1 := CHR ''.'', p + 2 := CHR ''.'', p + 3 := NUL],
                ls_pos := p + 3\<rparr>
         else s)"

definition Nm_AddSeparator :: "'z stream_scheme \<Rightarrow> bool \<times> 'z stream_scheme" where
  "Nm_AddSeparator s =
     (let p = ls_pos s
      in if p + 2 < BUF_LEN
         then (True, s\<lparr>ls_buf := (ls_buf s)[p := CHR '','', p + 1 := CHR '' ''], ls_pos := p + 2\<rparr>)
         else (False, s))"

definition Nm_CloseArray :: "'z stream_scheme \<Rightarrow> 'z stream_scheme" where
  "Nm_CloseArray s =
     (let p = ls_pos s
      in if p + 1 < BUF_LEN
         then s\<lparr>ls_buf := (ls_buf s)[p := CHR '']'', p + 1 := NUL], ls_pos := p + 1\<rparr>
         else s)"

text \<open>The format string built in \<open>fmtbuf\<close>, and the call.\<close>

definition Nm_int_format :: "int \<Rightarrow> char \<Rightarrow> bool \<Rightarrow> bool \<Rightarrow> char list" where
  "Nm_int_format w fill hex is_signed =
     ''%'' @ (if 0 < w \<and> fill = CHR ''0'' then ''0'' else []) @
     (if 100 \<le> w then [chr0 (w div 100), chr0 ((w mod 100) div 10), chr0 (w mod 10)]
      else if 10 \<le> w then [chr0 (w div 10), chr0 (w mod 10)]
      else if 0 < w then [chr0 w] else []) @
     ''ll'' @ (if hex then ''X'' else if is_signed then ''d'' else ''u'')"

definition Nm_FormatIntState :: "int \<Rightarrow> bool \<Rightarrow> 'z stream_scheme \<Rightarrow> int \<times> 'z stream_scheme" where
  "Nm_FormatIntState val is_signed s =
     (let w = ls_width s;
          s = s\<lparr>ls_width := 0\<rparr>;
          out = printf_ll (Nm_int_format w (ls_fill s) (ls_hex s) is_signed) val
      in (snprintf_ret out,
          s\<lparr>ls_buf := snprintf_at (ls_buf s) (ls_pos s) (BUF_LEN - ls_pos s) out\<rparr>))"

definition Nm_FormatElement :: "elem \<Rightarrow> 'z stream_scheme \<Rightarrow> bool \<times> 'z stream_scheme" where
  "Nm_FormatElement v s =
     (if BUF_LEN \<le> ls_pos s + 10 then (False, s)
      else
        let put = (\<lambda>out. (snprintf_ret (Some out),
                         s\<lparr>ls_buf := snprintf_at (ls_buf s) (ls_pos s) (BUF_LEN - ls_pos s) (Some out)\<rparr>));
            (written, s1) =
              (case v of
                 V_ptr t \<Rightarrow> put t
               | V_enum i \<Rightarrow> put (int_str i)
               | V_bool b \<Rightarrow> put (if b then ''true'' else ''false'')
               | V_float t \<Rightarrow> put t
               | V_int i \<Rightarrow> Nm_FormatIntState i True s
               | V_uint n \<Rightarrow> Nm_FormatIntState (int n) False s)
        in if written < 0 \<or> int (BUF_LEN - ls_pos s1) \<le> written then (False, s1)
           else let pos = ls_pos s1 + nat written
                in (True, s1\<lparr>ls_pos := pos,
                              ls_buf := (if pos < BUF_LEN then (ls_buf s1)[pos := NUL] else ls_buf s1)\<rparr>))"

definition Nm_put_value :: "elem \<Rightarrow> 'z stream_scheme \<Rightarrow> 'z stream_scheme" where
  "Nm_put_value v s =
     (if \<not> ls_active s then s
      else case Nm_FormatElement v s of (ok, s1) \<Rightarrow> if \<not> ok then Nm_AddTruncation s1 else s1)"

fun Nm_elements :: "elem list \<Rightarrow> 'z stream_scheme \<Rightarrow> 'z stream_scheme" where
  "Nm_elements [] s = s"
| "Nm_elements (v # vs) s =
     (case Nm_FormatElement v s of
        (ok, s1) \<Rightarrow>
          if \<not> ok then Nm_AddTruncation s1
          else if vs \<noteq> [] then
            (case Nm_AddSeparator s1 of
               (sep, s2) \<Rightarrow> if \<not> sep then s2 else Nm_elements vs s2)
          else Nm_elements vs s1)"

definition Nm_put_vector :: "elem list \<Rightarrow> 'z stream_scheme \<Rightarrow> 'z stream_scheme" where
  "Nm_put_vector value s =
     (if \<not> ls_active s then s
      else if BUF_LEN \<le> ls_pos s + 1 then s
      else Nm_CloseArray
             (Nm_elements value
               (s\<lparr>ls_buf := (ls_buf s)[ls_pos s := CHR ''[''], ls_pos := ls_pos s + 1\<rparr>)))"

text \<open>\<open>operator<<\<close> for a C string (\<open>None\<close> is the null pointer), a string and a character.\<close>

definition Nm_put_cstr :: "char list option \<Rightarrow> 'z stream_scheme \<Rightarrow> 'z stream_scheme" where
  "Nm_put_cstr str s =
     (case str of
        None \<Rightarrow> s
      | Some t \<Rightarrow> if ls_active s then Nm_Append (take BUF_LEN (cstr t)) s else s)"

definition Nm_put_string :: "char list \<Rightarrow> 'z stream_scheme \<Rightarrow> 'z stream_scheme" where
  "Nm_put_string str s = (if ls_active s then Nm_Append str s else s)"

definition Nm_put_char :: "char \<Rightarrow> 'z stream_scheme \<Rightarrow> 'z stream_scheme" where
  "Nm_put_char c s =
     (if ls_active s \<and> ls_pos s + 1 < BUF_LEN
      then s\<lparr>ls_buf := (ls_buf s)[ls_pos s := c, ls_pos s + 1 := NUL], ls_pos := ls_pos s + 1\<rparr>
      else s)"

definition Nm_put_manip :: "manip \<Rightarrow> 'z stream_scheme \<Rightarrow> 'z stream_scheme" where
  "Nm_put_manip fn s =
     (if \<not> ls_active s then s
      else if fn = M_hex then s\<lparr>ls_hex := True\<rparr>
      else if fn = M_dec then s\<lparr>ls_hex := False\<rparr> else s)"

definition Nm_setw :: "int \<Rightarrow> 'z stream_scheme \<Rightarrow> 'z stream_scheme" where
  "Nm_setw w s = (if ls_active s then s\<lparr>ls_width := w\<rparr> else s)"

definition Nm_setfill :: "char \<Rightarrow> 'z stream_scheme \<Rightarrow> 'z stream_scheme" where
  "Nm_setfill c s = (if ls_active s then s\<lparr>ls_fill := c\<rparr> else s)"

definition NAME_BUF_LEN :: nat where "NAME_BUF_LEN = 64"

definition NamedLogRtStream :: "char list \<Rightarrow> LogLevel \<Rightarrow> bool \<Rightarrow> char list \<Rightarrow> char list \<Rightarrow> nm_stream" where
  "NamedLogRtStream logName lvl active junk junk_name =
     \<lparr>ls_level = lvl, ls_active = active, ls_pos = 0, ls_buf = junk[0 := NUL], ls_hex = False,
      ls_width = 0, ls_fill = CHR '' '', ls_submitted = False,
      ls_name = strncpy_term junk_name logName NAME_BUF_LEN\<rparr>"

definition Nm_printf :: "char list option option \<Rightarrow> nm_stream \<Rightarrow> nm_stream \<times> request list" where
  "Nm_printf fmt s =
     (if \<not> ls_active s \<or> fmt = None then (s, [])
      else (s\<lparr>ls_submitted := True\<rparr>, [Req_named (cstr (ls_name s)) (ls_level s) (the fmt)]))"

definition Nm_format :: "char list option \<Rightarrow> nm_stream \<Rightarrow> nm_stream \<times> request list" where
  "Nm_format out s =
     (if \<not> ls_active s then (s, [])
      else (s\<lparr>ls_submitted := True\<rparr>, [Req_named (cstr (ls_name s)) (ls_level s) out]))"

definition Nm_dtor :: "nm_stream \<Rightarrow> request list" where
  "Nm_dtor s =
     (if ls_active s \<and> \<not> ls_submitted s \<and> 0 < ls_pos s
      then [Req_named (cstr (ls_name s)) (ls_level s) (Some (cstr (take (ls_pos s) (ls_buf s) @ [NUL])))]
      else [])"

subsection \<open>LogRtContStream\<close>

definition Ct_Append :: "char list \<Rightarrow> 'z stream_scheme \<Rightarrow> 'z stream_scheme" where
  "Ct_Append src s =
     (let len = length src;
          avail = BUF_LEN - 1 - ls_pos s;
          copy = (if len < avail then len else avail);
          buf = memcpy_at (ls_buf s) (ls_pos s) (take copy src);
          pos = ls_pos s + copy
      in s\<lparr>ls_buf := buf[pos := NUL], ls_pos := pos\<rparr>)"

definition Ct_AddTruncation :: "'z stream_scheme \<Rightarrow> 'z stream_scheme" where
  "Ct_AddTruncation s =
     (let p = ls_pos s
      in if p + 3 < BUF_LEN
         then s\<lparr>ls_buf := (ls_buf s)[p := CHR ''.'', p + 1 := CHR ''.'', p + 2 := CHR ''.'', p + 3 := NUL],
                ls_pos := p + 3\<rparr>
         else s)"

definition Ct_AddSeparator :: "'z stream_scheme \<Rightarrow> bool \<times> 'z stream_scheme" where
  "Ct_AddSeparator s =
     (let p = ls_pos s
      in if p + 2 < BUF_LEN
         then (True, s\<lparr>ls_buf := (ls_buf s)[p := CHR '','', p + 1 := CHR '' ''], ls_pos := p + 2\<rparr>)
         else (False, s))"

definition Ct_CloseArray :: "'z stream_scheme \<Rightarrow> 'z stream_scheme" where
  "Ct_CloseArray s =
     (let p = ls_pos s
      in if p + 1 < BUF_LEN
         then s\<lparr>ls_buf := (ls_buf s)[p := CHR '']'', p + 1 := NUL], ls_pos := p + 1\<rparr>
         else s)"

text \<open>The format string built in \<open>fmtbuf\<close>, and the call.\<close>

definition Ct_int_format :: "int \<Rightarrow> char \<Rightarrow> bool \<Rightarrow> bool \<Rightarrow> char list" where
  "Ct_int_format w fill hex is_signed =
     ''%'' @ (if 0 < w \<and> fill = CHR ''0'' then ''0'' else []) @
     (if 100 \<le> w then [chr0 (w div 100), chr0 ((w mod 100) div 10), chr0 (w mod 10)]
      else if 10 \<le> w then [chr0 (w div 10), chr0 (w mod 10)]
      else if 0 < w then [chr0 w] else []) @
     ''ll'' @ (if hex then ''X'' else if is_signed then ''d'' else ''u'')"

definition Ct_FormatIntState :: "int \<Rightarrow> bool \<Rightarrow> 'z stream_scheme \<Rightarrow> int \<times> 'z stream_scheme" where
  "Ct_FormatIntState val is_signed s =
     (let w = ls_width s;
          s = s\<lparr>ls_width := 0\<rparr>;
          out = printf_ll (Ct_int_format w (ls_fill s) (ls_hex s) is_signed) val
      in (snprintf_ret out,
          s\<lparr>ls_buf := snprintf_at (ls_buf s) (ls_pos s) (BUF_LEN - ls_pos s) out\<rparr>))"

definition Ct_FormatElement :: "elem \<Rightarrow> 'z stream_scheme \<Rightarrow> bool \<times> 'z stream_scheme" where
  "Ct_FormatElement v s =
     (if BUF_LEN \<le> ls_pos s + 10 then (False, s)
      else
        let put = (\<lambda>out. (snprintf_ret (Some out),
                         s\<lparr>ls_buf := snprintf_at (ls_buf s) (ls_pos s) (BUF_LEN - ls_pos s) (Some out)\<rparr>));
            (written, s1) =
              (case v of
                 V_ptr t \<Rightarrow> put t
               | V_enum i \<Rightarrow> put (int_str i)
               | V_bool b \<Rightarrow> put (if b then ''true'' else ''false'')
               | V_float t \<Rightarrow> put t
               | V_int i \<Rightarrow> Ct_FormatIntState i True s
               | V_uint n \<Rightarrow> Ct_FormatIntState (int n) False s)
        in if written < 0 \<or> int (BUF_LEN - ls_pos s1) \<le> written then (False, s1)
           else let pos = ls_pos s1 + nat written
                in (True, s1\<lparr>ls_pos := pos,
                              ls_buf := (if pos < BUF_LEN then (ls_buf s1)[pos := NUL] else ls_buf s1)\<rparr>))"

definition Ct_put_value :: "elem \<Rightarrow> 'z stream_scheme \<Rightarrow> 'z stream_scheme" where
  "Ct_put_value v s =
     (if \<not> ls_active s then s
      else case Ct_FormatElement v s of (ok, s1) \<Rightarrow> if \<not> ok then Ct_AddTruncation s1 else s1)"

fun Ct_elements :: "elem list \<Rightarrow> 'z stream_scheme \<Rightarrow> 'z stream_scheme" where
  "Ct_elements [] s = s"
| "Ct_elements (v # vs) s =
     (case Ct_FormatElement v s of
        (ok, s1) \<Rightarrow>
          if \<not> ok then Ct_AddTruncation s1
          else if vs \<noteq> [] then
            (case Ct_AddSeparator s1 of
               (sep, s2) \<Rightarrow> if \<not> sep then s2 else Ct_elements vs s2)
          else Ct_elements vs s1)"

definition Ct_put_vector :: "elem list \<Rightarrow> 'z stream_scheme \<Rightarrow> 'z stream_scheme" where
  "Ct_put_vector value s =
     (if \<not> ls_active s then s
      else if BUF_LEN \<le> ls_pos s + 1 then s
      else Ct_CloseArray
             (Ct_elements value
               (s\<lparr>ls_buf := (ls_buf s)[ls_pos s := CHR ''[''], ls_pos := ls_pos s + 1\<rparr>)))"

text \<open>\<open>operator<<\<close> for a C string (\<open>None\<close> is the null pointer), a string and a character.\<close>

definition Ct_put_cstr :: "char list option \<Rightarrow> 'z stream_scheme \<Rightarrow> 'z stream_scheme" where
  "Ct_put_cstr str s =
     (case str of
        None \<Rightarrow> s
      | Some t \<Rightarrow> if ls_active s then Ct_Append (take BUF_LEN (cstr t)) s else s)"

definition Ct_put_string :: "char list \<Rightarrow> 'z stream_scheme \<Rightarrow> 'z stream_scheme" where
  "Ct_put_string str s = (if ls_active s then Ct_Append str s else s)"

definition Ct_put_char :: "char \<Rightarrow> 'z stream_scheme \<Rightarrow> 'z stream_scheme" where
  "Ct_put_char c s =
     (if ls_active s \<and> ls_pos s + 1 < BUF_LEN
      then s\<lparr>ls_buf := (ls_buf s)[ls_pos s := c, ls_pos s + 1 := NUL], ls_pos := ls_pos s + 1\<rparr>
      else s)"

definition Ct_put_manip :: "manip \<Rightarrow> 'z stream_scheme \<Rightarrow> 'z stream_scheme" where
  "Ct_put_manip fn s =
     (if \<not> ls_active s then s
      else if fn = M_hex then s\<lparr>ls_hex := True\<rparr>
      else if fn = M_dec then s\<lparr>ls_hex := False\<rparr> else s)"

definition Ct_setw :: "int \<Rightarrow> 'z stream_scheme \<Rightarrow> 'z stream_scheme" where
  "Ct_setw w s = (if ls_active s then s\<lparr>ls_width := w\<rparr> else s)"

definition Ct_setfill :: "char \<Rightarrow> 'z stream_scheme \<Rightarrow> 'z stream_scheme" where
  "Ct_setfill c s = (if ls_active s then s\<lparr>ls_fill := c\<rparr> else s)"

text \<open>Unlike the others, \<open>printf\<close> of a continuation stream appends to its buffer.\<close>

definition LogRtContStream :: "LogLevel \<Rightarrow> bool \<Rightarrow> char list \<Rightarrow> stream" where
  "LogRtContStream lvl active junk =
     \<lparr>ls_level = lvl, ls_active = active, ls_pos = 0, ls_buf = junk[0 := NUL], ls_hex = False,
      ls_width = 0, ls_fill = CHR '' ''\<rparr>"

definition Ct_printf :: "char list option option \<Rightarrow> 'z stream_scheme \<Rightarrow> 'z stream_scheme" where
  "Ct_printf fmt s =
     (case fmt of
        None \<Rightarrow> s
      | Some out \<Rightarrow>
          if \<not> ls_active s then s
          else
            let avail = BUF_LEN - ls_pos s
            in if avail = 0 then s
               else
                 let n = snprintf_ret out;
                     buf = snprintf_at (ls_buf s) (ls_pos s) avail out;
                     pos = (if 0 < n then ls_pos s + min (nat n) (avail - 1) else ls_pos s)
                 in s\<lparr>ls_buf := buf[pos := NUL], ls_pos := pos\<rparr>)"

definition Ct_dtor :: "'z stream_scheme \<Rightarrow> request list" where
  "Ct_dtor s =
     (if ls_active s \<and> 0 < ls_pos s then [Req_cont (ls_level s) (take (ls_pos s) (ls_buf s))] else [])"

text \<open>The members of the other classes repeat those of \<open>LogRtStream\<close>.\<close>

lemma Nm_Append_eq: "Nm_Append = Rt_Append"
  by (simp add: fun_eq_iff Nm_Append_def Rt_Append_def)

lemma Nm_AddTruncation_eq: "Nm_AddTruncation = Rt_AddTruncation"
  by (simp add: fun_eq_iff Nm_AddTruncation_def Rt_AddTruncation_def)

lemma Nm_AddSeparator_eq: "Nm_AddSeparator = Rt_AddSeparator"
  by (simp add: fun_eq_iff Nm_AddSeparator_def Rt_AddSeparator_def)

lemma Nm_CloseArray_eq: "Nm_CloseArray = Rt_CloseArray"
  by (simp add: fun_eq_iff Nm_CloseArray_def Rt_CloseArray_def)

lemma Nm_int_format_eq: "Nm_int_format = Rt_int_format"
  by (simp add: fun_eq_iff Nm_int_format_def Rt_int_format_def)

lemma Nm_FormatIntState_eq: "Nm_FormatIntState = Rt_FormatIntState"
  by (simp add: fun_eq_iff Nm_FormatIntState_def Rt_FormatIntState_def Nm_int_format_eq)

lemma Nm_FormatElement_eq: "Nm_FormatElement = Rt_FormatElement"
  by (intro ext) (unfold Nm_FormatElement_def Rt_FormatElement_def Nm_FormatIntState_eq, rule refl)

lemma Nm_put_value_eq: "Nm_put_value = Rt_put_value"
  by (intro ext) (unfold Nm_put_value_def Rt_put_value_def Nm_FormatElement_eq Nm_AddTruncation_eq, rule refl)

lemma Nm_elements_eq: "Nm_elements vs s = Rt_elements vs s"
  by (induction vs arbitrary: s)
     (simp_all add: Nm_FormatElement_eq Nm_AddTruncation_eq Nm_AddSeparator_eq split: prod.splits)

lemma Nm_put_vector_eq: "Nm_put_vector = Rt_put_vector"
  by (intro ext) (unfold Nm_put_vector_def Rt_put_vector_def Nm_elements_eq Nm_CloseArray_eq, rule refl)

lemma Nm_put_cstr_eq: "Nm_put_cstr = Rt_put_cstr"
  by (intro ext) (unfold Nm_put_cstr_def Rt_put_cstr_def Nm_Append_eq, rule refl)

lemma Nm_put_string_eq: "Nm_put_string = Rt_put_string"
  by (intro ext) (unfold Nm_put_string_def Rt_put_string_def Nm_Append_eq, rule refl)

lemma Nm_put_char_eq: "Nm_put_char = Rt_put_char"
  by (simp add: fun_eq_iff Nm_put_char_def Rt_put_char_def)

lemma Nm_put_manip_eq: "Nm_put_manip = Rt_put_manip"
  by (simp add: fun_eq_iff Nm_put_manip_def Rt_put_manip_def)

lemma Nm_setw_eq: "Nm_setw = Rt_setw"
  by (simp add: fun_eq_iff Nm_setw_def Rt_setw_def)

lemma Nm_setfill_eq: "Nm_setfill = Rt_setfill"
  by (simp add: fun_eq_iff Nm_setfill_def Rt_setfill_def)

lemmas Nm_eqs =
  Nm_put_value_eq
  Nm_put_vector_eq
  Nm_put_cstr_eq
  Nm_put_string_eq
  Nm_put_char_eq
  Nm_put_manip_eq
  Nm_setw_eq
  Nm_setfill_eq

lemma Ct_Append_eq: "Ct_Append = Rt_Append"
  by (simp add: fun_eq_iff Ct_Append_def Rt_Append_def)

lemma Ct_AddTruncation_eq: "Ct_AddTruncation = Rt_AddTruncation"
  by (simp add: fun_eq_iff Ct_AddTruncation_def Rt_AddTruncation_def)

lemma Ct_AddSeparator_eq: "Ct_AddSeparator = Rt_AddSeparator"
  by (simp add: fun_eq_iff Ct_AddSeparator_def Rt_AddSeparator_def)

lemma Ct_CloseArray_eq: "Ct_CloseArray = Rt_CloseArray"
  by (simp add: fun_eq_iff Ct_CloseArray_def Rt_CloseArray_def)

lemma Ct_int_format_eq: "Ct_int_format = Rt_int_format"
  by (simp add: fun_eq_iff Ct_int_format_def Rt_int_format_def)

lemma Ct_FormatIntState_eq: "Ct_FormatIntState = Rt_FormatIntState"
  by (simp add: fun_eq_iff Ct_FormatIntState_def Rt_FormatIntState_def Ct_int_format_eq)

lemma Ct_FormatElement_eq: "Ct_FormatElement = Rt_FormatElement"
  by (intro ext) (unfold Ct_FormatElement_def Rt_FormatElement_def Ct_FormatIntState_eq, rule refl)

lemma Ct_put_value_eq: "Ct_put_value = Rt_put_value"
  by (intro ext) (unfold Ct_put_value_def Rt_put_value_def Ct_FormatElement_eq Ct_AddTruncation_eq, rule refl)

lemma Ct_elements_eq: "Ct_elements vs s = Rt_elements vs s"
  by (induction vs arbitrary: s)
     (simp_all add: Ct_FormatElement_eq Ct_AddTruncation_eq Ct_AddSeparator_eq split: prod.splits)

lemma Ct_put_vector_eq: "Ct_put_vector = Rt_put_vector"
  by (intro ext) (unfold Ct_put_vector_def Rt_put_vector_def Ct_elements_eq Ct_CloseArray_eq, rule refl)

lemma Ct_put_cstr_eq: "Ct_put_cstr = Rt_put_cstr"
  by (intro ext) (unfold Ct_put_cstr_def Rt_put_cstr_def Ct_Append_eq, rule refl)

lemma Ct_put_string_eq: "Ct_put_string = Rt_put_string"
  by (intro ext) (unfold Ct_put_string_def Rt_put_string_def Ct_Append_eq, rule refl)

lemma Ct_put_char_eq: "Ct_put_char = Rt_put_char"
  by (simp add: fun_eq_iff Ct_put_char_def Rt_put_char_def)

lemma Ct_put_manip_eq: "Ct_put_manip = Rt_put_manip"
  by (simp add: fun_eq_iff Ct_put_manip_def Rt_put_manip_def)

lemma Ct_setw_eq: "Ct_setw = Rt_setw"
  by (simp add: fun_eq_iff Ct_setw_def Rt_setw_def)

lemma Ct_setfill_eq: "Ct_setfill = Rt_setfill"
  by (simp add: fun_eq_iff Ct_setfill_def Rt_setfill_def)

lemmas Ct_eqs =
  Ct_put_value_eq
  Ct_put_vector_eq
  Ct_put_cstr_eq
  Ct_put_string_eq
  Ct_put_char_eq
  Ct_put_manip_eq
  Ct_setw_eq
  Ct_setfill_eq

section \<open>The text of a line\<close>

text \<open>
  The specification: a line is a text of at most 1023 characters with the formatting state;
  every operator appends, and what does not fit is cut (strings), dropped (characters) or
  replaced by dots (values).
\<close>

record line =
  sp_text :: "char list"
  sp_hex :: bool
  sp_width :: int
  sp_fill :: char

datatype stream_op =
    PutValue elem
  | PutVector "elem list"
  | PutCstr "char list option"
  | PutString "char list"
  | PutChar char
  | PutManip manip
  | PutSetw int
  | PutSetfill char

fun render :: "line \<Rightarrow> elem \<Rightarrow> char list option" where
  "render l (V_ptr t) = Some t"
| "render l (V_enum i) = Some (int_str i)"
| "render l (V_bool b) = Some (if b then ''true'' else ''false'')"
| "render l (V_float t) = Some t"
| "render l (V_int i) = printf_ll (Rt_int_format (sp_width l) (sp_fill l) (sp_hex l) True) i"
| "render l (V_uint n) = printf_ll (Rt_int_format (sp_width l) (sp_fill l) (sp_hex l) False) (int n)"

fun is_int :: "elem \<Rightarrow> bool" where
  "is_int (V_int i) = True"
| "is_int (V_uint n) = True"
| "is_int _ = False"

definition spec_elem :: "elem \<Rightarrow> line \<Rightarrow> bool \<times> line" where
  "spec_elem v l =
     (if 1024 \<le> length (sp_text l) + 10 then (False, l)
      else
        let l1 = (if is_int v then l\<lparr>sp_width := 0\<rparr> else l)
        in case render l v of
             None \<Rightarrow> (False, l1)
           | Some out \<Rightarrow> if length (sp_text l) + length out < 1024
                         then (True, l1\<lparr>sp_text := sp_text l @ out\<rparr>) else (False, l1))"

definition spec_add :: "char list \<Rightarrow> line \<Rightarrow> line" where
  "spec_add x l = l\<lparr>sp_text := sp_text l @ take (1023 - length (sp_text l)) x\<rparr>"

definition spec_mark :: "char list \<Rightarrow> line \<Rightarrow> line" where
  "spec_mark x l = (if length (sp_text l) + length x < 1024 then l\<lparr>sp_text := sp_text l @ x\<rparr> else l)"

fun spec_elems :: "elem list \<Rightarrow> line \<Rightarrow> line" where
  "spec_elems [] l = l"
| "spec_elems (v # vs) l =
     (case spec_elem v l of
        (ok, l1) \<Rightarrow>
          if \<not> ok then spec_mark ''...'' l1
          else if vs \<noteq> [] then
            (if length (sp_text l1) + 2 < 1024 then spec_elems vs (l1\<lparr>sp_text := sp_text l1 @ '', ''\<rparr>) else l1)
          else l1)"

fun spec_op :: "stream_op \<Rightarrow> line \<Rightarrow> line" where
  "spec_op (PutValue v) l = (case spec_elem v l of (ok, l1) \<Rightarrow> if ok then l1 else spec_mark ''...'' l1)"
| "spec_op (PutVector vs) l =
     (if 1023 \<le> length (sp_text l) then l
      else spec_mark '']'' (spec_elems vs (l\<lparr>sp_text := sp_text l @ ''[''\<rparr>)))"
| "spec_op (PutCstr None) l = l"
| "spec_op (PutCstr (Some t)) l = spec_add (take 1024 (cstr t)) l"
| "spec_op (PutString t) l = spec_add t l"
| "spec_op (PutChar c) l = spec_mark [c] l"
| "spec_op (PutManip m) l = (case m of M_hex \<Rightarrow> l\<lparr>sp_hex := True\<rparr> | M_dec \<Rightarrow> l\<lparr>sp_hex := False\<rparr> | M_other \<Rightarrow> l)"
| "spec_op (PutSetw w) l = l\<lparr>sp_width := w\<rparr>"
| "spec_op (PutSetfill c) l = l\<lparr>sp_fill := c\<rparr>"

definition stream_ok :: "'z stream_scheme \<Rightarrow> bool" where
  "stream_ok s \<longleftrightarrow> length (ls_buf s) = 1024 \<and> ls_pos s < 1024"

definition line_of :: "'z stream_scheme \<Rightarrow> line" where
  "line_of s = \<lparr>sp_text = take (ls_pos s) (ls_buf s), sp_hex = ls_hex s, sp_width = ls_width s,
                sp_fill = ls_fill s\<rparr>"

lemma line_of_simps [simp]:
  "sp_text (line_of s) = take (ls_pos s) (ls_buf s)" "sp_hex (line_of s) = ls_hex s"
  "sp_width (line_of s) = ls_width s" "sp_fill (line_of s) = ls_fill s"
  by (simp_all add: line_of_def)

lemma line_length: "stream_ok s \<Longrightarrow> length (sp_text (line_of s)) = ls_pos s"
  by (simp add: stream_ok_def)

section \<open>The operators implement the specification\<close>

text \<open>Storing bytes at the position and moving it behind them.\<close>

definition stored :: "char list \<Rightarrow> 'z stream_scheme \<Rightarrow> 'z stream_scheme \<Rightarrow> bool" where
  "stored x s s' \<longleftrightarrow>
     stream_ok s' \<and> ls_active s' = ls_active s \<and> line_of s' = (line_of s)\<lparr>sp_text := sp_text (line_of s) @ x\<rparr>"

lemma take_upd2:
  "p + 1 < length buf \<Longrightarrow> take (p + 1) (buf[p := c]) = take p buf @ [c]"
  by (simp add: take_Suc_conv_app_nth)

lemma take_put1: "p < length buf \<Longrightarrow> take (Suc p) (buf[p := c]) = take p buf @ [c]"
  by (simp add: take_Suc_conv_app_nth)

lemma put_char_stored:
  assumes "stream_ok s" and "ls_pos s + 1 < 1024"
  shows "stored [c] s (s\<lparr>ls_buf := (ls_buf s)[ls_pos s := c, ls_pos s + 1 := NUL], ls_pos := ls_pos s + 1\<rparr>)"
  using assms by (auto simp: stored_def stream_ok_def line_of_def take_put1)

lemma put_bracket_stored:
  assumes "stream_ok s" and "ls_pos s + 1 < 1024"
  shows "stored [c] s (s\<lparr>ls_buf := (ls_buf s)[ls_pos s := c], ls_pos := ls_pos s + 1\<rparr>)"
  using assms by (auto simp: stored_def stream_ok_def line_of_def take_put1)

lemma take_put2:
  "Suc p < length buf \<Longrightarrow> take (Suc (Suc p)) (buf[p := a, Suc p := b]) = take p buf @ [a, b]"
  using take_put1 [of "Suc p" "buf[p := a]" b] take_put1 [of p buf a] by simp

lemma take_put3:
  assumes "Suc (Suc p) < length buf"
  shows "take (Suc (Suc (Suc p))) (buf[p := a, Suc p := b, Suc (Suc p) := c]) = take p buf @ [a, b, c]"
  using take_put1 [of "Suc (Suc p)" "buf[p := a, Suc p := b]" c] take_put2 [of p buf a b] assms by simp

lemma separator_stored:
  assumes "stream_ok s" and "ls_pos s + 2 < 1024"
  shows "stored '', '' s (s\<lparr>ls_buf := (ls_buf s)[ls_pos s := CHR '','', ls_pos s + 1 := CHR '' ''],
                          ls_pos := ls_pos s + 2\<rparr>)"
  using assms take_put2 [of "ls_pos s" "ls_buf s" "CHR '',''" "CHR '' ''"]
  by (auto simp: stored_def stream_ok_def line_of_def)

lemma dots_stored:
  assumes "stream_ok s" and "ls_pos s + 3 < 1024"
  shows "stored ''...'' s (s\<lparr>ls_buf := (ls_buf s)[ls_pos s := CHR ''.'', ls_pos s + 1 := CHR ''.'',
           ls_pos s + 2 := CHR ''.'', ls_pos s + 3 := NUL], ls_pos := ls_pos s + 3\<rparr>)"
  using assms take_put3 [of "ls_pos s" "ls_buf s" "CHR ''.''" "CHR ''.''" "CHR ''.''"]
  by (auto simp: stored_def stream_ok_def line_of_def numeral_3_eq_3)

lemma Rt_Append_refines:
  assumes "stream_ok s"
  shows "stream_ok (Rt_Append x s) \<and> ls_active (Rt_Append x s) = ls_active s \<and>
         line_of (Rt_Append x s) = spec_add x (line_of s)"
proof -
  let ?copy = "if length x < BUF_LEN - 1 - ls_pos s then length x else BUF_LEN - 1 - ls_pos s"
  have tk: "take ?copy x = take (1023 - ls_pos s) x" by (simp add: BUF_LEN_def)
  have len: "ls_pos s + length (take (1023 - ls_pos s) x) \<le> 1023"
    using assms by (auto simp: stream_ok_def min_def)
  have cp: "?copy = length (take (1023 - ls_pos s) x)" by (auto simp: BUF_LEN_def)
  have eq: "Rt_Append x s =
     s\<lparr>ls_buf := (memcpy_at (ls_buf s) (ls_pos s) (take (1023 - ls_pos s) x))
                  [ls_pos s + length (take (1023 - ls_pos s) x) := NUL],
       ls_pos := ls_pos s + length (take (1023 - ls_pos s) x)\<rparr>"
  proof -
    have "take (length (take (1023 - ls_pos s) x)) x = take (1023 - ls_pos s) x"
      by (cases "length x \<le> 1023 - ls_pos s") simp_all
    then show ?thesis unfolding Rt_Append_def Let_def cp by (simp only:)
  qed
  have m: "take (ls_pos s + length (take (1023 - ls_pos s) x))
             (memcpy_at (ls_buf s) (ls_pos s) (take (1023 - ls_pos s) x))
           = take (ls_pos s) (ls_buf s) @ take (1023 - ls_pos s) x"
    by (rule take_memcpy_at) (use assms in \<open>simp add: stream_ok_def\<close>)
  have pl: "length (take (ls_pos s) (ls_buf s)) = ls_pos s" using assms by (simp add: stream_ok_def)
  show ?thesis
    unfolding eq using assms len m
    by (simp add: stream_ok_def line_of_def spec_add_def pl del: length_take)
qed

lemma Rt_AddTruncation_refines:
  assumes "stream_ok s"
  shows "stream_ok (Rt_AddTruncation s) \<and> ls_active (Rt_AddTruncation s) = ls_active s \<and>
         line_of (Rt_AddTruncation s) = spec_mark ''...'' (line_of s)"
  using assms dots_stored [OF assms] line_length [OF assms]
  by (auto simp: Rt_AddTruncation_def Let_def BUF_LEN_def spec_mark_def stored_def)

lemma Rt_CloseArray_refines:
  assumes "stream_ok s"
  shows "stream_ok (Rt_CloseArray s) \<and> ls_active (Rt_CloseArray s) = ls_active s \<and>
         line_of (Rt_CloseArray s) = spec_mark '']'' (line_of s)"
  using assms put_char_stored [OF assms] line_length [OF assms]
  by (auto simp: Rt_CloseArray_def Let_def BUF_LEN_def spec_mark_def stored_def)

lemma snprintf_keeps_prefix:
  fixes out :: "char list option"
  assumes "stream_ok s"
  defines "buf \<equiv> snprintf_at (ls_buf s) (ls_pos s) (BUF_LEN - ls_pos s) out"
  shows "length buf = 1024" and "take (ls_pos s) buf = take (ls_pos s) (ls_buf s)"
    and "out = Some x \<Longrightarrow> ls_pos s + length x < 1024 \<Longrightarrow>
         take (ls_pos s + length x) buf = take (ls_pos s) (ls_buf s) @ x"
proof -
  have b: "ls_pos s < 1024" "length (ls_buf s) = 1024" using assms(1) by (simp_all add: stream_ok_def)
  show "length buf = 1024" using b by (simp add: buf_def BUF_LEN_def)
  show "take (ls_pos s) buf = take (ls_pos s) (ls_buf s)"
    using b by (simp add: buf_def snprintf_at_def BUF_LEN_def split: option.splits)
  assume o: "out = Some x" and x: "ls_pos s + length x < 1024"
  have "take (BUF_LEN - ls_pos s - 1) x = x" using x by (simp add: BUF_LEN_def)
  then have "buf = memcpy_at (ls_buf s) (ls_pos s) (x @ [NUL])"
    using b o by (simp add: buf_def snprintf_at_def BUF_LEN_def)
  then show "take (ls_pos s + length x) buf = take (ls_pos s) (ls_buf s) @ x"
    using b by (simp add: memcpy_at_def)
qed

text \<open>A value after its conversion: the position moves only if the text and its NUL fitted.\<close>

lemma format_done:
  fixes w :: int and out :: "char list option"
  assumes ok: "stream_ok s"
  defines "s1 \<equiv> s\<lparr>ls_width := w, ls_buf := snprintf_at (ls_buf s) (ls_pos s) (BUF_LEN - ls_pos s) out\<rparr>"
  defines "written \<equiv> snprintf_ret out"
  defines "s2 \<equiv> s1\<lparr>ls_pos := ls_pos s1 + nat written,
     ls_buf := (if ls_pos s1 + nat written < BUF_LEN then (ls_buf s1)[ls_pos s1 + nat written := NUL] else ls_buf s1)\<rparr>"
  defines "fail \<equiv> written < 0 \<or> int (BUF_LEN - ls_pos s1) \<le> written"
  shows "fail \<longleftrightarrow> (case out of None \<Rightarrow> True | Some x \<Rightarrow> 1024 \<le> ls_pos s + length x)"
    and "stream_ok s1" and "line_of s1 = (line_of s)\<lparr>sp_width := w\<rparr>"
    and "out = Some x \<Longrightarrow> ls_pos s + length x < 1024 \<Longrightarrow>
         stream_ok s2 \<and> line_of s2 = (line_of s)\<lparr>sp_width := w, sp_text := sp_text (line_of s) @ x\<rparr>"
proof -
  note sn = snprintf_keeps_prefix [OF ok, of out]
  show "fail \<longleftrightarrow> (case out of None \<Rightarrow> True | Some x \<Rightarrow> 1024 \<le> ls_pos s + length x)"
    using ok by (auto simp: fail_def written_def s1_def snprintf_ret_def BUF_LEN_def stream_ok_def split: option.splits)
  show "stream_ok s1" using ok sn(1) by (simp add: s1_def stream_ok_def)
  show "line_of s1 = (line_of s)\<lparr>sp_width := w\<rparr>" using sn(2) by (simp add: s1_def line_of_def)
  assume o: "out = Some x" and x: "ls_pos s + length x < 1024"
  show "stream_ok s2 \<and> line_of s2 = (line_of s)\<lparr>sp_width := w, sp_text := sp_text (line_of s) @ x\<rparr>"
    using sn(1) sn(3) [OF o x] x
    by (simp add: s2_def s1_def written_def snprintf_ret_def o stream_ok_def line_of_def BUF_LEN_def)
qed

lemma Rt_FormatElement_refines:
  assumes ok: "stream_ok s" and res: "Rt_FormatElement v s = (b, s')"
  shows "stream_ok s' \<and> ls_active s' = ls_active s \<and> spec_elem v (line_of s) = (b, line_of s')"
proof (cases "1024 \<le> ls_pos s + 10")
  case True
  then show ?thesis
    using res ok line_length [OF ok] by (simp add: Rt_FormatElement_def spec_elem_def BUF_LEN_def del: line_of_simps)
next
  case False
  let ?w = "if is_int v then 0 else ls_width s"
  let ?out = "render (line_of s) v"
  let ?s1 = "s\<lparr>ls_width := ?w, ls_buf := snprintf_at (ls_buf s) (ls_pos s) (BUF_LEN - ls_pos s) ?out\<rparr>"
  let ?wr = "snprintf_ret ?out"
  let ?s2 = "?s1\<lparr>ls_pos := ls_pos ?s1 + nat ?wr,
     ls_buf := (if ls_pos ?s1 + nat ?wr < BUF_LEN then (ls_buf ?s1)[ls_pos ?s1 + nat ?wr := NUL] else ls_buf ?s1)\<rparr>"
  have w0: "s\<lparr>ls_width := ls_width s\<rparr> = s" by simp
  have "(case v of
           V_ptr t \<Rightarrow> (snprintf_ret (Some t), s\<lparr>ls_buf := snprintf_at (ls_buf s) (ls_pos s) (BUF_LEN - ls_pos s) (Some t)\<rparr>)
         | V_enum i \<Rightarrow> (snprintf_ret (Some (int_str i)), s\<lparr>ls_buf := snprintf_at (ls_buf s) (ls_pos s) (BUF_LEN - ls_pos s) (Some (int_str i))\<rparr>)
         | V_bool b \<Rightarrow> (snprintf_ret (Some (if b then ''true'' else ''false'')), s\<lparr>ls_buf := snprintf_at (ls_buf s) (ls_pos s) (BUF_LEN - ls_pos s) (Some (if b then ''true'' else ''false''))\<rparr>)
         | V_float t \<Rightarrow> (snprintf_ret (Some t), s\<lparr>ls_buf := snprintf_at (ls_buf s) (ls_pos s) (BUF_LEN - ls_pos s) (Some t)\<rparr>)
         | V_int i \<Rightarrow> Rt_FormatIntState i True s
         | V_uint n \<Rightarrow> Rt_FormatIntState (int n) False s) = (?wr, ?s1)"
    by (cases v) (simp_all add: Rt_FormatIntState_def Let_def)
  then have fe: "Rt_FormatElement v s
      = (if ?wr < 0 \<or> int (BUF_LEN - ls_pos ?s1) \<le> ?wr then (False, ?s1) else (True, ?s2))"
    using False unfolding Rt_FormatElement_def Let_def by (simp add: BUF_LEN_def)
  note d = format_done [OF ok, where w = ?w and out = ?out]
  have sp: "spec_elem v (line_of s) =
      (case ?out of
         None \<Rightarrow> (False, (line_of s)\<lparr>sp_width := ?w\<rparr>)
       | Some x \<Rightarrow> if ls_pos s + length x < 1024
                   then (True, (line_of s)\<lparr>sp_width := ?w, sp_text := sp_text (line_of s) @ x\<rparr>)
                   else (False, (line_of s)\<lparr>sp_width := ?w\<rparr>))"
    using False line_length [OF ok]
    by (auto simp: spec_elem_def Let_def line_of_def split: option.splits)
  show ?thesis
  proof (cases "?wr < 0 \<or> int (BUF_LEN - ls_pos ?s1) \<le> ?wr")
    case True
    then have "s' = ?s1" "b = False" using res fe by simp_all
    moreover have "spec_elem v (line_of s) = (False, (line_of s)\<lparr>sp_width := ?w\<rparr>)"
      using sp d(1) True by (cases ?out) auto
    ultimately show ?thesis using d(2,3) by simp
  next
    case good: False
    then have r: "s' = ?s2" "b = True" using res fe by simp_all
    obtain x where x: "?out = Some x" "ls_pos s + length x < 1024"
      using good d(1) by (cases ?out) auto
    from d(4) [OF x] sp x r show ?thesis by simp
  qed
qed

lemma Rt_elements_refines:
  "stream_ok s \<Longrightarrow>
     stream_ok (Rt_elements vs s) \<and> ls_active (Rt_elements vs s) = ls_active s \<and>
     line_of (Rt_elements vs s) = spec_elems vs (line_of s)"
proof (induction vs arbitrary: s)
  case (Cons v vs)
  obtain b s1 where f: "Rt_FormatElement v s = (b, s1)" by (cases "Rt_FormatElement v s")
  note e = Rt_FormatElement_refines [OF Cons.prems f]
  show ?case
  proof (cases "b \<and> vs \<noteq> []")
    case True
    show ?thesis
    proof (cases "ls_pos s1 + 2 < 1024")
      case sep: True
      let ?s2 = "s1\<lparr>ls_buf := (ls_buf s1)[ls_pos s1 := CHR '','', ls_pos s1 + 1 := CHR '' ''],
                    ls_pos := ls_pos s1 + 2\<rparr>"
      have st: "stored '', '' s1 ?s2" using e sep by (intro separator_stored) simp_all
      have "Rt_AddSeparator s1 = (True, ?s2)" using sep by (simp add: Rt_AddSeparator_def Let_def BUF_LEN_def)
      then show ?thesis
        using True f e st Cons.IH [of ?s2] sep line_length [of s1]
        by (simp add: stored_def del: line_of_simps)
    next
      case False
      then have "Rt_AddSeparator s1 = (False, s1)" by (simp add: Rt_AddSeparator_def Let_def BUF_LEN_def)
      then show ?thesis using True f e False line_length [of s1] by (simp del: line_of_simps)
    qed
  next
    case False
    then show ?thesis using f e Rt_AddTruncation_refines [of s1] by auto
  qed
qed simp

fun Rt_op :: "stream_op \<Rightarrow> 'z stream_scheme \<Rightarrow> 'z stream_scheme" where
  "Rt_op (PutValue v) s = Rt_put_value v s"
| "Rt_op (PutVector vs) s = Rt_put_vector vs s"
| "Rt_op (PutCstr t) s = Rt_put_cstr t s"
| "Rt_op (PutString t) s = Rt_put_string t s"
| "Rt_op (PutChar c) s = Rt_put_char c s"
| "Rt_op (PutManip m) s = Rt_put_manip m s"
| "Rt_op (PutSetw w) s = Rt_setw w s"
| "Rt_op (PutSetfill c) s = Rt_setfill c s"

fun Nm_op :: "stream_op \<Rightarrow> 'z stream_scheme \<Rightarrow> 'z stream_scheme" where
  "Nm_op (PutValue v) s = Nm_put_value v s"
| "Nm_op (PutVector vs) s = Nm_put_vector vs s"
| "Nm_op (PutCstr t) s = Nm_put_cstr t s"
| "Nm_op (PutString t) s = Nm_put_string t s"
| "Nm_op (PutChar c) s = Nm_put_char c s"
| "Nm_op (PutManip m) s = Nm_put_manip m s"
| "Nm_op (PutSetw w) s = Nm_setw w s"
| "Nm_op (PutSetfill c) s = Nm_setfill c s"

fun Ct_op :: "stream_op \<Rightarrow> 'z stream_scheme \<Rightarrow> 'z stream_scheme" where
  "Ct_op (PutValue v) s = Ct_put_value v s"
| "Ct_op (PutVector vs) s = Ct_put_vector vs s"
| "Ct_op (PutCstr t) s = Ct_put_cstr t s"
| "Ct_op (PutString t) s = Ct_put_string t s"
| "Ct_op (PutChar c) s = Ct_put_char c s"
| "Ct_op (PutManip m) s = Ct_put_manip m s"
| "Ct_op (PutSetw w) s = Ct_setw w s"
| "Ct_op (PutSetfill c) s = Ct_setfill c s"

lemma Nm_op_eq: "Nm_op = Rt_op"
proof (intro ext)
  fix c :: stream_op and s :: "'z stream_scheme"
  show "Nm_op c s = Rt_op c s" by (cases c) (simp_all add: Nm_eqs)
qed

lemma Ct_op_eq: "Ct_op = Rt_op"
proof (intro ext)
  fix c :: stream_op and s :: "'z stream_scheme"
  show "Ct_op c s = Rt_op c s" by (cases c) (simp_all add: Ct_eqs)
qed

lemma Rt_op_inactive: "\<not> ls_active s \<Longrightarrow> Rt_op c s = s"
  by (cases c) (simp_all add: Rt_put_value_def Rt_put_vector_def Rt_put_cstr_def Rt_put_string_def
      Rt_put_char_def Rt_put_manip_def Rt_setw_def Rt_setfill_def split: option.splits)

lemma Rt_op_refines:
  assumes ok: "stream_ok s" and act: "ls_active s"
  shows "stream_ok (Rt_op c s) \<and> ls_active (Rt_op c s) \<and> line_of (Rt_op c s) = spec_op c (line_of s)"
proof (cases c)
  case (PutValue v)
  obtain b s1 where f: "Rt_FormatElement v s = (b, s1)" by (cases "Rt_FormatElement v s")
  from Rt_FormatElement_refines [OF ok f] Rt_AddTruncation_refines [of s1] f act show ?thesis
    by (auto simp: PutValue Rt_put_value_def)
next
  case (PutVector vs)
  show ?thesis
  proof (cases "1023 \<le> ls_pos s")
    case True
    then show ?thesis using ok act line_length [OF ok]
      by (simp add: PutVector Rt_put_vector_def BUF_LEN_def del: line_of_simps)
  next
    case False
    let ?s1 = "s\<lparr>ls_buf := (ls_buf s)[ls_pos s := CHR ''[''], ls_pos := ls_pos s + 1\<rparr>"
    have st: "stored ''['' s ?s1" using ok False by (intro put_bracket_stored) simp_all
    then have "stream_ok ?s1" by (simp add: stored_def)
    note e = Rt_elements_refines [OF this, of vs]
    from e Rt_CloseArray_refines [of "Rt_elements vs ?s1"] st False act line_length [OF ok] show ?thesis
      by (simp add: PutVector Rt_put_vector_def BUF_LEN_def stored_def del: line_of_simps)
  qed
next
  case (PutCstr t)
  then show ?thesis
    using ok act Rt_Append_refines [OF ok] by (cases t) (simp_all add: Rt_put_cstr_def BUF_LEN_def)
next
  case (PutString t)
  then show ?thesis using act Rt_Append_refines [OF ok] by (simp add: Rt_put_string_def)
next
  case (PutChar c)
  then show ?thesis
    using ok act put_char_stored [OF ok, of c] line_length [OF ok]
    by (auto simp: Rt_put_char_def BUF_LEN_def stored_def spec_mark_def)
next
  case (PutManip m)
  then show ?thesis using ok act
    by (cases m) (simp_all add: Rt_put_manip_def line_of_def stream_ok_def)
next
  case (PutSetw w)
  then show ?thesis using ok act by (simp add: Rt_setw_def line_of_def stream_ok_def)
next
  case (PutSetfill c)
  then show ?thesis using ok act by (simp add: Rt_setfill_def line_of_def stream_ok_def)
qed

section \<open>The interface of a line stream\<close>

lemma spec_mark_grows:
  "length (sp_text l) < 1024 \<Longrightarrow>
     prefix (sp_text l) (sp_text (spec_mark x l)) \<and> length (sp_text (spec_mark x l)) < 1024"
  by (simp add: spec_mark_def)

lemma spec_add_grows:
  "length (sp_text l) < 1024 \<Longrightarrow>
     prefix (sp_text l) (sp_text (spec_add x l)) \<and> length (sp_text (spec_add x l)) < 1024"
  by (auto simp: spec_add_def min_def)

lemma spec_elem_grows:
  "length (sp_text l) < 1024 \<Longrightarrow> spec_elem v l = (b, l1) \<Longrightarrow>
     prefix (sp_text l) (sp_text l1) \<and> length (sp_text l1) < 1024"
  by (auto simp: spec_elem_def Let_def split: if_splits option.splits)

lemma spec_elems_grows:
  "length (sp_text l) < 1024 \<Longrightarrow>
     prefix (sp_text l) (sp_text (spec_elems vs l)) \<and> length (sp_text (spec_elems vs l)) < 1024"
proof (induction vs arbitrary: l)
  case (Cons v vs)
  obtain b l1 where f: "spec_elem v l = (b, l1)" by (cases "spec_elem v l")
  note e = spec_elem_grows [OF Cons.prems f]
  let ?l2 = "l1\<lparr>sp_text := sp_text l1 @ '', ''\<rparr>"
  show ?case
  proof (cases "b \<and> vs \<noteq> [] \<and> length (sp_text l1) + 2 < 1024")
    case True
    then have "length (sp_text ?l2) < 1024" by simp
    from Cons.IH [OF this] e True f show ?thesis
      by (auto dest: append_prefixD intro: prefix_order.trans)
  next
    case False
    then show ?thesis using f e spec_mark_grows [of l1 "''...''"]
      by (auto intro: prefix_order.trans)
  qed
qed simp

lemma spec_op_grows:
  assumes "length (sp_text l) < 1024"
  shows "prefix (sp_text l) (sp_text (spec_op c l)) \<and> length (sp_text (spec_op c l)) < 1024"
proof (cases "(c, l)" rule: spec_op.cases)
  case (1 v l')
  obtain b l1 where f: "spec_elem v l = (b, l1)" by (cases "spec_elem v l")
  note e = spec_elem_grows [OF assms f]
  show ?thesis using 1 f e spec_mark_grows [of l1 "''...''"]
    by (auto intro: prefix_order.trans)
next
  case (2 vs l')
  let ?l1 = "l\<lparr>sp_text := sp_text l @ ''[''\<rparr>"
  show ?thesis
  proof (cases "1023 \<le> length (sp_text l)")
    case False
    then have "length (sp_text ?l1) < 1024" by simp
    note e = spec_elems_grows [OF this, of vs]
    have "prefix (sp_text l) (sp_text ?l1)" by simp
    then show ?thesis
      using 2 False e spec_mark_grows [of "spec_elems vs ?l1" "'']''"]
      by (auto intro: prefix_order.trans dest: append_prefixD)
  qed (use 2 assms in simp)
next
  case (7 m l')
  then show ?thesis using assms by (cases m) simp_all
qed (use assms spec_add_grows [OF assms] spec_mark_grows [OF assms] in auto)

locale line_stream =
  fixes run1 :: "stream_op \<Rightarrow> 's \<Rightarrow> 's"
    and ok :: "'s \<Rightarrow> bool"
    and active :: "'s \<Rightarrow> bool"
    and content :: "'s \<Rightarrow> line"
  assumes inactive: "\<not> active s \<Longrightarrow> run1 c s = s"
    and step_ok: "ok s \<Longrightarrow> active s \<Longrightarrow> ok (run1 c s) \<and> active (run1 c s)"
    and step_content: "ok s \<Longrightarrow> active s \<Longrightarrow> content (run1 c s) = spec_op c (content s)"
    and bounded: "ok s \<Longrightarrow> length (sp_text (content s)) < 1024"
begin

lemma run_refines:
  "ok s \<Longrightarrow> ok (fold run1 cs s) \<and> active (fold run1 cs s) = active s \<and>
     content (fold run1 cs s) = (if active s then fold spec_op cs (content s) else content s)"
proof (induction cs arbitrary: s)
  case (Cons c cs)
  show ?case
  proof (cases "active s")
    case True
    then show ?thesis using Cons.IH [of "run1 c s"] step_ok [OF Cons.prems True, of c]
        step_content [OF Cons.prems True, of c] by simp
  next
    case False
    then show ?thesis using Cons inactive by simp
  qed
qed simp

lemma run_grows:
  assumes "ok s"
  shows "prefix (sp_text (content (fold run1 cs s))) (sp_text (content (fold run1 (cs @ ds) s))) \<and>
         length (sp_text (content (fold run1 (cs @ ds) s))) < 1024"
proof -
  have grows: "ok t \<Longrightarrow> prefix (sp_text (content t)) (sp_text (content (fold run1 ds t))) \<and>
                       length (sp_text (content (fold run1 ds t))) < 1024" for t
  proof (induction ds arbitrary: t)
    case (Cons d ds)
    show ?case
    proof (cases "active t")
      case True
      note st = step_ok [OF Cons.prems True, of d] step_content [OF Cons.prems True, of d]
      from Cons.IH [of "run1 d t"] st spec_op_grows [OF bounded [OF Cons.prems], of d]
      show ?thesis by (auto intro: prefix_order.trans)
    next
      case False
      then show ?thesis using Cons inactive by simp
    qed
  qed (simp add: bounded)
  have "ok (fold run1 cs s)" using run_refines [OF assms] by blast
  from grows [OF this] show ?thesis by simp
qed

end

lemma Rt_line_stream: "line_stream Rt_op stream_ok ls_active line_of"
proof
  show "\<not> ls_active s \<Longrightarrow> Rt_op c s = s" for c and s :: "'z stream_scheme" by (rule Rt_op_inactive)
  show "ok \<Longrightarrow> length (sp_text (line_of s)) < 1024" if "stream_ok s" for s :: "'z stream_scheme" and ok
    using line_length [OF that] that by (simp add: stream_ok_def)
qed (use Rt_op_refines in blast)+

interpretation rt_line: line_stream "Rt_op :: stream_op \<Rightarrow> rt_stream \<Rightarrow> rt_stream" stream_ok ls_active line_of
  by (rule Rt_line_stream)

interpretation nm_line: line_stream "Nm_op :: stream_op \<Rightarrow> nm_stream \<Rightarrow> nm_stream" stream_ok ls_active line_of
  unfolding Nm_op_eq by (rule Rt_line_stream)

interpretation ct_line: line_stream "Ct_op :: stream_op \<Rightarrow> stream \<Rightarrow> stream" stream_ok ls_active line_of
  unfolding Ct_op_eq by (rule Rt_line_stream)

section \<open>Properties\<close>

definition blank_line :: line where
  "blank_line = \<lparr>sp_text = [], sp_hex = False, sp_width = 0, sp_fill = CHR '' ''\<rparr>"

lemma new_streams:
  assumes "length junk = 1024"
  shows "stream_ok (LogRtStream lvl act junk)" "line_of (LogRtStream lvl act junk) = blank_line"
    "stream_ok (NamedLogRtStream name lvl act junk jn)" "line_of (NamedLogRtStream name lvl act junk jn) = blank_line"
    "stream_ok (LogRtContStream lvl act junk)" "line_of (LogRtContStream lvl act junk) = blank_line"
    "ls_active (LogRtStream lvl act junk) = act" "ls_active (NamedLogRtStream name lvl act junk jn) = act"
    "ls_active (LogRtContStream lvl act junk) = act"
  using assms by (simp_all add: stream_ok_def line_of_def blank_line_def LogRtStream_def
      NamedLogRtStream_def LogRtContStream_def)



text \<open>
  What a stream has taken is never changed or lost by later operators: its text is always
  a prefix of the text after more of them, and at most 1023 characters.
\<close>

theorem stream_text_only_grows:
  assumes "length junk = 1024"
  shows "prefix (sp_text (line_of (fold Rt_op cs (LogRtStream lvl act junk))))
                (sp_text (line_of (fold Rt_op (cs @ ds) (LogRtStream lvl act junk)))) \<and>
         prefix (sp_text (line_of (fold Ct_op cs (LogRtContStream lvl act junk))))
                (sp_text (line_of (fold Ct_op (cs @ ds) (LogRtContStream lvl act junk)))) \<and>
         length (sp_text (line_of (fold Rt_op (cs @ ds) (LogRtStream lvl act junk)))) \<le> 1023"
  using rt_line.run_grows [OF new_streams(1) [OF assms], of cs lvl act ds]
    ct_line.run_grows [OF new_streams(5) [OF assms], of cs lvl act ds] by simp

theorem stream_text_only_grows_witness:
  "prefix (sp_text (line_of (fold Rt_op [PutChar CHR ''a''] (LogRtStream L_info True (replicate 1024 NUL)))))
          (sp_text (line_of (fold Rt_op [PutChar CHR ''a'', PutValue (V_bool True)]
                     (LogRtStream L_info True (replicate 1024 NUL)))))"
proof -
  have "length (replicate 1024 NUL) = 1024" by simp
  from stream_text_only_grows [OF this, of "[PutChar CHR ''a'']" L_info True "[PutValue (V_bool True)]"]
  show ?thesis by simp
qed

text \<open>
  A statement logs exactly once: a destroyed stream asks for one message with the text it
  collected, unless it is inactive, collected nothing, or handed its text over by \<open>printf\<close> or
  \<open>format\<close> before.
\<close>

theorem stream_logs_once:
  assumes "length junk = 1024"
  shows "Rt_dtor (fold Rt_op cs (LogRtStream lvl act junk))
           = (let txt = sp_text (line_of (fold Rt_op cs (LogRtStream lvl act junk)))
              in if act \<and> txt \<noteq> [] then [Req_rt lvl (Some (cstr (txt @ [NUL])))] else []) \<and>
         (\<forall>out. let r = Rt_printf (Some out) (fold Rt_op cs (LogRtStream lvl act junk))
                in snd r @ Rt_dtor (fst r) = (if act then [Req_rt lvl out]
                                               else Rt_dtor (fold Rt_op cs (LogRtStream lvl act junk))))"
proof -
  let ?s = "fold Rt_op cs (LogRtStream lvl act junk)"
  have lvl: "ls_level (Rt_op c s) = ls_level s \<and> ls_submitted (Rt_op c s) = ls_submitted s"
    for c and s :: rt_stream
  proof -
    have fe: "ls_level s1 = ls_level s \<and> ls_submitted s1 = ls_submitted s"
      if "Rt_FormatElement v s = (b, s1)" for v b s1 and s :: rt_stream
      using that by (cases v) (auto simp: Rt_FormatElement_def Rt_FormatIntState_def Let_def split: if_splits)
    have tr: "ls_level (Rt_AddTruncation s) = ls_level s \<and> ls_submitted (Rt_AddTruncation s) = ls_submitted s"
      for s :: rt_stream by (simp add: Rt_AddTruncation_def Let_def)
    have el: "ls_level (Rt_elements vs s) = ls_level s \<and> ls_submitted (Rt_elements vs s) = ls_submitted s"
      for vs and s :: rt_stream
      by (induction vs arbitrary: s) (auto simp: tr Rt_AddSeparator_def Let_def dest: fe split: prod.splits)
    show ?thesis
      by (cases c) (auto simp: Rt_put_value_def Rt_put_vector_def Rt_put_cstr_def Rt_put_string_def
          Rt_put_char_def Rt_put_manip_def Rt_setw_def Rt_setfill_def Rt_Append_def Rt_CloseArray_def
          tr el Let_def dest: fe split: prod.splits option.splits)
  qed
  have keep: "ls_level (fold Rt_op cs s) = ls_level s \<and> ls_submitted (fold Rt_op cs s) = ls_submitted s"
    for cs and s :: rt_stream
    by (induction cs arbitrary: s) (simp_all add: lvl)
  have "ls_level ?s = lvl" "\<not> ls_submitted ?s" using keep by (simp_all add: LogRtStream_def)
  moreover have "stream_ok ?s" "ls_active ?s = act"
    using rt_line.run_refines [OF new_streams(1) [OF assms]] new_streams [OF assms] by simp_all
  moreover have "ls_pos ?s = 0 \<longleftrightarrow> sp_text (line_of ?s) = []"
    using line_length [OF \<open>stream_ok ?s\<close>] by (metis length_0_conv)
  ultimately show ?thesis
    by (auto simp: Rt_dtor_def Rt_printf_def Let_def)
qed

theorem stream_logs_once_witness:
  "Rt_dtor (fold Rt_op [PutCstr (Some ''hi'')] (LogRtStream L_warn True (replicate 1024 NUL)))
     = [Req_rt L_warn (Some ''hi'')]"
proof -
  have l: "length (replicate 1024 NUL) = 1024" by simp
  have "line_of (fold Rt_op [PutCstr (Some ''hi'')] (LogRtStream L_warn True (replicate 1024 NUL)))
      = fold spec_op [PutCstr (Some ''hi'')] blank_line"
    using rt_line.run_refines [OF new_streams(1) [OF l, of L_warn True], of "[PutCstr (Some ''hi'')]"]
    by (simp only: new_streams(2,7) [OF l] if_True)
  then have tx: "sp_text (line_of (fold Rt_op [PutCstr (Some ''hi'')] (LogRtStream L_warn True (replicate 1024 NUL)))) = ''hi''"
    by (simp add: blank_line_def spec_add_def cstr_def)
  show ?thesis
    unfolding conjunct1 [OF stream_logs_once [OF l]] Let_def tx by (simp add: cstr_def)
qed

subsection \<open>Field widths\<close>

lemma chr0_digit: "0 \<le> n \<Longrightarrow> n < 10 \<Longrightarrow> chr0 n = digit_char (nat n)"
  by (simp add: chr0_def digit_char_def nat_add_distrib)

lemma width_digits:
  assumes "0 < w" and "w < 1000"
  shows "(if 100 \<le> w then [chr0 (w div 100), chr0 ((w mod 100) div 10), chr0 (w mod 10)]
          else if 10 \<le> w then [chr0 (w div 10), chr0 (w mod 10)]
          else if 0 < w then [chr0 w] else []) = nat_str (nat w)"
proof -
  obtain n where n: "w = int n" using assms(1) by (metis zero_less_imp_eq_int)
  consider "n < 10" | "10 \<le> n" "n < 100" | "100 \<le> n" "n < 1000" using assms n by linarith
  then show ?thesis
  proof cases
    case 1
    then show ?thesis using assms(1) by (simp add: n chr0_digit nat_str.simps [of n])
  next
    case 2
    have d: "int n div 10 = int (n div 10)" "int n mod 10 = int (n mod 10)"
      by (simp_all add: zdiv_int zmod_int)
    from 2 have "n div 10 < 10" by simp
    then show ?thesis using 2
      by (simp add: n d chr0_digit nat_str.simps [of n] nat_str.simps [of "n div 10"] del: of_nat_div of_nat_mod)
  next
    case 3
    have d: "int n div 100 = int (n div 100)" "(int n mod 100) div 10 = int ((n mod 100) div 10)"
        "int n mod 10 = int (n mod 10)"
      by (simp_all add: zdiv_int zmod_int)
    have m: "n div 10 mod 10 = n mod 100 div 10" "n div 10 div 10 = n div 100"
      using mod_mult2_eq [of n 10 10] div_mult2_eq [of n 10 10] by simp_all
    have "n div 100 < 10" "10 \<le> n div 10" using 3 by simp_all
    then show ?thesis using 3
      by (simp add: n d m chr0_digit nat_str.simps [of n] nat_str.simps [of "n div 10"]
          nat_str.simps [of "n div 100"] del: of_nat_div of_nat_mod)
  qed
qed

lemma nat_str_hd: "0 < n \<Longrightarrow> \<exists>c s. nat_str n = c # s \<and> c \<noteq> CHR ''0''"
proof (induction n rule: nat_str.induct)
  case (1 n)
  show ?case
  proof (cases "n < 10")
    case True
    then have "digit_char n \<noteq> CHR ''0''"
    proof -
      have "of_char (digit_char n) \<noteq> (48 :: nat)" using 1(2) of_char_digit_char [OF True] by simp
      then show ?thesis by auto
    qed
    then show ?thesis using True by (simp add: nat_str.simps [of n])
  next
    case False
    then have "0 < n div 10" by simp
    from 1(1) [OF False this] obtain c s where "nat_str (n div 10) = c # s" "c \<noteq> CHR ''0''" by blast
    then show ?thesis using False by (simp add: nat_str.simps [of n])
  qed
qed

lemma takeWhile_digits:
  "is_digit c = False \<Longrightarrow> takeWhile is_digit (nat_str n @ c # s) = nat_str n"
  "is_digit c = False \<Longrightarrow> dropWhile is_digit (nat_str n @ c # s) = c # s"
proof -
  have "is_digit x" if "x \<in> set (nat_str n)" for x using nat_str_digits [OF that] by (simp add: is_digit_def)
  then show "is_digit c = False \<Longrightarrow> takeWhile is_digit (nat_str n @ c # s) = nat_str n"
    "is_digit c = False \<Longrightarrow> dropWhile is_digit (nat_str n @ c # s) = c # s"
    by (simp_all add: takeWhile_append2 dropWhile_append2)
qed

lemma int_format_shape:
  assumes "w < 1000"
  shows "Rt_int_format w fill hex sg =
     CHR ''%'' # (if 0 < w \<and> fill = CHR ''0'' then ''0'' else []) @
     (if 0 < w then nat_str (nat w) else []) @ CHR ''l'' # CHR ''l'' #
     (if hex then ''X'' else if sg then ''d'' else ''u'')"
proof (cases "0 < w")
  case True
  show ?thesis unfolding Rt_int_format_def width_digits [OF True assms] using True by simp
next
  case False
  then show ?thesis by (simp add: Rt_int_format_def)
qed

text \<open>
  For widths below 1000 the conversion built digit by digit is the intended one: a signed,
  unsigned or hexadecimal number of at least the requested width, padded with zeros behind
  the sign or with blanks in front, and the number can be read back from a decimal rendering.
\<close>

theorem int_format_meaning:
  assumes "w < 1000"
  shows "printf_ll (Rt_int_format w fill hex sg) val =
           Some (pad_num (0 < w \<and> fill = CHR ''0'') (nat w) (\<not> hex \<and> sg \<and> val < 0)
                  (if hex then hex_str (nat (val mod 2 ^ 64))
                   else if sg then nat_str (nat \<bar>val\<bar>) else nat_str (nat (val mod 2 ^ 64))))"
proof -
  define cv where "cv = (if hex then ''X'' else if sg then ''d'' else ''u'')"
  have l: "is_digit CHR ''l'' = False" by (simp add: is_digit_def)
  define ds where "ds = (if 0 < w then nat_str (nat w) else [])"
  have ds: "takeWhile is_digit (ds @ CHR ''l'' # CHR ''l'' # cv) = ds"
    "dropWhile is_digit (ds @ CHR ''l'' # CHR ''l'' # cv) = CHR ''l'' # CHR ''l'' # cv"
    using takeWhile_digits [OF l, of "nat w" "CHR ''l'' # cv"] l by (auto simp: ds_def)
  have nz: "dropWhile (\<lambda>c. c = CHR ''0'') (ds @ CHR ''l'' # CHR ''l'' # cv) = ds @ CHR ''l'' # CHR ''l'' # cv"
      "hd (ds @ CHR ''l'' # CHR ''l'' # cv) \<noteq> CHR ''0''"
    using nat_str_hd [of "nat w"] by (auto simp: ds_def)
  have width: "str_nat ds = nat w" by (simp add: ds_def str_nat_def) (simp add: str_nat_def [symmetric])
  have zero: "dropWhile (\<lambda>c. c = CHR ''0'') ((if 0 < w \<and> fill = CHR ''0'' then ''0'' else []) @ ds @ CHR ''l'' # CHR ''l'' # cv)
      = ds @ CHR ''l'' # CHR ''l'' # cv"
    "hd ((if 0 < w \<and> fill = CHR ''0'' then ''0'' else []) @ ds @ CHR ''l'' # CHR ''l'' # cv) = CHR ''0''
       \<longleftrightarrow> 0 < w \<and> fill = CHR ''0''"
    using nz by auto
  show ?thesis
    unfolding int_format_shape [OF assms] ds_def [symmetric] cv_def [symmetric] append_Cons append_Nil
    unfolding printf_ll_def list.case Let_def zero ds width
    by (cases hex; cases sg) (simp_all add: cv_def)
qed

theorem int_format_meaning_witness:
  "printf_ll (Rt_int_format 5 CHR ''0'' False True) (-42) = Some ''-0042''"
proof -
  have m: "printf_ll (Rt_int_format 5 CHR ''0'' False True) (-42)
      = Some (pad_num True 5 True (nat_str 42))"
    using int_format_meaning [of 5 "CHR ''0''" False True "-42"] by simp
  show ?thesis
    unfolding m by (simp add: pad_num_def nat_str.simps digit_char_def char_of_def Let_def bit_Suc_0_iff numeral_2_eq_2)
qed

text \<open>
  A width of 1000 or more is not a number in the conversion any more: the "hundreds
  digit" is the character behind '9', the format string is "%:00lld", and such a conversion
  is undefined for \<open>snprintf\<close>. When the call reports it, the value is lost from the line.
\<close>

theorem setw_1000_malformed:
  "Rt_int_format 1000 CHR '' '' False True = ''%:00lld'' \<and>
   printf_ll (Rt_int_format 1000 CHR '' '' False True) val = None \<and>
   spec_op (PutValue (V_int val)) (blank_line\<lparr>sp_width := 1000\<rparr>) = blank_line\<lparr>sp_text := ''...''\<rparr>"
proof -
  have f: "Rt_int_format 1000 CHR '' '' False True = ''%:00lld''"
    by (simp add: Rt_int_format_def chr0_def char_of_def bit_Suc_0_iff)
  then have n: "printf_ll (Rt_int_format 1000 CHR '' '' False True) val = None"
    by (simp add: printf_ll_def is_digit_def Let_def)
  then show ?thesis using f by (simp add: spec_elem_def blank_line_def spec_mark_def Let_def)
qed

end
