(* ===== verification/RtLog.thy ===== *)
theory RtLog
  imports LogQueue FileHelper StdoutSink "HOL-Library.Signed_Division"
begin

unbundle bit_operations_syntax

text \<open>
  The real-time logger \<open>RtLog\<close> (dtRtLog.cpp and the class in dtRtLog.hpp): the entry points
  that put messages into the queue, the drain thread that formats them, the continuation
  lines of \<open>LOG_CONT\<close>, patterns, start and end. The logging library spdlog, the thread
  library and the terminal interface are outside this theory: the calls made to them are
  recorded in order, and what they answer is a parameter.
\<close>

section \<open>State\<close>

datatype target = To_default | To_named "char list"

datatype sink_kind =
    K_tui
  | K_console
  | K_syslog "char list"
  | K_file "char list" nat nat bool

datatype lib_call =
    Log_at target int LogLevel "char list"
  | Log_now LogLevel "char list"
  | Set_pattern target "char list"
  | Set_level target LogLevel
  | Add_sink target sink_kind "char list"
  | Flush_logger target
  | Flush_all
  | Set_default
  | Register "char list"
  | Shutdown
  | Tui_tick
  | Tui_stop
  | Create_thread "char list" nat int int bool
  | Delete_thread
  | Sleep int
  | Ensure_dir "char list"
  | Remove_file "char list"
  | Symlink "char list" "char list"
  | Stderr "char list"

text \<open>
  \<open>lg_faults\<close> says of each call made inside a \<open>try\<close> whether it throws; \<open>lg_registry\<close> are the
  names \<open>spdlog::get\<close> finds. The two pointers \<open>m_logger\<close> and \<open>m_tui\<close> are booleans.
\<close>

record rtlog =
  lg_logger :: bool
  lg_tui :: bool
  lg_lastRender :: int
  lg_lastFlush :: int
  lg_queue :: "Entry LogQueue"
  lg_wall :: int
  lg_mono :: int
  lg_initialized :: bool
  lg_level :: int
  lg_dropCount :: u64
  lg_syncSeq :: u64
  lg_syncAck :: u64
  lg_threadRun :: bool
  lg_contBuf :: "char list"
  lg_contLen :: nat
  lg_contLevel :: LogLevel
  lg_patternStr :: "char list"
  lg_registry :: "char list \<Rightarrow> bool"
  lg_calls :: "lib_call list"
  lg_faults :: "bool list"

definition CONT_BUF_SIZE :: nat where "CONT_BUF_SIZE = 4096"
definition DEFAULT_CONT_INDENT :: nat where "DEFAULT_CONT_INDENT = 21"
definition CONT_ENTRY_MARKER :: char where "CONT_ENTRY_MARKER = CHR 0x01"
definition MSG_LEN :: nat where "MSG_LEN = 1024"

definition RtLog_new :: "Entry LogQueue \<Rightarrow> char list \<Rightarrow> bool list \<Rightarrow> rtlog" where
  "RtLog_new queue buf faults =
     \<lparr>lg_logger = False, lg_tui = False, lg_lastRender = 0, lg_lastFlush = 0, lg_queue = queue,
      lg_wall = 0, lg_mono = 0, lg_initialized = False, lg_level = level_int L_trace,
      lg_dropCount = 0, lg_syncSeq = 0, lg_syncAck = 0, lg_threadRun = False,
      lg_contBuf = buf, lg_contLen = 0, lg_contLevel = L_info, lg_patternStr = [],
      lg_registry = (\<lambda>_. False), lg_calls = [], lg_faults = faults\<rparr>"

definition call :: "lib_call \<Rightarrow> rtlog \<Rightarrow> rtlog" where
  "call c s = s\<lparr>lg_calls := lg_calls s @ [c]\<rparr>"

text \<open>A call inside a \<open>try\<close> block: it either throws or happens.\<close>

definition try_call :: "lib_call \<Rightarrow> rtlog \<Rightarrow> bool \<times> rtlog" where
  "try_call c s =
     (case lg_faults s of
        [] \<Rightarrow> (False, call c s)
      | True # fs \<Rightarrow> (True, s\<lparr>lg_faults := fs\<rparr>)
      | False # fs \<Rightarrow> (False, call c (s\<lparr>lg_faults := fs\<rparr>)))"

definition count_drop :: "rtlog \<Rightarrow> rtlog" where
  "count_drop s = s\<lparr>lg_dropCount := lg_dropCount s + 1\<rparr>"

section \<open>Time\<close>

text \<open>\<open>timespec\<close> values are their seconds and nanoseconds.\<close>

definition ns_of :: "int \<times> int \<Rightarrow> int" where
  "ns_of ts = fst ts * 1000000000 + snd ts"

definition RefreshTimebase :: "int \<times> int \<Rightarrow> int \<times> int \<Rightarrow> rtlog \<Rightarrow> rtlog" where
  "RefreshTimebase tw tm s = s\<lparr>lg_wall := ns_of tw, lg_mono := ns_of tm\<rparr>"

definition ToWall_ns :: "rtlog \<Rightarrow> int \<Rightarrow> int" where
  "ToWall_ns s mono_ns = lg_wall s + (mono_ns - lg_mono s)"

section \<open>Entry points of the producers\<close>

text \<open>
  \<open>Enqueue\<close>; the loop of \<open>TryPush\<close> may in principle retry for ever. \<open>junk\<close> is the
  uninitialised local \<open>Entry\<close> of the entry points.
\<close>

definition Enqueue :: "Entry \<Rightarrow> rtlog \<Rightarrow> rtlog option" where
  "Enqueue entry s =
     (case TryPush QUEUE_CAPACITY entry (lg_queue s) of
        None \<Rightarrow> None
      | Some (True, q) \<Rightarrow> Some (s\<lparr>lg_queue := q\<rparr>)
      | Some (False, q) \<Rightarrow> Some (count_drop (s\<lparr>lg_queue := q\<rparr>)))"

definition IsActiveLevel :: "LogLevel \<Rightarrow> rtlog \<Rightarrow> bool" where
  "IsActiveLevel lvl s \<longleftrightarrow> level_int lvl \<ge> lg_level s"

definition LogRt :: "Entry \<Rightarrow> LogLevel \<Rightarrow> int \<Rightarrow> char list option \<Rightarrow> rtlog \<Rightarrow> rtlog option" where
  "LogRt junk lvl now rtext s =
     (if \<not> lg_initialized s then Some s
      else if level_int lvl < lg_level s then Some s
      else Enqueue (Entry_Set MSG_LEN lvl now rtext junk) s)"

definition LogRtV :: "Entry \<Rightarrow> LogLevel \<Rightarrow> int \<Rightarrow> char list option \<Rightarrow> rtlog \<Rightarrow> rtlog option" where
  "LogRtV junk lvl now rtext s =
     (if \<not> lg_initialized s then Some s
      else if level_int lvl < lg_level s then Some s
      else Enqueue (Entry_SetV MSG_LEN lvl now rtext junk) s)"

definition set_name :: "char list \<Rightarrow> Entry \<Rightarrow> Entry" where
  "set_name name e = e\<lparr>loggerName := strncpy_term (loggerName e) name 64\<rparr>"

definition LogRtNamed :: "Entry \<Rightarrow> char list \<Rightarrow> LogLevel \<Rightarrow> int \<Rightarrow> char list option \<Rightarrow> rtlog \<Rightarrow> rtlog option" where
  "LogRtNamed junk name lvl now rtext s =
     (if \<not> lg_initialized s then Some s
      else if level_int lvl < lg_level s then Some s
      else Enqueue (set_name name (Entry_Set MSG_LEN lvl now rtext junk)) s)"

definition LogRtNamedV :: "Entry \<Rightarrow> char list \<Rightarrow> LogLevel \<Rightarrow> int \<Rightarrow> char list option \<Rightarrow> rtlog \<Rightarrow> rtlog option" where
  "LogRtNamedV junk name lvl now rtext s =
     (if \<not> lg_initialized s then Some s
      else if level_int lvl < lg_level s then Some s
      else Enqueue (set_name name (Entry_SetV MSG_LEN lvl now rtext junk)) s)"

text \<open>
  \<open>fmt::format_to_n\<close> stores at most \<open>cap\<close> characters and returns the unlimited size;
  \<open>None\<close> stands for an exception.
\<close>

definition fmt_msg :: "char list option \<Rightarrow> Entry \<Rightarrow> Entry" where
  "fmt_msg rtext e =
     (let cap = MSG_LEN - 1 in
      case rtext of
        None \<Rightarrow> e\<lparr>msg := (msg e)[0 := NUL], msgLen := 0\<rparr>
      | Some t \<Rightarrow>
          let sz = (if length t < cap then length t else cap)
          in e\<lparr>msg := (memcpy_at (msg e) 0 (take cap t))[sz := NUL], msgLen := sz\<rparr>)"

definition LogRtFmt :: "Entry \<Rightarrow> LogLevel \<Rightarrow> int \<Rightarrow> char list option \<Rightarrow> rtlog \<Rightarrow> rtlog option" where
  "LogRtFmt junk lvl now rtext s =
     (if \<not> lg_initialized s then Some s
      else if level_int lvl < lg_level s then Some s
      else Enqueue (fmt_msg rtext (junk\<lparr>level := lvl, timeStamp_ns := now,
                                         loggerName := (loggerName junk)[0 := NUL]\<rparr>)) s)"

definition LogRtNamedFmt :: "Entry \<Rightarrow> char list \<Rightarrow> LogLevel \<Rightarrow> int \<Rightarrow> char list option \<Rightarrow> rtlog \<Rightarrow> rtlog option" where
  "LogRtNamedFmt junk name lvl now rtext s =
     (if \<not> lg_initialized s then Some s
      else if level_int lvl < lg_level s then Some s
      else Enqueue (fmt_msg rtext (set_name name (junk\<lparr>level := lvl, timeStamp_ns := now\<rparr>))) s)"

definition LogRtCont :: "Entry \<Rightarrow> LogLevel \<Rightarrow> int \<Rightarrow> char list \<Rightarrow> rtlog \<Rightarrow> rtlog option" where
  "LogRtCont junk lvl now text s =
     (if \<not> lg_initialized s then Some s
      else if level_int lvl < lg_level s then Some s
      else
        let len = min (length text) (MSG_LEN - 1)
        in Enqueue (junk\<lparr>level := lvl, timeStamp_ns := now,
                         loggerName := (loggerName junk)[0 := CONT_ENTRY_MARKER, 1 := NUL],
                         msg := (memcpy_at (msg junk) 0 (take len text))[len := NUL],
                         msgLen := len\<rparr>) s)"

section \<open>The drain thread\<close>

text \<open>\<open>memchr\<close>: the offset of the first occurrence.\<close>

definition memchr :: "char \<Rightarrow> char list \<Rightarrow> nat option" where
  "memchr c xs =
     (let n = length (takeWhile (\<lambda>x. x \<noteq> c) xs) in if n < length xs then Some n else None)"

text \<open>
  The body of the \<open>try\<close> block of \<open>FlushContLines\<close>: three calls, each of which may throw;
  the handler counts the line as dropped.
\<close>

definition emit_cont :: "char list \<Rightarrow> rtlog \<Rightarrow> rtlog" where
  "emit_cont text s =
     (case try_call (Set_pattern To_default ''%v'') s of
        (True, s) \<Rightarrow> count_drop s
      | (False, s) \<Rightarrow>
          (case try_call (Log_now (lg_contLevel s) text) s of
             (True, s) \<Rightarrow> count_drop s
           | (False, s) \<Rightarrow>
               (case try_call (Set_pattern To_default (lg_patternStr s)) s of
                  (True, s) \<Rightarrow> count_drop s
                | (False, s) \<Rightarrow> s)))"

text \<open>
  The loop of \<open>FlushContLines\<close>; it reads the buffer \<open>buf\<close> of which \<open>len\<close> bytes are used
  and returns the final \<open>start\<close>.
\<close>

function cont_loop :: "bool \<Rightarrow> char list \<Rightarrow> nat \<Rightarrow> nat \<Rightarrow> rtlog \<Rightarrow> nat \<times> rtlog" where
  "cont_loop force buf len start s =
     (if \<not> start < len then (start, s)
      else
        let nl = memchr NL (take (len - start) (drop start buf)) in
        if nl = None \<and> \<not> force then (start, s)
        else
          let lineLen = (case nl of Some n \<Rightarrow> n | None \<Rightarrow> len - start);
              hadNl = (nl \<noteq> None);
              copy = min lineLen CONT_BUF_SIZE;
              ibuf = replicate DEFAULT_CONT_INDENT CHR '' '' @ take copy (drop start buf)
          in cont_loop force buf len (start + lineLen + (if hadNl then 1 else 0)) (emit_cont ibuf s))"
  by pat_completeness auto
termination
  by (relation "measure (\<lambda>(force, buf, len, start, s). len - start)")
     (auto split: option.splits)

declare cont_loop.simps [simp del]

definition FlushContLines :: "bool \<Rightarrow> rtlog \<Rightarrow> rtlog" where
  "FlushContLines force s =
     (if \<not> lg_logger s then s
      else case cont_loop force (lg_contBuf s) (lg_contLen s) 0 s of
        (start, s) \<Rightarrow>
          if start > 0 then
            let remaining = lg_contLen s - start;
                buf = (if remaining > 0 then memmove_front (lg_contBuf s) start remaining else lg_contBuf s)
            in s\<lparr>lg_contBuf := buf, lg_contLen := remaining\<rparr>
          else s)"

definition FlushEntry :: "Entry \<Rightarrow> rtlog \<Rightarrow> rtlog" where
  "FlushEntry entry s =
     (if loggerName entry ! 0 = CONT_ENTRY_MARKER then
        let avail = CONT_BUF_SIZE - lg_contLen s;
            copy = min (msgLen entry) avail
        in FlushContLines False
             (s\<lparr>lg_contBuf := memcpy_at (lg_contBuf s) (lg_contLen s) (take copy (msg entry)),
                lg_contLen := lg_contLen s + copy,
                lg_contLevel := level entry\<rparr>)
      else
        let s = (if lg_contLen s > 0 then FlushContLines True s else s);
            name = cstr (loggerName entry);
            target = (if loggerName entry ! 0 \<noteq> NUL \<and> lg_registry s name then Some (To_named name)
                      else if lg_logger s then Some To_default
                      else None)
        in case target of
             None \<Rightarrow> s
           | Some tg \<Rightarrow>
               (case try_call (Log_at tg (ToWall_ns s (timeStamp_ns entry)) (level entry)
                                 (take (msgLen entry) (msg entry))) s of
                  (True, s) \<Rightarrow> count_drop s
                | (False, s) \<Rightarrow> s))"

text \<open>\<open>DrainAll\<close> is the consumer's loop of the queue with \<open>FlushEntry\<close> as its body.\<close>

definition DrainAll :: "rtlog \<Rightarrow> (nat \<times> rtlog) option" where
  "DrainAll s =
     map_option (\<lambda>(q, s', count). (count, s'\<lparr>lg_queue := q\<rparr>))
       (drain (TryPop QUEUE_CAPACITY) FlushEntry (lg_queue s) s 0)"

definition POLL_INTERVAL_NS :: int where "POLL_INTERVAL_NS = 1000000"
definition FLUSH_INTERVAL_NS :: int where "FLUSH_INTERVAL_NS = 20000000"
definition TUI_FLUSH_INTERVAL_NS :: int where "TUI_FLUSH_INTERVAL_NS = 40000000"

definition poll_interval :: "nat \<Rightarrow> nat \<Rightarrow> nat \<Rightarrow> int" where
  "poll_interval sizeBefore count sizeAfter =
     (if sizeAfter > QUEUE_CAPACITY div 2 then 100000
      else if count > 0 \<and> sizeAfter \<ge> sizeBefore then 100000
      else if count > 0 then 500000
      else POLL_INTERVAL_NS)"

text \<open>
  \<open>Poll\<close> without other threads in between: \<open>now_ns\<close> is what the clock says. A
  caller of \<open>Sync\<close> waits for one round of it after another.
\<close>

definition ack_syncs :: "rtlog \<Rightarrow> rtlog" where
  "ack_syncs s = (if lg_syncSeq s > lg_syncAck s then s\<lparr>lg_syncAck := lg_syncSeq s\<rparr> else s)"

definition poll_flush :: "int \<Rightarrow> rtlog \<Rightarrow> rtlog" where
  "poll_flush now_ns s =
     (if now_ns - lg_lastFlush s \<ge> FLUSH_INTERVAL_NS
      then (call Flush_all s)\<lparr>lg_lastFlush := now_ns\<rparr> else s)"

definition poll_render :: "int \<Rightarrow> rtlog \<Rightarrow> rtlog" where
  "poll_render now_ns s =
     (if lg_tui s \<and> now_ns - lg_lastRender s \<ge> TUI_FLUSH_INTERVAL_NS
      then (call Tui_tick s)\<lparr>lg_lastRender := now_ns\<rparr> else s)"

definition Poll :: "int \<Rightarrow> rtlog \<Rightarrow> rtlog option" where
  "Poll now_ns s =
     (let sizeBefore = ApproxSize (lg_queue s) in
      case DrainAll s of
        None \<Rightarrow> None
      | Some (count, s) \<Rightarrow>
          let s = poll_render now_ns (poll_flush now_ns (ack_syncs s));
              sizeAfter = ApproxSize (lg_queue s)
          in Some (call (Sleep (poll_interval sizeBefore count sizeAfter)) s))"

text \<open>
  The thread function: \<open>PollLogQueue\<close> polls until the flag is cleared; the clock readings
  of its rounds are given, and \<open>stop\<close> says whether the flag is cleared during a round.
\<close>

fun PollLogQueue :: "(int \<times> bool) list \<Rightarrow> rtlog \<Rightarrow> rtlog option" where
  "PollLogQueue [] s = Some s"
| "PollLogQueue ((now_ns, stop) # rounds) s =
     (if \<not> lg_threadRun s then Some s
      else case Poll now_ns s of
        None \<Rightarrow> None
      | Some s \<Rightarrow> PollLogQueue rounds (s\<lparr>lg_threadRun := lg_threadRun s \<and> \<not> stop\<rparr>))"

section \<open>Waiting for the drain thread\<close>

text \<open>
  \<open>Sync\<close> when the drain thread does one round between two looks at the acknowledgement, as
  many rounds as there are clock readings; \<open>None\<close> when it is still waiting after them.
\<close>

fun sync_wait :: "u64 \<Rightarrow> int list \<Rightarrow> rtlog \<Rightarrow> rtlog option" where
  "sync_wait target rounds s =
     (if \<not> lg_syncAck s < target then Some s
      else if \<not> lg_threadRun s then Some s
      else case rounds of
        [] \<Rightarrow> None
      | now_ns # rounds \<Rightarrow>
          (case Poll now_ns s of None \<Rightarrow> None | Some s \<Rightarrow> sync_wait target rounds s))"

declare sync_wait.simps [simp del]

definition Sync :: "int list \<Rightarrow> rtlog \<Rightarrow> rtlog option" where
  "Sync rounds s =
     (if \<not> lg_initialized s then Some s
      else
        let target = lg_syncSeq s + 1
        in map_option (call Flush_all) (sync_wait target rounds (s\<lparr>lg_syncSeq := target\<rparr>)))"

section \<open>Levels and patterns\<close>

definition SetLevel :: "LogLevel \<Rightarrow> rtlog \<Rightarrow> rtlog" where
  "SetLevel lvl s =
     (let s = s\<lparr>lg_level := level_int lvl\<rparr>
      in if lg_logger s then call (Set_level To_default lvl) s else s)"

definition SetLogLevel_named :: "char list \<Rightarrow> LogLevel \<Rightarrow> rtlog \<Rightarrow> rtlog" where
  "SetLogLevel_named name lvl s =
     (if lg_registry s name then call (Set_level (To_named name) lvl) s else s)"

definition has_flag :: "u32 \<Rightarrow> u32 \<Rightarrow> bool" where
  "has_flag pattern flag \<longleftrightarrow> pattern AND flag \<noteq> 0"

definition pattern_string :: "u32 \<Rightarrow> char list \<Rightarrow> char list" where
  "pattern_string pattern delimiter =
     ''%^'' @
     (if has_flag pattern 0x0001 then ''%L'' @ delimiter
      else if has_flag pattern 0x0002 then ''%l'' @ delimiter else []) @
     (if has_flag pattern 0x0010 then ''%Y-%m-%d'' @ delimiter
      else if has_flag pattern 0x0020 then ''%H:%M:%S.%f'' @ delimiter
      else if has_flag pattern 0x0040 then ''%Y-%m-%d %H:%M:%S.%f'' @ delimiter
      else if has_flag pattern 0x0080 then ''%E.%f'' @ delimiter else []) @
     (if has_flag pattern 0x0100 then ''%8i'' @ delimiter else []) @
     (if has_flag pattern 0x0004 then ''%n'' @ delimiter else []) @
     ''%$%v''"

definition SetLogPattern_raw :: "char list \<Rightarrow> int list \<Rightarrow> rtlog \<Rightarrow> rtlog option" where
  "SetLogPattern_raw raw_pattern rounds s =
     map_option (\<lambda>s.
        let s = s\<lparr>lg_patternStr := raw_pattern\<rparr>
        in if lg_logger s then call (Set_pattern To_default raw_pattern) s else s)
       (Sync rounds s)"

definition SetLogPattern :: "u32 \<Rightarrow> char list \<Rightarrow> int list \<Rightarrow> rtlog \<Rightarrow> rtlog option" where
  "SetLogPattern pattern delimiter rounds s =
     (let pattern_str = pattern_string pattern delimiter in
      map_option (\<lambda>s.
        let s = s\<lparr>lg_patternStr := pattern_str\<rparr>
        in if lg_logger s then call (Set_pattern To_default pattern_str) s else s)
       (Sync rounds s))"

definition SetLogPattern_named_raw :: "char list \<Rightarrow> char list \<Rightarrow> int list \<Rightarrow> rtlog \<Rightarrow> rtlog option" where
  "SetLogPattern_named_raw name raw_pattern rounds s =
     map_option (\<lambda>s.
        if lg_registry s name
        then call (Set_pattern (To_named name) raw_pattern) (call (Flush_logger (To_named name)) s)
        else s)
       (Sync rounds s)"

definition SetLogPattern_named :: "char list \<Rightarrow> u32 \<Rightarrow> char list \<Rightarrow> int list \<Rightarrow> rtlog \<Rightarrow> rtlog option" where
  "SetLogPattern_named name pattern delimiter rounds s =
     (let pattern_str = pattern_string pattern delimiter in
      map_option (\<lambda>s.
        if lg_registry s name
        then call (Set_pattern (To_named name) pattern_str) (call (Flush_logger (To_named name)) s)
        else s)
       (Sync rounds s))"

section \<open>Statistics\<close>

definition RtLog_IsInitialized :: "rtlog \<Rightarrow> bool" where
  "RtLog_IsInitialized s = lg_initialized s"

definition RtLog_GetLevel :: "rtlog \<Rightarrow> int" where
  "RtLog_GetLevel s = lg_level s"

definition RtLog_DropCount :: "rtlog \<Rightarrow> u64" where
  "RtLog_DropCount s = lg_dropCount s"

definition QueueSize :: "rtlog \<Rightarrow> nat" where
  "QueueSize s = ApproxSize (lg_queue s)"

definition QueueUtilization :: "rtlog \<Rightarrow> nat" where
  "QueueUtilization s = ApproxSize (lg_queue s) * 100 div QUEUE_CAPACITY"

record queue_stats =
  current_size :: nat
  capacity :: nat
  utilization_pct :: nat
  total_drops :: u64

definition GetQueueStats :: "rtlog \<Rightarrow> queue_stats" where
  "GetQueueStats s =
     \<lparr>current_size = ApproxSize (lg_queue s), capacity = QUEUE_CAPACITY,
      utilization_pct = ApproxSize (lg_queue s) * 100 div QUEUE_CAPACITY,
      total_drops = lg_dropCount s\<rparr>"

section \<open>Raw output\<close>

definition level_char :: "LogLevel \<Rightarrow> char" where
  "level_char lvl =
     (case lvl of L_trace \<Rightarrow> CHR ''T'' | L_debug \<Rightarrow> CHR ''D'' | L_info \<Rightarrow> CHR ''I'' | L_warn \<Rightarrow> CHR ''W''
                | L_err \<Rightarrow> CHR ''E'' | L_critical \<Rightarrow> CHR ''C'' | _ \<Rightarrow> CHR ''?'')"

definition raw_header :: "LogLevel \<Rightarrow> int \<times> int \<Rightarrow> int \<Rightarrow> char list" where
  "raw_header lvl ts tz_offset =
     (let local_sec = fst ts + tz_offset;
          sod = local_sec smod 86400;
          hh = sod sdiv 3600;
          mm = (sod smod 3600) sdiv 60;
          ss = sod smod 60;
          us = snd ts sdiv 1000
      in SinkColorFor lvl @ ''['' @ [level_char lvl] @ '']['' @
         fmt0d 2 hh @ '':'' @ fmt0d 2 mm @ '':'' @ fmt0d 2 ss @ ''.'' @ fmt0d 6 us @ '']'' @
         ESC # ''[0m'' @ ESC # ''[1m[RAW]'' @ ESC # ''[0m '')"

text \<open>
  \<open>LogRaw\<close>: the bytes of its one \<open>write\<close> to the standard error, or \<open>None\<close> if a store left
  the array \<open>buf\<close> (whose contents \<open>junk\<close> are uninitialised). \<open>rtext\<close> is \<open>None\<close> for a null
  format, otherwise what the format renders to, or \<open>Some None\<close> when \<open>vsnprintf\<close> fails.
\<close>

definition LogRaw :: "LogLevel \<Rightarrow> int \<times> int \<Rightarrow> int \<Rightarrow> char list option option \<Rightarrow> char list \<Rightarrow> char list option" where
  "LogRaw lvl ts tz_offset rtext junk =
     (let hdrtext = raw_header lvl ts tz_offset;
          buf = snprintf_at junk 0 512 (Some hdrtext);
          hdr = (if snprintf_ret (Some hdrtext) < 0 \<or> snprintf_ret (Some hdrtext) \<ge> 512 then 0
                 else nat (snprintf_ret (Some hdrtext)));
          text = (case rtext of None \<Rightarrow> Some ''(null)'' | Some r \<Rightarrow> r);
          buf = snprintf_at buf hdr (512 - hdr - 1) text;
          msg_n = (if snprintf_ret text < 0 then 0 else nat (snprintf_ret text));
          total = (if hdr + msg_n \<ge> 512 - 1 then 512 - 2 else hdr + msg_n)
      in if writes_within junk 0 512 \<and> writes_within buf hdr (512 - hdr - 1) \<and> total < length buf
         then Some (take (Suc total) (buf[total := NL])) else None)"

section \<open>Start and end\<close>

text \<open>
  \<open>FlushOn\<close> only logs that it does nothing. Then the file names: the date is put before
  the extension, as spdlog's \<open>split_by_extension\<close> (an argument) finds it.
\<close>

definition FlushOn :: "Entry \<Rightarrow> int \<Rightarrow> rtlog \<Rightarrow> rtlog option" where
  "FlushOn junk now s = LogRt junk L_debug now (Some ''[RtLog] No need: FlushOn()'') s"

definition FlushOn_named :: "Entry \<Rightarrow> char list \<Rightarrow> int \<Rightarrow> rtlog \<Rightarrow> rtlog option" where
  "FlushOn_named junk name now s =
     LogRt junk L_debug now (Some (''[RtLog:'' @ cstr name @ ''] No need: FlushOn()'')) s"

definition AnnotateFilenameDatetime :: "(char list \<Rightarrow> char list \<times> char list) \<Rightarrow> tm \<Rightarrow> char list \<Rightarrow> char list" where
  "AnnotateFilenameDatetime split now fileBasename =
     (case split fileBasename of
        (basename, ext) \<Rightarrow>
          basename @ ''_'' @ fmt0d 4 (tm_year now + 1900) @ ''-'' @ fmt0d 2 (tm_mon now + 1) @ ''-'' @
          fmt0d 2 (tm_mday now) @ ''_'' @ fmt0d 2 (tm_hour now) @ ''-'' @ fmt0d 2 (tm_min now) @ ''-'' @
          fmt0d 2 (tm_sec now) @ ext)"

text \<open>What the outside world answers during \<open>Initialize\<close> and \<open>Create\<close>.\<close>

record world =
  w_tty :: bool
  w_tui_ok :: bool
  w_now :: tm
  w_split :: "char list \<Rightarrow> char list \<times> char list"
  w_stat :: path_kind
  w_mkdir :: mkdir_result
  w_symlink :: "char list option"
  w_strerror :: "int \<Rightarrow> char list"
  w_clock :: "int \<times> int"
  w_monotonic :: "int \<times> int"
  w_tz :: int
  w_junk :: "char list"
  w_entry :: Entry
  w_thread :: "char list option"

definition raw :: "world \<Rightarrow> LogLevel \<Rightarrow> char list \<Rightarrow> rtlog \<Rightarrow> rtlog" where
  "raw w lvl text s =
     (case LogRaw lvl (w_clock w) (w_tz w) (Some (Some text)) (w_junk w) of
        None \<Rightarrow> s | Some bytes \<Rightarrow> call (Stderr bytes) s)"

definition DEFAULT_PATTERN :: "char list" where
  "DEFAULT_PATTERN = ''%^[%L][%H:%M:%S.%f]%$ %v''"

definition SYSLOG_PATTERN :: "char list" where
  "SYSLOG_PATTERN = ''[%L][%H:%M:%S.%f] %v''"

text \<open>
  The file sink of a logger, for both functions. \<open>report\<close> is how a problem is logged: on
  the default logger. The symbolic link's name is the base name without the date.
\<close>

definition open_log_file ::
    "world \<Rightarrow> target \<Rightarrow> char list \<Rightarrow> char list \<Rightarrow> bool \<Rightarrow> nat \<Rightarrow> nat \<Rightarrow> bool \<Rightarrow> rtlog \<Rightarrow> rtlog" where
  "open_log_file w tg arrow fileBasename annotDatetime maxFileSize maxFiles truncate_old s =
     (let (filename, s) =
        (if annotDatetime then
           let filename = AnnotateFilenameDatetime (w_split w) (w_now w) fileBasename;
               (dname, fname) = SplitByDirectory filename;
               (ok, ec) = EnsureDirectoryExistes dname (w_stat w) (w_mkdir w);
               s = call (Ensure_dir dname) s;
               s = (if ok then s
                    else call (Log_now L_err (''Cannot create directory '' @ [CHR 0x27] @ dname @ [CHR 0x27] @ '': '' @ w_strerror w ec)) s);
               s = call (Symlink fname fileBasename) (call (Remove_file fileBasename) s);
               s = (case w_symlink w of
                      None \<Rightarrow> s
                    | Some e \<Rightarrow>
                        if lg_logger s
                        then call (Log_now L_warn (''Cannot create symlink '' @ [CHR 0x27] @ fileBasename @ [CHR 0x27] @ arrow @
                                                   [CHR 0x27] @ fname @ [CHR 0x27] @ '': '' @ e)) s
                        else s)
           in (filename, s)
         else (fileBasename, s))
      in call (Add_sink tg (K_file filename maxFileSize maxFiles truncate_old) DEFAULT_PATTERN) s)"

text \<open>The four stages of \<open>Initialize\<close>: may the terminal interface be used, ...\<close>

definition init_gate :: "world \<Rightarrow> char list \<Rightarrow> bool \<Rightarrow> rtlog \<Rightarrow> bool \<times> rtlog" where
  "init_gate w fileBasename enableTui s =
     (if \<not> enableTui then (False, s)
      else if fileBasename = ''_SYSLOG_''
        then (False, raw w L_warn ''[RtLog] syslog output requested: TUI auto-disabled'' s)
      else if \<not> w_tty w
        then (False, raw w L_warn ''[RtLog] stdout is not a terminal (daemon/redirected): TUI auto-disabled'' s)
      else (True, s))"

text \<open>... the terminal interface or the console, ...\<close>

definition init_console :: "world \<Rightarrow> bool \<Rightarrow> rtlog \<Rightarrow> rtlog" where
  "init_console w enable s =
     (if enable then
        (if w_tui_ok w
         then call (Add_sink To_default K_tui DEFAULT_PATTERN) (s\<lparr>lg_tui := True\<rparr>)
         else raw w L_err ''TUI initialize failed -> use default stdout''
                (call (Add_sink To_default K_console DEFAULT_PATTERN) (s\<lparr>lg_tui := False\<rparr>)))
      else call (Add_sink To_default K_console DEFAULT_PATTERN) s)"

text \<open>... syslog or a file, ...\<close>

definition init_output :: "world \<Rightarrow> char list \<Rightarrow> char list \<Rightarrow> nat \<Rightarrow> nat \<Rightarrow> bool \<Rightarrow> bool \<Rightarrow> rtlog \<Rightarrow> rtlog" where
  "init_output w logName fileBasename maxFiles maxFileSize annotDatetime truncate_old s =
     (if fileBasename = ''_SYSLOG_''
        then call (Add_sink To_default (K_syslog logName) SYSLOG_PATTERN) s
      else if fileBasename \<noteq> [] \<and> fileBasename \<noteq> ''_STDOUT_''
        then open_log_file w To_default ('' '' @ map char_of [226::nat, 134, 146] @ '' '')
               fileBasename annotDatetime maxFileSize maxFiles truncate_old s
      else s)"

text \<open>... and the thread.\<close>

record thread_args =
  ta_cpu :: int
  ta_priority :: int
  ta_stack :: nat

definition init_thread :: "world \<Rightarrow> thread_args \<Rightarrow> rtlog \<Rightarrow> rtlog" where
  "init_thread w th s =
     (let s = RefreshTimebase (w_clock w) (w_monotonic w) (call Set_default s);
          s = s\<lparr>lg_patternStr := DEFAULT_PATTERN, lg_contLen := 0, lg_threadRun := True\<rparr>;
          s = call (Create_thread ''RtLogThread'' (ta_stack th) (ta_cpu th) (ta_priority th) (ta_priority th > 0)) s
      in case w_thread w of
           None \<Rightarrow> s\<lparr>lg_initialized := True\<rparr>
         | Some e \<Rightarrow> call (Log_now L_err (''Cannot create log thread: '' @ e)) (s\<lparr>lg_threadRun := False\<rparr>))"

definition Initialize ::
    "world \<Rightarrow> thread_args \<Rightarrow> char list \<Rightarrow> char list \<Rightarrow> bool \<Rightarrow> nat \<Rightarrow> nat \<Rightarrow> bool \<Rightarrow> bool \<Rightarrow> rtlog \<Rightarrow> rtlog option" where
  "Initialize w th logName fileBasename enableTui maxFiles maxFileSize annotDatetime truncate_old s =
     (if lg_initialized s
      then LogRt (w_entry w) L_err (ns_of (w_monotonic w)) (Some ''[RtLog] Initialize() is already called!!!'') s
      else case init_gate w fileBasename enableTui s of
        (enable, s) \<Rightarrow>
          Some (init_thread w th
            (init_output w logName fileBasename maxFiles maxFileSize annotDatetime truncate_old
              (init_console w enable (s\<lparr>lg_logger := True\<rparr>)))))"

text \<open>
  \<open>Create\<close> does not return (\<open>None\<close>) in two cases: a directory problem is reported without a
  look at \<open>m_logger\<close>, so a null pointer is dereferenced when there is no default logger; and
  \<open>register_logger\<close> throws on a name that is taken.
\<close>

definition Create ::
    "world \<Rightarrow> char list \<Rightarrow> char list \<Rightarrow> bool \<Rightarrow> bool \<Rightarrow> nat \<Rightarrow> nat \<Rightarrow> rtlog \<Rightarrow> rtlog option" where
  "Create w logName fileBasename annotDatetime truncate_old maxFiles maxFileSize s =
     (let register = (\<lambda>s. if lg_registry s logName then None
                         else Some (call (Register logName) (s\<lparr>lg_registry := (lg_registry s)(logName := True)\<rparr>))) in
      if fileBasename = ''_STDOUT_''
        then register (call (Add_sink (To_named logName) K_console DEFAULT_PATTERN) s)
      else if fileBasename = ''_SYSLOG_''
        then register (call (Add_sink (To_named logName) (K_syslog logName) SYSLOG_PATTERN) s)
      else
        let dname = fst (SplitByDirectory (AnnotateFilenameDatetime (w_split w) (w_now w) fileBasename)) in
        if annotDatetime \<and> \<not> fst (EnsureDirectoryExistes dname (w_stat w) (w_mkdir w)) \<and> \<not> lg_logger s then None
        else register (open_log_file w (To_named logName) '' -> '' fileBasename annotDatetime maxFileSize maxFiles truncate_old s))"

text \<open>
  \<open>Terminate\<close>; \<open>deleted\<close> is whether \<open>DeleteThread\<close> returned 0. \<open>spdlog::shutdown\<close> empties
  the registry. The format of the report uses \<open>%llu\<close> where the library expects braces, so
  the text is logged as it stands.
\<close>

definition drops_report :: "char list" where
  "drops_report = ''CloseLogger: RT log queue dropped %llu messages during operation''"

definition Terminate :: "bool \<Rightarrow> rtlog \<Rightarrow> rtlog option" where
  "Terminate deleted s =
     (if \<not> lg_initialized s then Some s
      else
        let s = (if lg_dropCount s > 0 then call (Log_now L_warn drops_report) s else s);
            s = call Delete_thread (s\<lparr>lg_threadRun := False\<rparr>)
        in case (if deleted then map_option (\<lambda>(n, s). FlushContLines True s) (DrainAll s) else Some s) of
             None \<Rightarrow> None
           | Some s \<Rightarrow>
               let s = (if lg_tui s then (call Tui_stop s)\<lparr>lg_tui := False\<rparr> else s);
                   s = call Shutdown (call Flush_all (s\<lparr>lg_initialized := False\<rparr>))
               in Some (s\<lparr>lg_registry := (\<lambda>_. False), lg_logger := False\<rparr>))"

end
