(* ===== verification/RtDrain.thy ===== *)
theory RtDrain
  imports RtLog
begin

text \<open>
  What the drain thread of the logger promises: an abstract feed of log calls, the
  specification of continuation lines as the lines of a text, and the proof that
  \<open>FlushContLines\<close>, \<open>FlushEntry\<close> and \<open>DrainAll\<close> implement it.
\<close>

section \<open>Continuation lines\<close>

text \<open>
  The specification works on texts: the complete lines of a text and the rest behind the
  last newline.
\<close>

fun lines_of :: "char list \<Rightarrow> char list list \<times> char list" where
  "lines_of [] = ([], [])"
| "lines_of (c # cs) =
     (case lines_of cs of
        (ls, r) \<Rightarrow>
          if c = NL then ([] # ls, r)
          else (case ls of [] \<Rightarrow> ([], c # r) | l # ls' \<Rightarrow> ((c # l) # ls', r)))"

lemma lines_of_join:
  "concat (map (\<lambda>l. l @ [NL]) (fst (lines_of xs))) @ snd (lines_of xs) = xs"
  by (induction xs rule: lines_of.induct) (auto split: prod.splits list.splits)

lemma lines_of_no_nl:
  "(\<forall>l \<in> set (fst (lines_of xs)). NL \<notin> set l) \<and> NL \<notin> set (snd (lines_of xs))"
  by (induction xs rule: lines_of.induct) (auto split: prod.splits list.splits)

lemma memchr_Cons:
  "memchr c (x # xs) = (if x = c then Some 0 else map_option Suc (memchr c xs))"
  by (simp add: memchr_def Let_def)

lemma memchr_Nil [simp]: "memchr c [] = None"
  by (simp add: memchr_def)

lemma memchr_less: "memchr c xs = Some n \<Longrightarrow> n < length xs"
  by (auto simp: memchr_def Let_def split: if_splits)

lemma lines_of_memchr:
  "lines_of xs =
     (case memchr NL xs of
        None \<Rightarrow> ([], xs)
      | Some n \<Rightarrow> (take n xs # fst (lines_of (drop (Suc n) xs)), snd (lines_of (drop (Suc n) xs))))"
proof (induction xs)
  case Nil
  then show ?case by (simp add: memchr_def)
next
  case (Cons x xs)
  then show ?case
    by (cases "x = NL"; cases "memchr NL xs") (auto simp: memchr_Cons split: prod.splits)
qed

lemma length_rest: "length (snd (lines_of xs)) \<le> length xs"
  by (metis lines_of_join le_add2 length_append)

definition cont_calls :: "char list \<Rightarrow> LogLevel \<Rightarrow> char list \<Rightarrow> lib_call list" where
  "cont_calls pat lvl text =
     [Set_pattern To_default ''%v'', Log_now lvl (replicate 21 CHR '' '' @ text), Set_pattern To_default pat]"

lemma call_simps [simp]:
  "lg_calls (call c s) = lg_calls s @ [c]"
  "lg_faults (call c s) = lg_faults s"
  "lg_patternStr (call c s) = lg_patternStr s"
  "lg_contLevel (call c s) = lg_contLevel s"
  "lg_contBuf (call c s) = lg_contBuf s"
  "lg_contLen (call c s) = lg_contLen s"
  "lg_queue (call c s) = lg_queue s"
  "lg_logger (call c s) = lg_logger s"
  "lg_registry (call c s) = lg_registry s"
  by (simp_all add: call_def)

lemma emit_cont_calls:
  "lg_faults s = [] \<Longrightarrow>
     emit_cont (replicate DEFAULT_CONT_INDENT CHR '' '' @ text) s
       = s\<lparr>lg_calls := lg_calls s @ cont_calls (lg_patternStr s) (lg_contLevel s) text\<rparr>"
  by (simp add: emit_cont_def try_call_def call_def cont_calls_def DEFAULT_CONT_INDENT_def)

lemma cont_loop_spec:
  assumes "lg_faults s = []" and "start \<le> len" and "len \<le> length buf" and "len \<le> CONT_BUF_SIZE"
  shows "cont_loop force buf len start s =
           (case lines_of (take (len - start) (drop start buf)) of
              (ls, r) \<Rightarrow>
                ((if force then len else len - length r),
                 s\<lparr>lg_calls := lg_calls s @
                     concat (map (cont_calls (lg_patternStr s) (lg_contLevel s))
                              (ls @ (if force \<and> r \<noteq> [] then [r] else [])))\<rparr>))"
  using assms
proof (induction force buf len start s rule: cont_loop.induct)
  case (1 force buf len start s)
  let ?xs = "take (len - start) (drop start buf)"
  show ?case
  proof (cases "start < len")
    case False
    then have "start = len" using 1(3) by simp
    then show ?thesis by (simp add: cont_loop.simps [of force buf len len s])
  next
    case True
    have lx: "length ?xs = len - start" using 1(4) by simp
    show ?thesis
    proof (cases "memchr NL ?xs")
      case None
      have small: "min (len - start) CONT_BUF_SIZE = len - start" using 1(5) by simp
      have ne: "?xs \<noteq> []" using lx True by auto
      show ?thesis
      proof (cases force)
        case False
        then show ?thesis
          using None True 1(4) by (simp add: cont_loop.simps [of False buf len start s] lines_of_memchr [of ?xs])
      next
        case f: True
        show ?thesis
          using None True f 1(2,4) small ne
          by (simp add: cont_loop.simps [of True buf len start s] cont_loop.simps [of True buf len len]
              lines_of_memchr [of ?xs] emit_cont_calls)
      qed
    next
      case (Some n)
      let ?s = "s\<lparr>lg_calls := lg_calls s @ cont_calls (lg_patternStr s) (lg_contLevel s) (take n ?xs)\<rparr>"
      have n: "n < len - start" using memchr_less [OF Some] lx by simp
      have small: "min n CONT_BUF_SIZE = n" using n 1(5) by simp
      have t: "take n (drop start buf) = take n ?xs" using n by simp
      have step: "cont_loop force buf len start s = cont_loop force buf len (Suc (start + n)) ?s"
        using Some True small 1(2)
        by (simp add: cont_loop.simps [of force buf len start s] emit_cont_calls t)
      have rest: "drop (Suc n) ?xs = take (len - Suc (start + n)) (drop (Suc (start + n)) buf)"
        by (simp add: drop_take add.commute)
      have e: "emit_cont (replicate DEFAULT_CONT_INDENT CHR '' '' @ take (min n CONT_BUF_SIZE) (drop start buf)) s = ?s"
        unfolding small t by (rule emit_cont_calls [OF 1(2)])
      have p: "\<not> \<not> start < len" "\<not> (memchr NL ?xs = None \<and> \<not> force)" "lg_faults ?s = []"
        "Suc (start + n) \<le> len"
        using True Some 1(2) n by simp_all
      have "cont_loop force buf len (Suc (start + n)) ?s =
           (case lines_of (take (len - Suc (start + n)) (drop (Suc (start + n)) buf)) of
              (ls, r) \<Rightarrow>
                ((if force then len else len - length r),
                 ?s\<lparr>lg_calls := lg_calls ?s @
                     concat (map (cont_calls (lg_patternStr ?s) (lg_contLevel ?s))
                              (ls @ (if force \<and> r \<noteq> [] then [r] else [])))\<rparr>))"
        using "1.IH" [OF p(1) refl p(2) refl refl refl refl] 1(4,5) p(3,4)
        unfolding Some option.case e
        by simp
      note IH = this [folded rest]
      show ?thesis
        unfolding step IH lines_of_memchr [of ?xs] Some by (simp split: prod.splits)
    qed
  qed
qed

section \<open>Specification of the drain thread\<close>

text \<open>
  \<open>feed\<close> is the abstract output: the continuation text without its newline yet, its level,
  and the calls made. \<open>feed_entry\<close> says what one message does to it; the registry, the
  pattern and the clock offset do not change while messages are drained.
\<close>

record feed =
  fd_text :: "char list"
  fd_level :: LogLevel
  fd_calls :: "lib_call list"

record feed_config =
  fc_pattern :: "char list"
  fc_registry :: "char list \<Rightarrow> bool"
  fc_offset :: int

definition feed_lines :: "feed_config \<Rightarrow> char list list \<Rightarrow> feed \<Rightarrow> feed" where
  "feed_lines fc ls f =
     f\<lparr>fd_calls := fd_calls f @ concat (map (cont_calls (fc_pattern fc) (fd_level f)) ls)\<rparr>"

definition feed_flush :: "feed_config \<Rightarrow> feed \<Rightarrow> feed" where
  "feed_flush fc f =
     (case lines_of (fd_text f) of
        (ls, r) \<Rightarrow> feed_lines fc (ls @ (if r \<noteq> [] then [r] else [])) (f\<lparr>fd_text := []\<rparr>))"

definition feed_cont :: "feed_config \<Rightarrow> LogLevel \<Rightarrow> char list \<Rightarrow> feed \<Rightarrow> feed" where
  "feed_cont fc lvl text f =
     (case lines_of (take 4096 (fd_text f @ text)) of
        (ls, r) \<Rightarrow> feed_lines fc ls (f\<lparr>fd_text := r, fd_level := lvl\<rparr>))"

definition feed_message :: "feed_config \<Rightarrow> char list \<Rightarrow> int \<Rightarrow> LogLevel \<Rightarrow> char list \<Rightarrow> feed \<Rightarrow> feed" where
  "feed_message fc name ts lvl text f =
     (let f = feed_flush fc f;
          tg = (if name \<noteq> [] \<and> fc_registry fc name then To_named name else To_default)
      in f\<lparr>fd_calls := fd_calls f @ [Log_at tg (fc_offset fc + ts) lvl text]\<rparr>)"

definition is_cont :: "Entry \<Rightarrow> bool" where
  "is_cont e \<longleftrightarrow> loggerName e ! 0 = CONT_ENTRY_MARKER"

definition feed_entry :: "feed_config \<Rightarrow> Entry \<Rightarrow> feed \<Rightarrow> feed" where
  "feed_entry fc e f =
     (if is_cont e then feed_cont fc (level e) (entry_text e) f
      else feed_message fc (cstr (loggerName e)) (timeStamp_ns e) (level e) (entry_text e) f)"

text \<open>The abstraction of a logger state, and what the drain thread leaves unchanged.\<close>

definition cont_text :: "rtlog \<Rightarrow> char list" where
  "cont_text s = take (lg_contLen s) (lg_contBuf s)"

definition feed_of :: "rtlog \<Rightarrow> feed" where
  "feed_of s = \<lparr>fd_text = cont_text s, fd_level = lg_contLevel s, fd_calls = lg_calls s\<rparr>"

definition config_of :: "rtlog \<Rightarrow> feed_config" where
  "config_of s = \<lparr>fc_pattern = lg_patternStr s, fc_registry = lg_registry s, fc_offset = lg_wall s - lg_mono s\<rparr>"

definition drain_ok :: "rtlog \<Rightarrow> bool" where
  "drain_ok s \<longleftrightarrow> length (lg_contBuf s) = CONT_BUF_SIZE \<and> lg_contLen s \<le> CONT_BUF_SIZE \<and>
     lg_logger s \<and> lg_faults s = []"

definition only_output :: "rtlog \<Rightarrow> rtlog \<Rightarrow> bool" where
  "only_output s s' \<longleftrightarrow>
     (\<exists>cs buf n lvl. s' = s\<lparr>lg_calls := cs, lg_contBuf := buf, lg_contLen := n, lg_contLevel := lvl\<rparr>)"

lemma only_outputI [intro]:
  "s' = s\<lparr>lg_calls := cs, lg_contBuf := buf, lg_contLen := n, lg_contLevel := lvl\<rparr> \<Longrightarrow> only_output s s'"
  by (auto simp: only_output_def)

lemma only_output_refl: "only_output s s"
  by (rule only_outputI [where cs = "lg_calls s" and buf = "lg_contBuf s" and n = "lg_contLen s"
        and lvl = "lg_contLevel s"]) simp

lemma only_output_trans: "only_output s s' \<Longrightarrow> only_output s' s'' \<Longrightarrow> only_output s s''"
  unfolding only_output_def by (elim exE, intro exI) simp

lemma only_output_keeps:
  assumes "only_output s s'"
  shows "config_of s' = config_of s" "lg_queue s' = lg_queue s" "lg_logger s' = lg_logger s"
    "lg_faults s' = lg_faults s" "lg_dropCount s' = lg_dropCount s" "lg_tui s' = lg_tui s"
    "lg_initialized s' = lg_initialized s" "lg_threadRun s' = lg_threadRun s"
    "lg_syncSeq s' = lg_syncSeq s" "lg_syncAck s' = lg_syncAck s"
    "lg_patternStr s' = lg_patternStr s" "lg_registry s' = lg_registry s"
    "lg_lastFlush s' = lg_lastFlush s" "lg_lastRender s' = lg_lastRender s"
    "lg_level s' = lg_level s"
  using assms by (auto simp: only_output_def config_of_def)

lemma FlushContLines_spec:
  assumes "drain_ok s"
  shows "drain_ok (FlushContLines force s) \<and> only_output s (FlushContLines force s) \<and>
         feed_of (FlushContLines force s) =
           (case lines_of (cont_text s) of
              (ls, r) \<Rightarrow>
                feed_lines (config_of s) (ls @ (if force \<and> r \<noteq> [] then [r] else []))
                  ((feed_of s)\<lparr>fd_text := if force then [] else r\<rparr>))"
proof -
  let ?buf = "lg_contBuf s" and ?len = "lg_contLen s"
  have ok: "lg_faults s = []" "?len \<le> length ?buf" "?len \<le> CONT_BUF_SIZE" "lg_logger s"
      "length ?buf = CONT_BUF_SIZE"
    using assms by (auto simp: drain_ok_def)
  obtain ls r where lr: "lines_of (cont_text s) = (ls, r)" by (cases "lines_of (cont_text s)")
  have rlen: "length r \<le> ?len"
    using length_rest [of "cont_text s"] lr ok(2) by (simp add: cont_text_def)
  have r_eq: "take (length r) (drop (?len - length r) ?buf) = r"
  proof -
    have "cont_text s = concat (map (\<lambda>l. l @ [NL]) ls) @ r"
      using lines_of_join [of "cont_text s"] lr by simp
    then have "drop (length (cont_text s) - length r) (cont_text s) = r" by simp
    then show ?thesis using ok(2) rlen by (simp add: cont_text_def drop_take)
  qed
  let ?s = "s\<lparr>lg_calls := lg_calls s @
       concat (map (cont_calls (lg_patternStr s) (lg_contLevel s)) (ls @ (if force \<and> r \<noteq> [] then [r] else [])))\<rparr>"
  have lr0: "lines_of (take (?len - 0) (drop 0 ?buf)) = (ls, r)"
    using lr by (simp add: cont_text_def)
  have loop: "cont_loop force ?buf ?len 0 s = ((if force then ?len else ?len - length r), ?s)"
    using cont_loop_spec [OF ok(1) le0 ok(2,3), of force] unfolding lr0 by (simp only: prod.case)
  let ?n = "if force then 0 else length r"
  let ?s' = "?s\<lparr>lg_contBuf := (if 0 < ?n then memmove_front ?buf (?len - ?n) ?n else ?buf), lg_contLen := ?n\<rparr>"
  show ?thesis
  proof (cases "(if force then ?len else ?len - length r) > 0")
    case True
    have flush: "FlushContLines force s = ?s'"
      using ok(4) True rlen unfolding FlushContLines_def loop by (cases force) (simp_all add: Let_def)
    have "only_output s ?s'"
      by (rule only_outputI [where n = "?n" and lvl = "lg_contLevel s"]) simp
    moreover have "cont_text ?s' = (if force then [] else r)"
      using r_eq rlen ok(2) by (simp add: cont_text_def)
    moreover have "drain_ok ?s'" using ok rlen by (simp add: drain_ok_def)
    ultimately show ?thesis
      unfolding flush lr by (simp add: feed_of_def feed_lines_def config_of_def)
  next
    case False
    have none: "ls = [] \<and> (force \<longrightarrow> r = [])"
    proof (cases force)
      case True
      then show ?thesis using False lr by (simp add: cont_text_def)
    next
      case f: False
      then have "length (concat (map (\<lambda>l. l @ [NL]) ls) @ r) \<le> length r"
        using False lines_of_join [of "cont_text s"] lr ok(2) by (simp add: cont_text_def)
      then show ?thesis using f by auto
    qed
    moreover have r: "r = cont_text s"
      using lines_of_join [of "cont_text s"] lr none by simp
    moreover have "FlushContLines force s = s"
      using ok(4) False none unfolding FlushContLines_def loop by auto
    ultimately show ?thesis
      unfolding lr using assms by (auto simp: feed_of_def feed_lines_def only_output_refl)
  qed
qed

lemma feed_lines_Nil [simp]: "feed_lines fc [] f = f"
  by (simp add: feed_lines_def)

lemma feed_flush_spec:
  assumes "drain_ok s"
  defines "s' \<equiv> if lg_contLen s > 0 then FlushContLines True s else s"
  shows "drain_ok s' \<and> only_output s s' \<and> feed_of s' = feed_flush (config_of s) (feed_of s)"
proof (cases "lg_contLen s > 0")
  case True
  then show ?thesis
    using FlushContLines_spec [OF assms(1), of True]
    by (simp add: s'_def feed_flush_def feed_of_def split: prod.splits)
next
  case False
  then show ?thesis
    using assms(1) by (simp add: s'_def feed_flush_def feed_of_def cont_text_def only_output_refl)
qed

lemma cstr_empty: "length buf = 64 \<Longrightarrow> cstr buf = [] \<longleftrightarrow> buf ! 0 = NUL"
  by (cases buf) (auto simp: cstr_def)

lemma FlushEntry_cont:
  assumes "drain_ok s" and "entry_wf MSG_LEN e" and "is_cont e"
  shows "drain_ok (FlushEntry e s) \<and> only_output s (FlushEntry e s) \<and>
         feed_of (FlushEntry e s) = feed_cont (config_of s) (level e) (entry_text e) (feed_of s)"
proof -
  let ?copy = "min (msgLen e) (CONT_BUF_SIZE - lg_contLen s)"
  let ?s = "s\<lparr>lg_contBuf := memcpy_at (lg_contBuf s) (lg_contLen s) (take ?copy (msg e)),
               lg_contLen := lg_contLen s + ?copy, lg_contLevel := level e\<rparr>"
  have ok: "length (lg_contBuf s) = 4096" "lg_contLen s \<le> 4096"
    using assms(1) by (simp_all add: drain_ok_def CONT_BUF_SIZE_def)
  have "msgLen e \<le> length (msg e)" using assms(2) by (simp add: entry_wf_def entry_shape_def)
  then have "length (take ?copy (msg e)) = ?copy" by simp
  then have c: "cont_text ?s = cont_text s @ take ?copy (msg e)"
    and l: "length (lg_contBuf ?s) = 4096"
    using ok take_memcpy_at [of "lg_contLen s" "lg_contBuf s" "take ?copy (msg e)"]
    by (simp_all add: cont_text_def CONT_BUF_SIZE_def)
  have "length (cont_text s) = lg_contLen s" using ok by (simp add: cont_text_def)
  then have "cont_text ?s = take 4096 (cont_text s @ entry_text e)"
    unfolding c using ok by (simp add: entry_text_def CONT_BUF_SIZE_def min.commute)
  then have f: "feed_of ?s = (feed_of s)\<lparr>fd_text := take 4096 (fd_text (feed_of s) @ entry_text e), fd_level := level e\<rparr>"
    by (simp add: feed_of_def)
  have ok': "drain_ok ?s"
    using assms(1) l ok by (simp add: drain_ok_def CONT_BUF_SIZE_def)
  have o: "only_output s ?s" by (rule only_outputI [where cs = "lg_calls s"]) simp
  have e: "FlushEntry e s = FlushContLines False ?s"
    using assms(3) by (simp add: FlushEntry_def is_cont_def Let_def)
  note F = FlushContLines_spec [OF ok', of False]
  have "config_of ?s = config_of s" by (rule only_output_keeps [OF o])
  moreover have "cont_text ?s = take 4096 (fd_text (feed_of s) @ entry_text e)"
    using f by (metis (no_types, lifting) feed.select_convs(1) feed.surjective feed.update_convs(1,2) feed_of_def)
  moreover obtain ls r where lr: "lines_of (take 4096 (fd_text (feed_of s) @ entry_text e)) = (ls, r)"
    by (cases "lines_of (take 4096 (fd_text (feed_of s) @ entry_text e))")
  ultimately have "feed_of (FlushContLines False ?s)
      = feed_lines (config_of s) ls ((feed_of ?s)\<lparr>fd_text := r\<rparr>)"
    using F by simp
  also have "(feed_of ?s)\<lparr>fd_text := r\<rparr> = (feed_of s)\<lparr>fd_text := r, fd_level := level e\<rparr>"
    unfolding f by simp
  finally have "feed_of (FlushContLines False ?s) = feed_cont (config_of s) (level e) (entry_text e) (feed_of s)"
    using lr by (simp add: feed_cont_def)
  then show ?thesis
    unfolding e using F only_output_trans [OF o] by blast
qed

lemma FlushEntry_message:
  assumes "drain_ok s" and "entry_wf MSG_LEN e" and "\<not> is_cont e"
  shows "drain_ok (FlushEntry e s) \<and> only_output s (FlushEntry e s) \<and>
         feed_of (FlushEntry e s)
           = feed_message (config_of s) (cstr (loggerName e)) (timeStamp_ns e) (level e) (entry_text e) (feed_of s)"
proof -
  define s1 where "s1 = (if lg_contLen s > 0 then FlushContLines True s else s)"
  have s1: "drain_ok s1" "only_output s s1" "feed_of s1 = feed_flush (config_of s) (feed_of s)"
    using feed_flush_spec [OF assms(1)] by (simp_all add: s1_def)
  define tg where "tg = (if loggerName e ! 0 \<noteq> NUL \<and> lg_registry s1 (cstr (loggerName e))
                         then To_named (cstr (loggerName e)) else To_default)"
  let ?c = "Log_at tg (ToWall_ns s1 (timeStamp_ns e)) (level e) (entry_text e)"
  have "FlushEntry e s = (case try_call ?c s1 of (True, s) \<Rightarrow> count_drop s | (False, s) \<Rightarrow> s)"
    using assms(3) s1(1) unfolding FlushEntry_def is_cont_def s1_def [symmetric]
    by (simp add: Let_def tg_def drain_ok_def entry_text_def)
  then have e: "FlushEntry e s = call ?c s1"
    using s1(1) by (simp add: try_call_def drain_ok_def)
  have o: "only_output s1 (call ?c s1)"
    by (rule only_outputI [where buf = "lg_contBuf s1" and n = "lg_contLen s1" and lvl = "lg_contLevel s1"])
       (simp add: call_def)
  have cfg: "config_of s1 = config_of s" by (rule only_output_keeps [OF s1(2)])
  have n: "cstr (loggerName e) = [] \<longleftrightarrow> loggerName e ! 0 = NUL"
    using assms(2) cstr_empty by (simp add: entry_wf_def entry_shape_def)
  have "feed_of (call ?c s1) = (feed_of s1)\<lparr>fd_calls := fd_calls (feed_of s1) @ [?c]\<rparr>"
    by (simp add: feed_of_def call_def cont_text_def)
  also have "\<dots> = feed_message (config_of s1) (cstr (loggerName e)) (timeStamp_ns e) (level e) (entry_text e) (feed_of s)"
    unfolding feed_message_def s1(3) cfg [symmetric] Let_def
    by (simp add: tg_def n config_of_def ToWall_ns_def)
  finally show ?thesis
    unfolding e using s1(1) only_output_trans [OF s1(2) o] cfg by (simp add: drain_ok_def)
qed

lemma FlushEntry_refines:
  assumes "drain_ok s" and "entry_wf MSG_LEN e"
  shows "drain_ok (FlushEntry e s) \<and> only_output s (FlushEntry e s) \<and>
         feed_of (FlushEntry e s) = feed_entry (config_of s) e (feed_of s)"
  using FlushEntry_cont [OF assms] FlushEntry_message [OF assms] by (cases "is_cont e") (simp_all add: feed_entry_def)

lemma fold_FlushEntry:
  "drain_ok s \<Longrightarrow> \<forall>e \<in> set es. entry_wf MSG_LEN e \<Longrightarrow>
     drain_ok (fold FlushEntry es s) \<and> only_output s (fold FlushEntry es s) \<and>
     feed_of (fold FlushEntry es s) = fold (feed_entry (config_of s)) es (feed_of s)"
proof (induction es arbitrary: s)
  case Nil
  then show ?case by (simp add: only_output_refl)
next
  case (Cons e es)
  have e: "drain_ok (FlushEntry e s)" "only_output s (FlushEntry e s)"
    "feed_of (FlushEntry e s) = feed_entry (config_of s) e (feed_of s)"
    using FlushEntry_refines [of s e] Cons.prems by simp_all
  have "\<forall>e \<in> set es. entry_wf MSG_LEN e" using Cons.prems(2) by simp
  from Cons.IH [OF e(1) this] show ?case
    using only_output_trans [OF e(2)] only_output_keeps(1) [OF e(2)] e(3) by simp
qed

lemma DrainAll_spec:
  assumes "queue_holds 10 (lg_queue s) es" and "drain_ok s" and "\<forall>e \<in> set es. entry_wf MSG_LEN e"
  obtains s' where "DrainAll s = Some (length es, s')" "queue_holds 10 (lg_queue s') []" "drain_ok s'"
    "feed_of s' = fold (feed_entry (config_of s)) es (feed_of s)"
    "only_output s (s'\<lparr>lg_queue := lg_queue s\<rparr>)"
proof -
  obtain q where q: "drain (TryPop QUEUE_CAPACITY) FlushEntry (lg_queue s) s 0
      = Some (q, fold FlushEntry es s, 0 + length es)" "queue_holds 10 q []"
    using rtq.drain_returns [OF assms(1), of FlushEntry s 0] by blast
  note f = fold_FlushEntry [OF assms(2,3)]
  let ?f = "fold FlushEntry es s"
  have "feed_of (?f\<lparr>lg_queue := q\<rparr>) = feed_of ?f" "drain_ok (?f\<lparr>lg_queue := q\<rparr>) = drain_ok ?f"
    by (simp_all add: feed_of_def cont_text_def drain_ok_def)
  moreover have "?f\<lparr>lg_queue := q, lg_queue := lg_queue s\<rparr> = ?f"
    using only_output_keeps(2) [of s ?f] f by simp
  ultimately show ?thesis
    using that [of "?f\<lparr>lg_queue := q\<rparr>"] q f by (simp add: DrainAll_def)
qed

section \<open>Properties of the drain thread\<close>

text \<open>
  C7: Draining refines the message feed: when no formatting call fails, every queued message
  is handed to the logging library exactly once and in order, continuation text is output
  as indented lines before any ordinary message that was queued after it, the queue is empty
  afterwards and nothing else of the logger changes.
\<close>

theorem DrainAll_refines_feed:
  assumes "queue_holds 10 (lg_queue s) es" and "drain_ok s" and "\<forall>e \<in> set es. entry_wf MSG_LEN e"
  shows "\<exists>s'. DrainAll s = Some (length es, s') \<and> queue_holds 10 (lg_queue s') [] \<and> drain_ok s' \<and>
              feed_of s' = fold (feed_entry (config_of s)) es (feed_of s) \<and>
              only_output s (s'\<lparr>lg_queue := lg_queue s\<rparr>)"
  using DrainAll_spec [OF assms] by metis

definition ex_entry :: "char \<Rightarrow> char list \<Rightarrow> Entry" where
  "ex_entry c text =
     \<lparr>timeStamp_ns = 0, level = L_info, msgLen = length text,
      msg = text @ replicate (1024 - length text) NUL, loggerName = c # replicate 63 NUL\<rparr>"

definition ex_log :: rtlog where
  "ex_log = (RtLog_new (LogQueue_init QUEUE_CAPACITY (\<lambda>_. ex_entry NUL [])) (replicate CONT_BUF_SIZE NUL) [])
     \<lparr>lg_logger := True, lg_initialized := True, lg_threadRun := True\<rparr>"

lemma ex_entry_wf: "length text < 1024 \<Longrightarrow> entry_wf MSG_LEN (ex_entry c text)"
  by (simp add: entry_wf_def entry_shape_def ex_entry_def MSG_LEN_def)

lemma ex_entry_text: "entry_text (ex_entry c text) = text"
  by (simp add: entry_text_def ex_entry_def)

lemma ex_log_ok: "drain_ok ex_log" "queue_holds 10 (lg_queue ex_log) []"
  by (simp_all add: drain_ok_def ex_log_def RtLog_new_def CONT_BUF_SIZE_def queue_init_holds)

lemma ex_log_with:
  assumes "length es \<le> 1024"
  obtains q where "push_all (TryPush QUEUE_CAPACITY) es (lg_queue ex_log) = Some (0, q)" "queue_holds 10 q es"
    "drain_ok (ex_log\<lparr>lg_queue := q\<rparr>)"
proof -
  have c: "QUEUE_CAPACITY - length ([] :: Entry list) = 1024" by (simp add: QUEUE_CAPACITY_def)
  show ?thesis
    using rtq.push_all_returns [OF ex_log_ok(2), of es] ex_log_ok(1) that assms
    unfolding c by (auto simp: drain_ok_def)
qed

theorem DrainAll_refines_feed_witness:
  "\<exists>q s'. push_all (TryPush QUEUE_CAPACITY) [ex_entry CHR 0x01 ''ab'', ex_entry NUL ''m''] (lg_queue ex_log) = Some (0, q) \<and>
     DrainAll (ex_log\<lparr>lg_queue := q\<rparr>) = Some (2, s') \<and>
     lg_calls s' = cont_calls [] L_info ''ab'' @ [Log_at To_default 0 L_info ''m'']"
proof -
  let ?es = "[ex_entry CHR 0x01 ''ab'', ex_entry NUL ''m'']"
  obtain q where q: "push_all (TryPush QUEUE_CAPACITY) ?es (lg_queue ex_log) = Some (0, q)"
      "queue_holds 10 q ?es" "drain_ok (ex_log\<lparr>lg_queue := q\<rparr>)"
    by (rule ex_log_with [of ?es]) auto
  let ?s = "ex_log\<lparr>lg_queue := q\<rparr>"
  have "\<forall>e \<in> set ?es. entry_wf MSG_LEN e" by (simp add: ex_entry_wf)
  from DrainAll_refines_feed [of ?s ?es] q(2,3) this obtain s' where
    s': "DrainAll ?s = Some (2, s')" "feed_of s' = fold (feed_entry (config_of ?s)) ?es (feed_of ?s)"
    by auto
  have "fd_calls (fold (feed_entry (config_of ?s)) ?es (feed_of ?s))
      = cont_calls [] L_info ''ab'' @ [Log_at To_default 0 L_info ''m'']"
    by (simp add: feed_entry_def feed_cont_def feed_message_def feed_flush_def feed_lines_def ex_entry_text
        is_cont_def CONT_ENTRY_MARKER_def cstr_def feed_of_def config_of_def cont_text_def ex_log_def RtLog_new_def)
       (simp add: ex_entry_def)
  moreover have "lg_calls s' = fd_calls (feed_of s')" by (simp add: feed_of_def)
  ultimately show ?thesis using q(1) s' by metis
qed

text \<open>
  C28: Continuation text is never mangled: the lines output for a text and what stays pending
  give the text back, with a newline behind every line output; no line has a newline in it.
  Text beyond the 4096 bytes of the buffer is lost, and the drop counter does not say so.
\<close>

theorem cont_text_exact:
  assumes "drain_ok s" and "entry_wf MSG_LEN e" and "is_cont e"
  shows "\<exists>ls. lg_calls (FlushEntry e s)
                = lg_calls s @ concat (map (cont_calls (lg_patternStr s) (level e)) ls) \<and>
              concat (map (\<lambda>l. l @ [NL]) ls) @ cont_text (FlushEntry e s)
                = take 4096 (cont_text s @ entry_text e) \<and>
              NL \<notin> set (concat ls @ cont_text (FlushEntry e s)) \<and>
              lg_dropCount (FlushEntry e s) = lg_dropCount s"
proof -
  note f = FlushEntry_cont [OF assms]
  obtain ls r where lr: "lines_of (take 4096 (cont_text s @ entry_text e)) = (ls, r)"
    by (cases "lines_of (take 4096 (cont_text s @ entry_text e))")
  have "feed_of (FlushEntry e s)
      = feed_lines (config_of s) ls ((feed_of s)\<lparr>fd_text := r, fd_level := level e\<rparr>)"
    using f lr by (simp add: feed_cont_def feed_of_def)
  then have "lg_calls (FlushEntry e s) = lg_calls s @ concat (map (cont_calls (lg_patternStr s) (level e)) ls)"
    and "cont_text (FlushEntry e s) = r"
    by (simp_all add: feed_of_def feed_lines_def config_of_def)
  moreover have "lg_dropCount (FlushEntry e s) = lg_dropCount s"
    using f by (blast intro: only_output_keeps(5))
  ultimately show ?thesis
    using lines_of_join [of "take 4096 (cont_text s @ entry_text e)"]
      lines_of_no_nl [of "take 4096 (cont_text s @ entry_text e)"] lr by auto
qed

theorem cont_text_exact_witness:
  "\<exists>ls. concat (map (\<lambda>l. l @ [NL]) ls) @ cont_text (FlushEntry (ex_entry CHR 0x01 ''a'') ex_log) = ''a''"
proof -
  have "is_cont (ex_entry CHR 0x01 ''a'')" by (simp add: is_cont_def ex_entry_def CONT_ENTRY_MARKER_def)
  from cont_text_exact [OF ex_log_ok(1) _ this] show ?thesis
    by (auto simp: ex_entry_wf ex_entry_text cont_text_def ex_log_def RtLog_new_def)
qed

end
