(* ===== verification/RtLogger.thy ===== *)
theory RtLogger
  imports RtDrain
begin

text \<open>
  The logger as its users see it: what the entry points put into the queue and what is
  counted as lost, that \<open>Sync\<close>, the pattern setters and \<open>Terminate\<close> deliver everything queued
  before they act, the rates of the drain thread, and the raw output.
\<close>

section \<open>Properties of the producers\<close>

text \<open>
  One call of an entry point, with the uninitialised entry on its stack, the level, the time
  and the text its format renders to.
\<close>

datatype log_req =
    R_rt Entry LogLevel int "char list option"
  | R_rtv Entry LogLevel int "char list option"
  | R_fmt Entry LogLevel int "char list option"
  | R_named Entry "char list" LogLevel int "char list option"
  | R_namedv Entry "char list" LogLevel int "char list option"
  | R_namedfmt Entry "char list" LogLevel int "char list option"
  | R_cont Entry LogLevel int "char list"

fun do_req :: "log_req \<Rightarrow> rtlog \<Rightarrow> rtlog option" where
  "do_req (R_rt j lvl now rtext) = LogRt j lvl now rtext"
| "do_req (R_rtv j lvl now rtext) = LogRtV j lvl now rtext"
| "do_req (R_fmt j lvl now rtext) = LogRtFmt j lvl now rtext"
| "do_req (R_named j name lvl now rtext) = LogRtNamed j name lvl now rtext"
| "do_req (R_namedv j name lvl now rtext) = LogRtNamedV j name lvl now rtext"
| "do_req (R_namedfmt j name lvl now rtext) = LogRtNamedFmt j name lvl now rtext"
| "do_req (R_cont j lvl now rtext) = LogRtCont j lvl now rtext"

fun req_level :: "log_req \<Rightarrow> LogLevel" where
  "req_level (R_rt j lvl now rtext) = lvl"
| "req_level (R_rtv j lvl now rtext) = lvl"
| "req_level (R_fmt j lvl now rtext) = lvl"
| "req_level (R_named j name lvl now rtext) = lvl"
| "req_level (R_namedv j name lvl now rtext) = lvl"
| "req_level (R_namedfmt j name lvl now rtext) = lvl"
| "req_level (R_cont j lvl now rtext) = lvl"

fun req_junk :: "log_req \<Rightarrow> Entry" where
  "req_junk (R_rt j lvl now rtext) = j"
| "req_junk (R_rtv j lvl now rtext) = j"
| "req_junk (R_fmt j lvl now rtext) = j"
| "req_junk (R_named j name lvl now rtext) = j"
| "req_junk (R_namedv j name lvl now rtext) = j"
| "req_junk (R_namedfmt j name lvl now rtext) = j"
| "req_junk (R_cont j lvl now rtext) = j"

fun req_text :: "log_req \<Rightarrow> char list" where
  "req_text (R_rt j lvl now rtext) = (case rtext of None \<Rightarrow> [] | Some s \<Rightarrow> s)"
| "req_text (R_rtv j lvl now rtext) = (case rtext of None \<Rightarrow> [] | Some s \<Rightarrow> s)"
| "req_text (R_fmt j lvl now rtext) = (case rtext of None \<Rightarrow> [] | Some s \<Rightarrow> s)"
| "req_text (R_named j name lvl now rtext) = (case rtext of None \<Rightarrow> [] | Some s \<Rightarrow> s)"
| "req_text (R_namedv j name lvl now rtext) = (case rtext of None \<Rightarrow> [] | Some s \<Rightarrow> s)"
| "req_text (R_namedfmt j name lvl now rtext) = (case rtext of None \<Rightarrow> [] | Some s \<Rightarrow> s)"
| "req_text (R_cont j lvl now rtext) = rtext"

text \<open>The logger name a message carries; the continuation marker is one as well.\<close>

fun req_name :: "log_req \<Rightarrow> char list" where
  "req_name (R_named j name lvl now rtext) = take 63 name"
| "req_name (R_namedv j name lvl now rtext) = take 63 name"
| "req_name (R_namedfmt j name lvl now rtext) = take 63 name"
| "req_name (R_cont j lvl now rtext) = [CONT_ENTRY_MARKER]"
| "req_name _ = []"

fun req_now :: "log_req \<Rightarrow> int" where
  "req_now (R_rt j lvl now rtext) = now"
| "req_now (R_rtv j lvl now rtext) = now"
| "req_now (R_fmt j lvl now rtext) = now"
| "req_now (R_named j name lvl now rtext) = now"
| "req_now (R_namedv j name lvl now rtext) = now"
| "req_now (R_namedfmt j name lvl now rtext) = now"
| "req_now (R_cont j lvl now rtext) = now"

fun c_name :: "log_req \<Rightarrow> bool" where
  "c_name (R_named j name lvl now rtext) \<longleftrightarrow> no_nul name"
| "c_name (R_namedv j name lvl now rtext) \<longleftrightarrow> no_nul name"
| "c_name (R_namedfmt j name lvl now rtext) \<longleftrightarrow> no_nul name"
| "c_name _ \<longleftrightarrow> True"

definition entry_is :: "log_req \<Rightarrow> Entry \<Rightarrow> bool" where
  "entry_is r e \<longleftrightarrow> entry_wf MSG_LEN e \<and> level e = req_level r \<and> timeStamp_ns e = req_now r \<and>
     entry_text e = take 1023 (req_text r) \<and> cstr (loggerName e) = req_name r \<and>
     (is_cont e \<longleftrightarrow> req_name r \<noteq> [] \<and> hd (req_name r) = CONT_ENTRY_MARKER)"

lemma hd_cstr: "length buf = 64 \<Longrightarrow> c \<noteq> NUL \<Longrightarrow> buf ! 0 = c \<longleftrightarrow> cstr buf \<noteq> [] \<and> hd (cstr buf) = c"
  by (cases buf) (auto simp: cstr_def)

lemma entry_isI:
  assumes "entry_wf MSG_LEN e" "level e = req_level r" "timeStamp_ns e = req_now r"
    "entry_text e = take 1023 (req_text r)" "cstr (loggerName e) = req_name r"
  shows "entry_is r e"
  using assms hd_cstr [of "loggerName e" CONT_ENTRY_MARKER]
  by (simp add: entry_is_def is_cont_def entry_wf_def entry_shape_def CONT_ENTRY_MARKER_def)

lemma take_memcpy_upd:
  "length buf = 1024 \<Longrightarrow> n = length (take 1023 s) \<Longrightarrow> take n ((memcpy_at buf 0 (take 1023 s))[n := c]) = take 1023 s"
  using take_memcpy_at [of 0 buf "take 1023 s"] by simp

lemma cstr_update0: "length buf = 64 \<Longrightarrow> cstr (buf[0 := NUL]) = []"
  by (cases buf) (simp_all add: cstr_def)

lemma cstr_marker: "length buf = 64 \<Longrightarrow> cstr (buf[0 := CONT_ENTRY_MARKER, Suc 0 := NUL]) = [CONT_ENTRY_MARKER]"
  by (cases buf; cases "tl buf") (auto simp: cstr_def CONT_ENTRY_MARKER_def)

lemma fmt_msg_entry:
  assumes "entry_shape MSG_LEN e"
  shows "entry_wf MSG_LEN (fmt_msg rtext e) \<and>
         entry_text (fmt_msg rtext e) = take 1023 (case rtext of None \<Rightarrow> [] | Some s \<Rightarrow> s) \<and>
         level (fmt_msg rtext e) = level e \<and> timeStamp_ns (fmt_msg rtext e) = timeStamp_ns e \<and>
         loggerName (fmt_msg rtext e) = loggerName e"
proof (cases rtext)
  case None
  then show ?thesis
    using assms by (simp add: fmt_msg_def entry_wf_def entry_shape_def MSG_LEN_def entry_text_def)
next
  case (Some s)
  let ?n = "if length s < 1023 then length s else 1023"
  have n: "?n = length (take 1023 s)" by simp
  show ?thesis
    using assms take_memcpy_upd [OF _ n, of "msg e"] Some
    by (simp add: fmt_msg_def entry_wf_def entry_shape_def MSG_LEN_def entry_text_def Let_def)
qed

lemma set_name_entry:
  assumes "entry_shape MSG_LEN e"
  shows "entry_shape MSG_LEN (set_name name e)" "msg (set_name name e) = msg e" "msgLen (set_name name e) = msgLen e"
    "level (set_name name e) = level e" "timeStamp_ns (set_name name e) = timeStamp_ns e"
    "no_nul name \<Longrightarrow> cstr (loggerName (set_name name e)) = take 63 name"
proof -
  have l: "64 = length (loggerName e)" using assms by (simp add: entry_shape_def)
  show "no_nul name \<Longrightarrow> cstr (loggerName (set_name name e)) = take 63 name"
    using cstr_strncpy_term [OF _ l, of name] by (simp add: set_name_def)
qed (use assms in \<open>simp_all add: set_name_def entry_shape_def\<close>)

text \<open>The message each entry point queues when the level lets it pass.\<close>

fun req_entry :: "log_req \<Rightarrow> Entry" where
  "req_entry (R_rt j lvl now rtext) = Entry_Set MSG_LEN lvl now rtext j"
| "req_entry (R_rtv j lvl now rtext) = Entry_SetV MSG_LEN lvl now rtext j"
| "req_entry (R_fmt j lvl now rtext) =
     fmt_msg rtext (j\<lparr>level := lvl, timeStamp_ns := now, loggerName := (loggerName j)[0 := NUL]\<rparr>)"
| "req_entry (R_named j name lvl now rtext) = set_name name (Entry_Set MSG_LEN lvl now rtext j)"
| "req_entry (R_namedv j name lvl now rtext) = set_name name (Entry_SetV MSG_LEN lvl now rtext j)"
| "req_entry (R_namedfmt j name lvl now rtext) =
     fmt_msg rtext (set_name name (j\<lparr>level := lvl, timeStamp_ns := now\<rparr>))"
| "req_entry (R_cont j lvl now rtext) =
     (let len = min (length rtext) (MSG_LEN - 1)
      in j\<lparr>level := lvl, timeStamp_ns := now, loggerName := (loggerName j)[0 := CONT_ENTRY_MARKER, 1 := NUL],
           msg := (memcpy_at (msg j) 0 (take len rtext))[len := NUL], msgLen := len\<rparr>)"

lemma do_req_enqueue:
  "do_req r s = (if lg_initialized s \<and> IsActiveLevel (req_level r) s then Enqueue (req_entry r) s else Some s)"
  by (cases r) (auto simp: IsActiveLevel_def LogRt_def LogRtV_def LogRtFmt_def LogRtNamed_def LogRtNamedV_def
      LogRtNamedFmt_def LogRtCont_def Let_def)

lemma SetV_entry:
  assumes "entry_shape MSG_LEN j"
  shows "entry_wf MSG_LEN (Entry_SetV MSG_LEN lvl now rtext j)"
    "entry_text (Entry_SetV MSG_LEN lvl now rtext j) = take 1023 (case rtext of None \<Rightarrow> [] | Some s \<Rightarrow> s)"
    "cstr (loggerName (Entry_SetV MSG_LEN lvl now rtext j)) = []"
proof -
  have m: "(0::nat) < MSG_LEN" "length (msg j) = MSG_LEN" "length (loggerName j) = 64"
    using assms by (simp_all add: MSG_LEN_def entry_shape_def)
  show "entry_wf MSG_LEN (Entry_SetV MSG_LEN lvl now rtext j)" by (rule Entry_SetV_wf [OF m(1) assms])
  show "entry_text (Entry_SetV MSG_LEN lvl now rtext j) = take 1023 (case rtext of None \<Rightarrow> [] | Some s \<Rightarrow> s)"
    using Entry_SetV_text [OF m(1,2)] by (cases rtext) (simp_all add: Entry_SetV_text_None MSG_LEN_def)
  show "cstr (loggerName (Entry_SetV MSG_LEN lvl now rtext j)) = []"
    by (simp add: cstr_update0 m(3))
qed

lemma set_name_wf:
  assumes "entry_wf MSG_LEN e"
  shows "entry_wf MSG_LEN (set_name name e)" "entry_text (set_name name e) = entry_text e"
  using assms set_name_entry [of e name] by (simp_all add: entry_wf_def entry_text_def)

lemma req_entry_is:
  assumes "entry_shape MSG_LEN (req_junk r)" and "c_name r"
  shows "entry_is r (req_entry r)"
proof (cases r)
  case (R_rt j lvl now rtext)
  then show ?thesis
    using assms SetV_entry [of j lvl now rtext] by (intro entry_isI) (simp_all add: Entry_Set_SetV)
next
  case (R_rtv j lvl now rtext)
  then show ?thesis using assms SetV_entry [of j lvl now rtext] by (intro entry_isI) simp_all
next
  case (R_fmt j lvl now rtext)
  let ?e = "j\<lparr>level := lvl, timeStamp_ns := now, loggerName := (loggerName j)[0 := NUL]\<rparr>"
  have "entry_shape MSG_LEN ?e" using assms R_fmt by (simp add: entry_shape_def)
  from fmt_msg_entry [OF this, of rtext] show ?thesis
    using assms R_fmt by (intro entry_isI) (simp_all add: cstr_update0 entry_shape_def)
next
  case (R_named j name lvl now rtext)
  then show ?thesis
    using assms SetV_entry [of j lvl now rtext] set_name_wf [of "Entry_SetV MSG_LEN lvl now rtext j" name]
      set_name_entry [of "Entry_SetV MSG_LEN lvl now rtext j" name]
    by (intro entry_isI) (simp_all add: Entry_Set_SetV entry_wf_def)
next
  case (R_namedv j name lvl now rtext)
  then show ?thesis
    using assms SetV_entry [of j lvl now rtext] set_name_wf [of "Entry_SetV MSG_LEN lvl now rtext j" name]
      set_name_entry [of "Entry_SetV MSG_LEN lvl now rtext j" name]
    by (intro entry_isI) (simp_all add: entry_wf_def)
next
  case (R_namedfmt j name lvl now rtext)
  let ?e = "j\<lparr>level := lvl, timeStamp_ns := now\<rparr>"
  have "entry_shape MSG_LEN ?e" using assms R_namedfmt by (simp add: entry_shape_def)
  note s = set_name_entry [OF this, of name]
  from fmt_msg_entry [OF s(1), of rtext] s show ?thesis
    using assms R_namedfmt by (intro entry_isI) simp_all
next
  case (R_cont j lvl now s)
  let ?n = "min (length s) 1023"
  have n: "?n = length (take 1023 s)" by (simp add: min.commute)
  have t: "take ?n s = take 1023 s" by (simp add: min_def)
  have "take ?n ((memcpy_at (msg j) 0 (take 1023 s))[?n := NUL]) = take 1023 s"
    using take_memcpy_upd [OF _ n, of "msg j" NUL] assms(1) R_cont by (simp add: entry_shape_def MSG_LEN_def)
  then have "entry_text (req_entry r) = take 1023 s"
    by (simp add: R_cont entry_text_def Let_def MSG_LEN_def t)
  moreover have "entry_wf MSG_LEN (req_entry r)"
    using assms(1) R_cont by (simp add: entry_wf_def entry_shape_def MSG_LEN_def Let_def t)
  ultimately show ?thesis
    using assms(1) R_cont by (intro entry_isI) (simp_all add: cstr_marker entry_shape_def Let_def)
qed

text \<open>
  Every entry point builds a well-formed message from whatever is on its stack: the text
  is the rendered one cut to 1023 bytes, inside the array and NUL-terminated; the name is the
  given one cut to 63 bytes; and only \<open>LOG_CONT\<close> (or a name that begins with the marker
  byte) makes a continuation message. Exactly the messages that pass the level are queued.
\<close>

theorem entry_points_wf:
  assumes "entry_shape MSG_LEN (req_junk r)" and "c_name r"
  shows "do_req r s = (if lg_initialized s \<and> IsActiveLevel (req_level r) s
                       then Enqueue (req_entry r) s else Some s) \<and>
         entry_is r (req_entry r)"
  using do_req_enqueue req_entry_is [OF assms] by blast

theorem entry_points_wf_witness:
  "entry_text (req_entry (R_named (ex_entry CHR ''?'' ''junk'') ''arm'' L_warn 5 (Some ''hot''))) = ''hot'' \<and>
   cstr (loggerName (req_entry (R_named (ex_entry CHR ''?'' ''junk'') ''arm'' L_warn 5 (Some ''hot'')))) = ''arm''"
proof -
  let ?r = "R_named (ex_entry CHR ''?'' ''junk'') ''arm'' L_warn 5 (Some ''hot'')"
  have "entry_shape MSG_LEN (req_junk ?r)" "c_name ?r"
    by (simp_all add: entry_shape_def ex_entry_def MSG_LEN_def no_nul_def)
  from entry_points_wf [OF this, of ex_log] show ?thesis by (simp add: entry_is_def)
qed

section \<open>Nothing is lost uncounted\<close>

fun do_reqs :: "log_req list \<Rightarrow> rtlog \<Rightarrow> rtlog option" where
  "do_reqs [] s = Some s"
| "do_reqs (r # rs) s = (case do_req r s of None \<Rightarrow> None | Some s' \<Rightarrow> do_reqs rs s')"

definition passed :: "rtlog \<Rightarrow> log_req list \<Rightarrow> Entry list" where
  "passed s rs = map req_entry (filter (\<lambda>r. IsActiveLevel (req_level r) s) rs)"

lemma Enqueue_spec:
  assumes "queue_holds 10 (lg_queue s) xs"
  obtains q where "queue_holds 10 q (if length xs < 1024 then xs @ [e] else xs)"
    "Enqueue e s = Some (s\<lparr>lg_queue := q, lg_dropCount := lg_dropCount s + (if length xs < 1024 then 0 else 1)\<rparr>)"
proof -
  from rtq.push_returns [OF assms, of e] obtain q where
    q: "TryPush QUEUE_CAPACITY e (lg_queue s) = Some (length xs < 1024, q)"
      "queue_holds 10 q (if length xs < 1024 then xs @ [e] else xs)"
    unfolding QUEUE_CAPACITY_def by auto
  show ?thesis
    by (rule that [OF q(2)])
       (use q(1) in \<open>cases "length xs < 1024"; simp add: Enqueue_def count_drop_def\<close>)
qed

lemma do_reqs_spec:
  "lg_initialized s \<Longrightarrow> queue_holds 10 (lg_queue s) xs \<Longrightarrow>
     \<exists>q. do_reqs rs s = Some (s\<lparr>lg_queue := q, lg_dropCount := lg_dropCount s +
                 of_nat (length (passed s rs) - (1024 - length xs))\<rparr>) \<and>
         queue_holds 10 q (xs @ take (1024 - length xs) (passed s rs))"
proof (induction rs arbitrary: s xs)
  case Nil
  then show ?case by (auto simp: passed_def intro!: exI [of _ "lg_queue s"])
next
  case (Cons r rs)
  show ?case
  proof (cases "IsActiveLevel (req_level r) s")
    case False
    then show ?thesis
      using Cons by (simp add: do_req_enqueue passed_def)
  next
    case True
    let ?room = "length xs < 1024"
    obtain q where q: "queue_holds 10 q (if ?room then xs @ [req_entry r] else xs)"
      "Enqueue (req_entry r) s = Some (s\<lparr>lg_queue := q, lg_dropCount := lg_dropCount s + (if ?room then 0 else 1)\<rparr>)"
      by (rule Enqueue_spec [OF Cons.prems(2)])
    let ?s = "s\<lparr>lg_queue := q, lg_dropCount := lg_dropCount s + (if ?room then 0 else 1)\<rparr>"
    have p: "passed ?s rs = passed s rs" "passed s (r # rs) = req_entry r # passed s rs"
      using True by (simp_all add: passed_def IsActiveLevel_def)
    have step: "do_reqs (r # rs) s = do_reqs rs ?s"
      using q(2) True Cons.prems(1) by (simp add: do_req_enqueue)
    have i: "lg_initialized ?s" "queue_holds 10 (lg_queue ?s) (if ?room then xs @ [req_entry r] else xs)"
      using Cons.prems(1) q(1) by simp_all
    from Cons.IH [OF i] obtain q' where q': "do_reqs rs ?s = Some (?s\<lparr>lg_queue := q', lg_dropCount := lg_dropCount ?s +
           of_nat (length (passed s rs) - (1024 - length (if ?room then xs @ [req_entry r] else xs)))\<rparr>)"
      "queue_holds 10 q' ((if ?room then xs @ [req_entry r] else xs) @
         take (1024 - length (if ?room then xs @ [req_entry r] else xs)) (passed s rs))"
      unfolding p(1) by blast
    show ?thesis
    proof (cases ?room)
      case True
      then have c: "1024 - length xs = Suc (1024 - Suc (length xs))" by simp
      show ?thesis using q' True unfolding step p(2) c by auto
    next
      case False
      then show ?thesis using q' unfolding step p(2) by (auto simp: algebra_simps)
    qed
  qed
qed

text \<open>
  Every message is accounted for: of the calls whose level passes, exactly as many are
  queued as there is room for, the earliest ones and in order, and exactly the others are
  added to the drop counter; a call below the level changes nothing.
\<close>

theorem log_accounting:
  assumes "lg_initialized s" and "queue_holds 10 (lg_queue s) xs"
  shows "\<exists>q. do_reqs rs s = Some (s\<lparr>lg_queue := q, lg_dropCount := lg_dropCount s +
                 of_nat (length (passed s rs) - (1024 - length xs))\<rparr>) \<and>
             queue_holds 10 q (xs @ take (1024 - length xs) (passed s rs))"
  by (rule do_reqs_spec [OF assms])

theorem log_accounting_witness:
  "\<exists>q. do_reqs (replicate 1030 (R_rt (ex_entry NUL []) L_err 0 (Some ''x''))) ex_log
         = Some (ex_log\<lparr>lg_queue := q, lg_dropCount := 6\<rparr>)"
proof -
  let ?r = "R_rt (ex_entry NUL []) L_err 0 (Some ''x'')"
  have "passed ex_log (replicate 1030 ?r) = replicate 1030 (req_entry ?r)"
    by (simp add: passed_def IsActiveLevel_def ex_log_def RtLog_new_def)
  then have "length (passed ex_log (replicate 1030 ?r)) = 1030" by (simp only: length_replicate)
  moreover have "lg_initialized ex_log" "lg_dropCount ex_log = 0"
    by (simp_all add: ex_log_def RtLog_new_def)
  ultimately show ?thesis
    using log_accounting [OF _ ex_log_ok(2), of "replicate 1030 ?r"] by auto
qed

lemma ApproxSize_holds: "queue_holds 10 q xs \<Longrightarrow> ApproxSize q = length xs"
  using rtq.occupancy_length by blast

text \<open>
  What the counters say after any calls that started with an empty queue: the size is the
  number of messages that passed the level, at most 1024, and the rest are the drops.
\<close>

lemma counters_after_calls:
  assumes "lg_initialized s" and "queue_holds 10 (lg_queue s) []" and "lg_dropCount s = 0"
  shows "\<exists>s'. do_reqs rs s = Some s' \<and> RtLog_IsInitialized s' \<and> RtLog_GetLevel s' = lg_level s \<and>
           QueueSize s' = min 1024 (length (passed s rs)) \<and>
           RtLog_DropCount s' = of_nat (length (passed s rs) - 1024) \<and>
           GetQueueStats s' =
             \<lparr>current_size = QueueSize s', capacity = 1024, utilization_pct = QueueUtilization s',
              total_drops = RtLog_DropCount s'\<rparr> \<and>
           QueueUtilization s' \<le> 100"
proof -
  from do_reqs_spec [OF assms(1,2), of rs] obtain q where
    q: "do_reqs rs s = Some (s\<lparr>lg_queue := q, lg_dropCount := of_nat (length (passed s rs) - 1024)\<rparr>)"
      "queue_holds 10 q (take 1024 (passed s rs))" using assms(3) by auto
  have n: "ApproxSize q = min 1024 (length (passed s rs))" using ApproxSize_holds [OF q(2)] by (simp add: min.commute)
  show ?thesis unfolding q(1)
    using assms(1) by (simp add: RtLog_IsInitialized_def RtLog_GetLevel_def RtLog_DropCount_def QueueSize_def
        QueueUtilization_def GetQueueStats_def QUEUE_CAPACITY_def n)
qed

section \<open>Rounds of the drain thread\<close>

definition poll_calls :: "int \<Rightarrow> rtlog \<Rightarrow> nat \<Rightarrow> lib_call list" where
  "poll_calls now s n =
     (if now - lg_lastFlush s \<ge> 20000000 then [Flush_all] else []) @
     (if lg_tui s \<and> now - lg_lastRender s \<ge> 40000000 then [Tui_tick] else []) @
     [Sleep (if n = 0 then 1000000 else 500000)]"

lemma Poll_spec:
  assumes "queue_holds 10 (lg_queue s) es" and "drain_ok s" and "\<forall>e \<in> set es. entry_wf MSG_LEN e"
  obtains s' where "Poll now s = Some s'" "queue_holds 10 (lg_queue s') []" "drain_ok s'"
    "lg_calls s' = fd_calls (fold (feed_entry (config_of s)) es (feed_of s)) @ poll_calls now s (length es)"
    "cont_text s' = fd_text (fold (feed_entry (config_of s)) es (feed_of s))"
    "lg_syncAck s' = (if lg_syncSeq s > lg_syncAck s then lg_syncSeq s else lg_syncAck s)"
    "lg_syncSeq s' = lg_syncSeq s" "config_of s' = config_of s" "lg_initialized s' = lg_initialized s"
    "lg_threadRun s' = lg_threadRun s" "lg_logger s' = lg_logger s" "lg_patternStr s' = lg_patternStr s"
    "lg_registry s' = lg_registry s"
proof -
  obtain s1 where d: "DrainAll s = Some (length es, s1)" "queue_holds 10 (lg_queue s1) []" "drain_ok s1"
    "feed_of s1 = fold (feed_entry (config_of s)) es (feed_of s)"
    and o: "only_output s (s1\<lparr>lg_queue := lg_queue s\<rparr>)"
    by (rule DrainAll_spec [OF assms])
  note k = only_output_keeps [OF o, simplified]
  have cfg: "config_of s1 = config_of s" using k(1) by (simp add: config_of_def)
  have z: "ApproxSize (lg_queue s1) = 0" "ApproxSize (lg_queue s) = length es"
    using ApproxSize_holds [OF d(2)] ApproxSize_holds [OF assms(1)] by simp_all
  have i: "poll_interval (length es) (length es) 0 = (if length es = 0 then 1000000 else 500000)"
    by (simp add: poll_interval_def POLL_INTERVAL_NS_def)
  let ?s2 = "poll_render now (poll_flush now (ack_syncs s1))"
  have q: "lg_queue ?s2 = lg_queue s1"
    by (simp add: poll_render_def poll_flush_def ack_syncs_def)
  have P: "Poll now s = Some (call (Sleep (if length es = 0 then 1000000 else 500000)) ?s2)"
    using d(1) by (simp add: Poll_def Let_def z q i)
  show ?thesis
  proof (rule that [OF P])
    show "lg_calls (call (Sleep (if length es = 0 then 1000000 else 500000)) ?s2)
        = fd_calls (fold (feed_entry (config_of s)) es (feed_of s)) @ poll_calls now s (length es)"
      unfolding d(4) [symmetric]
      using k by (simp add: poll_render_def poll_flush_def ack_syncs_def poll_calls_def feed_of_def
          FLUSH_INTERVAL_NS_def TUI_FLUSH_INTERVAL_NS_def call_def)
    show "cont_text (call (Sleep (if length es = 0 then 1000000 else 500000)) ?s2)
        = fd_text (fold (feed_entry (config_of s)) es (feed_of s))"
      unfolding d(4) [symmetric]
      by (simp add: poll_render_def poll_flush_def ack_syncs_def feed_of_def cont_text_def)
    show "drain_ok (call (Sleep (if length es = 0 then 1000000 else 500000)) ?s2)"
      using d(3) by (simp add: drain_ok_def poll_render_def poll_flush_def ack_syncs_def)
    show "config_of (call (Sleep (if length es = 0 then 1000000 else 500000)) ?s2) = config_of s"
      using cfg by (simp add: config_of_def poll_render_def poll_flush_def ack_syncs_def call_def)
  qed (use d k in \<open>simp_all add: poll_render_def poll_flush_def ack_syncs_def call_def\<close>)
qed

text \<open>
  The drain thread keeps its rates whatever the queue does: a round never sleeps more than
  1 ms nor less than 0.1 ms, an idle round sleeps 1 ms, and a round that finds the queue more
  than half full when it ends sleeps only 0.1 ms. Sinks are flushed in a round exactly if the
  last flush was at least 20 ms ago.
\<close>

theorem poll_rates:
  "100000 \<le> poll_interval b c a \<and> poll_interval b c a \<le> 1000000 \<and>
   (poll_interval b 0 0 = 1000000) \<and>
   poll_interval b c (513 + a) = 100000 \<and>
   lg_calls (poll_flush now s) = lg_calls s @ (if now - lg_lastFlush s \<ge> 20000000 then [Flush_all] else []) \<and>
   lg_lastFlush (poll_flush now s) = (if now - lg_lastFlush s \<ge> 20000000 then now else lg_lastFlush s)"
  by (simp add: poll_interval_def POLL_INTERVAL_NS_def QUEUE_CAPACITY_def poll_flush_def FLUSH_INTERVAL_NS_def)

section \<open>Sync\<close>

lemma Sync_spec:
  assumes "lg_initialized s" and "lg_threadRun s" and "lg_syncAck s < lg_syncSeq s + 1"
    and "queue_holds 10 (lg_queue s) es" and "drain_ok s" and "\<forall>e \<in> set es. entry_wf MSG_LEN e"
  obtains s' where "Sync (now # rounds) s = Some s'" "queue_holds 10 (lg_queue s') []" "drain_ok s'"
    "lg_calls s' = fd_calls (fold (feed_entry (config_of s)) es (feed_of s)) @ poll_calls now s (length es) @ [Flush_all]"
    "lg_logger s' = lg_logger s" "lg_registry s' = lg_registry s" "lg_syncAck s' = lg_syncSeq s + 1"
proof -
  let ?s = "s\<lparr>lg_syncSeq := lg_syncSeq s + 1\<rparr>"
  have q: "queue_holds 10 (lg_queue ?s) es" "drain_ok ?s" using assms(4,5) by (simp_all add: drain_ok_def)
  have f: "feed_of ?s = feed_of s" "config_of ?s = config_of s" "poll_calls now ?s = poll_calls now s"
    by (simp_all add: feed_of_def config_of_def cont_text_def poll_calls_def fun_eq_iff)
  obtain s1 where p: "Poll now ?s = Some s1" "queue_holds 10 (lg_queue s1) []" "drain_ok s1"
    "lg_calls s1 = fd_calls (fold (feed_entry (config_of s)) es (feed_of s)) @ poll_calls now s (length es)"
    "lg_syncAck s1 = lg_syncSeq s + 1" "lg_logger s1 = lg_logger s" "lg_registry s1 = lg_registry s"
    by (rule Poll_spec [OF q assms(6), of now]) (use assms(3) in \<open>simp_all add: f\<close>)
  have "sync_wait (lg_syncSeq s + 1) (now # rounds) ?s = sync_wait (lg_syncSeq s + 1) rounds s1"
    using assms(2,3) p(1) by (simp add: sync_wait.simps [of _ "now # rounds"])
  also have "\<dots> = Some s1" using p(5) by (simp add: sync_wait.simps [of _ rounds])
  finally have S: "Sync (now # rounds) s = Some (call Flush_all s1)"
    using assms(1) by (simp add: Sync_def Let_def)
  show ?thesis
    by (rule that [OF S]) (use p in \<open>simp_all add: drain_ok_def call_def\<close>)
qed



section \<open>The end of a session\<close>

definition end_report :: "rtlog \<Rightarrow> lib_call list" where
  "end_report s = (if lg_dropCount s > 0 then [Log_now L_warn drops_report] else []) @ [Delete_thread]"

definition end_calls :: "rtlog \<Rightarrow> lib_call list" where
  "end_calls s = (if lg_tui s then [Tui_stop] else []) @ [Flush_all, Shutdown]"

lemma Terminate_spec:
  assumes "lg_initialized s" and "queue_holds 10 (lg_queue s) es" and "drain_ok s"
    and "\<forall>e \<in> set es. entry_wf MSG_LEN e"
  obtains s' where "Terminate True s = Some s'"
    "lg_calls s' = fd_calls (feed_flush (config_of s) (fold (feed_entry (config_of s)) es
                       ((feed_of s)\<lparr>fd_calls := lg_calls s @ end_report s\<rparr>))) @ end_calls s"
    "queue_holds 10 (lg_queue s') []" "cont_text s' = []" "\<not> lg_initialized s'" "\<not> lg_logger s'"
    "\<not> lg_threadRun s'" "\<not> lg_tui s'"
proof -
  let ?s = "s\<lparr>lg_calls := lg_calls s @ end_report s, lg_threadRun := False\<rparr>"
  have pre: "call Delete_thread ((if lg_dropCount s > 0 then call (Log_now L_warn drops_report) s else s)\<lparr>lg_threadRun := False\<rparr>) = ?s"
    by (simp add: end_report_def call_def)
  have q: "queue_holds 10 (lg_queue ?s) es" "drain_ok ?s" using assms(2,3) by (simp_all add: drain_ok_def)
  have c: "config_of ?s = config_of s" "feed_of ?s = (feed_of s)\<lparr>fd_calls := lg_calls s @ end_report s\<rparr>"
    by (simp_all add: config_of_def feed_of_def cont_text_def)
  obtain s1 where d: "DrainAll ?s = Some (length es, s1)" "queue_holds 10 (lg_queue s1) []" "drain_ok s1"
    "feed_of s1 = fold (feed_entry (config_of s)) es ((feed_of s)\<lparr>fd_calls := lg_calls s @ end_report s\<rparr>)"
    and o: "only_output ?s (s1\<lparr>lg_queue := lg_queue s\<rparr>)"
    by (rule DrainAll_spec [OF q assms(4), unfolded c]) (simp add: that)
  note k = only_output_keeps [OF o, simplified]
  have k1: "config_of s1 = config_of s" using k(1) by (simp add: config_of_def)
  let ?s2 = "FlushContLines True s1"
  note F = FlushContLines_spec [OF d(3), of True]
  have F2: "feed_of ?s2 = feed_flush (config_of s) (feed_of s1)"
    using F by (simp add: feed_flush_def k1 feed_of_def split: prod.splits)
  then have t2: "cont_text ?s2 = []" "lg_calls ?s2 = fd_calls (feed_flush (config_of s) (feed_of s1))"
    by (auto simp: feed_of_def feed_flush_def feed_lines_def dest: arg_cong [where f = fd_text] arg_cong [where f = fd_calls] split: prod.splits)
  have o2: "only_output s1 ?s2" using F by blast
  note k2 = only_output_keeps [OF o2]
  let ?s3 = "call Shutdown (call Flush_all ((if lg_tui ?s2 then (call Tui_stop ?s2)\<lparr>lg_tui := False\<rparr> else ?s2)\<lparr>lg_initialized := False\<rparr>))"
  let ?s' = "?s3\<lparr>lg_registry := (\<lambda>_. False), lg_logger := False\<rparr>"
  have T: "Terminate True s = Some ?s'"
    using assms(1) d(1) unfolding Terminate_def by (simp add: pre Let_def)
  have tui: "lg_tui ?s2 = lg_tui s" "lg_threadRun ?s2 = False" "lg_queue ?s2 = lg_queue s1"
    using k2 k by simp_all
  show ?thesis
  proof (rule that [OF T])
    show "lg_calls ?s' = fd_calls (feed_flush (config_of s) (fold (feed_entry (config_of s)) es
                       ((feed_of s)\<lparr>fd_calls := lg_calls s @ end_report s\<rparr>))) @ end_calls s"
      unfolding d(4) [symmetric] t2(2) [symmetric] using tui by (simp add: end_calls_def)
    show "cont_text ?s' = []" using t2(1) by (simp add: cont_text_def call_def)
  qed (use d(2) tui in \<open>simp_all add: call_def\<close>)
qed

text \<open>
  C29: Shutting down loses nothing: with the drain thread gone, \<open>Terminate\<close> outputs every queued
  message and the unfinished continuation line, reports drops first, then flushes and shuts
  the logging library down; afterwards the logger is closed, and calling it again or logging
  does nothing.
\<close>

theorem Terminate_delivers:
  assumes "lg_initialized s" and "queue_holds 10 (lg_queue s) es" and "drain_ok s"
    and "\<forall>e \<in> set es. entry_wf MSG_LEN e"
  shows "\<exists>s'. Terminate True s = Some s' \<and>
           lg_calls s' = fd_calls (feed_flush (config_of s) (fold (feed_entry (config_of s)) es
                           ((feed_of s)\<lparr>fd_calls := lg_calls s @ end_report s\<rparr>))) @ end_calls s \<and>
           queue_holds 10 (lg_queue s') [] \<and> cont_text s' = [] \<and>
           Terminate deleted s' = Some s' \<and> do_reqs rs s' = Some s'"
proof -
  obtain s' where s': "Terminate True s = Some s'"
    "lg_calls s' = fd_calls (feed_flush (config_of s) (fold (feed_entry (config_of s)) es
                       ((feed_of s)\<lparr>fd_calls := lg_calls s @ end_report s\<rparr>))) @ end_calls s"
    "queue_holds 10 (lg_queue s') []" "cont_text s' = []" "\<not> lg_initialized s'"
    by (rule Terminate_spec [OF assms])
  moreover have "do_reqs rs s' = Some s'" by (induction rs) (simp_all add: do_req_enqueue s'(5))
  moreover have "Terminate deleted s' = Some s'" using s'(5) by (simp add: Terminate_def)
  ultimately show ?thesis by metis
qed

theorem Terminate_delivers_witness:
  "\<exists>s'. Terminate True (ex_log\<lparr>lg_dropCount := 2\<rparr>) = Some s' \<and>
        lg_calls s' = [Log_now L_warn drops_report, Delete_thread, Flush_all, Shutdown]"
proof -
  let ?s = "ex_log\<lparr>lg_dropCount := 2\<rparr>"
  have i: "lg_initialized ?s" "queue_holds 10 (lg_queue ?s) []" "drain_ok ?s"
    using ex_log_ok by (simp_all add: drain_ok_def) (simp add: ex_log_def)
  have c: "lg_tui ?s = False" "lg_calls ?s = []" "cont_text ?s = []" "lg_dropCount ?s = 2"
    by (simp_all add: ex_log_def RtLog_new_def cont_text_def)
  have "fd_calls (feed_flush (config_of ?s) (fold (feed_entry (config_of ?s)) []
          ((feed_of ?s)\<lparr>fd_calls := lg_calls ?s @ end_report ?s\<rparr>))) @ end_calls ?s
      = [Log_now L_warn drops_report, Delete_thread, Flush_all, Shutdown]"
    using c by (simp add: feed_flush_def feed_of_def end_report_def end_calls_def)
  then show ?thesis using Terminate_delivers [OF i, of True "[]"] by auto
qed

section \<open>From the call to the logging library\<close>

text \<open>The ordinary messages among the library calls, with their level and text.\<close>

definition messages :: "lib_call list \<Rightarrow> (LogLevel \<times> char list) list" where
  "messages cs = concat (map (\<lambda>c. case c of Log_at tg ts lvl s \<Rightarrow> [(lvl, s)] | _ \<Rightarrow> []) cs)"

lemma messages_append [simp]: "messages (cs @ ds) = messages cs @ messages ds"
  by (simp add: messages_def)

lemma messages_lines [simp]: "messages (concat (map (cont_calls pat lvl) ls)) = []"
  by (induction ls) (simp_all add: messages_def cont_calls_def)

lemma messages_feed_flush: "messages (fd_calls (feed_flush fc f)) = messages (fd_calls f)"
  by (simp add: feed_flush_def feed_lines_def split: prod.splits)

lemma messages_feed_entry:
  "messages (fd_calls (feed_entry fc e f))
     = messages (fd_calls f) @ (if is_cont e then [] else [(level e, entry_text e)])"
proof (cases "is_cont e")
  case True
  then show ?thesis by (simp add: feed_entry_def feed_cont_def feed_lines_def split: prod.splits)
next
  case False
  have "messages [Log_at tg ts lvl s] = [(lvl, s)]" for tg ts lvl s by (simp add: messages_def)
  then show ?thesis
    using False by (simp add: feed_entry_def feed_message_def Let_def messages_feed_flush)
qed

lemma messages_fold:
  "messages (fd_calls (fold (feed_entry fc) es f))
     = messages (fd_calls f) @ map (\<lambda>e. (level e, entry_text e)) (filter (\<lambda>e. \<not> is_cont e) es)"
  by (induction es arbitrary: f) (simp_all add: messages_feed_entry)

text \<open>
  C5: What is logged is what comes out: in a session that starts with an empty queue and fits
  the queue, after \<open>Terminate\<close> the messages handed to the logging library are exactly those of
  the calls whose level passed, other than \<open>LOG_CONT\<close>, in the order of the calls, each once
  and with its text cut to 1023 bytes.
\<close>

theorem logged_is_output:
  assumes "lg_initialized s" and "queue_holds 10 (lg_queue s) []" and "drain_ok s"
    and "\<forall>r \<in> set rs. entry_shape MSG_LEN (req_junk r) \<and> c_name r"
    and "length (passed s rs) \<le> 1024" and "lg_calls s = []"
  shows "\<exists>s1 s2. do_reqs rs s = Some s1 \<and> Terminate True s1 = Some s2 \<and>
           lg_dropCount s1 = lg_dropCount s \<and>
           messages (lg_calls s2)
             = map (\<lambda>r. (req_level r, take 1023 (req_text r)))
                 (filter (\<lambda>r. IsActiveLevel (req_level r) s \<and> \<not> is_cont (req_entry r)) rs)"
proof -
  from do_reqs_spec [OF assms(1,2), of rs] assms(5) obtain q where
    r: "do_reqs rs s = Some (s\<lparr>lg_queue := q\<rparr>)" "queue_holds 10 q (passed s rs)"
    by auto
  let ?s1 = "s\<lparr>lg_queue := q\<rparr>"
  have wf: "\<forall>e \<in> set (passed s rs). entry_wf MSG_LEN e"
    using assms(4) req_entry_is by (auto simp: passed_def entry_is_def)
  have i: "lg_initialized ?s1" "queue_holds 10 (lg_queue ?s1) (passed s rs)" "drain_ok ?s1"
    using assms(1,3) r(2) by (simp_all add: drain_ok_def)
  obtain s2 where s2: "Terminate True ?s1 = Some s2"
    "lg_calls s2 = fd_calls (feed_flush (config_of ?s1) (fold (feed_entry (config_of ?s1)) (passed s rs)
                       ((feed_of ?s1)\<lparr>fd_calls := lg_calls ?s1 @ end_report ?s1\<rparr>))) @ end_calls ?s1"
    by (rule Terminate_spec [OF i wf])
  have "messages (end_report ?s1) = []" "messages (end_calls ?s1) = []"
    by (simp_all add: messages_def end_report_def end_calls_def)
  then have "messages (lg_calls s2)
      = map (\<lambda>e. (level e, entry_text e)) (filter (\<lambda>e. \<not> is_cont e) (passed s rs))"
    unfolding s2(2) using assms(6) by (simp add: messages_feed_flush messages_fold)
  also have "\<dots> = map (\<lambda>r. (req_level r, take 1023 (req_text r)))
                 (filter (\<lambda>r. IsActiveLevel (req_level r) s \<and> \<not> is_cont (req_entry r)) rs)"
    using assms(4)
  proof (induction rs)
    case (Cons r rs)
    then show ?case using req_entry_is [of r] by (simp add: passed_def entry_is_def)
  qed (simp add: passed_def)
  finally show ?thesis using r(1) s2(1) by auto
qed

theorem logged_is_output_witness:
  "\<exists>s1 s2. do_reqs [R_rt (ex_entry NUL []) L_err 0 (Some ''a''), R_cont (ex_entry NUL []) L_info 0 ''c'',
                    R_fmt (ex_entry NUL []) L_info 0 (Some ''b'')] ex_log = Some s1 \<and>
     Terminate True s1 = Some s2 \<and> messages (lg_calls s2) = [(L_err, ''a''), (L_info, ''b'')]"
proof -
  let ?e = "ex_entry NUL []"
  let ?rs = "[R_rt ?e L_err 0 (Some ''a''), R_cont ?e L_info 0 ''c'', R_fmt ?e L_info 0 (Some ''b'')]"
  have sh: "entry_shape MSG_LEN ?e" using ex_entry_wf [of "[]" NUL] by (simp add: entry_wf_def)
  have f: "lg_calls ex_log = []" "lg_initialized ex_log" "lg_level ex_log = 0"
    by (simp_all add: ex_log_def RtLog_new_def)
  have i: "\<forall>r \<in> set ?rs. entry_shape MSG_LEN (req_junk r) \<and> c_name r" "length (passed ex_log ?rs) \<le> 1024"
    using sh by (simp_all add: passed_def)
  have c: "\<not> is_cont (req_entry (R_rt ?e L_err 0 (Some ''a'')))" "is_cont (req_entry (R_cont ?e L_info 0 ''c''))"
      "\<not> is_cont (req_entry (R_fmt ?e L_info 0 (Some ''b'')))"
    using req_entry_is [of "R_rt ?e L_err 0 (Some ''a'')"] req_entry_is [of "R_cont ?e L_info 0 ''c''"]
      req_entry_is [of "R_fmt ?e L_info 0 (Some ''b'')"] sh by (simp_all add: entry_is_def)
  have "map (\<lambda>r. (req_level r, take 1023 (req_text r)))
          (filter (\<lambda>r. IsActiveLevel (req_level r) ex_log \<and> \<not> is_cont (req_entry r)) ?rs)
      = [(L_err, ''a''), (L_info, ''b'')]"
    using c by (simp add: IsActiveLevel_def f del: req_entry.simps)
  then show ?thesis
    using logged_is_output [OF f(2) ex_log_ok(2,1) i f(1)] by auto
qed

section \<open>Raw output\<close>

lemma length_nat_str: "n < 10 ^ Suc k \<Longrightarrow> length (nat_str n) \<le> Suc k"
proof (induction k arbitrary: n)
  case 0
  then show ?case by (subst nat_str.simps) simp
next
  case (Suc k)
  have "n div 10 < 10 ^ Suc k" using Suc.prems by (simp add: div_less_iff_less_mult mult.commute)
  from Suc.IH [OF this] show ?case by (subst nat_str.simps) simp
qed

lemma length_fmt0d:
  assumes "\<bar>i\<bar> < 10 ^ Suc k"
  shows "length (fmt0d w i) \<le> w + Suc (Suc k)"
proof -
  have "length (nat_str (nat \<bar>i\<bar>)) \<le> Suc k"
    using assms by (intro length_nat_str) (simp add: nat_less_iff)
  moreover have "i < 0 \<Longrightarrow> nat (- i) = nat \<bar>i\<bar>" "\<not> i < 0 \<Longrightarrow> nat i = nat \<bar>i\<bar>" by simp_all
  ultimately show ?thesis by (auto simp: fmt0d_def)
qed

lemma smod_sdiv_bounds:
  fixes a b :: int
  assumes "0 < b"
  shows "\<bar>a smod b\<bar> < b" "\<bar>a sdiv b\<bar> \<le> \<bar>a\<bar>"
proof -
  have s: "a smod b = sgn a * (\<bar>a\<bar> mod b)" "a sdiv b = sgn a * (\<bar>a\<bar> div b)"
    using assms by (simp_all add: signed_modulo_int_def signed_divide_int_def sgn_if minus_div_mult_eq_mod [symmetric])
  have "0 \<le> \<bar>a\<bar> mod b" "\<bar>a\<bar> mod b < b" using assms by simp_all
  then show "\<bar>a smod b\<bar> < b" unfolding s by (auto simp: abs_mult sgn_if)
  have "\<bar>a\<bar> div b \<le> \<bar>a\<bar> div 1" by (rule zdiv_mono2) (use assms in simp_all)
  then have "\<bar>a\<bar> div b \<le> \<bar>a\<bar>" by simp
  moreover have "0 \<le> \<bar>a\<bar> div b" using assms by (simp add: pos_imp_zdiv_nonneg_iff)
  ultimately show "\<bar>a sdiv b\<bar> \<le> \<bar>a\<bar>" unfolding s by (auto simp: abs_mult sgn_if)
qed

lemma raw_header_length:
  assumes "\<bar>snd ts\<bar> < 1000000000"
  shows "length (raw_header lvl ts tz) < 512"
proof -
  define sod where "sod = (fst ts + tz) smod 86400"
  have sod: "\<bar>sod\<bar> < 86400" using smod_sdiv_bounds(1) [of 86400] by (simp add: sod_def)
  have b: "\<bar>sod sdiv 3600\<bar> < 10 ^ Suc 5" "\<bar>sod smod 3600 sdiv 60\<bar> < 10 ^ Suc 5" "\<bar>sod smod 60\<bar> < 10 ^ Suc 5"
    "\<bar>snd ts sdiv 1000\<bar> < 10 ^ Suc 9"
    using smod_sdiv_bounds(2) [of 3600 sod] smod_sdiv_bounds(2) [of 60 "sod smod 3600"]
      smod_sdiv_bounds(1) [of 3600 sod] smod_sdiv_bounds(1) [of 60 sod]
      smod_sdiv_bounds(2) [of 1000 "snd ts"] sod assms by simp_all
  have c: "length (SinkColorFor lvl) \<le> 9" by (cases lvl) (simp_all add: SinkColorFor_def)
  show ?thesis
    unfolding raw_header_def Let_def sod_def [symmetric]
    using length_fmt0d [OF b(1), of 2] length_fmt0d [OF b(2), of 2] length_fmt0d [OF b(3), of 2]
      length_fmt0d [OF b(4), of 6] c by simp
qed

lemma take_snprintf_at:
  assumes "pos + sz \<le> length buf" and "n = pos + min (length s) (sz - 1)" and "pos \<le> length buf"
  shows "take n (snprintf_at buf pos sz (Some s)) = take pos buf @ take (sz - 1) s"
proof (cases "sz = 0")
  case True
  then show ?thesis using assms(2) by (simp add: snprintf_at_def)
next
  case False
  let ?src = "take (sz - 1) s @ [NUL]"
  have l: "n = pos + length (take (sz - 1) s)" using assms(2) by (simp add: min.commute)
  have "take n (memcpy_at buf pos ?src) = take n (take pos buf @ ?src @ drop (pos + length ?src) buf)"
    by (simp add: memcpy_at_def)
  also have "\<dots> = take pos buf @ take (sz - 1) s"
    unfolding l using assms(3) by (simp add: min_absorb2 min_def)
  finally show ?thesis using False by (simp add: snprintf_at_def)
qed

text \<open>The buffer \<open>LogRaw\<close> writes out: header, then message, then a newline.\<close>

definition raw_text :: "char list option option \<Rightarrow> char list option" where
  "raw_text rtext = (case rtext of None \<Rightarrow> Some ''(null)'' | Some r \<Rightarrow> r)"

definition raw_buffer :: "LogLevel \<Rightarrow> int \<times> int \<Rightarrow> int \<Rightarrow> char list option option \<Rightarrow> char list \<Rightarrow> char list" where
  "raw_buffer lvl ts tz rtext junk =
     (let h = raw_header lvl ts tz
      in snprintf_at (snprintf_at junk 0 512 (Some h)) (length h) (512 - length h - 1) (raw_text rtext))"

definition raw_length :: "char list \<Rightarrow> char list \<Rightarrow> nat" where
  "raw_length h s = (if length h + length s \<ge> 511 then 510 else length h + length s)"

abbreviation message_of :: "char list option \<Rightarrow> char list" where
  "message_of tx \<equiv> (case tx of None \<Rightarrow> [] | Some s \<Rightarrow> s)"

lemma raw_buffer_text:
  assumes "length junk = 512" and h: "length (raw_header lvl ts tz) < 512"
  shows "length (raw_buffer lvl ts tz rtext junk) = 512"
    and "take (raw_length (raw_header lvl ts tz) (message_of (raw_text rtext))) (raw_buffer lvl ts tz rtext junk) =
         take 510 (raw_header lvl ts tz @ message_of (raw_text rtext))"
proof -
  let ?h = "raw_header lvl ts tz" and ?tx = "raw_text rtext"
  let ?b1 = "snprintf_at junk 0 512 (Some ?h)" and ?n = "raw_length ?h (message_of ?tx)"
  have b: "raw_buffer lvl ts tz rtext junk = snprintf_at ?b1 (length ?h) (512 - length ?h - 1) ?tx"
    by (simp add: raw_buffer_def Let_def)
  have l1: "length ?b1 = 512" using assms(1) by simp
  then show "length (raw_buffer lvl ts tz rtext junk) = 512" using h by (simp add: b)
  have t1: "take (length ?h) ?b1 = ?h"
    using take_snprintf_at [of 0 512 junk "length ?h" ?h] assms(1) h by simp
  show "take ?n (raw_buffer lvl ts tz rtext junk) = take 510 (?h @ message_of ?tx)"
  proof (cases ?tx)
    case None
    have "take ?n ?b1 = take ?n (take (length ?h) ?b1)" using h by (simp add: raw_length_def None min_def)
    then show ?thesis unfolding t1 b by (simp add: None raw_length_def snprintf_at_def)
  next
    case (Some u)
    let ?m = "length ?h + min (length u) (512 - length ?h - 1 - 1)"
    have "take ?m (raw_buffer lvl ts tz rtext junk) = ?h @ take (512 - length ?h - 1 - 1) u"
      unfolding b Some using take_snprintf_at [of "length ?h" "512 - length ?h - 1" ?b1 ?m u] l1 h t1 by simp
    then have "take ?n (take ?m (raw_buffer lvl ts tz rtext junk)) = take ?n (?h @ take (512 - length ?h - 1 - 1) u)" by simp
    moreover have "min ?n ?m = ?n" using h by (auto simp: Some raw_length_def)
    ultimately show ?thesis using h by (auto simp: Some raw_length_def min_def)
  qed
qed

text \<open>
  C31: Raw output is memory safe and prints no uninitialised byte: whatever the stack array
  held, the line written is the header and the text, cut to 510 bytes together, and a
  newline; a null format prints "(null)", a failed conversion the header alone.
\<close>

theorem LogRaw_bytes:
  assumes "length junk = 512" and "0 \<le> snd ts" and "snd ts < 1000000000"
  shows "LogRaw lvl ts tz rtext junk =
           Some (take 510 (raw_header lvl ts tz @
                   (case rtext of None \<Rightarrow> ''(null)'' | Some None \<Rightarrow> [] | Some (Some s) \<Rightarrow> s)) @ [NL])"
proof -
  let ?h = "raw_header lvl ts tz" and ?tx = "raw_text rtext" and ?b = "raw_buffer lvl ts tz rtext junk"
  let ?n = "raw_length ?h (message_of ?tx)"
  have h: "length ?h < 512" using assms raw_header_length by simp
  note b = raw_buffer_text [OF assms(1) h, of rtext]
  have hd: "\<not> (snprintf_ret (Some ?h) < 0 \<or> snprintf_ret (Some ?h) \<ge> 512)" "nat (snprintf_ret (Some ?h)) = length ?h"
    using h by (simp_all add: snprintf_ret_def)
  have ms: "(if snprintf_ret ?tx < 0 then 0 else nat (snprintf_ret ?tx)) = length (message_of ?tx)"
    by (cases ?tx) (simp_all add: snprintf_ret_def)
  have w: "writes_within junk 0 512" "writes_within (snprintf_at junk 0 512 (Some ?h)) (length ?h) (512 - length ?h - 1)"
    "writes_within ?b (length ?h) (512 - length ?h - 1)" "?n < length ?b"
    using assms(1) b(1) h by (auto simp: writes_within_def raw_length_def)
  have "LogRaw lvl ts tz rtext junk = Some (take (Suc ?n) (?b[?n := NL]))"
    using hd ms w unfolding LogRaw_def Let_def raw_text_def [symmetric] raw_buffer_def raw_length_def
    by (cases "511 \<le> length ?h + length (message_of ?tx)") simp_all
  moreover have "take (Suc ?n) (?b[?n := NL]) = take ?n ?b @ [NL]"
    using w(4) by (simp add: take_Suc_conv_app_nth)
  moreover have "message_of ?tx = (case rtext of None \<Rightarrow> ''(null)'' | Some None \<Rightarrow> [] | Some (Some s) \<Rightarrow> s)"
    by (auto simp: raw_text_def split: option.splits)
  ultimately show ?thesis using b(2) by simp
qed

theorem LogRaw_bytes_witness:
  "\<exists>b. LogRaw L_off (3661, 5000) 0 (Some (Some ''hi'')) (replicate 512 CHR ''?'') = Some b \<and>
       b = take 510 (raw_header L_off (3661, 5000) 0 @ ''hi'') @ [NL]"
  using LogRaw_bytes [of "replicate 512 CHR ''?''" "(3661, 5000)" L_off 0 "Some (Some ''hi'')"] by simp

section \<open>Start\<close>

definition sinks_of :: "lib_call list \<Rightarrow> (target \<times> sink_kind) list" where
  "sinks_of cs = concat (map (\<lambda>c. case c of Add_sink tg k p \<Rightarrow> [(tg, k)] | _ \<Rightarrow> []) cs)"

lemma sinks_simps [simp]:
  "sinks_of [] = []"
  "sinks_of (c # cs) = (case c of Add_sink tg k p \<Rightarrow> [(tg, k)] | _ \<Rightarrow> []) @ sinks_of cs"
  "sinks_of (cs @ ds) = sinks_of cs @ sinks_of ds"
  by (simp_all add: sinks_of_def)

lemma call_more [simp]:
  "lg_tui (call c s) = lg_tui s" "lg_initialized (call c s) = lg_initialized s" "lg_threadRun (call c s) = lg_threadRun s"
  by (simp_all add: call_def)

lemma raw_keeps [simp]:
  "sinks_of (lg_calls (raw w lvl s l)) = sinks_of (lg_calls l)" "lg_tui (raw w lvl s l) = lg_tui l"
  by (cases "LogRaw lvl (w_clock w) (w_tz w) (Some (Some s)) (w_junk w)"; simp add: raw_def)+

lemma open_log_file_sinks [simp]:
  "sinks_of (lg_calls (open_log_file w tg arrow base annot sz n trunc s))
     = sinks_of (lg_calls s) @
       [(tg, K_file (if annot then AnnotateFilenameDatetime (w_split w) (w_now w) base else base) sz n trunc)]"
  "lg_tui (open_log_file w tg arrow base annot sz n trunc s) = lg_tui s"
  by (auto simp: open_log_file_def Let_def split: prod.splits option.splits)

lemma init_gate_spec:
  "init_gate w base tui s = (enable, s1) \<Longrightarrow>
     enable = (tui \<and> base \<noteq> ''_SYSLOG_'' \<and> w_tty w) \<and> lg_tui s1 = lg_tui s \<and>
     sinks_of (lg_calls s1) = sinks_of (lg_calls s)"
  by (auto simp: init_gate_def split: if_splits)

lemma init_console_spec:
  "sinks_of (lg_calls (init_console w enable s))
     = sinks_of (lg_calls s) @ [(To_default, if enable \<and> w_tui_ok w then K_tui else K_console)]"
  "\<not> lg_tui s \<Longrightarrow> lg_tui (init_console w enable s) = (enable \<and> w_tui_ok w)"
  by (simp_all add: init_console_def)

lemma init_output_spec:
  "sinks_of (lg_calls (init_output w name base n sz annot trunc s)) = sinks_of (lg_calls s) @
     (if base = ''_SYSLOG_'' then [(To_default, K_syslog name)]
      else if base = [] \<or> base = ''_STDOUT_'' then []
      else [(To_default, K_file (if annot then AnnotateFilenameDatetime (w_split w) (w_now w) base else base) sz n trunc)])"
  "lg_tui (init_output w name base n sz annot trunc s) = lg_tui s"
  by (simp_all add: init_output_def)

lemma init_thread_spec:
  "sinks_of (lg_calls (init_thread w th s)) = sinks_of (lg_calls s)"
  "lg_tui (init_thread w th s) = lg_tui s"
  "\<not> lg_initialized s \<Longrightarrow> lg_initialized (init_thread w th s) = (w_thread w = None)"
  "lg_threadRun (init_thread w th s) = (w_thread w = None)"
  by (cases "w_thread w"; simp add: init_thread_def RefreshTimebase_def)+

lemma init_keeps [simp]:
  "lg_initialized (raw w lvl m s) = lg_initialized s"
  "lg_initialized (open_log_file w tg arrow base annot sz n trunc s) = lg_initialized s"
  "lg_initialized (init_console w enable s) = lg_initialized s"
  "lg_initialized (init_output w name base n sz annot trunc s) = lg_initialized s"
proof -
  show r: "lg_initialized (raw w lvl m s) = lg_initialized s" for lvl m s
    by (cases "LogRaw lvl (w_clock w) (w_tz w) (Some (Some m)) (w_junk w)") (simp_all add: raw_def)
  show o: "lg_initialized (open_log_file w tg arrow base annot sz n trunc s) = lg_initialized s" for tg arrow
    by (auto simp: open_log_file_def Let_def split: prod.splits option.splits)
  show "lg_initialized (init_console w enable s) = lg_initialized s"
    by (simp add: init_console_def r)
  show "lg_initialized (init_output w name base n sz annot trunc s) = lg_initialized s"
    by (simp add: init_output_def o)
qed

lemma init_gate_keeps: "init_gate w base tui s = (enable, s1) \<Longrightarrow> lg_initialized s1 = lg_initialized s"
  by (auto simp: init_gate_def split: if_splits)

text \<open>
  The sinks of a new session are those asked for and possible: the terminal interface only
  on a terminal that it can use and never together with syslog, otherwise the coloured
  console; then syslog, a file (its name dated if asked), or nothing. The logger counts as
  initialised exactly if its thread could be made, and a second call changes none of this.
\<close>

theorem Initialize_sinks:
  assumes "\<not> lg_initialized s" and "\<not> lg_tui s"
  shows "\<exists>s'. Initialize w th name base tui n sz annot trunc s = Some s' \<and>
           (let use_tui = tui \<and> base \<noteq> ''_SYSLOG_'' \<and> w_tty w \<and> w_tui_ok w in
            sinks_of (lg_calls s') = sinks_of (lg_calls s) @
              (To_default, if use_tui then K_tui else K_console) #
              (if base = ''_SYSLOG_'' then [(To_default, K_syslog name)]
               else if base = [] \<or> base = ''_STDOUT_'' then []
               else [(To_default, K_file (if annot then AnnotateFilenameDatetime (w_split w) (w_now w) base else base)
                                    sz n trunc)]) \<and>
            lg_tui s' = use_tui) \<and>
           lg_initialized s' = (w_thread w = None) \<and> lg_threadRun s' = (w_thread w = None)"
proof -
  obtain enable s1 where g: "init_gate w base tui s = (enable, s1)" by (cases "init_gate w base tui s")
  note gs = init_gate_spec [OF g] init_gate_keeps [OF g]
  have I: "Initialize w th name base tui n sz annot trunc s = Some (init_thread w th
            (init_output w name base n sz annot trunc (init_console w enable (s1\<lparr>lg_logger := True\<rparr>))))"
    using assms(1) g by (simp add: Initialize_def)
  have t: "\<not> lg_tui (s1\<lparr>lg_logger := True\<rparr>)" using gs assms(2) by simp
  show ?thesis
    by (rule exI, rule conjI [OF I])
       (use assms gs in \<open>simp add: init_thread_spec init_output_spec init_console_spec(1) init_console_spec(2) [OF t]\<close>)
qed

definition ex_world :: world where
  "ex_world = \<lparr>w_tty = True, w_tui_ok = False,
     w_now = \<lparr>tm_year = 126, tm_mon = 0, tm_mday = 2, tm_hour = 3, tm_min = 4, tm_sec = 5\<rparr>,
     w_split = (\<lambda>s. (s, [])), w_stat = Directory, w_mkdir = Made, w_symlink = None, w_strerror = (\<lambda>_. []),
     w_clock = (0, 0), w_monotonic = (0, 0), w_tz = 0, w_junk = replicate 512 NUL, w_entry = ex_entry NUL [],
     w_thread = None\<rparr>"

theorem Initialize_sinks_witness:
  "\<exists>s'. Initialize ex_world \<lparr>ta_cpu = 2, ta_priority = 0, ta_stack = 65536\<rparr> ''robot'' ''a.log'' True 5 1000 False False
          (ex_log\<lparr>lg_initialized := False\<rparr>) = Some s' \<and>
        sinks_of (lg_calls s') = [(To_default, K_console), (To_default, K_file ''a.log'' 1000 5 False)] \<and>
        lg_initialized s'"
proof -
  let ?s = "ex_log\<lparr>lg_initialized := False\<rparr>"
  have i: "\<not> lg_initialized ?s" "\<not> lg_tui ?s" "lg_calls ?s = []" by (simp_all add: ex_log_def RtLog_new_def)
  show ?thesis
    using Initialize_sinks [OF i(1,2), of ex_world "\<lparr>ta_cpu = 2, ta_priority = 0, ta_stack = 65536\<rparr>" "''robot''" "''a.log''" True 5 1000 False False] i(3)
    by (auto simp: ex_world_def)
qed

end
