(* ===== verification/LogToFile.thy ===== *)
theory LogToFile
  imports RtLogger FileSink
begin

text \<open>
  The real-time logger with a log file: the calls the logger makes to the logging library
  (\<open>lib_call\<close>) and what they do to the file sink of the default logger. The library is what it
  documents: a message whose level is not below the logger's is formatted with the logger's
  pattern and handed to the sink, \<open>flush\<close> is passed on, \<open>shutdown\<close> destroys the sink. The
  formatter \<open>fmt\<close> is a parameter: pattern, time (\<open>None\<close> for the time of the call), level, text.
\<close>

section \<open>Delivery\<close>

record log_file =
  lf_sink :: file_sink
  lf_env :: fenv
  lf_pattern :: "char list"
  lf_level :: LogLevel

type_synonym formatter = "char list \<Rightarrow> int option \<Rightarrow> LogLevel \<Rightarrow> char list \<Rightarrow> char list"

definition put_line :: "char list \<Rightarrow> log_file \<Rightarrow> log_file" where
  "put_line bytes p = (case File_sink_it bytes (lf_sink p) (lf_env p) of (s, env) \<Rightarrow> p\<lparr>lf_sink := s, lf_env := env\<rparr>)"

definition flush_file :: "log_file \<Rightarrow> log_file" where
  "flush_file p = (case File_FlushBuffer (lf_sink p) (lf_env p) of (s, env) \<Rightarrow> p\<lparr>lf_sink := s, lf_env := env\<rparr>)"

fun deliver :: "formatter \<Rightarrow> lib_call \<Rightarrow> log_file \<Rightarrow> log_file" where
  "deliver fmt (Log_at To_default ts lvl text) p =
     (if lf_level p \<le> lvl then put_line (fmt (lf_pattern p) (Some ts) lvl text) p else p)"
| "deliver fmt (Log_now lvl text) p =
     (if lf_level p \<le> lvl then put_line (fmt (lf_pattern p) None lvl text) p else p)"
| "deliver fmt (Set_pattern To_default pat) p = p\<lparr>lf_pattern := pat\<rparr>"
| "deliver fmt (Set_level To_default lvl) p = p\<lparr>lf_level := lvl\<rparr>"
| "deliver fmt (Flush_logger To_default) p = flush_file p"
| "deliver fmt Flush_all p = flush_file p"
| "deliver fmt Shutdown p =
     p\<lparr>lf_env := File_dtor (lf_sink p) (lf_env p), lf_sink := (lf_sink p)\<lparr>m_fd := -1, m_bufPos := 0\<rparr>\<rparr>"
| "deliver fmt _ p = p"

section \<open>What the calls say should be written\<close>

fun written :: "formatter \<Rightarrow> char list \<Rightarrow> LogLevel \<Rightarrow> lib_call list \<Rightarrow> char list" where
  "written fmt pat low [] = []"
| "written fmt pat low (Log_at To_default ts lvl text # cs) =
     (if low \<le> lvl then fmt pat (Some ts) lvl text else []) @ written fmt pat low cs"
| "written fmt pat low (Log_now lvl text # cs) =
     (if low \<le> lvl then fmt pat None lvl text else []) @ written fmt pat low cs"
| "written fmt pat low (Set_pattern To_default pat' # cs) = written fmt pat' low cs"
| "written fmt pat low (Set_level To_default lvl # cs) = written fmt pat lvl cs"
| "written fmt pat low (_ # cs) = written fmt pat low cs"

text \<open>
  The file is open, has room for \<open>n\<close> more bytes before a rotation is due, and the disk goes on
  accepting bytes.
\<close>

definition accepts :: "log_file \<Rightarrow> nat \<Rightarrow> bool" where
  "accepts p n \<longleftrightarrow>
     (let s = lf_sink p in
      file_ok s (lf_env p) \<and> 0 \<le> m_fd s \<and>
      (m_maxSize s = 0 \<or> m_currentSize s + m_bufPos s + n \<le> m_maxSize s) \<and>
      steady (io (lf_env p)) (m_bufPos s + n))"

definition log_path :: "log_file \<Rightarrow> char list" where
  "log_path p = m_baseFilename (lf_sink p)"

text \<open>What is in the file and, behind it, in the buffer.\<close>

definition log_stream_of :: "log_file \<Rightarrow> char list" where
  "log_stream_of p = the (files (lf_env p) (log_path p)) @ file_pending (lf_sink p)"

lemma accepts_file: "accepts p n \<Longrightarrow> \<exists>c. files (lf_env p) (log_path p) = Some c"
  by (auto simp: accepts_def Let_def file_ok_def log_path_def)

lemma accepts_less: "accepts p n \<Longrightarrow> m \<le> n \<Longrightarrow> accepts p m"
  by (auto simp: accepts_def Let_def steady_def)

lemma accepts_settings [simp]:
  "accepts (p\<lparr>lf_pattern := x\<rparr>) n = accepts p n" "accepts (p\<lparr>lf_level := l\<rparr>) n = accepts p n"
  "log_stream_of (p\<lparr>lf_pattern := x\<rparr>) = log_stream_of p" "log_stream_of (p\<lparr>lf_level := l\<rparr>) = log_stream_of p"
  "log_path (p\<lparr>lf_pattern := x\<rparr>) = log_path p" "log_path (p\<lparr>lf_level := l\<rparr>) = log_path p"
  by (simp_all add: accepts_def log_stream_of_def log_path_def)

lemma flush_keeps:
  assumes "accepts p n"
  shows "accepts (flush_file p) n" and "log_stream_of (flush_file p) = log_stream_of p"
    and "file_pending (lf_sink (flush_file p)) = []" and "log_path (flush_file p) = log_path p"
    and "lf_pattern (flush_file p) = lf_pattern p" and "lf_level (flush_file p) = lf_level p"
proof -
  obtain c where c: "files (lf_env p) (m_baseFilename (lf_sink p)) = Some c"
    using accepts_file [OF assms] by (auto simp: log_path_def)
  obtain s env where fl: "File_FlushBuffer (lf_sink p) (lf_env p) = (s, env)" by (cases "File_FlushBuffer (lf_sink p) (lf_env p)")
  have a: "file_ok (lf_sink p) (lf_env p)" "0 \<le> m_fd (lf_sink p)" using assms by (simp_all add: accepts_def Let_def)
  from File_FlushBuffer_spec [OF a c fl] obtain w where
    w: "s = (lf_sink p)\<lparr>m_currentSize := m_currentSize (lf_sink p) + w, m_bufPos := 0\<rparr>"
      "files env = (files (lf_env p))(m_baseFilename (lf_sink p) := Some (c @ take w (file_pending (lf_sink p))))"
      "file_ok s env" "\<And>k. steady (io (lf_env p)) (m_bufPos (lf_sink p) + k) \<Longrightarrow> w = m_bufPos (lf_sink p) \<and> steady (io env) k"
    by blast
  have st: "w = m_bufPos (lf_sink p)" "steady (io env) n" using w(4) [of n] assms by (simp_all add: accepts_def Let_def)
  have f: "flush_file p = p\<lparr>lf_sink := s, lf_env := env\<rparr>" by (simp add: flush_file_def fl)
  show "accepts (flush_file p) n" using assms w(1,3) st by (simp add: f accepts_def Let_def)
  show "log_stream_of (flush_file p) = log_stream_of p"
    using w(1,2) st(1) c by (simp add: f log_stream_of_def log_path_def file_pending_def)
  show "file_pending (lf_sink (flush_file p)) = []" using w(1) by (simp add: f file_pending_def)
  show "log_path (flush_file p) = log_path p" using w(1) by (simp add: f log_path_def)
  show "lf_pattern (flush_file p) = lf_pattern p" "lf_level (flush_file p) = lf_level p" by (simp_all add: f)
qed

text \<open>What a message that does not rotate the file leaves of the disk's willingness.\<close>

lemma File_put_steady:
  assumes ok: "file_ok s env" and fd: "0 \<le> m_fd s" and cur: "files env (m_baseFilename s) = Some c"
    and put: "File_put buf s env = (s', env')" and st: "steady (io env) (m_bufPos s + (length buf + k))"
  shows "steady (io env') (m_bufPos s' + k)" and "m_fd s' = m_fd s" and "m_maxSize s' = m_maxSize s"
proof -
  obtain s1 env1 where fl: "File_FlushBuffer s env = (s1, env1)" by (cases "File_FlushBuffer s env")
  from File_FlushBuffer_spec [OF ok fd cur fl] obtain w where
    w: "w \<le> m_bufPos s" "s1 = s\<lparr>m_currentSize := m_currentSize s + w, m_bufPos := 0\<rparr>"
      "files env1 = (files env)(m_baseFilename s := Some (c @ take w (file_pending s)))" "file_ok s1 env1"
      "\<And>k. steady (io env) (m_bufPos s + k) \<Longrightarrow> w = m_bufPos s \<and> steady (io env1) k" by blast
  have st1: "steady (io env1) (length buf + k)" using w(5) [OF st] by blast
  have "steady (io env') (m_bufPos s' + k) \<and> m_fd s' = m_fd s \<and> m_maxSize s' = m_maxSize s"
  proof (cases "INTERNAL_BUF_SIZE < length buf")
    case True
    obtain v env2 where dl: "file_direct_loop (m_fd s1) (m_baseFilename s1) buf 0 env1 = (v, env2)"
      by (cases "file_direct_loop (m_fd s1) (m_baseFilename s1) buf 0 env1")
    have "files env1 (m_baseFilename s1) = Some (c @ take w (file_pending s))" "0 \<le> m_fd s1" using w(2,3) fd by simp_all
    from direct_loop_writes [OF dl _ this] have "steady (io env2) k" using st1 by simp
    then show ?thesis using put True fl dl w(2) by (auto simp: File_put_def)
  next
    case False
    then show ?thesis using put fl w(2) st st1 by (auto simp: File_put_def add.assoc split: if_splits)
  qed
  then show "steady (io env') (m_bufPos s' + k)" "m_fd s' = m_fd s" "m_maxSize s' = m_maxSize s" by blast+
qed

lemma put_line_appends:
  assumes "accepts p (length bytes + n)"
  shows "accepts (put_line bytes p) n" and "log_stream_of (put_line bytes p) = log_stream_of p @ bytes"
    and "log_path (put_line bytes p) = log_path p"
    and "lf_pattern (put_line bytes p) = lf_pattern p" and "lf_level (put_line bytes p) = lf_level p"
proof -
  let ?s = "lf_sink p" and ?env = "lf_env p"
  obtain c where c: "files ?env (m_baseFilename ?s) = Some c" using accepts_file [OF assms] by (auto simp: log_path_def)
  have a: "file_ok ?s ?env" "0 \<le> m_fd ?s" "m_maxSize ?s = 0 \<or> m_currentSize ?s + m_bufPos ?s + (length bytes + n) \<le> m_maxSize ?s"
    "steady (io ?env) (m_bufPos ?s + (length bytes + n))"
    using assms by (simp_all add: accepts_def Let_def)
  obtain s env where it: "File_sink_it bytes ?s ?env = (s, env)" by (cases "File_sink_it bytes ?s ?env")
  then have put: "File_put bytes ?s ?env = (s, env)" using a(2,3) by (auto simp: File_sink_it_put)
  have enough: "steady (io ?env) (m_bufPos ?s + length bytes)" using a(4) by (simp add: steady_def)
  note spec = File_put_spec [OF a(1,2) c put]
  note rest = File_put_steady [OF a(1,2) c put a(4)]
  have f: "put_line bytes p = p\<lparr>lf_sink := s, lf_env := env\<rparr>" by (simp add: put_line_def it)
  show "accepts (put_line bytes p) n" using spec rest a(2,3) by (auto simp: f accepts_def Let_def)
  show "log_stream_of (put_line bytes p) = log_stream_of p @ bytes"
    using spec enough c by (auto simp: f log_stream_of_def log_path_def)
  show "log_path (put_line bytes p) = log_path p" using spec by (simp add: f log_path_def)
  show "lf_pattern (put_line bytes p) = lf_pattern p" "lf_level (put_line bytes p) = lf_level p" by (simp_all add: f)
qed

text \<open>One call writes what \<open>written\<close> says of it.\<close>

lemma deliver_step:
  assumes nsd: "lc \<noteq> Shutdown"
    and room: "accepts p (length (written fmt (lf_pattern p) (lf_level p) (lc # cs)) + n)"
  defines "p1 \<equiv> deliver fmt lc p"
  obtains b where "written fmt (lf_pattern p) (lf_level p) (lc # cs) = b @ written fmt (lf_pattern p1) (lf_level p1) cs"
    and "log_stream_of p1 = log_stream_of p @ b" and "log_path p1 = log_path p"
    and "accepts p1 (length (written fmt (lf_pattern p1) (lf_level p1) cs) + n)"
proof -
  note fin = that
  have line: thesis if "p1 = put_line b p"
    "written fmt (lf_pattern p) (lf_level p) (lc # cs) = b @ written fmt (lf_pattern p) (lf_level p) cs" for b
  proof -
    have "accepts p (length b + (length (written fmt (lf_pattern p) (lf_level p) cs) + n))"
      using room that(2) by (simp add: add.assoc)
    note l = put_line_appends [OF this]
    show thesis using fin [of b] l that by simp
  qed
  have flush: thesis if "p1 = flush_file p"
    "written fmt (lf_pattern p) (lf_level p) (lc # cs) = written fmt (lf_pattern p) (lf_level p) cs"
  proof -
    have "accepts p (length (written fmt (lf_pattern p) (lf_level p) cs) + n)" using room that(2) by simp
    note l = flush_keeps [OF this]
    show thesis using fin [of "[]"] l that by simp
  qed
  have same: thesis if "log_stream_of p1 = log_stream_of p" "log_path p1 = log_path p" "\<forall>k. accepts p1 k = accepts p k"
    "written fmt (lf_pattern p) (lf_level p) (lc # cs) = written fmt (lf_pattern p1) (lf_level p1) cs"
    using fin [of "[]"] room that by simp
  show thesis
  proof (cases "(fmt, lc, p)" rule: deliver.cases)
    case (1 f ts lvl msg q)
    then have e: "lc = Log_at To_default ts lvl msg" by simp
    show ?thesis
    proof (cases "lf_level p \<le> lvl")
      case True
      then show ?thesis by (intro line [of "fmt (lf_pattern p) (Some ts) lvl msg"]) (simp_all add: p1_def e)
    next
      case False
      then show ?thesis by (intro same) (simp_all add: p1_def e)
    qed
  next
    case (2 f lvl msg q)
    then have e: "lc = Log_now lvl msg" by simp
    show ?thesis
    proof (cases "lf_level p \<le> lvl")
      case True
      then show ?thesis by (intro line [of "fmt (lf_pattern p) None lvl msg"]) (simp_all add: p1_def e)
    next
      case False
      then show ?thesis by (intro same) (simp_all add: p1_def e)
    qed
  next
    case (5 f q)
    then show ?thesis by (intro flush) (simp_all add: p1_def)
  next
    case (6 f q)
    then show ?thesis by (intro flush) (simp_all add: p1_def)
  next
    case (7 f q)
    then show ?thesis using nsd by simp
  qed (intro same; simp add: p1_def)+
qed

lemma deliver_all_stream:
  assumes "Shutdown \<notin> set cs"
  shows "accepts p (length (written fmt (lf_pattern p) (lf_level p) cs) + n) \<Longrightarrow>
     accepts (fold (deliver fmt) cs p) n \<and>
     log_stream_of (fold (deliver fmt) cs p) = log_stream_of p @ written fmt (lf_pattern p) (lf_level p) cs \<and>
     log_path (fold (deliver fmt) cs p) = log_path p"
  using assms
proof (induction cs arbitrary: p)
  case (Cons lc cs)
  have "lc \<noteq> Shutdown" using Cons.prems(2) by auto
  from deliver_step [OF this Cons.prems(1)] obtain b where b:
    "written fmt (lf_pattern p) (lf_level p) (lc # cs) =
       b @ written fmt (lf_pattern (deliver fmt lc p)) (lf_level (deliver fmt lc p)) cs"
    "log_stream_of (deliver fmt lc p) = log_stream_of p @ b" "log_path (deliver fmt lc p) = log_path p"
    "accepts (deliver fmt lc p) (length (written fmt (lf_pattern (deliver fmt lc p)) (lf_level (deliver fmt lc p)) cs) + n)"
    by blast
  show ?case unfolding b(1) using Cons.IH [OF b(4)] Cons.prems(2) b(2,3) by simp
qed simp

lemma shutdown_writes_out:
  assumes "accepts p n"
  shows "files (lf_env (deliver fmt Shutdown p)) (log_path p) = Some (log_stream_of p)"
proof -
  obtain s env where fl: "File_FlushBuffer (lf_sink p) (lf_env p) = (s, env)" by (cases "File_FlushBuffer (lf_sink p) (lf_env p)")
  have f: "flush_file p = p\<lparr>lf_sink := s, lf_env := env\<rparr>" by (simp add: flush_file_def fl)
  note k = flush_keeps [OF assms]
  obtain c where c: "files env (log_path p) = Some c" using accepts_file [OF k(1)] k(4) by (auto simp: f)
  have "log_stream_of (flush_file p) = c" using c k(3,4) by (simp add: log_stream_of_def f)
  then show ?thesis using assms c k(2) fl by (simp add: File_dtor_def accepts_def Let_def)
qed

section \<open>The calls of a session\<close>

lemma feed_entry_plain:
  assumes "\<not> is_cont e" and "cstr (loggerName e) = [] \<or> \<not> fc_registry fc (cstr (loggerName e))" and "fd_text f = []"
  shows "feed_entry fc e f =
     f\<lparr>fd_calls := fd_calls f @ [Log_at To_default (fc_offset fc + timeStamp_ns e) (level e) (entry_text e)]\<rparr>"
  using assms by (auto simp: feed_entry_def feed_message_def feed_flush_def feed_lines_def Let_def lines_of.simps)

lemma feed_entries_plain:
  assumes "\<forall>e \<in> set es. \<not> is_cont e \<and> (cstr (loggerName e) = [] \<or> \<not> fc_registry fc (cstr (loggerName e)))"
  shows "fd_text f = [] \<Longrightarrow> fold (feed_entry fc) es f =
     f\<lparr>fd_calls := fd_calls f @ map (\<lambda>e. Log_at To_default (fc_offset fc + timeStamp_ns e) (level e) (entry_text e)) es\<rparr>"
  using assms
proof (induction es arbitrary: f)
  case (Cons e es)
  then show ?case by (simp add: feed_entry_plain)
qed simp

text \<open>The lines a list of requests should leave in the file.\<close>

definition plain_request :: "rtlog \<Rightarrow> log_req \<Rightarrow> bool" where
  "plain_request s r \<longleftrightarrow>
     entry_shape MSG_LEN (req_junk r) \<and> c_name r \<and> (req_name r = [] \<or> \<not> lg_registry s (req_name r)) \<and>
     (req_name r = [] \<or> hd (req_name r) \<noteq> CONT_ENTRY_MARKER)"

definition expected_lines :: "formatter \<Rightarrow> log_file \<Rightarrow> rtlog \<Rightarrow> log_req list \<Rightarrow> char list" where
  "expected_lines fmt p s rs =
     concat (map (\<lambda>r. fmt (lf_pattern p) (Some (lg_wall s - lg_mono s + req_now r)) (req_level r) (take 1023 (req_text r)))
                 (filter (\<lambda>r. IsActiveLevel (req_level r) s) rs))"

lemma written_messages:
  assumes "\<forall>(ts, lvl, text) \<in> set ms. low \<le> lvl"
  shows "written fmt pat low (map (\<lambda>(ts, lvl, text). Log_at To_default ts lvl text) ms @ cs) =
     concat (map (\<lambda>(ts, lvl, text). fmt pat (Some ts) lvl text) ms) @ written fmt pat low cs"
  using assms by (induction ms) auto

text \<open>The messages a list of requests makes: time, level and text of each whose level passes.\<close>

definition request_messages :: "rtlog \<Rightarrow> log_req list \<Rightarrow> (int \<times> LogLevel \<times> char list) list" where
  "request_messages s rs =
     map (\<lambda>r. (lg_wall s - lg_mono s + req_now r, req_level r, take 1023 (req_text r)))
       (filter (\<lambda>r. IsActiveLevel (req_level r) s) rs)"

lemma passed_wf: "\<forall>r \<in> set rs. plain_request s r \<Longrightarrow> \<forall>e \<in> set (passed s rs). entry_wf MSG_LEN e"
  using req_entry_is by (auto simp: passed_def entry_is_def plain_request_def)

lemma fed_messages:
  assumes "\<forall>r \<in> set rs. plain_request s r" and "fd_text f = []"
  shows "fold (feed_entry (config_of s)) (passed s rs) f =
     f\<lparr>fd_calls := fd_calls f @ map (\<lambda>(ts, lvl, text). Log_at To_default ts lvl text) (request_messages s rs)\<rparr>"
proof -
  have ent: "\<forall>r \<in> set rs. entry_is r (req_entry r)" using assms(1) req_entry_is by (auto simp: plain_request_def)
  have plain: "\<forall>e \<in> set (passed s rs). \<not> is_cont e \<and>
      (cstr (loggerName e) = [] \<or> \<not> fc_registry (config_of s) (cstr (loggerName e)))"
    using ent assms(1) by (auto simp: passed_def entry_is_def plain_request_def config_of_def)
  have "map (\<lambda>e. Log_at To_default (fc_offset (config_of s) + timeStamp_ns e) (level e) (entry_text e)) (passed s rs) =
      map (\<lambda>(ts, lvl, text). Log_at To_default ts lvl text) (request_messages s rs)"
    using ent by (auto simp: passed_def request_messages_def config_of_def entry_is_def)
  then show ?thesis using feed_entries_plain [OF plain assms(2)] by simp
qed

lemma session_calls:
  assumes "lg_initialized s" and "queue_holds 10 (lg_queue s) []" and "drain_ok s" and "lg_calls s = []"
    and "lg_dropCount s = 0" and "lg_contLen s = 0" and "\<forall>r \<in> set rs. plain_request s r" and "length (passed s rs) \<le> 1024"
  obtains s1 s2 where "do_reqs rs s = Some s1" and "Terminate True s1 = Some s2"
    and "lg_calls s2 = [Delete_thread] @
           map (\<lambda>(ts, lvl, text). Log_at To_default ts lvl text)
             (map (\<lambda>r. (lg_wall s - lg_mono s + req_now r, req_level r, take 1023 (req_text r)))
               (filter (\<lambda>r. IsActiveLevel (req_level r) s) rs)) @
           (if lg_tui s then [Tui_stop] else []) @ [Flush_all, Shutdown]"
proof -
  from do_reqs_spec [OF assms(1,2), of rs] assms(8) obtain q where
    r: "do_reqs rs s = Some (s\<lparr>lg_queue := q\<rparr>)" "queue_holds 10 q (passed s rs)" by auto
  let ?s1 = "s\<lparr>lg_queue := q\<rparr>"
  note wf = passed_wf [OF assms(7)]
  have i: "lg_initialized ?s1" "queue_holds 10 (lg_queue ?s1) (passed s rs)" "drain_ok ?s1"
    using assms(1,3) r(2) by (simp_all add: drain_ok_def)
  obtain s2 where s2: "Terminate True ?s1 = Some s2"
    "lg_calls s2 = fd_calls (feed_flush (config_of ?s1) (fold (feed_entry (config_of ?s1)) (passed s rs)
                       ((feed_of ?s1)\<lparr>fd_calls := lg_calls ?s1 @ end_report ?s1\<rparr>))) @ end_calls ?s1"
    by (rule Terminate_spec [OF i wf])
  have t: "fd_text ((feed_of ?s1)\<lparr>fd_calls := lg_calls ?s1 @ end_report ?s1\<rparr>) = []"
    using assms(6) by (simp add: feed_of_def cont_text_def)
  have cfg: "config_of ?s1 = config_of s" by (simp add: config_of_def)
  have "lg_calls s2 = [Delete_thread] @ map (\<lambda>(ts, lvl, text). Log_at To_default ts lvl text)
        (request_messages s rs) @ (if lg_tui s then [Tui_stop] else []) @ [Flush_all, Shutdown]"
    unfolding s2(2) cfg fed_messages [OF assms(7) t] using t assms(4,5)
    by (simp add: feed_flush_def feed_lines_def lines_of.simps end_report_def end_calls_def)
  then show thesis by (intro that [OF r(1) s2(1)]) (simp only: request_messages_def)
qed

text \<open>An open log file of two bytes, on a disk that takes five bytes at a time.\<close>

definition ex_log_file :: log_file where
  "ex_log_file =
     \<lparr>lf_sink = ex_sink\<lparr>m_maxSize := 0\<rparr>, lf_env = ex_env\<lparr>io := \<lparr>answers = replicate 20 (Wrote 5), sent = [], errno = EOK\<rparr>\<rparr>,
      lf_pattern = ''> '', lf_level = L_trace\<rparr>"

end
