(* ===== verification/RtTui.thy ===== *)
theory RtTui
  imports LogQueue StdoutSink "HOL-Library.Signed_Division"
begin

text \<open>
  \<open>dtRtTui\<close>: the terminal interface of the logger. Area 1 shows groups of data rows, written
  by real-time threads into the write half of a double buffer; area 2 scrolls through the
  last 2000 messages, which arrive through a second \<open>LogQueue\<close>; the last line shows the
  layouts and the last key. This theory holds the state and every operation.
\<close>

section \<open>Data\<close>

definition TUI_MAX_GROUPS :: nat where "TUI_MAX_GROUPS = 10"
definition TUI_MAX_ROWS_PER_GROUP :: nat where "TUI_MAX_ROWS_PER_GROUP = 20"
definition TUI_DATA_COL_LEN :: nat where "TUI_DATA_COL_LEN = 24"
definition TUI_MAX_COLS :: nat where "TUI_MAX_COLS = 10"
definition TUI_TEXT_ROW_LEN :: nat where "TUI_TEXT_ROW_LEN = 200"
definition AREA2_MIN_ROWS :: int where "AREA2_MIN_ROWS = 5"
definition LOG_KEEP :: nat where "LOG_KEEP = 2000"
definition OUT_BUF_SIZE :: nat where "OUT_BUF_SIZE = 262144"
definition MAX_LAYOUTS :: nat where "MAX_LAYOUTS = 9"

record tui_row =
  rw_label :: "char list"
  rw_col :: "char list list"
  rw_ncols :: nat
  rw_textMode :: bool
  rw_text :: "char list"

record tui_group =
  gr_rows :: "tui_row list"
  gr_nrows :: nat

record tui_data =
  bf_groups :: "tui_group list"
  bf_dirty :: bool

record tui_header =
  gh_label :: "char list"
  gh_cols :: "char list list"
  gh_ncols :: nat
  gh_active :: bool
  gh_hideHeader :: bool

record tui_layout =
  ly_name :: "char list"
  ly_headers :: "tui_header list"
  ly_bufs :: "tui_data list"
  ly_widx :: nat
  ly_defined :: bool

datatype term_call =
    Save_termios
  | Raw_termios
  | Old_termios
  | Nonblock int bool
  | Close_fd int

text \<open>
  \<open>t_out\<close> is the used part of \<open>m_outBuf\<close>, its first \<open>m_outPos\<close> bytes. \<open>t_polls\<close> says of
  each call of \<open>poll\<close> whether the terminal became writable within 10 ms; \<open>t_errTime\<close> is the
  static variable of \<open>FlushOutput\<close> and \<open>t_errs\<close> are the messages it logs.
\<close>

record tui =
  t_queue :: "Entry LogQueue"
  t_layouts :: "tui_layout list"
  t_current :: nat
  t_changed :: bool
  t_history :: "Entry list"
  t_logCount :: nat
  t_logHead :: nat
  t_scroll :: nat
  t_autoScroll :: bool
  t_lastKey :: char
  t_running :: bool
  t_termActive :: bool
  t_rows :: int
  t_cols :: int
  t_prevRows :: int
  t_prevCols :: int
  t_fd :: int
  t_out :: "char list"
  t_dev :: dev
  t_polls :: "bool list"
  t_errTime :: int
  t_errs :: "char list list"
  t_calls :: "term_call list"

definition new_row :: tui_row where
  "new_row = \<lparr>rw_label = replicate 24 NUL, rw_col = replicate 10 (replicate 24 NUL), rw_ncols = 0,
              rw_textMode = False, rw_text = replicate 200 NUL\<rparr>"

definition new_data :: tui_data where
  "new_data = \<lparr>bf_groups = replicate 10 \<lparr>gr_rows = replicate 20 new_row, gr_nrows = 0\<rparr>, bf_dirty = False\<rparr>"

definition new_header :: tui_header where
  "new_header = \<lparr>gh_label = replicate 24 NUL, gh_cols = replicate 10 (replicate 24 NUL), gh_ncols = 0,
                 gh_active = False, gh_hideHeader = False\<rparr>"

definition new_layout :: "nat \<Rightarrow> tui_layout" where
  "new_layout i =
     \<lparr>ly_name = snprintf_at (replicate 32 NUL) 0 32 (Some (''Layout '' @ nat_str (i + 1))),
      ly_headers = replicate 10 new_header, ly_bufs = replicate 2 new_data, ly_widx = 0, ly_defined = False\<rparr>"

definition RtTui_new :: "Entry LogQueue \<Rightarrow> Entry list \<Rightarrow> dev \<Rightarrow> bool list \<Rightarrow> tui" where
  "RtTui_new queue history d polls =
     \<lparr>t_queue = queue, t_layouts = map new_layout [0..<MAX_LAYOUTS], t_current = 0, t_changed = False,
      t_history = history, t_logCount = 0, t_logHead = 0, t_scroll = 0, t_autoScroll = True, t_lastKey = NUL,
      t_running = False, t_termActive = False, t_rows = 24, t_cols = 80, t_prevRows = 0, t_prevCols = 0,
      t_fd = -1, t_out = [], t_dev = d, t_polls = polls, t_errTime = 0, t_errs = [], t_calls = []\<rparr>"

definition upd_at :: "nat \<Rightarrow> ('a \<Rightarrow> 'a) \<Rightarrow> 'a list \<Rightarrow> 'a list" where
  "upd_at i f xs = xs[i := f (xs ! i)]"

text \<open>The range checks of the setters, on \<open>int\<close> arguments.\<close>

definition layout_ok :: "int \<Rightarrow> bool" where "layout_ok i \<longleftrightarrow> 0 \<le> i \<and> i < int MAX_LAYOUTS"
definition group_ok :: "int \<Rightarrow> bool" where "group_ok i \<longleftrightarrow> 0 \<le> i \<and> i < int TUI_MAX_GROUPS"
definition row_ok :: "int \<Rightarrow> bool" where "row_ok i \<longleftrightarrow> 0 \<le> i \<and> i < int TUI_MAX_ROWS_PER_GROUP"

definition upd_layout :: "int \<Rightarrow> (tui_layout \<Rightarrow> tui_layout) \<Rightarrow> tui \<Rightarrow> tui" where
  "upd_layout i f t = t\<lparr>t_layouts := upd_at (nat i) f (t_layouts t)\<rparr>"

section \<open>Layouts and headers\<close>

definition SetLayoutName :: "int \<Rightarrow> char list option \<Rightarrow> tui \<Rightarrow> tui" where
  "SetLayoutName layoutIdx name t =
     (case name of
        None \<Rightarrow> t
      | Some n \<Rightarrow>
          if \<not> layout_ok layoutIdx then t
          else upd_layout layoutIdx (\<lambda>l. l\<lparr>ly_name := strncpy_term (ly_name l) n 32, ly_defined := True\<rparr>) t)"

text \<open>One column header or cell: copied, or emptied when the pointer is null.\<close>

definition put_cell :: "char list option \<Rightarrow> char list \<Rightarrow> char list" where
  "put_cell s cell = (case s of Some c \<Rightarrow> strncpy_term cell c TUI_DATA_COL_LEN | None \<Rightarrow> cell[0 := NUL])"

fun put_cells :: "nat \<Rightarrow> char list option list \<Rightarrow> char list list \<Rightarrow> char list list" where
  "put_cells 0 cols cells = cells"
| "put_cells (Suc i) cols cells = upd_at i (put_cell (cols ! i)) (put_cells i cols cells)"

definition SetGroup :: "int \<Rightarrow> int \<Rightarrow> char list \<Rightarrow> char list option list \<Rightarrow> tui \<Rightarrow> tui" where
  "SetGroup layoutIdx groupIdx labelHdr colHdrs t =
     (if \<not> layout_ok layoutIdx then t
      else if \<not> group_ok groupIdx then t
      else
        let ncols = (if length colHdrs > TUI_MAX_COLS then TUI_MAX_COLS else length colHdrs);
            set = (\<lambda>gh. gh\<lparr>gh_label := strncpy_term (gh_label gh) labelHdr TUI_DATA_COL_LEN, gh_ncols := ncols,
                           gh_cols := put_cells ncols colHdrs (gh_cols gh), gh_active := True\<rparr>)
        in upd_layout layoutIdx
             (\<lambda>l. l\<lparr>ly_headers := upd_at (nat groupIdx) set (ly_headers l), ly_defined := True\<rparr>) t)"

definition SetGroupV :: "int \<Rightarrow> int \<Rightarrow> char list \<Rightarrow> char list option list \<Rightarrow> tui \<Rightarrow> tui" where
  "SetGroupV layoutIdx groupIdx labelHdr colHdrs t = SetGroup layoutIdx groupIdx labelHdr colHdrs t"

definition SetGroupNoHeader :: "int \<Rightarrow> int \<Rightarrow> tui \<Rightarrow> tui" where
  "SetGroupNoHeader layoutIdx groupIdx t =
     (if \<not> layout_ok layoutIdx then t
      else if \<not> group_ok groupIdx then t
      else
        let set = (\<lambda>gh. gh\<lparr>gh_label := (gh_label gh)[0 := NUL], gh_ncols := 0, gh_hideHeader := True,
                           gh_active := True\<rparr>)
        in upd_layout layoutIdx
             (\<lambda>l. l\<lparr>ly_headers := upd_at (nat groupIdx) set (ly_headers l), ly_defined := True\<rparr>) t)"

section \<open>Data rows\<close>

text \<open>What \<open>SetRowData\<close> and \<open>SetTextRow\<close> share: the row of the write buffer.\<close>

definition upd_row :: "int \<Rightarrow> int \<Rightarrow> int \<Rightarrow> (tui_row \<Rightarrow> tui_row) \<Rightarrow> tui \<Rightarrow> tui" where
  "upd_row layoutIdx groupIdx row_idx f t =
     upd_layout layoutIdx
       (\<lambda>l. l\<lparr>ly_bufs := upd_at (ly_widx l)
                (\<lambda>b. b\<lparr>bf_groups := upd_at (nat groupIdx)
                         (\<lambda>g. g\<lparr>gr_rows := upd_at (nat row_idx) f (gr_rows g),
                                gr_nrows := max (gr_nrows g) (nat (row_idx + 1))\<rparr>) (bf_groups b),
                       bf_dirty := True\<rparr>) (ly_bufs l),
              ly_defined := True\<rparr>) t"

fun clear_cells :: "nat \<Rightarrow> char list list \<Rightarrow> char list list" where
  "clear_cells from [] = []"
| "clear_cells 0 (c # cs) = c[0 := NUL] # clear_cells 0 cs"
| "clear_cells (Suc from) (c # cs) = c # clear_cells from cs"

definition SetRowData :: "int \<Rightarrow> int \<Rightarrow> int \<Rightarrow> char list \<Rightarrow> char list option list \<Rightarrow> tui \<Rightarrow> tui" where
  "SetRowData layoutIdx groupIdx row_idx label cols t =
     (if \<not> layout_ok layoutIdx then t
      else if \<not> group_ok groupIdx then t
      else if \<not> row_ok row_idx then t
      else
        let ncols = (if length cols > TUI_MAX_COLS then TUI_MAX_COLS else length cols)
        in upd_row layoutIdx groupIdx row_idx
             (\<lambda>r. r\<lparr>rw_label := strncpy_term (rw_label r) label TUI_DATA_COL_LEN, rw_ncols := ncols,
                    rw_textMode := False,
                    rw_col := clear_cells ncols (put_cells ncols cols (rw_col r))\<rparr>) t)"

definition SetTextRow :: "int \<Rightarrow> int \<Rightarrow> int \<Rightarrow> char list \<Rightarrow> char list \<Rightarrow> tui \<Rightarrow> tui" where
  "SetTextRow layoutIdx groupIdx row_idx label txt' t =
     (if \<not> layout_ok layoutIdx then t
      else if \<not> group_ok groupIdx then t
      else if \<not> row_ok row_idx then t
      else upd_row layoutIdx groupIdx row_idx
             (\<lambda>r. r\<lparr>rw_label := strncpy_term (rw_label r) label TUI_DATA_COL_LEN, rw_textMode := True,
                    rw_text := strncpy_term (rw_text r) txt' TUI_TEXT_ROW_LEN, rw_ncols := 0\<rparr>) t)"

text \<open>
  \<open>SetTextRowFmt\<close> and the template \<open>SetRowCols\<close>: the arguments are what the formats render to,
  \<open>None\<close> when \<open>snprintf\<close> fails and leaves the array as it was (\<open>junk\<close> for \<open>SetTextRowFmt\<close>, zeros
  for the columns).
\<close>

definition SetTextRowFmt :: "char list \<Rightarrow> int \<Rightarrow> int \<Rightarrow> int \<Rightarrow> char list \<Rightarrow> char list option \<Rightarrow> tui \<Rightarrow> tui" where
  "SetTextRowFmt junk layoutIdx groupIdx row_idx label rtext t =
     SetTextRow layoutIdx groupIdx row_idx label (cstr (snprintf_at junk 0 TUI_TEXT_ROW_LEN rtext)) t"

definition fmt_cell :: "char list option \<Rightarrow> char list" where
  "fmt_cell rtext = cstr (snprintf_at (replicate TUI_DATA_COL_LEN NUL) 0 TUI_DATA_COL_LEN rtext)"

text \<open>
  The templates behind \<open>SetRowFmt\<close>: a value is converted to one of five types and printed with
  the caller's format (\<open>fmt\<close>: what that renders to); a value of another type is a question mark.
  A floating-point number is its bits.
\<close>

datatype col_arg = Arg_bool bool | Arg_double "64 word" | Arg_signed int | Arg_unsigned nat | Arg_str "char list" | Arg_other

definition FormatColumn :: "(col_arg \<Rightarrow> char list option) \<Rightarrow> col_arg \<Rightarrow> char list \<Rightarrow> char list" where
  "FormatColumn fmt v buf =
     snprintf_at buf 0 TUI_DATA_COL_LEN (case v of Arg_other \<Rightarrow> Some ''?'' | _ \<Rightarrow> fmt v)"

fun FormatColumnsRecursive :: "(col_arg \<Rightarrow> char list option) \<Rightarrow> nat \<Rightarrow> col_arg list \<Rightarrow> char list list \<Rightarrow> char list list" where
  "FormatColumnsRecursive fmt colIdx [] cols = cols"
| "FormatColumnsRecursive fmt colIdx (v # rest) cols =
     (if colIdx \<ge> TUI_MAX_COLS then cols
      else FormatColumnsRecursive fmt (colIdx + 1) rest (cols[colIdx := FormatColumn fmt v (cols ! colIdx)]))"

definition SetRowFmt :: "int \<Rightarrow> int \<Rightarrow> int \<Rightarrow> char list \<Rightarrow> (col_arg \<Rightarrow> char list option) \<Rightarrow> col_arg list \<Rightarrow> tui \<Rightarrow> tui" where
  "SetRowFmt layoutIdx groupIdx rowIdx label fmt args t =
     (if \<not> layout_ok layoutIdx then t
      else if \<not> group_ok groupIdx then t
      else if \<not> row_ok rowIdx then t
      else
        let cols = FormatColumnsRecursive fmt 0 args (replicate TUI_MAX_COLS (replicate TUI_DATA_COL_LEN NUL));
            ncols = (if length args > TUI_MAX_COLS then TUI_MAX_COLS else length args)
        in SetRowData layoutIdx groupIdx rowIdx label (map (\<lambda>c. Some (cstr c)) (take ncols cols)) t)"

definition SetRowCols :: "int \<Rightarrow> int \<Rightarrow> int \<Rightarrow> char list \<Rightarrow> char list option list \<Rightarrow> tui \<Rightarrow> tui" where
  "SetRowCols layoutIdx groupIdx rowIdx label cols t =
     (if \<not> layout_ok layoutIdx then t
      else if \<not> group_ok groupIdx then t
      else if \<not> row_ok rowIdx then t
      else
        let ncols = (if length cols > TUI_MAX_COLS then TUI_MAX_COLS else length cols)
        in SetRowData layoutIdx groupIdx rowIdx label (map (\<lambda>a. Some (fmt_cell a)) (take ncols cols)) t)"

section \<open>The output buffer\<close>

definition EAGAIN_or_EWOULDBLOCK :: "errno \<Rightarrow> bool" where
  "EAGAIN_or_EWOULDBLOCK e \<longleftrightarrow> e = EAGAIN"

text \<open>
  The loop of \<open>FlushOutput\<close>: whether it left by the error \<open>return\<close>, the count written, and
  the new states of the device and of \<open>poll\<close>'s answers.
\<close>

function tui_write_loop :: "char list \<Rightarrow> nat \<Rightarrow> dev \<Rightarrow> bool list \<Rightarrow> bool \<times> nat \<times> dev \<times> bool list" where
  "tui_write_loop out written d polls =
     (if \<not> written < length out then (False, written, d, polls)
      else case sys_write (drop written out) d of
        (n, d') \<Rightarrow>
          if n < 0 then
            (if errno d' = EINTR then tui_write_loop out written d' polls
             else if EAGAIN_or_EWOULDBLOCK (errno d') then
               (case polls of
                  [] \<Rightarrow> (False, written, d', [])
                | True # ps \<Rightarrow> tui_write_loop out written d' ps
                | False # ps \<Rightarrow> (False, written, d', ps))
             else (True, written, d', polls))
          else if n = 0 then (False, written, d', polls)
          else tui_write_loop out (written + nat n) d' polls)"
  by pat_completeness auto
termination
proof (relation "measure (\<lambda>(out, written, d, polls). length (answers d) + length polls)", goal_cases)
  case 1
  then show ?case by simp
next
  case (2 out written d polls n d')
  from 2(2) [symmetric] show ?case
    by (cases rule: sys_write_cases) (use 2 in auto)
next
  case (3 out written d polls n d' b ps)
  from 3(2) [symmetric] show ?case
    by (cases rule: sys_write_cases) (use 3 in \<open>auto simp: EAGAIN_or_EWOULDBLOCK_def\<close>)
next
  case (4 out written d polls n d')
  from 4(2) [symmetric] show ?case
    by (cases rule: sys_write_cases) (use 4 in auto)
qed

declare tui_write_loop.simps [simp del]

text \<open>
  \<open>FlushOutput\<close>. A real error is logged at most once a second; \<open>now_ms\<close> is the clock.
\<close>

definition FlushOutput :: "int \<Rightarrow> tui \<Rightarrow> tui" where
  "FlushOutput now_ms t =
     (if t_out t = [] then t
      else case tui_write_loop (t_out t) 0 (t_dev t) (t_polls t) of
        (failed, written, d, polls) \<Rightarrow>
          let t = t\<lparr>t_dev := d, t_polls := polls\<rparr> in
          if failed then
            let t = (if now_ms - t_errTime t \<ge> 1000
                     then t\<lparr>t_errTime := now_ms,
                            t_errs := t_errs t @ [''[TUI] write failed: dropped '' @
                                                  nat_str (length (t_out t) - written) @ '' bytes'']\<rparr>
                     else t)
            in t\<lparr>t_out := take written (t_out t)\<rparr>
          else t\<lparr>t_out := drop written (t_out t)\<rparr>)"

definition AppendData :: "int \<Rightarrow> char list \<Rightarrow> tui \<Rightarrow> tui" where
  "AppendData now_ms s t =
     (let t = (if length (t_out t) + length s \<ge> OUT_BUF_SIZE then FlushOutput now_ms t else t);
          n = min (length s) (OUT_BUF_SIZE - length (t_out t))
      in t\<lparr>t_out := t_out t @ take n s\<rparr>)"

definition HBAR :: "char list" where "HBAR = map char_of [0xE2::nat, 0x94, 0x80]"

text \<open>\<open>AppendData_hbar\<close> on an \<open>int\<close>; nothing when it is not positive.\<close>

definition AppendData_hbar :: "int \<Rightarrow> int \<Rightarrow> tui \<Rightarrow> tui" where
  "AppendData_hbar now_ms n t = ((AppendData now_ms HBAR) ^^ nat n) t"

text \<open>
  \<open>SafeSnprintf\<close> of a text that renders to \<open>s\<close>: when it does not fit, \<open>snprintf\<close> stores one
  byte less than there is room and a NUL, and the whole room is counted as used.
\<close>

definition SafeSnprintf :: "char list \<Rightarrow> tui \<Rightarrow> tui" where
  "SafeSnprintf s t =
     (if length (t_out t) \<ge> OUT_BUF_SIZE then t
      else
        let avail = OUT_BUF_SIZE - length (t_out t);
            stored = (if length s < avail then s else take (avail - 1) s @ [NUL])
        in if s = [] then t else t\<lparr>t_out := t_out t @ take (min (length s) avail) stored\<rparr>)"

fun Utf8CodePointCount :: "char list \<Rightarrow> nat" where
  "Utf8CodePointCount [] = 0"
| "Utf8CodePointCount (c # cs) =
     (if c = NUL then 0
      else (if (of_char c :: nat) div 64 = 2 then 0 else 1) + Utf8CodePointCount cs)"

section \<open>The terminal\<close>

definition RESET :: "char list" where "RESET = ESC # ''[0m''"
definition BOLD :: "char list" where "BOLD = ESC # ''[1m''"
definition FG_CYAN :: "char list" where "FG_CYAN = ESC # ''[36m''"
definition FG_YELLOW :: "char list" where "FG_YELLOW = ESC # ''[33m''"
definition FG_GRAY :: "char list" where "FG_GRAY = ESC # ''[90m''"
definition FG_WHITE :: "char list" where "FG_WHITE = ESC # ''[97m''"
definition FG_MAGENTA :: "char list" where "FG_MAGENTA = ESC # ''[35m''"
definition CLEAR_SCREEN :: "char list" where "CLEAR_SCREEN = ESC # ''[2J''"
definition HIDE_CURSOR :: "char list" where "HIDE_CURSOR = ESC # ''[?25l''"
definition SHOW_CURSOR :: "char list" where "SHOW_CURSOR = ESC # ''[?25h''"

definition term_do :: "term_call \<Rightarrow> tui \<Rightarrow> tui" where
  "term_do c t = t\<lparr>t_calls := t_calls t @ [c]\<rparr>"

text \<open>
  \<open>TermInit\<close>: \<open>opened\<close> is what \<open>open\<close> returned, \<open>flags_ok\<close> whether \<open>fcntl\<close> could read the
  flags of the standard output in the fallback.
\<close>

definition TermInit :: "int \<Rightarrow> int \<Rightarrow> bool \<Rightarrow> tui \<Rightarrow> tui" where
  "TermInit now_ms opened flags_ok t =
     (let t = term_do (Nonblock 0 True) (term_do Raw_termios (term_do Save_termios (t\<lparr>t_termActive := True\<rparr>)));
          t = (if opened < 0
               then (if flags_ok then term_do (Nonblock STDOUT_FILENO True) (t\<lparr>t_fd := STDOUT_FILENO\<rparr>)
                     else t\<lparr>t_fd := STDOUT_FILENO\<rparr>)
               else t\<lparr>t_fd := opened\<rparr>)
      in FlushOutput now_ms (AppendData now_ms CLEAR_SCREEN (AppendData now_ms HIDE_CURSOR t)))"

definition TermRestore :: "int \<Rightarrow> bool \<Rightarrow> bool \<Rightarrow> tui \<Rightarrow> tui" where
  "TermRestore now_ms out_flags_ok in_flags_ok t =
     (if \<not> t_termActive t then t
      else
        let t = t\<lparr>t_termActive := False\<rparr>;
            t = (if 0 \<le> t_fd t \<and> out_flags_ok then term_do (Nonblock (t_fd t) False) t else t);
            t = t\<lparr>t_out := []\<rparr>;
            t = AppendData now_ms (ESC # ''[1;1H'') (AppendData now_ms CLEAR_SCREEN
                  (AppendData now_ms SHOW_CURSOR (AppendData now_ms RESET t)));
            t = FlushOutput now_ms t;
            t = (if 0 \<le> t_fd t \<and> t_fd t \<noteq> STDOUT_FILENO then term_do (Close_fd (t_fd t)) t else t);
            t = t\<lparr>t_fd := -1\<rparr>;
            t = (if in_flags_ok then term_do (Nonblock 0 False) t else t)
        in term_do Old_termios t)"

definition Init :: "int \<Rightarrow> int \<Rightarrow> bool \<Rightarrow> tui \<Rightarrow> bool \<times> tui" where
  "Init now_ms opened flags_ok t =
     (if t_termActive t then (True, t)
      else (True, (TermInit now_ms opened flags_ok t)\<lparr>t_running := True\<rparr>))"

definition Stop :: "int \<Rightarrow> bool \<Rightarrow> bool \<Rightarrow> tui \<Rightarrow> tui" where
  "Stop now_ms out_flags_ok in_flags_ok t = TermRestore now_ms out_flags_ok in_flags_ok (t\<lparr>t_running := False\<rparr>)"

definition RtTui_dtor :: "int \<Rightarrow> bool \<Rightarrow> bool \<Rightarrow> tui \<Rightarrow> tui" where
  "RtTui_dtor now_ms out_flags_ok in_flags_ok t = Stop now_ms out_flags_ok in_flags_ok t"

definition TermGetSize :: "(int \<times> int) option \<Rightarrow> tui \<Rightarrow> tui" where
  "TermGetSize ws t =
     (case ws of
        Some (row, col) \<Rightarrow>
          if row > 0 then t\<lparr>t_rows := row, t_cols := col\<rparr> else t\<lparr>t_rows := 24, t_cols := 80\<rparr>
      | None \<Rightarrow> t\<lparr>t_rows := 24, t_cols := 80\<rparr>)"

section \<open>Messages and keys\<close>

text \<open>\<open>LogV\<close> ignores whether the message was accepted.\<close>

definition LogV :: "Entry \<Rightarrow> LogLevel \<Rightarrow> char list option \<Rightarrow> tui \<Rightarrow> tui option" where
  "LogV junk lvl rtext t =
     map_option (\<lambda>(accepted, q). t\<lparr>t_queue := q\<rparr>)
       (TryPush QUEUE_CAPACITY (Entry_SetV 1024 lvl 0 rtext junk) (t_queue t))"

definition PopPendingKey :: "tui \<Rightarrow> char \<times> tui" where
  "PopPendingKey t = (t_lastKey t, t\<lparr>t_lastKey := NUL\<rparr>)"

definition GetCurrentLayout :: "tui \<Rightarrow> nat" where
  "GetCurrentLayout t = t_current t"

text \<open>One turn of the loop that moves queued messages into the circular history.\<close>

definition keep_entry :: "Entry \<Rightarrow> tui \<Rightarrow> tui" where
  "keep_entry e t =
     (let t = (if t_logCount t < LOG_KEEP
               then t\<lparr>t_history := (t_history t)[(t_logHead t + t_logCount t) mod LOG_KEEP := e],
                      t_logCount := t_logCount t + 1\<rparr>
               else t\<lparr>t_history := (t_history t)[t_logHead t := e],
                      t_logHead := (t_logHead t + 1) mod LOG_KEEP\<rparr>)
      in if t_autoScroll t then t\<lparr>t_scroll := 0\<rparr> else t\<lparr>t_scroll := t_scroll t + 1\<rparr>)"

definition drain_log :: "tui \<Rightarrow> tui option" where
  "drain_log t =
     map_option (\<lambda>(q, t', n). t'\<lparr>t_queue := q\<rparr>)
       (drain (TryPop QUEUE_CAPACITY) keep_entry (t_queue t) t 0)"

definition scroll_key :: "char list \<Rightarrow> nat \<Rightarrow> tui \<Rightarrow> tui" where
  "scroll_key buf page t =
     (let b2 = buf ! 2; long = (4 \<le> length buf \<and> buf ! 3 = CHR ''~'') in
      if b2 = CHR ''A'' then t\<lparr>t_scroll := t_scroll t + 1, t_autoScroll := False\<rparr>
      else if b2 = CHR ''B'' then
        (let s = t_scroll t - 1 in t\<lparr>t_scroll := s, t_autoScroll := (t_autoScroll t \<or> s = 0)\<rparr>)
      else if b2 = CHR ''5'' then
        (if long then t\<lparr>t_scroll := t_scroll t + page, t_autoScroll := False\<rparr> else t)
      else if b2 = CHR ''6'' then
        (if long then
           let s = (if t_scroll t > page then t_scroll t - page else 0)
           in t\<lparr>t_scroll := s, t_autoScroll := (t_autoScroll t \<or> s = 0)\<rparr>
         else t)
      else if b2 = CHR ''F'' then t\<lparr>t_scroll := 0, t_autoScroll := True\<rparr>
      else if b2 = CHR ''H'' then t\<lparr>t_scroll := t_logCount t, t_autoScroll := False\<rparr>
      else t)"

definition layout_defined :: "tui \<Rightarrow> nat \<Rightarrow> bool" where
  "layout_defined t i \<longleftrightarrow> ly_defined (t_layouts t ! i)"

text \<open>\<open>find\<close> is the loop that stops at the first layout that is not defined.\<close>

definition prev_layout :: "tui \<Rightarrow> nat" where
  "prev_layout t =
     (if t_current t = 0 then
        (case find (\<lambda>i. \<not> layout_defined t i) [0..<MAX_LAYOUTS] of
           Some i \<Rightarrow> i | None \<Rightarrow> MAX_LAYOUTS - 1)
      else t_current t - 1)"

definition next_layout :: "tui \<Rightarrow> nat" where
  "next_layout t =
     (if t_current t = MAX_LAYOUTS - 1 \<or> \<not> layout_defined t (t_current t) then 0 else t_current t + 1)"

definition switch_layout :: "nat \<Rightarrow> tui \<Rightarrow> tui" where
  "switch_layout i t =
     (if t_current t \<noteq> i then t\<lparr>t_current := i, t_changed := True\<rparr> else t\<lparr>t_current := i\<rparr>)"

definition HandleKey :: "char list \<Rightarrow> tui \<Rightarrow> tui" where
  "HandleKey buf t =
     (if buf = [] then t
      else
        let p = nat (t_rows t * 6 div 10); page = (if p < 1 then 1 else p); c = buf ! 0 in
        if c = ESC \<and> 3 \<le> length buf \<and> buf ! 1 = CHR ''['' then
          (let t = scroll_key buf page t
           in if t_scroll t > t_logCount t then t\<lparr>t_scroll := t_logCount t\<rparr> else t)
        else if c = CHR ''['' then switch_layout (prev_layout t) t
        else if c = CHR '']'' then switch_layout (next_layout t) t
        else t\<lparr>t_lastKey := c\<rparr>)"

text \<open>The loop of \<open>Tick\<close> over the bytes \<open>read\<close> returned.\<close>

function handle_keys :: "char list \<Rightarrow> tui \<Rightarrow> tui" where
  "handle_keys kbuf t =
     (if kbuf = [] then t
      else if kbuf ! 0 = ESC \<and> 3 \<le> length kbuf \<and> kbuf ! 1 = CHR ''['' then
        (let seq_len = (if 4 \<le> length kbuf \<and> kbuf ! 3 = CHR ''~'' then 4 else 3)
         in handle_keys (drop seq_len kbuf) (HandleKey (take seq_len kbuf) t))
      else if kbuf ! 0 = ESC then HandleKey kbuf t
      else handle_keys (drop 1 kbuf) (HandleKey (take 1 kbuf) t))"
  by pat_completeness auto
termination
  by (relation "measure (\<lambda>(kbuf, t). length kbuf)") (auto split: if_splits)

declare handle_keys.simps [simp del]

section \<open>Rendering\<close>

text \<open>
  What is drawn does not depend on the output buffer, so the drawing functions return the
  calls they make: \<open>At row col s\<close> is \<open>SafeSnprintf\<close> of a cursor position and \<open>s\<close>, \<open>Put\<close> is
  \<open>SafeSnprintf\<close> alone, \<open>App\<close> is \<open>AppendData_str\<close>, \<open>Bar\<close> is \<open>AppendData_hbar\<close>.
\<close>

datatype draw = At int int "char list" | Put "char list" | App "char list" | Bar int

definition cursor :: "int \<Rightarrow> int \<Rightarrow> char list" where
  "cursor row col = ESC # ''['' @ int_str row @ '';'' @ int_str col @ ''H''"

fun draw_one :: "int \<Rightarrow> draw \<Rightarrow> tui \<Rightarrow> tui" where
  "draw_one now_ms (At row col s) t = SafeSnprintf (cursor row col @ s) t"
| "draw_one now_ms (Put s) t = SafeSnprintf s t"
| "draw_one now_ms (App s) t = AppendData now_ms s t"
| "draw_one now_ms (Bar n) t = AppendData_hbar now_ms n t"

definition draw_all :: "int \<Rightarrow> draw list \<Rightarrow> tui \<Rightarrow> tui" where
  "draw_all now_ms ds = fold (draw_one now_ms) ds"

definition utf8 :: "nat list \<Rightarrow> char list" where "utf8 = map char_of"
definition VBAR :: "char list" where "VBAR = utf8 [0xE2, 0x94, 0x82]"
definition TOP_LEFT :: "char list" where "TOP_LEFT = utf8 [0xE2, 0x94, 0x8C]"
definition TOP_RIGHT :: "char list" where "TOP_RIGHT = utf8 [0xE2, 0x94, 0x90]"
definition BOT_LEFT :: "char list" where "BOT_LEFT = utf8 [0xE2, 0x94, 0x94]"
definition BOT_RIGHT :: "char list" where "BOT_RIGHT = utf8 [0xE2, 0x94, 0x98]"
definition TEE_LEFT :: "char list" where "TEE_LEFT = utf8 [0xE2, 0x94, 0x9C]"
definition TEE_RIGHT :: "char list" where "TEE_RIGHT = utf8 [0xE2, 0x94, 0xA4]"
definition BLOCK :: "char list" where "BLOCK = utf8 [0xE2, 0x96, 0x88]"
definition ERASE :: "char list" where "ERASE = ESC # ''[K''"

text \<open>The conversions "%-ns", "%ns" and "%.ns"; a negative precision is none.\<close>

definition rpad :: "nat \<Rightarrow> char list \<Rightarrow> char list" where
  "rpad n s = s @ replicate (n - length s) CHR '' ''"

definition lpad :: "nat \<Rightarrow> char list \<Rightarrow> char list" where
  "lpad n s = replicate (n - length s) CHR '' '' @ s"

definition prec :: "int \<Rightarrow> char list \<Rightarrow> char list" where
  "prec n s = (if n < 0 then s else take (nat n) s)"

subsection \<open>Area 1\<close>

text \<open>\<open>CalcArea1Height\<close> looks at the read half of the double buffer.\<close>

fun area1_content :: "(tui_header \<times> tui_group) list \<Rightarrow> bool \<Rightarrow> int" where
  "area1_content [] first = 0"
| "area1_content ((gh, gd) # gs) first =
     (if \<not> gh_active gh then area1_content gs first
      else (if \<not> first then 1 else 0) + (if \<not> gh_hideHeader gh then 2 else 0) + int (gr_nrows gd) +
           area1_content gs False)"

definition CalcArea1Height :: "tui \<Rightarrow> int" where
  "CalcArea1Height t =
     (let layout = t_layouts t ! t_current t;
          buf = ly_bufs layout ! (1 - ly_widx layout)
      in 2 + area1_content (zip (ly_headers layout) (bf_groups buf)) True)"

text \<open>The swap of the double buffer at the start of \<open>RenderArea1\<close>: the index to read, too.\<close>

definition swap_buffers :: "tui_layout \<Rightarrow> nat \<times> tui_layout" where
  "swap_buffers l =
     (let widx = ly_widx l in
      if bf_dirty (ly_bufs l ! widx)
      then (widx, l\<lparr>ly_widx := 1 - widx, ly_bufs := upd_at widx (\<lambda>b. b\<lparr>bf_dirty := False\<rparr>) (ly_bufs l)\<rparr>)
      else (1 - widx, l))"

definition max_cols_fit :: "int \<Rightarrow> nat" where
  "max_cols_fit width =
     (let m = (width - 23) sdiv 12; m = (if m > int TUI_MAX_COLS then int TUI_MAX_COLS else m)
      in if m < 0 then 0 else nat m)"

definition separator :: "int \<Rightarrow> int \<Rightarrow> draw list" where
  "separator cur width = [At cur 1 (FG_CYAN @ TEE_LEFT), Bar (width - 2), App TEE_RIGHT, App RESET]"

definition right_edge :: "int \<Rightarrow> int \<Rightarrow> draw" where
  "right_edge cur width = At cur width (FG_CYAN @ VBAR @ RESET)"

text \<open>The header row and its underline; a header past the columns defined shows a dot.\<close>

definition group_header :: "int \<Rightarrow> int \<Rightarrow> tui_header \<Rightarrow> int \<Rightarrow> draw list \<times> int" where
  "group_header width botRow gh cur =
     (if gh_hideHeader gh then ([], cur)
      else
        let (row, cur) =
              (if cur < botRow then
                 ([At cur 1 (FG_CYAN @ VBAR @ BOLD @ '' '' @ FG_YELLOW @ rpad 20 (cstr (gh_label gh)) @ FG_YELLOW)] @
                  map (\<lambda>c. Put ('' '' @ lpad 11 (if c < gh_ncols gh then cstr (gh_cols gh ! c) else ''.'')))
                    [0..<max_cols_fit width] @
                  [App RESET, App ERASE, right_edge cur width], cur + 1)
               else ([], cur));
            (under, cur) = (if cur < botRow then (separator cur width, cur + 1) else ([], cur))
        in (row @ under, cur))"

definition data_row :: "int \<Rightarrow> tui_row \<Rightarrow> int \<Rightarrow> draw list" where
  "data_row width dr cur =
     [At cur 1 (FG_CYAN @ VBAR @ RESET), Put ('' '' @ FG_WHITE @ rpad 20 (cstr (rw_label dr)) @ RESET), App ERASE] @
     (if rw_textMode dr then
        (if width - 24 > 0
         then [Put ('' '' @ FG_WHITE @ rpad (nat (width - 24)) (take (nat (width - 24)) (cstr (rw_text dr))) @ RESET)]
         else [])
      else map (\<lambda>ci. if ci < rw_ncols dr then Put ('' '' @ FG_WHITE @ lpad 11 (cstr (rw_col dr ! ci)) @ RESET)
                     else Put (replicate 12 CHR '' '')) [0..<max_cols_fit width]) @
     [right_edge cur width]"

fun data_rows :: "int \<Rightarrow> int \<Rightarrow> tui_row list \<Rightarrow> int \<Rightarrow> draw list \<times> int" where
  "data_rows width botRow [] cur = ([], cur)"
| "data_rows width botRow (dr # drs) cur =
     (if \<not> cur < botRow then ([], cur)
      else case data_rows width botRow drs (cur + 1) of (ds, cur') \<Rightarrow> (data_row width dr cur @ ds, cur'))"

fun area1_groups :: "int \<Rightarrow> int \<Rightarrow> (tui_header \<times> tui_group) list \<Rightarrow> int \<Rightarrow> bool \<Rightarrow> draw list \<times> int" where
  "area1_groups width botRow [] cur first = ([], cur)"
| "area1_groups width botRow ((gh, gd) # gs) cur first =
     (if \<not> cur < botRow then ([], cur)
      else if \<not> gh_active gh then area1_groups width botRow gs cur first
      else
        let (sep, cur) = (if \<not> first \<and> cur < botRow then (separator cur width, cur + 1) else ([], cur));
            (hdr, cur) = group_header width botRow gh cur;
            (rows, cur) = data_rows width botRow (take (gr_nrows gd) (gr_rows gd)) cur;
            (rest, cur) = area1_groups width botRow gs cur False
        in (sep @ hdr @ rows @ rest, cur))"

definition blank_row :: "int \<Rightarrow> int \<Rightarrow> draw" where
  "blank_row width cur =
     At cur 1 (FG_CYAN @ VBAR @ RESET @ ERASE @ cursor cur width @ FG_CYAN @ VBAR @ RESET)"

definition area1_title :: "tui_layout \<Rightarrow> char list" where
  "area1_title l = cstr (snprintf_at (replicate 48 NUL) 0 48 (Some (''[ '' @ cstr (ly_name l) @ '' ]'')))"

definition area1_top :: "int \<Rightarrow> int \<Rightarrow> char list \<Rightarrow> draw list" where
  "area1_top startRow width title =
     (let remain = width - 2 - int (Utf8CodePointCount title) in
      [At startRow 1 (BOLD @ FG_CYAN @ TOP_LEFT @ HBAR @ FG_YELLOW @ title @ FG_CYAN @ HBAR),
       Bar (if remain > 0 then remain else 0), App TOP_RIGHT, App RESET])"

definition area1_draw :: "int \<Rightarrow> int \<Rightarrow> int \<Rightarrow> nat \<Rightarrow> tui_layout \<Rightarrow> draw list" where
  "area1_draw startRow height width ridx l =
     (let botRow = startRow + height - 1;
          (groups, cur) = area1_groups width botRow (zip (ly_headers l) (bf_groups (ly_bufs l ! ridx))) (startRow + 1) True
      in area1_top startRow width (area1_title l) @ groups @
         map (blank_row width) [cur..botRow - 1] @
         [At botRow 1 (FG_CYAN @ BOT_LEFT), Bar (width - 2), App BOT_RIGHT, App RESET])"

definition RenderArea1 :: "int \<Rightarrow> int \<Rightarrow> int \<Rightarrow> int \<Rightarrow> tui \<Rightarrow> tui" where
  "RenderArea1 now_ms startRow height width t =
     (if height < 4 then t
      else case swap_buffers (t_layouts t ! t_current t) of
        (ridx, l) \<Rightarrow>
          draw_all now_ms (area1_draw startRow height width ridx l)
            (t\<lparr>t_layouts := (t_layouts t)[t_current t := l]\<rparr>))"

subsection \<open>Area 2\<close>

text \<open>
  \<open>thumb\<close> is the expression \<open>(int)((double)clamped / scrollable * (height - 1))\<close>, whose
  floating-point value is an argument of the model.
\<close>

definition RenderScrollbar :: "(nat \<Rightarrow> nat \<Rightarrow> int \<Rightarrow> int) \<Rightarrow> int \<Rightarrow> int \<Rightarrow> int \<Rightarrow> nat \<Rightarrow> nat \<Rightarrow> nat \<Rightarrow> draw list" where
  "RenderScrollbar thumb startRow height col tot visible offset =
     (if tot \<le> visible then []
      else
        let scrollable = tot - visible;
            clamped = (if offset < scrollable then offset else scrollable);
            thumb_row = height - 1 - thumb clamped scrollable (height - 1)
        in map (\<lambda>r. At (startRow + r) col (FG_GRAY @ (if r = thumb_row then BLOCK else '' '') @ RESET)) [0..height - 1])"

text \<open>The part of the history shown: its first index and the number of lines.\<close>

definition area2_window :: "nat \<Rightarrow> tui \<Rightarrow> nat \<times> nat \<times> nat" where
  "area2_window visibleH t =
     (let total_n = t_logCount t;
          maxOffset = (if total_n > visibleH then total_n - visibleH else 0);
          offset = (if t_scroll t > maxOffset then maxOffset else t_scroll t);
          endIdx = total_n - offset;
          startIdx = (if endIdx > visibleH then endIdx - visibleH else 0)
      in (startIdx, endIdx - startIdx, offset))"

definition shown_entry :: "tui \<Rightarrow> nat \<Rightarrow> Entry" where
  "shown_entry t i = t_history t ! ((t_logHead t + i) mod LOG_KEEP)"

definition area2_line :: "int \<Rightarrow> int \<Rightarrow> char list option \<Rightarrow> draw list" where
  "area2_line screen_row width m =
     [At screen_row 1 (FG_CYAN @ VBAR @ RESET), App ERASE] @
     (case m of None \<Rightarrow> [] | Some s \<Rightarrow> [Put ('' '' @ prec (width - 4) s)]) @
     [App RESET, right_edge screen_row width]"

definition log_title :: "bool \<Rightarrow> char list" where
  "log_title auto =
     (if auto then HBAR @ ''[ LOG : AUTO SCROLL ]'' @ HBAR else HBAR @ ''[ LOG : PAUSED      ]'' @ HBAR)"

definition HINT :: "char list" where
  "HINT = '' '' @ utf8 [0xE2, 0x86, 0x91, 0xE2, 0x86, 0x93] @ '':Line  PgUp/PgDn:Page ''"

definition area2_draw :: "(nat \<Rightarrow> nat \<Rightarrow> int \<Rightarrow> int) \<Rightarrow> int \<Rightarrow> int \<Rightarrow> int \<Rightarrow> tui \<Rightarrow> draw list" where
  "area2_draw thumb startRow height width t =
     (if height < 3 then []
      else
        let visibleH = nat (height - 2);
            (startIdx, linesToShow, offset) = area2_window visibleH t;
            title = log_title (t_autoScroll t);
            botRow = startRow + height - 1
        in [At startRow 1 (BOLD @ FG_CYAN @ TOP_LEFT @ (if t_autoScroll t then FG_CYAN else FG_YELLOW) @ title @ FG_CYAN),
            Bar (width - 2 - int (Utf8CodePointCount title)), At startRow width (TOP_RIGHT @ RESET)] @
           concat (map (\<lambda>r. area2_line (startRow + 1 + int r) width
                              (if r < linesToShow then Some (cstr (msg (shown_entry t (startIdx + r)))) else None))
                     [0..<visibleH]) @
           RenderScrollbar thumb (startRow + 1) (int visibleH) (width - 1) (t_logCount t) visibleH offset @
           [At botRow 1 (FG_CYAN @ BOT_LEFT), Bar (width - 2),
            At botRow (max 2 (width - 1 - int (Utf8CodePointCount HINT))) (FG_GRAY @ HINT),
            At botRow (width - 1) (FG_CYAN @ HBAR @ BOT_RIGHT @ RESET)])"

definition RenderArea2 :: "(nat \<Rightarrow> nat \<Rightarrow> int \<Rightarrow> int) \<Rightarrow> int \<Rightarrow> int \<Rightarrow> int \<Rightarrow> int \<Rightarrow> tui \<Rightarrow> tui" where
  "RenderArea2 thumb now_ms startRow height width t = draw_all now_ms (area2_draw thumb startRow height width t) t"

subsection \<open>The last line and the frame\<close>

text \<open>
  The loop of \<open>RenderCmdLine\<close> over the layouts: \<open>sw_pos\<close> grows by what \<open>snprintf\<close> returns.
\<close>

fun switcher_loop :: "nat \<Rightarrow> nat \<Rightarrow> tui_layout list \<Rightarrow> nat \<Rightarrow> char list \<Rightarrow> char list" where
  "switcher_loop curLayout i [] sw_pos switcher = switcher"
| "switcher_loop curLayout i (l # ls) sw_pos switcher =
     (if \<not> sw_pos < 256 - 20 then switcher
      else if \<not> ly_defined l then switcher_loop curLayout (i + 1) ls sw_pos switcher
      else
        let short_name = take 8 (cstr (ly_name l));
            s = (if i = curLayout then ''['' @ nat_str (i + 1) @ '':'' @ short_name @ ''] ''
                 else '' '' @ nat_str (i + 1) @ '':'' @ rpad 8 short_name @ '' '')
        in switcher_loop curLayout (i + 1) ls (sw_pos + length s)
             (snprintf_at switcher sw_pos (256 - sw_pos) (Some s)))"

definition hex2 :: "char \<Rightarrow> char list" where
  "hex2 c = (let n = (of_char c :: nat); h = (\<lambda>d. if d < 10 then digit_char d else char_of (55 + d :: nat))
             in [h (n div 16), h (n mod 16)])"

definition key_str :: "char \<Rightarrow> char list" where
  "key_str k =
     (if k = NUL then ''(none)''
      else if 0x20 \<le> (of_char k :: nat) \<and> (of_char k :: nat) < 0x7f then [CHR 0x27, k, CHR 0x27]
      else ''0x'' @ hex2 k)"

definition cmd_line :: "int \<Rightarrow> tui \<Rightarrow> draw" where
  "cmd_line row t =
     At row 1 (FG_GRAY @ '' LAYOUTS: '' @ FG_MAGENTA @
       cstr (switcher_loop (t_current t) 0 (t_layouts t) 0 (replicate 256 NUL)) @ RESET @
       ''  CMD: '' @ FG_WHITE @ rpad 10 (key_str (t_lastKey t)) @ RESET @ ERASE)"

definition RenderCmdLine :: "int \<Rightarrow> int \<Rightarrow> tui \<Rightarrow> tui" where
  "RenderCmdLine now_ms row t = draw_all now_ms [cmd_line row t] t"

text \<open>
  \<open>Tick\<close>. \<open>kbuf\<close> is what \<open>read\<close> returned (nothing on an error), \<open>ws\<close> the window size.
\<close>

definition area_heights :: "int \<Rightarrow> int \<Rightarrow> int \<times> int" where
  "area_heights rows needed =
     (let area1_h = max 4 (min needed (rows - 1 - AREA2_MIN_ROWS)) in (area1_h, rows - area1_h - 1))"

definition clear_if_changed :: "int \<Rightarrow> tui \<Rightarrow> tui" where
  "clear_if_changed now_ms t =
     (let force_clear = t_changed t; t = t\<lparr>t_changed := False\<rparr> in
      if t_rows t \<noteq> t_prevRows t \<or> t_cols t \<noteq> t_prevCols t \<or> force_clear
      then (FlushOutput now_ms (AppendData now_ms CLEAR_SCREEN t))\<lparr>t_prevRows := t_rows t, t_prevCols := t_cols t\<rparr>
      else t)"

definition render_frame :: "(nat \<Rightarrow> nat \<Rightarrow> int \<Rightarrow> int) \<Rightarrow> int \<Rightarrow> int \<Rightarrow> tui \<Rightarrow> tui" where
  "render_frame thumb now_ms needed t =
     (let rows = t_rows t; cols = t_cols t; (area1_h, area2_h) = area_heights rows needed;
          t = clear_if_changed now_ms t;
          t = (FlushOutput now_ms t)\<lparr>t_out := []\<rparr>;
          t = RenderArea1 now_ms 1 area1_h cols t;
          t = RenderArea2 thumb now_ms (area1_h + 1) area2_h cols t;
          t = RenderCmdLine now_ms rows t
      in FlushOutput now_ms t)"

definition Tick ::
    "(nat \<Rightarrow> nat \<Rightarrow> int \<Rightarrow> int) \<Rightarrow> int \<Rightarrow> char list \<Rightarrow> (int \<times> int) option \<Rightarrow> tui \<Rightarrow> tui option" where
  "Tick thumb now_ms kbuf ws t =
     (if \<not> t_running t then Some t
      else map_option (\<lambda>t.
             let t = TermGetSize ws (handle_keys kbuf t)
             in render_frame thumb now_ms (CalcArea1Height t) t)
           (drain_log t))"

section \<open>From the logger\<close>

text \<open>
  \<open>TuiSinkT::sink_it_\<close>: the array \<open>tmp\<close> is the list of its first \<open>pos\<close> bytes. "%s" stops at a
  NUL, and so does "%.*s".
\<close>

definition safe_copy :: "char list \<Rightarrow> char list \<Rightarrow> char list" where
  "safe_copy src tmp = tmp @ take (min (length src) (1024 - 1 - length tmp)) src"

definition TuiSink_sink_it :: "Entry \<Rightarrow> formatted \<Rightarrow> LogLevel \<Rightarrow> tui option \<Rightarrow> tui option option" where
  "TuiSink_sink_it junk f lvl m_tui =
     (case m_tui of
        None \<Rightarrow> Some None
      | Some t \<Rightarrow>
          let buf = ftext f;
              sz = (if buf \<noteq> [] \<and> last buf = NL then length buf - 1 else length buf);
              color = SinkColorFor lvl;
              cs = color_start f; ce = color_end f
          in map_option Some
              (if color \<noteq> [] \<and> ce > cs \<and> ce \<le> sz then
                 let tmp = safe_copy (take cs buf) [];
                     tmp = safe_copy color tmp;
                     tmp = safe_copy (take (ce - cs) (drop cs buf)) tmp;
                     tmp = safe_copy (ESC # ''[m'') tmp;
                     tmp = safe_copy (take (sz - ce) (drop ce buf)) tmp
                 in LogV junk lvl (Some (cstr tmp)) t
               else LogV junk lvl (Some (cstr (take sz buf))) t))"

text \<open>The wrappers of \<open>RtLog\<close> do nothing when there is no terminal interface.\<close>

definition TuiSetRow :: "int \<Rightarrow> int \<Rightarrow> int \<Rightarrow> char list \<Rightarrow> (col_arg \<Rightarrow> char list option) \<Rightarrow> col_arg list \<Rightarrow> tui option \<Rightarrow> tui option" where
  "TuiSetRow l g r label fmt args = map_option (SetRowFmt l g r label fmt args)"

definition TuiSetRowCols :: "int \<Rightarrow> int \<Rightarrow> int \<Rightarrow> char list \<Rightarrow> char list option list \<Rightarrow> tui option \<Rightarrow> tui option" where
  "TuiSetRowCols l g r label cols = map_option (SetRowCols l g r label cols)"

definition TuiSetGroup :: "int \<Rightarrow> int \<Rightarrow> char list \<Rightarrow> char list option list \<Rightarrow> tui option \<Rightarrow> tui option" where
  "TuiSetGroup l g label hdrs = map_option (SetGroupV l g label hdrs)"

definition TuiSetGroupNoHeader :: "int \<Rightarrow> int \<Rightarrow> tui option \<Rightarrow> tui option" where
  "TuiSetGroupNoHeader l g = map_option (SetGroupNoHeader l g)"

definition TuiSetTextRow :: "int \<Rightarrow> int \<Rightarrow> int \<Rightarrow> char list \<Rightarrow> char list \<Rightarrow> tui option \<Rightarrow> tui option" where
  "TuiSetTextRow l g r label s = map_option (SetTextRow l g r label s)"

definition TuiSetTextRowFmt ::
    "char list \<Rightarrow> int \<Rightarrow> int \<Rightarrow> int \<Rightarrow> char list \<Rightarrow> char list option \<Rightarrow> tui option \<Rightarrow> tui option" where
  "TuiSetTextRowFmt junk l g r label rtext m_tui =
     (case m_tui of
        None \<Rightarrow> None
      | Some t \<Rightarrow> Some (SetTextRow l g r label (cstr (snprintf_at junk 0 TUI_TEXT_ROW_LEN rtext)) t))"

definition TuiSetLayoutName :: "int \<Rightarrow> char list option \<Rightarrow> tui option \<Rightarrow> tui option" where
  "TuiSetLayoutName l name = map_option (SetLayoutName l name)"

definition GetPendingKey :: "tui option \<Rightarrow> char \<times> tui option" where
  "GetPendingKey m_tui =
     (case m_tui of None \<Rightarrow> (NUL, None) | Some t \<Rightarrow> (case PopPendingKey t of (k, t) \<Rightarrow> (k, Some t)))"

end
