(* ===== verification/TuiProps.thy ===== *)
theory TuiProps
  imports RtTui
begin

text \<open>
  What the terminal interface promises: well-formed data whatever is called, a history of the
  last 2000 messages and a window into it that is always full, a frame that covers the
  screen, keys that go round the layouts; and three behaviours at the edges.
\<close>

section \<open>Well-formed data\<close>

definition text_ok :: "nat \<Rightarrow> char list \<Rightarrow> bool" where
  "text_ok n s \<longleftrightarrow> length s = n \<and> NUL \<in> set s"

definition row_wf :: "tui_row \<Rightarrow> bool" where
  "row_wf r \<longleftrightarrow> text_ok 24 (rw_label r) \<and> length (rw_col r) = 10 \<and> (\<forall>c \<in> set (rw_col r). text_ok 24 c) \<and>
     rw_ncols r \<le> 10 \<and> text_ok 200 (rw_text r)"

definition group_wf :: "tui_group \<Rightarrow> bool" where
  "group_wf g \<longleftrightarrow> length (gr_rows g) = 20 \<and> (\<forall>r \<in> set (gr_rows g). row_wf r) \<and> gr_nrows g \<le> 20"

definition data_wf :: "tui_data \<Rightarrow> bool" where
  "data_wf b \<longleftrightarrow> length (bf_groups b) = 10 \<and> (\<forall>g \<in> set (bf_groups b). group_wf g)"

definition header_wf :: "tui_header \<Rightarrow> bool" where
  "header_wf h \<longleftrightarrow> text_ok 24 (gh_label h) \<and> length (gh_cols h) = 10 \<and> (\<forall>c \<in> set (gh_cols h). text_ok 24 c) \<and>
     gh_ncols h \<le> 10"

definition layout_wf :: "tui_layout \<Rightarrow> bool" where
  "layout_wf l \<longleftrightarrow> text_ok 32 (ly_name l) \<and> length (ly_headers l) = 10 \<and> (\<forall>h \<in> set (ly_headers l). header_wf h) \<and>
     length (ly_bufs l) = 2 \<and> (\<forall>b \<in> set (ly_bufs l). data_wf b) \<and> ly_widx l < 2"

definition tui_wf :: "tui \<Rightarrow> bool" where
  "tui_wf t \<longleftrightarrow> length (t_layouts t) = 9 \<and> (\<forall>l \<in> set (t_layouts t). layout_wf l) \<and> t_current t < 9"

named_theorems wf_intros \<open>preservation of well-formed data\<close>

lemma upd_at_length [simp]: "length (upd_at i f xs) = length xs"
  by (simp add: upd_at_def)

lemma upd_at_all:
  assumes "\<forall>x \<in> set xs. P x" and "\<And>x. P x \<Longrightarrow> P (f x)"
  shows "\<forall>x \<in> set (upd_at i f xs). P x"
proof (cases "i < length xs")
  case True
  then have "P (f (xs ! i))" using assms by simp
  then show ?thesis
    using assms(1) set_update_subset_insert [of xs i "f (xs ! i)"] by (auto simp: upd_at_def)
next
  case False
  then show ?thesis using assms(1) by (simp add: upd_at_def list_update_beyond)
qed

lemma text_ok_strncpy [wf_intros]:
  assumes "text_ok n s" and "0 < n"
  shows "text_ok n (strncpy_term s c n)"
proof -
  have "NUL \<in> set ((strncpy s c (n - 1))[n - 1 := NUL])"
    using assms by (intro set_update_memI) (simp add: text_ok_def)
  then show ?thesis using assms by (simp add: text_ok_def strncpy_term_def)
qed

lemma text_ok_clear [wf_intros]: "text_ok n s \<Longrightarrow> 0 < n \<Longrightarrow> text_ok n (s[0 := NUL])"
  by (simp add: text_ok_def set_update_memI)

lemma put_cell_ok [wf_intros]: "text_ok 24 c \<Longrightarrow> text_ok 24 (put_cell s c)"
  by (cases s) (simp_all add: put_cell_def text_ok_strncpy text_ok_clear TUI_DATA_COL_LEN_def)

lemma put_cells_ok [wf_intros]:
  "\<forall>c \<in> set cells. text_ok 24 c \<Longrightarrow> \<forall>c \<in> set (put_cells n cols cells). text_ok 24 c"
proof (induction n)
  case (Suc n)
  then have "\<forall>c \<in> set (put_cells n cols cells). text_ok 24 c" by blast
  then show ?case unfolding put_cells.simps by (rule upd_at_all) (rule put_cell_ok)
qed simp

lemma put_cells_length [simp]: "length (put_cells n cols cells) = length cells"
  by (induction n) simp_all

lemma clear_cells_ok [wf_intros]:
  "\<forall>c \<in> set cells. text_ok 24 c \<Longrightarrow> \<forall>c \<in> set (clear_cells n cells). text_ok 24 c"
  by (induction n cells rule: clear_cells.induct) (simp_all add: text_ok_clear)

lemma clear_cells_length [simp]: "length (clear_cells n cells) = length cells"
  by (induction n cells rule: clear_cells.induct) simp_all

lemma upd_layout_wf:
  assumes "tui_wf t" and "\<And>l. layout_wf l \<Longrightarrow> layout_wf (f l)"
  shows "tui_wf (upd_layout i f t)"
  using assms(1) upd_at_all [of "t_layouts t" layout_wf f "nat i", OF _ assms(2)]
  by (simp add: tui_wf_def upd_layout_def)

lemma SetLayoutName_wf [wf_intros]: "tui_wf t \<Longrightarrow> tui_wf (SetLayoutName i n t)"
  by (auto simp: SetLayoutName_def layout_wf_def intro!: upd_layout_wf text_ok_strncpy split: option.splits)

lemma upd_header_wf:
  assumes "tui_wf t" and "\<And>h. header_wf h \<Longrightarrow> header_wf (f h)"
  shows "tui_wf (upd_layout i (\<lambda>l. l\<lparr>ly_headers := upd_at g f (ly_headers l), ly_defined := True\<rparr>) t)"
proof (rule upd_layout_wf [OF assms(1)])
  fix l assume "layout_wf l"
  moreover have "\<forall>h \<in> set (upd_at g f (ly_headers l)). header_wf h"
    using upd_at_all [of "ly_headers l" header_wf f g, OF _ assms(2)] \<open>layout_wf l\<close> by (simp add: layout_wf_def)
  ultimately show "layout_wf (l\<lparr>ly_headers := upd_at g f (ly_headers l), ly_defined := True\<rparr>)"
    by (simp add: layout_wf_def)
qed

lemma SetGroup_wf [wf_intros]:
  assumes "tui_wf t"
  shows "tui_wf (SetGroup i g lbl hdrs t)"
proof -
  define n where "n = (if length hdrs > TUI_MAX_COLS then TUI_MAX_COLS else length hdrs)"
  have n: "n \<le> 10" by (simp add: n_def TUI_MAX_COLS_def)
  have "header_wf (h\<lparr>gh_label := strncpy_term (gh_label h) lbl TUI_DATA_COL_LEN, gh_ncols := n,
      gh_cols := put_cells n hdrs (gh_cols h), gh_active := True\<rparr>)" if "header_wf h" for h
    using that n put_cells_ok [of "gh_cols h" n hdrs] text_ok_strncpy [of 24 "gh_label h" lbl]
    by (simp add: header_wf_def TUI_DATA_COL_LEN_def)
  from upd_header_wf [OF assms this] show ?thesis
    using assms by (simp add: SetGroup_def Let_def n_def [symmetric])
qed

lemma SetGroupNoHeader_wf [wf_intros]: "tui_wf t \<Longrightarrow> tui_wf (SetGroupNoHeader i g t)"
  unfolding SetGroupNoHeader_def Let_def
  by (auto simp: header_wf_def intro!: upd_header_wf text_ok_clear)

lemma upd_row_wf:
  assumes "tui_wf t" and "row_ok r" and "\<And>x. row_wf x \<Longrightarrow> row_wf (f x)"
  shows "tui_wf (upd_row i g r f t)"
  unfolding upd_row_def
proof (rule upd_layout_wf [OF assms(1)])
  fix l assume l: "layout_wf l"
  have n: "nat (r + 1) \<le> 20" using assms(2) by (simp add: row_ok_def TUI_MAX_ROWS_PER_GROUP_def nat_le_iff)
  let ?G = "\<lambda>x. x\<lparr>gr_rows := upd_at (nat r) f (gr_rows x), gr_nrows := max (gr_nrows x) (nat (r + 1))\<rparr>"
  let ?D = "\<lambda>b. b\<lparr>bf_groups := upd_at (nat g) ?G (bf_groups b), bf_dirty := True\<rparr>"
  have grp: "group_wf (?G x)" if "group_wf x" for x
    using that upd_at_all [of "gr_rows x" row_wf f "nat r", OF _ assms(3)] n by (simp add: group_wf_def)
  have dat: "data_wf (?D b)" if "data_wf b" for b
    using that upd_at_all [of "bf_groups b" group_wf ?G "nat g", OF _ grp] by (simp add: data_wf_def)
  show "layout_wf (l\<lparr>ly_bufs := upd_at (ly_widx l) (\<lambda>b. b\<lparr>bf_groups := upd_at (nat g)
      (\<lambda>x. x\<lparr>gr_rows := upd_at (nat r) f (gr_rows x), gr_nrows := max (gr_nrows x) (nat (r + 1))\<rparr>) (bf_groups b),
      bf_dirty := True\<rparr>) (ly_bufs l), ly_defined := True\<rparr>)"
    using l upd_at_all [of "ly_bufs l" data_wf ?D "ly_widx l", OF _ dat] by (simp add: layout_wf_def)
qed

lemma SetRowData_wf [wf_intros]:
  assumes "tui_wf t"
  shows "tui_wf (SetRowData i g r lbl cols t)"
proof (cases "row_ok r")
  case True
  define n where "n = (if length cols > TUI_MAX_COLS then TUI_MAX_COLS else length cols)"
  have n: "n \<le> 10" by (simp add: n_def TUI_MAX_COLS_def)
  have "row_wf (x\<lparr>rw_label := strncpy_term (rw_label x) lbl TUI_DATA_COL_LEN, rw_ncols := n,
      rw_textMode := False, rw_col := clear_cells n (put_cells n cols (rw_col x))\<rparr>)" if "row_wf x" for x
    using that n clear_cells_ok [OF put_cells_ok, of "rw_col x" n n cols] text_ok_strncpy [of 24 "rw_label x" lbl]
    by (simp add: row_wf_def TUI_DATA_COL_LEN_def)
  from upd_row_wf [OF assms True this] show ?thesis
    using assms by (simp add: SetRowData_def Let_def n_def [symmetric])
qed (use assms in \<open>simp add: SetRowData_def\<close>)

lemma SetTextRow_wf [wf_intros]: "tui_wf t \<Longrightarrow> tui_wf (SetTextRow i g r lbl s t)"
  unfolding SetTextRow_def
  by (auto simp: row_wf_def TUI_DATA_COL_LEN_def TUI_TEXT_ROW_LEN_def intro!: upd_row_wf text_ok_strncpy)

text \<open>
  The columns \<open>SetRowFmt\<close> makes: one for each of the first ten values, what the format renders
  it to cut to 23 characters, a question mark for a value of another type.
\<close>

definition column_text :: "(col_arg \<Rightarrow> char list option) \<Rightarrow> col_arg \<Rightarrow> char list option" where
  "column_text fmt v = (if v = Arg_other then Some ''?'' else fmt v)"

lemma FormatColumn_text: "FormatColumn fmt v buf = snprintf_at buf 0 TUI_DATA_COL_LEN (column_text fmt v)"
  by (cases v) (simp_all add: FormatColumn_def column_text_def)

lemma FormatColumnsRecursive_length [simp]: "length (FormatColumnsRecursive fmt i args cols) = length cols"
  by (induction fmt i args cols rule: FormatColumnsRecursive.induct) simp_all

lemma FormatColumnsRecursive_nth:
  "length cols = TUI_MAX_COLS \<Longrightarrow> j < TUI_MAX_COLS \<Longrightarrow>
     FormatColumnsRecursive fmt i args cols ! j =
       (if i \<le> j \<and> j < i + length args then FormatColumn fmt (args ! (j - i)) (cols ! j) else cols ! j)"
proof (induction fmt i args cols rule: FormatColumnsRecursive.induct)
  case (2 fmt i v args cols)
  show ?case
  proof (cases "TUI_MAX_COLS \<le> i")
    case True
    then show ?thesis using "2.prems" by simp
  next
    case False
    let ?cols = "cols[i := FormatColumn fmt v (cols ! i)]"
    have IH: "FormatColumnsRecursive fmt (i + 1) args ?cols ! j =
        (if i + 1 \<le> j \<and> j < i + 1 + length args then FormatColumn fmt (args ! (j - (i + 1))) (?cols ! j) else ?cols ! j)"
      using "2.IH" [OF False] "2.prems" by simp
    have step: "FormatColumnsRecursive fmt i (v # args) cols = FormatColumnsRecursive fmt (i + 1) args ?cols" using False by simp
    consider "j < i" | "j = i" | k where "j = Suc (i + k)" by (metis less_imp_Suc_add linorder_neqE_nat)
    then show ?thesis unfolding step IH using False "2.prems" by cases auto
  qed
qed auto

lemma SetRowFmt_columns:
  "map cstr (take (length args) (FormatColumnsRecursive fmt 0 args (replicate TUI_MAX_COLS (replicate TUI_DATA_COL_LEN NUL)))) =
     map (fmt_cell \<circ> column_text fmt) (take TUI_MAX_COLS args)"
proof (rule nth_equalityI)
  let ?cols = "FormatColumnsRecursive fmt 0 args (replicate TUI_MAX_COLS (replicate TUI_DATA_COL_LEN NUL))"
  fix j assume "j < length (map cstr (take (length args) ?cols))"
  then have j: "j < length args" "j < TUI_MAX_COLS" by simp_all
  then have "?cols ! j = FormatColumn fmt (args ! j) (replicate TUI_DATA_COL_LEN NUL)"
    by (simp add: FormatColumnsRecursive_nth)
  then show "map cstr (take (length args) ?cols) ! j = map (fmt_cell \<circ> column_text fmt) (take TUI_MAX_COLS args) ! j"
    using j by (simp add: FormatColumn_text fmt_cell_def)
qed simp

section \<open>Output leaves the screen's state alone\<close>

definition screen :: "tui \<Rightarrow> tui" where
  "screen t = t\<lparr>t_out := [], t_dev := \<lparr>answers = [], sent = [], errno = EOK\<rparr>, t_polls := [], t_errTime := 0, t_errs := []\<rparr>"

lemma screen_FlushOutput [simp]: "screen (FlushOutput now t) = screen t"
  by (simp add: FlushOutput_def screen_def Let_def split: prod.splits)

lemma screen_out [simp]: "screen (t\<lparr>t_out := s\<rparr>) = screen t"
  by (simp add: screen_def)

lemma screen_AppendData [simp]: "screen (AppendData now s t) = screen t"
  by (simp add: AppendData_def Let_def)

lemma screen_hbar [simp]: "screen (AppendData_hbar now n t) = screen t"
proof -
  have "screen ((AppendData now HBAR ^^ k) t) = screen t" for k
    by (induction k) simp_all
  then show ?thesis by (simp add: AppendData_hbar_def)
qed

lemma screen_SafeSnprintf [simp]: "screen (SafeSnprintf s t) = screen t"
  by (simp add: SafeSnprintf_def Let_def)

lemma screen_draw_one [simp]: "screen (draw_one now d t) = screen t"
  by (cases d) simp_all

lemma screen_draw_all [simp]: "screen (draw_all now ds t) = screen t"
proof -
  have "screen (fold (draw_one now) ds t) = screen t"
    by (induction ds arbitrary: t) simp_all
  then show ?thesis by (simp add: draw_all_def)
qed

text \<open>Every field the drawing functions read is a field of \<open>screen\<close>.\<close>

lemma screen_fields:
  assumes "screen t = screen t'"
  shows "t_layouts t = t_layouts t'" "t_current t = t_current t'" "t_history t = t_history t'"
    "t_logCount t = t_logCount t'" "t_logHead t = t_logHead t'" "t_scroll t = t_scroll t'"
    "t_autoScroll t = t_autoScroll t'" "t_lastKey t = t_lastKey t'" "t_queue t = t_queue t'"
    "t_rows t = t_rows t'" "t_cols t = t_cols t'" "t_running t = t_running t'"
proof -
  have "t_layouts (screen t) = t_layouts (screen t')" "t_current (screen t) = t_current (screen t')"
    "t_history (screen t) = t_history (screen t')" "t_logCount (screen t) = t_logCount (screen t')"
    "t_logHead (screen t) = t_logHead (screen t')" "t_scroll (screen t) = t_scroll (screen t')"
    "t_autoScroll (screen t) = t_autoScroll (screen t')" "t_lastKey (screen t) = t_lastKey (screen t')"
    "t_queue (screen t) = t_queue (screen t')" "t_rows (screen t) = t_rows (screen t')"
    "t_cols (screen t) = t_cols (screen t')" "t_running (screen t) = t_running (screen t')"
    using assms by simp_all
  then show "t_layouts t = t_layouts t'" "t_current t = t_current t'" "t_history t = t_history t'"
    "t_logCount t = t_logCount t'" "t_logHead t = t_logHead t'" "t_scroll t = t_scroll t'"
    "t_autoScroll t = t_autoScroll t'" "t_lastKey t = t_lastKey t'" "t_queue t = t_queue t'"
    "t_rows t = t_rows t'" "t_cols t = t_cols t'" "t_running t = t_running t'"
    by (simp_all add: screen_def)
qed

section \<open>The history of messages\<close>

definition hist :: "tui \<Rightarrow> Entry list" where
  "hist t = map (shown_entry t) [0..<t_logCount t]"

definition hist_ok :: "tui \<Rightarrow> bool" where
  "hist_ok t \<longleftrightarrow> length (t_history t) = 2000 \<and> t_logCount t \<le> 2000 \<and> t_logHead t < 2000 \<and>
     (t_logCount t < 2000 \<longrightarrow> t_logHead t = 0)"

lemma hist_length [simp]: "length (hist t) = t_logCount t"
  by (simp add: hist_def)

lemma lastn_snoc:
  "length xs \<le> n \<Longrightarrow> 0 < n \<Longrightarrow> lastn n (xs @ [x]) = (if length xs < n then xs @ [x] else tl xs @ [x])"
  by (cases xs) (auto simp: lastn_def)

lemma keep_entry_hist:
  assumes "hist_ok t"
  shows "hist (keep_entry e t) = lastn 2000 (hist t @ [e])" and "hist_ok (keep_entry e t)"
    and "t_autoScroll (keep_entry e t) = t_autoScroll t"
    and "t_scroll (keep_entry e t) = (if t_autoScroll t then 0 else t_scroll t + 1)"
proof -
  note h = assms [unfolded hist_ok_def]
  show "hist_ok (keep_entry e t)"
    using h by (auto simp: keep_entry_def hist_ok_def LOG_KEEP_def Let_def)
  show "t_autoScroll (keep_entry e t) = t_autoScroll t"
    "t_scroll (keep_entry e t) = (if t_autoScroll t then 0 else t_scroll t + 1)"
    by (simp_all add: keep_entry_def Let_def)
  show "hist (keep_entry e t) = lastn 2000 (hist t @ [e])"
  proof (cases "t_logCount t < 2000")
    case True
    then have head: "t_logHead t = 0" using h by simp
    have k: "shown_entry (keep_entry e t) i = (if i = t_logCount t then e else shown_entry t i)"
      if "i \<le> t_logCount t" for i
      using that True head h
      by (auto simp: shown_entry_def keep_entry_def LOG_KEEP_def Let_def)
    have c: "t_logCount (keep_entry e t) = Suc (t_logCount t)"
      using True by (simp add: keep_entry_def LOG_KEEP_def Let_def)
    have "hist (keep_entry e t) = hist t @ [e]"
      by (rule nth_equalityI) (auto simp: c hist_def k nth_append less_Suc_eq simp del: upt_Suc)
    then show ?thesis using True by (simp add: lastn_snoc)
  next
    case False
    then have c: "t_logCount t = 2000" using h by simp
    have c': "t_logCount (keep_entry e t) = 2000"
      using c by (simp add: keep_entry_def LOG_KEEP_def Let_def)
    have k: "shown_entry (keep_entry e t) i = (if i = 1999 then e else shown_entry t (Suc i))" if "i < 2000" for i
    proof -
      have idx: "((t_logHead t + 1) mod 2000 + i) mod 2000 = (t_logHead t + Suc i) mod 2000"
        by (simp add: mod_simps)
      have "shown_entry (keep_entry e t) i
          = (t_history t)[t_logHead t := e] ! (((t_logHead t + 1) mod 2000 + i) mod 2000)"
        using c by (simp add: shown_entry_def keep_entry_def LOG_KEEP_def Let_def)
      then have s: "shown_entry (keep_entry e t) i
          = (t_history t)[t_logHead t := e] ! ((t_logHead t + Suc i) mod 2000)"
        unfolding idx .
      have at: "(t_logHead t + Suc i) mod 2000 = t_logHead t \<longleftrightarrow> i = 1999"
      proof
        assume "i = 1999"
        then show "(t_logHead t + Suc i) mod 2000 = t_logHead t" using h by simp
      next
        assume "(t_logHead t + Suc i) mod 2000 = t_logHead t"
        then have "(t_logHead t + Suc i) mod 2000 = (t_logHead t + 2000) mod 2000" using h by simp
        then show "i = 1999"
          using that window_mod_inj [of "t_logHead t + Suc i" 2000 "t_logHead t + 2000" "t_logHead t + 1"] by simp
      qed
      show ?thesis
      proof (cases "i = 1999")
        case True
        then have "(t_logHead t + Suc i) mod 2000 = t_logHead t" using at by blast
        then show ?thesis unfolding s using True h by simp
      next
        case False
        then have "(t_logHead t + Suc i) mod 2000 \<noteq> t_logHead t" using at by blast
        then show ?thesis unfolding s using False by (simp add: shown_entry_def LOG_KEEP_def del: add_Suc_right)
      qed
    qed
    have tl: "tl (hist t) ! i = shown_entry t (Suc i)" if "i < 1999" for i
      using that c by (simp add: hist_def nth_tl)
    have "hist (keep_entry e t) = tl (hist t) @ [e]"
    proof (rule nth_equalityI)
      fix i assume "i < length (hist (keep_entry e t))"
      then have i: "i < 2000" by (simp add: c')
      show "hist (keep_entry e t) ! i = (tl (hist t) @ [e]) ! i"
        using i k [OF i] tl [of i] by (auto simp: hist_def c' nth_append c)
    qed (simp add: c c')
    then show ?thesis using c by (simp add: lastn_snoc)
  qed
qed

lemma lastn_append_lastn: "lastn n (lastn n xs @ ys) = lastn n (xs @ ys)"
  by (cases "length xs \<le> n") (simp_all add: lastn_def add.commute)

lemma fold_keep_entry:
  "hist_ok t \<Longrightarrow> hist (fold keep_entry es t) = lastn 2000 (hist t @ es) \<and> hist_ok (fold keep_entry es t) \<and>
     t_autoScroll (fold keep_entry es t) = t_autoScroll t \<and>
     t_scroll (fold keep_entry es t) = (if es = [] then t_scroll t else if t_autoScroll t then 0
                                        else t_scroll t + length es)"
proof (induction es arbitrary: t)
  case Nil
  then show ?case by (simp add: lastn_def hist_ok_def)
next
  case (Cons e es)
  note k = keep_entry_hist [OF Cons.prems]
  have "lastn 2000 (lastn 2000 (hist t @ [e]) @ es) = lastn 2000 (hist t @ e # es)"
    by (simp add: lastn_append_lastn)
  then show ?case using Cons.IH [OF k(2), of] k by simp
qed

lemma drain_log_spec:
  assumes "hist_ok t" and "queue_holds 10 (t_queue t) es"
  obtains t' where "drain_log t = Some t'" "hist t' = lastn 2000 (hist t @ es)" "hist_ok t'"
    "queue_holds 10 (t_queue t') []" "t_autoScroll t' = t_autoScroll t"
    "t_scroll t' = (if es = [] then t_scroll t else if t_autoScroll t then 0 else t_scroll t + length es)"
proof -
  obtain q where q: "drain (TryPop QUEUE_CAPACITY) keep_entry (t_queue t) t 0
      = Some (q, fold keep_entry es t, 0 + length es)" "queue_holds 10 q []"
    using rtq.drain_returns [OF assms(2), of keep_entry t 0] by blast
  let ?t = "(fold keep_entry es t)\<lparr>t_queue := q\<rparr>"
  have "hist ?t = hist (fold keep_entry es t)" by (simp add: hist_def shown_entry_def)
  then show ?thesis
    using that [of ?t] fold_keep_entry [OF assms(1), of es] q by (simp add: drain_log_def hist_ok_def)
qed

definition visible :: "nat \<Rightarrow> tui \<Rightarrow> Entry list" where
  "visible v t = (case area2_window v t of
     (startIdx, lines, offset) \<Rightarrow> map (\<lambda>r. shown_entry t (startIdx + r)) [0..<lines])"

lemma visible_eq:
  "visible v t = lastn v (take (t_logCount t - min (t_scroll t) (t_logCount t - v)) (hist t))"
proof -
  define n where "n = t_logCount t"
  define off where "off = min (t_scroll t) (n - v)"
  have w: "area2_window v t = (n - off - v, min v (n - off), off)"
    by (auto simp: area2_window_def Let_def n_def [symmetric] off_def min_def)
  have "visible v t = take (min v (n - off)) (drop (n - off - v) (hist t))"
  proof (rule nth_equalityI)
    show "length (visible v t) = length (take (min v (n - off)) (drop (n - off - v) (hist t)))"
      by (simp add: visible_def w n_def [symmetric])
    fix i assume "i < length (visible v t)"
    then have i: "i < v" "i < n - off" by (simp_all add: visible_def w)
    then have "n - off - v + i < n" by linarith
    then show "visible v t ! i = take (min v (n - off)) (drop (n - off - v) (hist t)) ! i"
      using i by (simp add: visible_def w hist_def n_def [symmetric] del: diff_diff_left)
  qed
  also have "\<dots> = lastn v (take (n - off) (hist t))"
  proof -
    have "length (take (n - off) (hist t)) = n - off" by (simp add: n_def)
    moreover have "n - off - (n - off - v) = min v (n - off)" by simp
    ultimately show ?thesis by (simp only: lastn_def drop_take)
  qed
  finally show ?thesis by (simp add: n_def off_def)
qed

text \<open>
  C13: The history is the last 2000 messages: moving the queue into it returns, appends every
  queued message in order, forgets only the oldest, and empties the queue; the window shows
  consecutive messages, as many as fit or exist, ending \<open>scroll\<close> messages before the newest
  (or as far back as there are messages); following the log, it ends with the newest.
\<close>

theorem history_keeps_latest:
  assumes "hist_ok t" and "queue_holds 10 (t_queue t) es"
  shows "\<exists>t'. drain_log t = Some t' \<and> hist_ok t' \<and> queue_holds 10 (t_queue t') [] \<and>
              hist t' = lastn 2000 (hist t @ es) \<and>
              visible v t' = lastn v (take (t_logCount t' - min (t_scroll t') (t_logCount t' - v)) (hist t')) \<and>
              (t_scroll t' = 0 \<longrightarrow> visible v t' = lastn v (hist t'))"
proof -
  obtain t' where t': "drain_log t = Some t'" "hist t' = lastn 2000 (hist t @ es)" "hist_ok t'"
    "queue_holds 10 (t_queue t') []"
    "t_scroll t' = (if es = [] then t_scroll t else if t_autoScroll t then 0 else t_scroll t + length es)"
    by (rule drain_log_spec [OF assms])
  have follow: "visible v t' = lastn v (hist t')" if "t_scroll t' = 0"
  proof -
    have "visible v t' = lastn v (take (length (hist t')) (hist t'))"
      unfolding visible_eq that by simp
    then show ?thesis by simp
  qed
  show ?thesis
    by (intro exI [of _ t'] conjI impI) (rule t' visible_eq follow, assumption?)+
qed

definition ex_tui :: tui where
  "ex_tui = RtTui_new (LogQueue_init QUEUE_CAPACITY (\<lambda>_. \<lparr>timeStamp_ns = 0, level = L_info, msgLen = 0,
       msg = replicate 1024 NUL, loggerName = replicate 64 NUL\<rparr>))
     (replicate 2000 \<lparr>timeStamp_ns = 0, level = L_info, msgLen = 0, msg = replicate 1024 NUL,
       loggerName = replicate 64 NUL\<rparr>) \<lparr>answers = [], sent = [], errno = EOK\<rparr> []"

lemma ex_tui_hist: "hist_ok ex_tui" "hist ex_tui = []" "queue_holds 10 (t_queue ex_tui) []"
  by (simp_all add: hist_ok_def hist_def ex_tui_def RtTui_new_def queue_init_holds)

definition ex_msg :: Entry where
  "ex_msg = \<lparr>timeStamp_ns = 1, level = L_err, msgLen = 0, msg = replicate 1024 NUL, loggerName = replicate 64 NUL\<rparr>"

lemma ex_tui_pushed:
  obtains q where "push_all (TryPush QUEUE_CAPACITY) [ex_msg, ex_msg] (t_queue ex_tui) = Some (0, q)"
    "queue_holds 10 q [ex_msg, ex_msg]"
  using rtq.push_all_returns [OF ex_tui_hist(3), of "[ex_msg, ex_msg]"] by (auto simp: QUEUE_CAPACITY_def)

theorem history_keeps_latest_witness:
  "\<exists>q t'. push_all (TryPush QUEUE_CAPACITY) [ex_msg, ex_msg] (t_queue ex_tui) = Some (0, q) \<and>
          drain_log (ex_tui\<lparr>t_queue := q\<rparr>) = Some t' \<and> hist t' = [ex_msg, ex_msg]"
proof -
  obtain q where q: "push_all (TryPush QUEUE_CAPACITY) [ex_msg, ex_msg] (t_queue ex_tui) = Some (0, q)"
    "queue_holds 10 q [ex_msg, ex_msg]" by (rule ex_tui_pushed)
  let ?t = "ex_tui\<lparr>t_queue := q\<rparr>"
  have "hist_ok ?t" "hist ?t = []" "queue_holds 10 (t_queue ?t) [ex_msg, ex_msg]"
    using ex_tui_hist q(2) by (simp_all add: hist_ok_def hist_def)
  then show ?thesis using history_keeps_latest [of ?t "[ex_msg, ex_msg]" 5] q(1) by (auto simp: lastn_def)
qed

text \<open>
  A paused view stands still: while the user looks back, arriving messages do not move the
  lines on the screen, until the messages shown are among those forgotten.
\<close>

theorem paused_view_stands_still:
  assumes "hist_ok t" and "queue_holds 10 (t_queue t) es" and "\<not> t_autoScroll t"
    and "v + t_scroll t + length es \<le> min 2000 (t_logCount t + length es)"
  shows "\<exists>t'. drain_log t = Some t' \<and> visible v t' = visible v t"
proof -
  obtain t' where t': "drain_log t = Some t'" "hist t' = lastn 2000 (hist t @ es)"
    "t_scroll t' = (if es = [] then t_scroll t else if t_autoScroll t then 0 else t_scroll t + length es)"
    by (rule drain_log_spec [OF assms(1,2)])
  define n where "n = t_logCount t"
  define k where "k = length es"
  define s where "s = t_scroll t"
  have s': "t_scroll t' = s + k" using t'(3) assms(3) by (simp add: s_def k_def)
  have n': "t_logCount t' = min 2000 (n + k)"
    using arg_cong [OF t'(2), of length] by (simp add: n_def k_def)
  have le: "v + s + k \<le> min 2000 (n + k)" using assms(4) by (simp add: n_def k_def s_def)
  have "s \<le> n - v" and "s + k \<le> min 2000 (n + k) - v" using le by linarith+
  then have sm: "min s (n - v) = s" "min (s + k) (min 2000 (n + k) - v) = s + k"
    by (simp_all only: min_absorb1)
  have v: "visible v t = lastn v (take (n - s) (hist t))"
    unfolding visible_eq n_def [symmetric] s_def [symmetric] sm ..
  have v': "visible v t' = lastn v (take (min 2000 (n + k) - (s + k)) (lastn 2000 (hist t @ es)))"
    unfolding visible_eq n' s' t'(2) sm ..
  define d where "d = n + k - 2000"
  have "lastn 2000 (hist t @ es) = drop d (hist t @ es)" by (simp add: lastn_def n_def k_def d_def)
  then have "take (min 2000 (n + k) - (s + k)) (lastn 2000 (hist t @ es))
      = drop d (take (d + (min 2000 (n + k) - (s + k))) (hist t @ es))"
    by (simp only: take_drop add.commute)
  also have "d + (min 2000 (n + k) - (s + k)) = n - s" using le by (simp add: d_def)
  also have "take (n - s) (hist t @ es) = take (n - s) (hist t)" by (simp add: n_def)
  finally have "visible v t' = lastn v (drop d (take (n - s) (hist t)))" unfolding v' by simp
  also have "\<dots> = lastn v (take (n - s) (hist t))"
  proof -
    have "v + s + k \<le> 2000" "v + s \<le> n" using le by simp_all
    then have "v \<le> n - s - d" unfolding d_def by arith
    then have "n - s - d - v + d = n - s - v \<or> n - s < d" by arith
    moreover have "n - s < d \<Longrightarrow> v = 0" using \<open>v \<le> n - s - d\<close> by simp
    ultimately show ?thesis by (auto simp: lastn_def n_def)
  qed
  finally show ?thesis using t'(1) v by auto
qed

theorem paused_view_stands_still_witness:
  "\<exists>t t' q. t = ex_tui\<lparr>t_queue := q, t_logCount := 100, t_scroll := 20, t_autoScroll := False\<rparr> \<and>
      push_all (TryPush QUEUE_CAPACITY) [ex_msg, ex_msg] (t_queue ex_tui) = Some (0, q) \<and>
      drain_log t = Some t' \<and> visible 50 t' = visible 50 t"
proof -
  obtain q where q: "push_all (TryPush QUEUE_CAPACITY) [ex_msg, ex_msg] (t_queue ex_tui) = Some (0, q)"
    "queue_holds 10 q [ex_msg, ex_msg]" by (rule ex_tui_pushed)
  let ?t = "ex_tui\<lparr>t_queue := q, t_logCount := 100, t_scroll := 20, t_autoScroll := False\<rparr>"
  have "hist_ok ?t" "queue_holds 10 (t_queue ?t) [ex_msg, ex_msg]"
    using q(2) by (simp_all add: hist_ok_def ex_tui_def RtTui_new_def)
  then have "\<exists>t'. drain_log ?t = Some t' \<and> visible 50 t' = visible 50 ?t"
    by (rule paused_view_stands_still) simp_all
  then show ?thesis using q(1) by blast
qed

end
