(* ===== verification/TuiFrame.thy ===== *)
theory TuiFrame
  imports TuiProps
begin

text \<open>
  The terminal interface over its whole life: the invariant of any sequence of operations,
  what a frame draws, how the keys move through the layouts, how written rows reach the
  screen, and what the terminal receives.
\<close>

section \<open>The invariant\<close>

text \<open>
  Data well-formed; a queue and a history that represent lists of messages; a log that is
  followed is shown at its end; the output buffer never overruns.
\<close>

definition tui_inv :: "tui \<Rightarrow> bool" where
  "tui_inv t \<longleftrightarrow> tui_wf t \<and> hist_ok t \<and> (\<exists>es. queue_holds 10 (t_queue t) es) \<and>
     (t_autoScroll t \<longrightarrow> t_scroll t = 0) \<and> length (t_out t) \<le> OUT_BUF_SIZE"

text \<open>The part of it that does not concern the output buffer.\<close>

definition core_inv :: "tui \<Rightarrow> bool" where
  "core_inv t \<longleftrightarrow> tui_wf t \<and> hist_ok t \<and> (\<exists>es. queue_holds 10 (t_queue t) es) \<and> (t_autoScroll t \<longrightarrow> t_scroll t = 0)"

lemma tui_inv_core: "tui_inv t \<longleftrightarrow> core_inv t \<and> length (t_out t) \<le> OUT_BUF_SIZE"
  by (auto simp: tui_inv_def core_inv_def)

lemma core_inv_screen: "core_inv (screen t) = core_inv t"
  by (simp add: core_inv_def tui_wf_def hist_ok_def screen_def)

lemma core_inv_cong: "screen t = screen t' \<Longrightarrow> core_inv t = core_inv t'"
  by (metis core_inv_screen)

lemma core_inv_FlushOutput [simp]: "core_inv (FlushOutput now t) = core_inv t"
  by (rule core_inv_cong) simp

lemma core_inv_AppendData [simp]: "core_inv (AppendData now s t) = core_inv t"
  by (rule core_inv_cong) simp

lemma core_inv_draw_all [simp]: "core_inv (draw_all now ds t) = core_inv t"
  by (rule core_inv_cong) simp

lemma core_inv_term_do [simp]: "core_inv (term_do c t) = core_inv t"
  by (simp add: core_inv_def tui_wf_def hist_ok_def term_do_def)

named_theorems out_len \<open>the output buffer stays within its size\<close>

lemma FlushOutput_len [out_len]: "length (t_out (FlushOutput now t)) \<le> length (t_out t)"
  by (auto simp: FlushOutput_def Let_def split: prod.splits)

lemma AppendData_len [out_len]:
  assumes "length (t_out t) \<le> OUT_BUF_SIZE"
  shows "length (t_out (AppendData now s t)) \<le> OUT_BUF_SIZE"
  using assms FlushOutput_len [of now t] by (auto simp: AppendData_def Let_def)

lemma AppendData_hbar_len [out_len]:
  assumes "length (t_out t) \<le> OUT_BUF_SIZE"
  shows "length (t_out (AppendData_hbar now n t)) \<le> OUT_BUF_SIZE"
proof -
  have "length (t_out ((AppendData now HBAR ^^ k) t)) \<le> OUT_BUF_SIZE" for k
    by (induction k) (simp_all add: assms AppendData_len)
  then show ?thesis by (simp add: AppendData_hbar_def)
qed

lemma SafeSnprintf_len [out_len]:
  assumes "length (t_out t) \<le> OUT_BUF_SIZE"
  shows "length (t_out (SafeSnprintf s t)) \<le> OUT_BUF_SIZE"
  using assms by (auto simp: SafeSnprintf_def Let_def)

lemma draw_one_len [out_len]:
  "length (t_out t) \<le> OUT_BUF_SIZE \<Longrightarrow> length (t_out (draw_one now d t)) \<le> OUT_BUF_SIZE"
  by (cases d) (simp_all add: out_len)

lemma draw_all_len [out_len]:
  assumes "length (t_out t) \<le> OUT_BUF_SIZE"
  shows "length (t_out (draw_all now ds t)) \<le> OUT_BUF_SIZE"
proof -
  have "length (t_out (fold (draw_one now) ds t)) \<le> OUT_BUF_SIZE"
    using assms by (induction ds arbitrary: t) (simp_all add: draw_one_len)
  then show ?thesis by (simp add: draw_all_def)
qed

lemma inv_FlushOutput: "tui_inv t \<Longrightarrow> tui_inv (FlushOutput now t)"
  using FlushOutput_len [of now t] by (simp add: tui_inv_core)

lemma inv_AppendData: "tui_inv t \<Longrightarrow> tui_inv (AppendData now s t)"
  by (simp add: tui_inv_core AppendData_len)

lemma inv_draw_all: "tui_inv t \<Longrightarrow> tui_inv (draw_all now ds t)"
  by (simp add: tui_inv_core draw_all_len)

text \<open>A setter only touches the layouts.\<close>

lemma inv_setter:
  assumes "tui_inv t" and "tui_wf t'" and "t' = t\<lparr>t_layouts := ls\<rparr>"
  shows "tui_inv t'"
  using assms by (simp add: tui_inv_def hist_ok_def)

lemma setter_layouts:
  "\<exists>ls. SetLayoutName i n t = t\<lparr>t_layouts := ls\<rparr>" "\<exists>ls. SetGroup i g lbl hdrs t = t\<lparr>t_layouts := ls\<rparr>"
  "\<exists>ls. SetGroupNoHeader i g t = t\<lparr>t_layouts := ls\<rparr>" "\<exists>ls. SetRowData i g r lbl cols t = t\<lparr>t_layouts := ls\<rparr>"
  "\<exists>ls. SetTextRow i g r lbl s t = t\<lparr>t_layouts := ls\<rparr>"
proof -
  have same: "\<exists>ls. t = t\<lparr>t_layouts := ls\<rparr>" for t :: tui
    by (rule exI [of _ "t_layouts t"]) simp
  have upd: "\<exists>ls. upd_layout i f t = t\<lparr>t_layouts := ls\<rparr>" for f
    by (auto simp: upd_layout_def)
  show "\<exists>ls. SetLayoutName i n t = t\<lparr>t_layouts := ls\<rparr>"
    using same upd by (simp add: SetLayoutName_def split: option.splits)
  show "\<exists>ls. SetGroup i g lbl hdrs t = t\<lparr>t_layouts := ls\<rparr>"
    using same upd by (simp add: SetGroup_def Let_def)
  show "\<exists>ls. SetGroupNoHeader i g t = t\<lparr>t_layouts := ls\<rparr>"
    using same upd by (simp add: SetGroupNoHeader_def Let_def)
  show "\<exists>ls. SetRowData i g r lbl cols t = t\<lparr>t_layouts := ls\<rparr>"
    using same upd by (simp add: SetRowData_def upd_row_def Let_def)
  show "\<exists>ls. SetTextRow i g r lbl s t = t\<lparr>t_layouts := ls\<rparr>"
    using same upd by (simp add: SetTextRow_def upd_row_def)
qed

lemma inv_setters:
  assumes "tui_inv t"
  shows "tui_inv (SetLayoutName i n t)" "tui_inv (SetGroup i g lbl hdrs t)" "tui_inv (SetGroupNoHeader i g t)"
    "tui_inv (SetRowData i g r lbl cols t)" "tui_inv (SetTextRow i g r lbl s t)"
proof -
  have wf: "tui_wf t" using assms by (simp add: tui_inv_def)
  show "tui_inv (SetLayoutName i n t)"
    using inv_setter [OF assms SetLayoutName_wf [OF wf]] setter_layouts(1) by blast
  show "tui_inv (SetGroup i g lbl hdrs t)"
    using inv_setter [OF assms SetGroup_wf [OF wf]] setter_layouts(2) by blast
  show "tui_inv (SetGroupNoHeader i g t)"
    using inv_setter [OF assms SetGroupNoHeader_wf [OF wf]] setter_layouts(3) by blast
  show "tui_inv (SetRowData i g r lbl cols t)"
    using inv_setter [OF assms SetRowData_wf [OF wf]] setter_layouts(4) by blast
  show "tui_inv (SetTextRow i g r lbl s t)"
    using inv_setter [OF assms SetTextRow_wf [OF wf]] setter_layouts(5) by blast
qed

lemma inv_formatted:
  assumes "tui_inv t"
  shows "tui_inv (SetRowFmt i g r lbl fmt args t)" "tui_inv (SetTextRowFmt junk i g r lbl s t)"
  using assms by (simp_all add: SetRowFmt_def SetTextRowFmt_def inv_setters Let_def)

subsection \<open>Messages, keys and frames\<close>

lemma inv_LogV:
  assumes "tui_inv t"
  shows "\<exists>t'. LogV junk lvl rtext t = Some t' \<and> tui_inv t'"
proof -
  obtain es where es: "queue_holds 10 (t_queue t) es" using assms by (auto simp: tui_inv_def)
  from rtq.push_returns [OF es] obtain ok q es'
    where q: "TryPush QUEUE_CAPACITY (Entry_SetV 1024 lvl 0 rtext junk) (t_queue t) = Some (ok, q)"
      "queue_holds 10 q es'" by blast
  have "tui_inv (t\<lparr>t_queue := q\<rparr>)"
    using assms q(2) by (auto simp: tui_inv_def tui_wf_def hist_ok_def)
  then show ?thesis using q(1) by (simp add: LogV_def)
qed

lemma keep_entry_other:
  "t_layouts (keep_entry e t) = t_layouts t" "t_current (keep_entry e t) = t_current t"
  "t_out (keep_entry e t) = t_out t"
  by (simp_all add: keep_entry_def Let_def)

lemma fold_keep_entry_other:
  "t_layouts (fold keep_entry es t) = t_layouts t \<and> t_current (fold keep_entry es t) = t_current t \<and>
   t_out (fold keep_entry es t) = t_out t"
  by (induction es arbitrary: t) (simp_all add: keep_entry_other)

lemma inv_drain_log:
  assumes "tui_inv t"
  shows "\<exists>t'. drain_log t = Some t' \<and> tui_inv t'"
proof -
  from assms obtain es where h: "hist_ok t" "queue_holds 10 (t_queue t) es"
    by (auto simp: tui_inv_def)
  obtain q where q: "drain (TryPop QUEUE_CAPACITY) keep_entry (t_queue t) t 0
      = Some (q, fold keep_entry es t, 0 + length es)" "queue_holds 10 q []"
    using rtq.drain_returns [OF h(2), of keep_entry t 0] by blast
  let ?t = "(fold keep_entry es t)\<lparr>t_queue := q\<rparr>"
  have "tui_inv ?t"
    using assms q(2) fold_keep_entry [OF h(1), of es] fold_keep_entry_other [of es t]
    by (auto simp: tui_inv_def tui_wf_def hist_ok_def)
  then show ?thesis using q(1) by (simp add: drain_log_def)
qed

lemma inv_scroll_key:
  assumes "tui_inv t"
  shows "tui_inv (scroll_key buf page t)"
proof -
  have upd: "tui_inv (t\<lparr>t_scroll := s, t_autoScroll := a\<rparr>)" if "a \<longrightarrow> s = 0" for s a
    using assms that by (simp add: tui_inv_def tui_wf_def hist_ok_def)
  have auto_scroll: "t_autoScroll t \<longrightarrow> t_scroll t = 0" using assms by (simp add: tui_inv_def)
  have keep: "tui_inv (t\<lparr>t_scroll := s\<rparr>)" if "\<not> t_autoScroll t" for s
    using assms that by (simp add: tui_inv_def tui_wf_def hist_ok_def)
  show ?thesis
    using assms auto_scroll unfolding scroll_key_def Let_def by (auto intro!: upd keep)
qed

lemma prev_layout_lt: "t_current t < 9 \<Longrightarrow> prev_layout t < 9"
  by (auto simp: prev_layout_def MAX_LAYOUTS_def find_Some_iff split: option.splits)

lemma next_layout_lt: "t_current t < 9 \<Longrightarrow> next_layout t < 9"
  by (auto simp: next_layout_def MAX_LAYOUTS_def)

lemma inv_switch_layout: "tui_inv t \<Longrightarrow> i < 9 \<Longrightarrow> tui_inv (switch_layout i t)"
  by (simp add: switch_layout_def tui_inv_def tui_wf_def hist_ok_def)

lemma if_inv: "P x \<Longrightarrow> P y \<Longrightarrow> P (if b then x else y)"
  by simp

lemma inv_HandleKey:
  assumes "tui_inv t"
  shows "tui_inv (HandleKey buf t)"
proof -
  have cur: "t_current t < 9" using assms by (simp add: tui_inv_def tui_wf_def)
  have clamp: "tui_inv (if t_scroll t' > t_logCount t' then t'\<lparr>t_scroll := t_logCount t'\<rparr> else t')"
    if "tui_inv t'" for t'
    using that by (auto simp: tui_inv_def tui_wf_def hist_ok_def)
  have key: "tui_inv (t\<lparr>t_lastKey := k\<rparr>)" for k
    using assms by (simp add: tui_inv_def tui_wf_def hist_ok_def)
  show ?thesis
    unfolding HandleKey_def Let_def
    by (intro if_inv [where P = tui_inv] assms clamp key inv_scroll_key [OF assms]
          inv_switch_layout [OF assms] prev_layout_lt [OF cur] next_layout_lt [OF cur])
qed

lemma inv_handle_keys: "tui_inv t \<Longrightarrow> tui_inv (handle_keys kbuf t)"
proof (induction kbuf t rule: handle_keys.induct)
  case (1 kbuf t)
  note k = inv_HandleKey [OF "1.prems"]
  show ?case
    unfolding handle_keys.simps [of kbuf t] Let_def
    using "1.prems" k "1.IH"(1) [OF _ _ refl] "1.IH"(2) by simp
qed

lemma inv_TermGetSize: "tui_inv t \<Longrightarrow> tui_inv (TermGetSize ws t)"
  by (auto simp: TermGetSize_def tui_inv_def tui_wf_def hist_ok_def split: option.splits)

lemma layout_wf_swap: "layout_wf l \<Longrightarrow> layout_wf (snd (swap_buffers l))"
proof -
  assume l: "layout_wf l"
  have "\<forall>b \<in> set (upd_at (ly_widx l) (\<lambda>b. b\<lparr>bf_dirty := False\<rparr>) (ly_bufs l)). data_wf b"
    using l by (intro upd_at_all) (simp_all add: layout_wf_def data_wf_def)
  moreover have "1 - ly_widx l < 2" by simp
  ultimately show ?thesis using l by (auto simp: swap_buffers_def Let_def layout_wf_def)
qed

lemma inv_RenderArea1:
  assumes "tui_inv t"
  shows "tui_inv (RenderArea1 now startRow height width t)"
proof -
  obtain ridx l where s: "swap_buffers (t_layouts t ! t_current t) = (ridx, l)" by fastforce
  have wf: "\<forall>l \<in> set (t_layouts t). layout_wf l" "t_current t < length (t_layouts t)" "length (t_layouts t) = 9"
    using assms by (simp_all add: tui_inv_def tui_wf_def)
  then have "layout_wf l" using layout_wf_swap [of "t_layouts t ! t_current t"] s by simp
  then have "\<forall>l \<in> set ((t_layouts t)[t_current t := l]). layout_wf l"
    using wf set_update_subset_insert [of "t_layouts t" "t_current t" l] by auto
  then have "tui_inv (t\<lparr>t_layouts := (t_layouts t)[t_current t := l]\<rparr>)"
    using assms wf by (simp add: tui_inv_def tui_wf_def hist_ok_def)
  then show ?thesis using assms by (simp add: RenderArea1_def s inv_draw_all)
qed

lemma inv_clear_if_changed:
  assumes "tui_inv t"
  shows "tui_inv (clear_if_changed now t)"
proof -
  have "tui_inv (t\<lparr>t_changed := False\<rparr>)" using assms by (simp add: tui_inv_def tui_wf_def hist_ok_def)
  then have "tui_inv (FlushOutput now (AppendData now CLEAR_SCREEN (t\<lparr>t_changed := False\<rparr>)))"
    by (intro inv_FlushOutput inv_AppendData)
  then show ?thesis
    using \<open>tui_inv (t\<lparr>t_changed := False\<rparr>)\<close>
    by (simp add: clear_if_changed_def tui_inv_def tui_wf_def hist_ok_def Let_def)
qed

lemma inv_empty_out: "tui_inv t \<Longrightarrow> tui_inv (t\<lparr>t_out := []\<rparr>)"
  by (simp add: tui_inv_def tui_wf_def hist_ok_def)

lemma inv_render_frame: "tui_inv t \<Longrightarrow> tui_inv (render_frame thumb now needed t)"
  unfolding render_frame_def Let_def RenderArea2_def RenderCmdLine_def
  by (auto intro!: inv_FlushOutput inv_draw_all inv_RenderArea1 inv_empty_out inv_clear_if_changed split: prod.split)

lemma inv_Tick:
  assumes "tui_inv t"
  shows "\<exists>t'. Tick thumb now kbuf ws t = Some t' \<and> tui_inv t'"
  using assms inv_drain_log [OF assms]
  by (auto simp: Tick_def Let_def intro!: inv_render_frame inv_TermGetSize inv_handle_keys)

subsection \<open>Every sequence of operations\<close>

lemma inv_term_do: "tui_inv t \<Longrightarrow> tui_inv (term_do c t)"
  by (simp add: tui_inv_core) (simp add: term_do_def)

lemma inv_fields:
  "tui_inv t \<Longrightarrow> tui_inv (t\<lparr>t_fd := n\<rparr>)" "tui_inv t \<Longrightarrow> tui_inv (t\<lparr>t_termActive := b\<rparr>)"
  "tui_inv t \<Longrightarrow> tui_inv (t\<lparr>t_running := b\<rparr>)" "tui_inv t \<Longrightarrow> tui_inv (t\<lparr>t_lastKey := c\<rparr>)"
  by (simp_all add: tui_inv_def tui_wf_def hist_ok_def)

lemmas inv_rules = inv_term_do inv_fields inv_FlushOutput inv_AppendData inv_empty_out

lemma inv_TermInit: "tui_inv t \<Longrightarrow> tui_inv (TermInit now opened ok t)"
  unfolding TermInit_def Let_def by (intro if_inv [where P = tui_inv] inv_rules)

lemma inv_TermRestore: "tui_inv t \<Longrightarrow> tui_inv (TermRestore now ok ok' t)"
  unfolding TermRestore_def Let_def by (intro if_inv [where P = tui_inv] inv_rules)

text \<open>The calls of the class, by the threads that log and by the drain thread.\<close>

datatype tui_op =
    Do_name int "char list option"
  | Do_group int int "char list" "char list option list"
  | Do_no_header int int
  | Do_row int int int "char list" "char list option list"
  | Do_text int int int "char list" "char list"
  | Do_row_fmt int int int "char list" "col_arg \<Rightarrow> char list option" "col_arg list"
  | Do_text_fmt "char list" int int int "char list" "char list option"
  | Do_log Entry LogLevel "char list option"
  | Do_pop_key
  | Do_init int int bool
  | Do_tick int "char list" "(int \<times> int) option"
  | Do_stop int bool bool

fun tui_do :: "(nat \<Rightarrow> nat \<Rightarrow> int \<Rightarrow> int) \<Rightarrow> tui_op \<Rightarrow> tui \<Rightarrow> tui option" where
  "tui_do thumb (Do_name i n) t = Some (SetLayoutName i n t)"
| "tui_do thumb (Do_group i g lbl hdrs) t = Some (SetGroup i g lbl hdrs t)"
| "tui_do thumb (Do_no_header i g) t = Some (SetGroupNoHeader i g t)"
| "tui_do thumb (Do_row i g r lbl cols) t = Some (SetRowData i g r lbl cols t)"
| "tui_do thumb (Do_text i g r lbl s) t = Some (SetTextRow i g r lbl s t)"
| "tui_do thumb (Do_row_fmt i g r lbl fmt args) t = Some (SetRowFmt i g r lbl fmt args t)"
| "tui_do thumb (Do_text_fmt junk i g r lbl s) t = Some (SetTextRowFmt junk i g r lbl s t)"
| "tui_do thumb (Do_log junk lvl s) t = LogV junk lvl s t"
| "tui_do thumb Do_pop_key t = Some (snd (PopPendingKey t))"
| "tui_do thumb (Do_init now opened ok) t = Some (snd (Init now opened ok t))"
| "tui_do thumb (Do_tick now kbuf ws) t = Tick thumb now kbuf ws t"
| "tui_do thumb (Do_stop now ok ok') t = Some (Stop now ok ok' t)"

fun tui_run :: "(nat \<Rightarrow> nat \<Rightarrow> int \<Rightarrow> int) \<Rightarrow> tui_op list \<Rightarrow> tui \<Rightarrow> tui option" where
  "tui_run thumb [] t = Some t"
| "tui_run thumb (c # cs) t = (case tui_do thumb c t of None \<Rightarrow> None | Some t' \<Rightarrow> tui_run thumb cs t')"

lemma inv_tui_do: "tui_inv t \<Longrightarrow> \<exists>t'. tui_do thumb c t = Some t' \<and> tui_inv t'"
proof (cases c)
  case (Do_log junk lvl s)
  assume "tui_inv t"
  then show ?thesis using inv_LogV [of t junk lvl s] Do_log by simp
next
  case (Do_tick now kbuf ws)
  assume "tui_inv t"
  then show ?thesis using inv_Tick [of t thumb now kbuf ws] Do_tick by simp
next
  case (Do_init now opened ok)
  assume "tui_inv t"
  then show ?thesis using Do_init by (simp add: Init_def inv_TermInit inv_fields)
next
  case (Do_stop now ok ok')
  assume "tui_inv t"
  then show ?thesis using Do_stop by (simp add: Stop_def inv_TermRestore inv_fields)
qed (simp_all add: inv_setters inv_formatted PopPendingKey_def inv_fields)

lemma inv_tui_run: "tui_inv t \<Longrightarrow> \<exists>t'. tui_run thumb cs t = Some t' \<and> tui_inv t'"
proof (induction cs arbitrary: t)
  case (Cons c cs)
  from inv_tui_do [OF Cons.prems, of thumb c] obtain t' where "tui_do thumb c t = Some t'" "tui_inv t'" by blast
  then show ?case using Cons.IH [of t'] by simp
qed simp

lemma text_ok_zeros: "0 < n \<Longrightarrow> text_ok n (replicate n NUL)"
  by (simp add: text_ok_def)

lemma wf_new_layout: "i < 9 \<Longrightarrow> layout_wf (new_layout i)"
proof -
  assume i: "i < 9"
  have row: "row_wf new_row" by (simp add: row_wf_def new_row_def text_ok_zeros)
  have dat: "data_wf new_data" by (simp add: data_wf_def new_data_def group_wf_def row)
  have hdr: "header_wf new_header" by (simp add: header_wf_def new_header_def text_ok_zeros)
  have len: "length (nat_str (i + 1)) = 1"
    using i by (subst nat_str.simps) simp
  then have "text_ok 32 (ly_name (new_layout i))"
    by (auto simp: new_layout_def snprintf_at_def text_ok_def memcpy_at_def)
  then show ?thesis by (simp add: layout_wf_def dat hdr) (simp add: new_layout_def dat hdr)
qed

lemma inv_new:
  assumes "queue_holds 10 q []" and "length history = 2000"
  shows "tui_inv (RtTui_new q history d polls)"
  using assms wf_new_layout
  by (auto simp: tui_inv_def tui_wf_def hist_ok_def RtTui_new_def MAX_LAYOUTS_def)


section \<open>The keys that change the layout\<close>

lemma HandleKey_next: "HandleKey '']'' t = switch_layout (next_layout t) t"
  by (simp add: HandleKey_def Let_def)

lemma HandleKey_prev: "HandleKey ''['' t = switch_layout (prev_layout t) t"
  by (simp add: HandleKey_def Let_def)

lemma switch_layout_current [simp]:
  "t_current (switch_layout i t) = i" "t_layouts (switch_layout i t) = t_layouts t"
  by (simp_all add: switch_layout_def)

definition first_defined :: "nat \<Rightarrow> tui \<Rightarrow> bool" where
  "first_defined k t \<longleftrightarrow> k \<le> 9 \<and> (\<forall>i < 9. layout_defined t i = (i < k))"

lemma first_defined_switch [simp]: "first_defined k (switch_layout i t) = first_defined k t"
  by (simp add: first_defined_def layout_defined_def)

lemma cycle_mod: "c \<le> m \<Longrightarrow> (c + 1) mod (m + 1) = (if c = m then 0 else c + 1 :: nat)"
  by simp

lemma next_layout_cycle:
  assumes "first_defined k t" and "t_current t \<le> min k 8"
  shows "next_layout t = (t_current t + 1) mod (min k 8 + 1)"
proof (cases "t_current t = min k 8")
  case True
  then have "t_current t = 8 \<or> \<not> layout_defined t (t_current t)"
    using assms by (auto simp: first_defined_def min_def split: if_splits)
  then show ?thesis using True by (auto simp: next_layout_def MAX_LAYOUTS_def)
next
  case False
  then have "t_current t < k" "t_current t < 8" using assms(2) by auto
  then show ?thesis using assms by (auto simp: next_layout_def MAX_LAYOUTS_def first_defined_def)
qed

lemma find_first_undefined:
  assumes "first_defined k t"
  shows "find (\<lambda>i. \<not> layout_defined t i) [0..<9] = (if k < 9 then Some k else None)"
  using assms by (auto simp: first_defined_def find_Some_iff find_None_iff)

lemma prev_layout_cycle:
  assumes "first_defined k t" and "t_current t \<le> min k 8"
  shows "prev_layout t = (if t_current t = 0 then min k 8 else t_current t - 1)"
  using assms(1) find_first_undefined [OF assms(1)]
  by (auto simp: prev_layout_def MAX_LAYOUTS_def first_defined_def)

text \<open>
  When the first \<open>k\<close> layouts are defined, the key \<open>]\<close> goes round them and the one
  empty layout behind them, in order, and the key \<open>[\<close> undoes it.
\<close>

theorem layout_keys_cycle:
  assumes "first_defined k t" and "t_current t \<le> min k 8"
  shows "t_current ((HandleKey '']'' ^^ n) t) = (t_current t + n) mod (min k 8 + 1) \<and>
         t_current (HandleKey ''['' (HandleKey '']'' t)) = t_current t \<and>
         t_current (HandleKey '']'' (HandleKey ''['' t)) = t_current t"
proof -
  have "first_defined k ((HandleKey '']'' ^^ n) t) \<and>
        t_current ((HandleKey '']'' ^^ n) t) = (t_current t + n) mod (min k 8 + 1)"
  proof (induction n)
    case 0
    have "t_current t < min k 8 + 1" using assms(2) by linarith
    then show ?case using assms(1) by (simp only: funpow_0 add_0_right mod_less simp_thms)
  next
    case (Suc n)
    let ?t = "(HandleKey '']'' ^^ n) t"
    have "t_current ?t < min k 8 + 1" using Suc mod_less_divisor [of "min k 8 + 1"] by (simp del: min_less_iff_conj)
    then have "t_current ?t \<le> min k 8" by linarith
    then have "next_layout ?t = (t_current ?t + 1) mod (min k 8 + 1)"
      using Suc by (intro next_layout_cycle) simp_all
    moreover have "(HandleKey '']'' ^^ Suc n) t = switch_layout (next_layout ?t) ?t"
      by (simp add: HandleKey_next [of ?t])
    ultimately show ?case using Suc by (simp add: mod_simps)
  qed
  moreover have "t_current (HandleKey ''['' (HandleKey '']'' t)) = t_current t"
  proof -
    have "next_layout t < min k 8 + 1"
      unfolding next_layout_cycle [OF assms] by (rule mod_less_divisor) simp
    then have "t_current (switch_layout (next_layout t) t) \<le> min k 8"
      unfolding switch_layout_current by linarith
    then have "prev_layout (switch_layout (next_layout t) t)
        = (if next_layout t = 0 then min k 8 else next_layout t - 1)"
      using prev_layout_cycle [of k "switch_layout (next_layout t) t"] assms(1) by simp
    moreover have "next_layout t = (if t_current t = min k 8 then 0 else t_current t + 1)"
      using next_layout_cycle [OF assms] cycle_mod [OF assms(2)] by simp
    ultimately show ?thesis by (simp add: HandleKey_next HandleKey_prev)
  qed
  moreover have "t_current (HandleKey '']'' (HandleKey ''['' t)) = t_current t"
  proof -
    note p = prev_layout_cycle [OF assms]
    then have "t_current (switch_layout (prev_layout t) t) \<le> min k 8"
      using assms(2) by auto
    then have "next_layout (switch_layout (prev_layout t) t) = (prev_layout t + 1) mod (min k 8 + 1)"
      using next_layout_cycle [of k "switch_layout (prev_layout t) t"] assms(1) by simp
    moreover have "t_current t < min k 8 + 1" using assms(2) by linarith
    then have "t_current t mod (min k 8 + 1) = t_current t" by (rule mod_less)
    ultimately show ?thesis using p by (simp add: HandleKey_next HandleKey_prev)
  qed
  ultimately show ?thesis by blast
qed

lemma defined_SetGroupNoHeader:
  assumes "layout_ok i" and "group_ok g" and "length (t_layouts t) = 9" and "j < 9"
  shows "layout_defined (SetGroupNoHeader i g t) j \<longleftrightarrow> layout_defined t j \<or> j = nat i"
  using assms by (auto simp: layout_defined_def SetGroupNoHeader_def upd_layout_def upd_at_def Let_def nth_list_update
      layout_ok_def MAX_LAYOUTS_def)

theorem layout_keys_cycle_witness:
  "t_current ((HandleKey '']'' ^^ 5) (SetGroupNoHeader 1 0 (SetGroupNoHeader 0 0 ex_tui))) = 2"
proof -
  let ?t = "SetGroupNoHeader 1 0 (SetGroupNoHeader 0 0 ex_tui)"
  have ex: "length (t_layouts ex_tui) = 9" "t_current ex_tui = 0" "layout_defined ex_tui j \<longleftrightarrow> False" if "j < 9" for j
    using that by (simp_all add: ex_tui_def RtTui_new_def layout_defined_def new_layout_def MAX_LAYOUTS_def)
  have same: "length (t_layouts (SetGroupNoHeader i g t)) = length (t_layouts t)"
    "t_current (SetGroupNoHeader i g t) = t_current t" for i g t
    by (simp_all add: SetGroupNoHeader_def upd_layout_def Let_def)
  have ok: "layout_ok 0" "layout_ok 1" "group_ok 0"
    by (simp_all add: layout_ok_def group_ok_def MAX_LAYOUTS_def TUI_MAX_GROUPS_def)
  have "layout_defined ?t j = (j < 2)" if "j < 9" for j
    using that ex [of 0] ex(3) [OF that] ok by (auto simp: defined_SetGroupNoHeader same)
  then have "first_defined 2 ?t" by (simp add: first_defined_def)
  moreover have "t_current ?t = 0" using ex(2) [of 0] by (simp add: same)
  ultimately show ?thesis using layout_keys_cycle [of 2 ?t 5] by simp
qed

section \<open>From a row to the screen\<close>

text \<open>The group a frame shows of a layout.\<close>

definition frame_group :: "tui_layout \<Rightarrow> nat \<Rightarrow> tui_group" where
  "frame_group l g = (case swap_buffers l of (ridx, l') \<Rightarrow> bf_groups (ly_bufs l' ! ridx) ! g)"

lemma frame_group_upd_row:
  assumes "tui_wf t" and "layout_ok i" and "group_ok g" and "row_ok r"
  shows "frame_group (t_layouts (upd_row i g r f t) ! nat i) (nat g)
     = (let l = t_layouts t ! nat i; G = bf_groups (ly_bufs l ! ly_widx l) ! nat g
        in G\<lparr>gr_rows := upd_at (nat r) f (gr_rows G), gr_nrows := max (gr_nrows G) (nat (r + 1))\<rparr>)"
proof -
  let ?l = "t_layouts t ! nat i"
  have i: "nat i < length (t_layouts t)" using assms(1,2) by (auto simp: layout_ok_def MAX_LAYOUTS_def tui_wf_def)
  then have l: "layout_wf ?l" using assms(1) by (simp add: tui_wf_def)
  then have w: "ly_widx ?l < length (ly_bufs ?l)" by (simp add: layout_wf_def)
  then have "data_wf (ly_bufs ?l ! ly_widx ?l)" using l by (simp add: layout_wf_def)
  then have "nat g < length (bf_groups (ly_bufs ?l ! ly_widx ?l))"
    using assms(3) by (auto simp: data_wf_def group_ok_def TUI_MAX_GROUPS_def)
  then show ?thesis
    using i w by (simp add: frame_group_def upd_row_def upd_layout_def upd_at_def swap_buffers_def Let_def)
qed

lemma put_cells_nth:
  "n \<le> length cells \<Longrightarrow> j < length cells \<Longrightarrow>
     put_cells n cols cells ! j = (if j < n then put_cell (cols ! j) (cells ! j) else cells ! j)"
proof (induction n)
  case (Suc n)
  then show ?case by (auto simp: upd_at_def nth_list_update less_Suc_eq)
qed simp

lemma clear_cells_nth:
  "j < length cells \<Longrightarrow> clear_cells n cells ! j = (if j < n then cells ! j else (cells ! j)[0 := NUL])"
proof (induction n cells arbitrary: j rule: clear_cells.induct)
  case (2 c cs)
  then show ?case by (cases j) auto
next
  case (3 n c cs)
  then show ?case by (cases j) auto
qed simp

lemma frame_row_wf:
  assumes "tui_wf t" and "layout_ok i" and "group_ok g" and "row_ok r"
  shows "row_wf (gr_rows (bf_groups (ly_bufs (t_layouts t ! nat i) ! ly_widx (t_layouts t ! nat i)) ! nat g) ! nat r)"
    and "nat r < length (gr_rows (bf_groups (ly_bufs (t_layouts t ! nat i) ! ly_widx (t_layouts t ! nat i)) ! nat g))"
proof -
  let ?l = "t_layouts t ! nat i"
  have "layout_wf ?l" using assms(1,2) by (auto simp: tui_wf_def layout_ok_def MAX_LAYOUTS_def)
  then have "data_wf (ly_bufs ?l ! ly_widx ?l)" by (simp add: layout_wf_def)
  then have "group_wf (bf_groups (ly_bufs ?l ! ly_widx ?l) ! nat g)"
    using assms(3) by (auto simp: data_wf_def group_ok_def TUI_MAX_GROUPS_def)
  moreover have "nat r < 20" using assms(4) by (auto simp: row_ok_def TUI_MAX_ROWS_PER_GROUP_def)
  ultimately show "row_wf (gr_rows (bf_groups (ly_bufs ?l ! ly_widx ?l) ! nat g) ! nat r)"
    and "nat r < length (gr_rows (bf_groups (ly_bufs ?l ! ly_widx ?l) ! nat g))"
    by (simp_all add: group_wf_def)
qed

text \<open>What a frame shows of a row: its label and the cells it uses.\<close>

definition shown_row :: "tui \<Rightarrow> int \<Rightarrow> int \<Rightarrow> int \<Rightarrow> char list \<times> char list list" where
  "shown_row t i g r =
     (let R = gr_rows (frame_group (t_layouts t ! nat i) (nat g)) ! nat r
      in (cstr (rw_label R), map cstr (take (rw_ncols R) (rw_col R))))"

lemma written_row:
  assumes "tui_wf t" and "layout_ok i" and "group_ok g" and "row_ok r"
    and "no_nul label" and "\<And>c. c \<in> set cols \<Longrightarrow> no_nul c"
  shows "let t' = SetRowData i g r label (map Some cols) t
         in shown_row t' i g r = (take 23 label, map (take 23) (take 10 cols)) \<and>
            nat r < gr_nrows (frame_group (t_layouts t' ! nat i) (nat g))"
proof -
  define n where "n = (if length (map Some cols) > TUI_MAX_COLS then TUI_MAX_COLS else length (map Some cols))"
  have n: "n = min (length cols) 10" by (simp add: n_def TUI_MAX_COLS_def min_def)
  let ?l = "t_layouts t ! nat i"
  let ?G = "bf_groups (ly_bufs ?l ! ly_widx ?l) ! nat g"
  let ?f = "\<lambda>r. r\<lparr>rw_label := strncpy_term (rw_label r) label TUI_DATA_COL_LEN, rw_ncols := n, rw_textMode := False,
              rw_col := clear_cells n (put_cells n (map Some cols) (rw_col r))\<rparr>"
  have upd: "SetRowData i g r label (map Some cols) t = upd_row i g r ?f t"
    using assms(2-4) by (simp add: SetRowData_def Let_def n_def [symmetric] del: length_map)
  note grp = frame_group_upd_row [OF assms(1-4), of ?f, unfolded Let_def]
  note R = frame_row_wf [OF assms(1-4)]
  let ?R = "gr_rows ?G ! nat r"
  have len: "length (rw_label ?R) = 24" "length (rw_col ?R) = 10" "\<forall>c \<in> set (rw_col ?R). length c = 24"
    using R(1) by (simp_all add: row_wf_def text_ok_def)
  have "shown_row (upd_row i g r ?f t) i g r
      = (cstr (strncpy_term (rw_label ?R) label 24),
         map cstr (take n (clear_cells n (put_cells n (map Some cols) (rw_col ?R)))))"
    using R(2) unfolding shown_row_def grp Let_def by (simp add: upd_at_def TUI_DATA_COL_LEN_def)
  moreover have "map cstr (take n (clear_cells n (put_cells n (map Some cols) (rw_col ?R)))) = map (take 23) (take 10 cols)"
  proof (rule nth_equalityI)
    show "length (map cstr (take n (clear_cells n (put_cells n (map Some cols) (rw_col ?R))))) =
        length (map (take 23) (take 10 cols))" using len(2) by (simp add: n min_def)
    fix j assume "j < length (map cstr (take n (clear_cells n (put_cells n (map Some cols) (rw_col ?R)))))"
    then have j: "j < n" "j < 10" "j < length cols" using len(2) by (simp_all add: n)
    then have "length (rw_col ?R ! j) = 24" "no_nul (cols ! j)" using len assms(6) by simp_all
    then have "cstr (strncpy_term (rw_col ?R ! j) (cols ! j) 24) = take 23 (cols ! j)"
      by (subst cstr_strncpy_term) simp_all
    then show "map cstr (take n (clear_cells n (put_cells n (map Some cols) (rw_col ?R)))) ! j =
        map (take 23) (take 10 cols) ! j"
      using j len(2) n by (simp add: clear_cells_nth put_cells_nth put_cell_def TUI_DATA_COL_LEN_def)
  qed
  moreover have "cstr (strncpy_term (rw_label ?R) label 24) = take 23 label"
    using len(1) assms(5) by (subst cstr_strncpy_term) simp_all
  moreover have "nat r < gr_nrows (frame_group (t_layouts (upd_row i g r ?f t) ! nat i) (nat g))"
    using assms(4) unfolding grp by (simp add: row_ok_def nat_add_distrib)
  ultimately show ?thesis unfolding upd Let_def by simp
qed

lemma ex_tui_wf: "tui_wf ex_tui"
proof -
  have "tui_inv ex_tui"
    unfolding ex_tui_def by (rule inv_new) (simp_all add: queue_init_holds)
  then show ?thesis by (simp add: tui_inv_def)
qed

text \<open>
  A row written by \<open>SetRowData\<close> is in the next frame: among the rows drawn, with its
  label and its first 10 cells, each cut to 23 characters, whatever was there before.
\<close>

theorem written_row_is_shown:
  assumes "tui_wf t" and "layout_ok i" and "group_ok g" and "row_ok r"
    and "no_nul label" and "\<And>c. c \<in> set cols \<Longrightarrow> no_nul c"
  shows "let t' = SetRowData i g r label (map Some cols) t
         in shown_row t' i g r = (take 23 label, map (take 23) (take 10 cols)) \<and>
            nat r < gr_nrows (frame_group (t_layouts t' ! nat i) (nat g))"
  using assms by (rule written_row)

theorem written_row_is_shown_witness:
  "shown_row (SetRowData 0 2 5 ''A long label, longer than the array'' (map Some [''1.5'', ''2.5'']) ex_tui) 0 2 5
     = (''A long label, longer th'', [''1.5'', ''2.5''])"
proof -
  have "c \<in> set [''1.5'', ''2.5''] \<Longrightarrow> no_nul c" for c by (auto simp: no_nul_def)
  then show ?thesis
    using written_row_is_shown [OF ex_tui_wf, of 0 2 5 "''A long label, longer than the array''" "[''1.5'', ''2.5'']"]
    by (simp add: layout_ok_def group_ok_def row_ok_def MAX_LAYOUTS_def TUI_MAX_GROUPS_def TUI_MAX_ROWS_PER_GROUP_def
        no_nul_def Let_def)
qed

text \<open>What a frame leaves of the layouts.\<close>

lemma RenderArea1_layouts:
  assumes "4 \<le> height"
  shows "t_layouts (RenderArea1 now startRow height width t)
     = (t_layouts t)[t_current t := snd (swap_buffers (t_layouts t ! t_current t))]"
proof -
  obtain ridx l where s: "swap_buffers (t_layouts t ! t_current t) = (ridx, l)" by fastforce
  have "t_layouts (draw_all now ds t') = t_layouts t'" for ds t'
    by (rule screen_fields(1)) simp
  then show ?thesis using assms by (simp add: RenderArea1_def s)
qed

text \<open>The row of the buffer that the next frame will not show but the one after it may.\<close>

definition hidden_row :: "tui \<Rightarrow> int \<Rightarrow> int \<Rightarrow> int \<Rightarrow> char list \<times> char list list" where
  "hidden_row t i g r =
     (let l = t_layouts t ! nat i; R = gr_rows (bf_groups (ly_bufs l ! (1 - ly_widx l)) ! nat g) ! nat r
      in (cstr (rw_label R), map cstr (take (rw_ncols R) (rw_col R))))"

lemma RenderArea1_wf: "tui_wf t \<Longrightarrow> 4 \<le> height \<Longrightarrow> tui_wf (RenderArea1 now startRow height width t)"
proof -
  assume t: "tui_wf t" and h: "4 \<le> height"
  then have "layout_wf (t_layouts t ! t_current t)" by (simp add: tui_wf_def)
  then have "\<forall>l \<in> set ((t_layouts t)[t_current t := snd (swap_buffers (t_layouts t ! t_current t))]). layout_wf l"
    using t set_update_subset_insert [of "t_layouts t" "t_current t"] layout_wf_swap by (fastforce simp: tui_wf_def)
  moreover obtain ridx l where s: "swap_buffers (t_layouts t ! t_current t) = (ridx, l)" by fastforce
  then have "t_current (RenderArea1 now startRow height width t) = t_current t"
    using h screen_fields(2) [OF screen_draw_all] by (simp add: RenderArea1_def)
  ultimately show ?thesis using t h by (simp add: tui_wf_def RenderArea1_layouts)
qed

text \<open>
  A second frame, for which another row of the group is written, shows of the first row what
  the buffer not written for the first frame held.
\<close>

lemma second_frame:
  assumes t: "tui_wf t" "layout_ok i" "group_ok g" "row_ok r" "row_ok r'" "r \<noteq> r'" "4 \<le> height"
    and i: "t_current t = nat i" and t1: "tui_wf (upd_row i g r f t)"
  shows "shown_row (upd_row i g r' f' (RenderArea1 now startRow height width (upd_row i g r f t))) i g r
     = hidden_row t i g r"
proof -
  let ?t1 = "upd_row i g r f t"
  let ?t2 = "RenderArea1 now startRow height width ?t1"
  let ?l = "t_layouts t ! nat i"
  have ilt: "nat i < length (t_layouts t)" using t(1,2) by (auto simp: layout_ok_def MAX_LAYOUTS_def tui_wf_def)
  then have "layout_wf ?l" using t(1) by (simp add: tui_wf_def)
  then have w: "ly_widx ?l < 2" "length (ly_bufs ?l) = 2" by (simp_all add: layout_wf_def)
  then have ne: "ly_widx ?l \<noteq> 1 - ly_widx ?l" by arith
  have cur: "t_current ?t1 = nat i" using i by (simp add: upd_row_def upd_layout_def)
  have l2: "ly_widx (t_layouts ?t2 ! nat i) = 1 - ly_widx ?l"
    "ly_bufs (t_layouts ?t2 ! nat i) ! (1 - ly_widx ?l) = ly_bufs ?l ! (1 - ly_widx ?l)"
    unfolding RenderArea1_layouts [OF t(7)] cur
    using ilt w ne by (auto simp: upd_row_def upd_layout_def upd_at_def swap_buffers_def Let_def nth_list_update)
  have "nat r' \<noteq> nat r" using t(4,5,6) by (auto simp: row_ok_def)
  note frame_group_upd_row [OF RenderArea1_wf [OF t1 t(7)] t(2,3,5), of f' now startRow width]
  then show ?thesis
    using \<open>nat r' \<noteq> nat r\<close> unfolding shown_row_def hidden_row_def Let_def
    by (simp only: l2) (simp add: upd_at_def)
qed

text \<open>
  The double buffer forgets rows that are not written for every frame: of two rows
  written for two frames in turn, the second frame shows the second one and, in place of the
  first, an empty row.
\<close>

theorem double_buffer_loses_rows:
  "let t1 = SetRowData 0 0 0 ''a'' (map Some [''1'']) ex_tui;
       t2 = SetRowData 0 0 1 ''b'' (map Some [''2'']) (RenderArea1 now 1 10 80 t1)
   in shown_row t1 0 0 0 = (''a'', [''1'']) \<and>
      shown_row t2 0 0 1 = (''b'', [''2'']) \<and> shown_row t2 0 0 0 = ([], [])"
proof -
  let ?t1 = "SetRowData 0 0 0 ''a'' (map Some [''1'']) ex_tui"
  let ?t2 = "RenderArea1 now 1 10 80 ?t1"
  have ok: "layout_ok 0" "group_ok 0" "row_ok 0" "row_ok 1"
    by (simp_all add: layout_ok_def group_ok_def row_ok_def MAX_LAYOUTS_def TUI_MAX_GROUPS_def TUI_MAX_ROWS_PER_GROUP_def)
  have wf: "tui_wf ?t1" by (rule SetRowData_wf [OF ex_tui_wf])
  then have wf2: "tui_wf ?t2" by (rule RenderArea1_wf) simp
  have nn: "c \<in> set [[d]] \<Longrightarrow> d \<noteq> NUL \<Longrightarrow> no_nul c" "d \<noteq> NUL \<Longrightarrow> no_nul [d]" for c and d :: char
    by (auto simp: no_nul_def)
  have upd: "\<exists>f. SetRowData 0 0 r lbl cols t = upd_row 0 0 r f t" if "row_ok r" for r lbl cols t
    using ok that unfolding SetRowData_def Let_def by auto
  from upd [OF ok(3)] obtain f where f: "?t1 = upd_row 0 0 0 f ex_tui" by metis
  from upd [OF ok(4)] obtain f' where f': "SetRowData 0 0 1 ''b'' (map Some [''2'']) ?t2 = upd_row 0 0 1 f' ?t2" by metis
  have "shown_row (upd_row 0 0 1 f' ?t2) 0 0 0 = hidden_row ex_tui 0 0 0"
    unfolding f by (rule second_frame) (simp_all only: ok ex_tui_wf f [symmetric] wf, simp_all add: ex_tui_def RtTui_new_def)
  also have "\<dots> = ([], [])"
    by (simp add: hidden_row_def ex_tui_def RtTui_new_def new_layout_def new_data_def new_row_def MAX_LAYOUTS_def
        cstr_def Let_def takeWhile_replicate)
  finally have lost: "shown_row (SetRowData 0 0 1 ''b'' (map Some [''2'']) ?t2) 0 0 0 = ([], [])"
    unfolding f' .
  have "shown_row ?t1 0 0 0 = (''a'', [''1''])"
    using written_row [OF ex_tui_wf ok(1-3), of "''a''" "[''1'']"] nn by (simp add: Let_def)
  moreover have "shown_row (SetRowData 0 0 1 ''b'' (map Some [''2'']) ?t2) 0 0 1 = (''b'', [''2''])"
    using written_row [OF wf2 ok(1,2,4), of "''b''" "[''2'']"] nn by (simp add: Let_def)
  ultimately show ?thesis using lost by (simp add: Let_def)
qed

section \<open>What the terminal receives\<close>

lemma tui_write_loop_sent:
  "written \<le> length out \<Longrightarrow>
     (case tui_write_loop out written d polls of
        (failed, w, d', polls') \<Rightarrow> written \<le> w \<and> w \<le> length out \<and>
          sent d' = sent d @ take (w - written) (drop written out))"
proof (induction out written d polls rule: tui_write_loop.induct)
  case (1 out written d polls)
  obtain n d' where sw: "sys_write (drop written out) d = (n, d')" by fastforce
  show ?case
  proof (cases "written < length out")
    case False
    then show ?thesis using "1.prems" by (subst tui_write_loop.simps) simp
  next
    case True
    note eq = tui_write_loop.simps [of out written d polls]
    show ?thesis
    proof (cases "n < 0")
      case neg: True
      have same: "sent d' = sent d"
        using sw neg by (cases rule: sys_write_cases [OF sw]) auto
      show ?thesis
      proof (cases "errno d' = EINTR")
        case eintr: True
        have IH: "case tui_write_loop out written d' polls of (failed, w, d'', polls') \<Rightarrow>
            written \<le> w \<and> w \<le> length out \<and> sent d'' = sent d' @ take (w - written) (drop written out)"
          by (rule "1.IH"(1) [OF _ sw [symmetric] neg eintr "1.prems"]) (use True in simp)
        then show ?thesis unfolding eq using True sw neg eintr same by simp
      next
        case ne: False
        show ?thesis
        proof (cases "EAGAIN_or_EWOULDBLOCK (errno d') \<and> polls \<noteq> [] \<and> hd polls")
          case poll: True
          then obtain ps where ps: "polls = True # ps" by (cases polls) auto
          have IH: "case tui_write_loop out written d' ps of (failed, w, d'', polls') \<Rightarrow>
              written \<le> w \<and> w \<le> length out \<and> sent d'' = sent d' @ take (w - written) (drop written out)"
            using "1.IH"(2) [OF _ sw [symmetric] neg ne _ ps] True poll "1.prems" by simp
          then show ?thesis unfolding eq using True sw neg ne poll ps same by simp
        next
          case False
          then show ?thesis
            unfolding eq using True sw neg ne same "1.prems"
            by (auto split: list.splits bool.splits)
        qed
      qed
    next
      case pos: False
      then obtain m where m: "n = int m" "m \<le> length (drop written out)" "sent d' = sent d @ take m (drop written out)"
        using sw by (cases rule: sys_write_cases [OF sw]) auto
      show ?thesis
      proof (cases "n = 0")
        case True
        then show ?thesis unfolding eq using \<open>written < length out\<close> sw m "1.prems" by simp
      next
        case nz: False
        have IH: "case tui_write_loop out (written + nat n) d' polls of (failed, w, d'', polls') \<Rightarrow>
            written + nat n \<le> w \<and> w \<le> length out \<and>
            sent d'' = sent d' @ take (w - (written + nat n)) (drop (written + nat n) out)"
          using "1.IH"(3) [OF _ sw [symmetric] pos nz] True m by simp
        obtain failed w d'' polls' where l: "tui_write_loop out (written + nat n) d' polls = (failed, w, d'', polls')"
          by (cases "tui_write_loop out (written + nat n) d' polls") auto
        have "sent d'' = sent d @ take (w - written) (drop written out)"
        proof -
          have "w - written = m + (w - (written + m))" using IH l m by simp
          moreover have "take (m + (w - (written + m))) (drop written out)
              = take m (drop written out) @ take (w - (written + m)) (drop (written + m) out)"
            by (simp add: take_add add.commute)
          ultimately show ?thesis using IH l m by simp
        qed
        then show ?thesis unfolding eq using True sw pos nz IH l by simp
      qed
    qed
  qed
qed

text \<open>
  A flush sends the buffered bytes in order, as many as the terminal takes: afterwards
  what was sent and what is kept make up what was to be sent, unless the terminal reported an
  error, in which case exactly the bytes already sent are kept, and no others.
\<close>

theorem tui_flush_exact:
  "\<exists>w. w \<le> length (t_out t) \<and> sent (t_dev (FlushOutput now t)) = sent (t_dev t) @ take w (t_out t) \<and>
      t_out (FlushOutput now t) =
        (if fst (tui_write_loop (t_out t) 0 (t_dev t) (t_polls t)) then take w (t_out t) else drop w (t_out t))"
proof -
  obtain failed w d polls where l: "tui_write_loop (t_out t) 0 (t_dev t) (t_polls t) = (failed, w, d, polls)"
    by (cases "tui_write_loop (t_out t) 0 (t_dev t) (t_polls t)") auto
  show ?thesis
  proof (cases "t_out t = []")
    case True
    then show ?thesis by (simp add: FlushOutput_def)
  next
    case False
    then show ?thesis
      using tui_write_loop_sent [of 0 "t_out t" "t_dev t" "t_polls t"] l
      by (intro exI [of _ w]) (simp add: FlushOutput_def Let_def)
  qed
qed

text \<open>
  After an error the bytes that had been sent before it are sent again with the next
  flush, and those behind them are lost.
\<close>

theorem tui_error_resends:
  "sent (t_dev (FlushOutput 0 (FlushOutput 0
     (ex_tui\<lparr>t_out := ''abcd'', t_dev := \<lparr>answers = [Wrote 2, Failed EIO, Wrote 4], sent = [], errno = EOK\<rparr>\<rparr>)))) = ''abab''"
  by (simp add: FlushOutput_def tui_write_loop.simps sys_write.simps ex_tui_def RtTui_new_def EAGAIN_or_EWOULDBLOCK_def)

section \<open>What a frame draws\<close>

text \<open>The screen rows a list of drawing calls starts at their first column, in order.\<close>

fun row_start :: "draw \<Rightarrow> int list" where
  "row_start (At r c s) = (if c = 1 then [r] else [])"
| "row_start (Put s) = []"
| "row_start (App s) = []"
| "row_start (Bar n) = []"

definition rows_of :: "draw list \<Rightarrow> int list" where
  "rows_of ds = concat (map row_start ds)"

lemma rows_of_simps [simp]:
  "rows_of [] = []" "rows_of (d # ds) = row_start d @ rows_of ds" "rows_of (ds @ ds') = rows_of ds @ rows_of ds'"
  by (simp_all add: rows_of_def)

lemma rows_of_puts [simp]:
  "rows_of (map (\<lambda>c. Put (f c)) cs) = []" "rows_of (map (\<lambda>c. if b c then Put (f c) else Put (g c)) cs) = []"
  by (induction cs) simp_all

lemma upto_join: "i \<le> j \<Longrightarrow> j \<le> k \<Longrightarrow> [i..j - 1] @ [j..k - 1] = [i..k - (1 :: int)]"
  by (cases "j = k") (simp_all add: upto_split1 [of i j "k - 1"])

lemma upto_snoc: "i \<le> j \<Longrightarrow> [i..j - 1] @ [j] = [i..j :: int]"
  using upto_split1 [of i j j] by simp

lemma rows_of_separator [simp]: "rows_of (separator cur width) = [cur]"
  by (simp add: separator_def)

lemma rows_of_header:
  assumes "group_header width botRow gh cur = (ds, cur')" and "cur \<le> botRow" and "1 < width"
  shows "rows_of ds = [cur..cur' - 1] \<and> cur \<le> cur' \<and> cur' \<le> botRow"
proof (cases "gh_hideHeader gh \<or> \<not> cur < botRow")
  case True
  then show ?thesis using assms by (cases "gh_hideHeader gh") (auto simp: group_header_def Let_def)
next
  case False
  show ?thesis
  proof (cases "cur + 1 < botRow")
    case True
    have "[cur..cur + 1] = [cur, cur + 1]" by (simp add: upto.simps)
    moreover have "cur' - 1 = cur + 1" "rows_of ds = [cur, cur + 1]"
      using assms False True by (auto simp: group_header_def right_edge_def Let_def)
    ultimately show ?thesis using True by (simp add: add.commute)
  next
    case last: False
    then have "cur' = cur + 1" "rows_of ds = [cur]"
      using assms False by (auto simp: group_header_def right_edge_def Let_def)
    then show ?thesis using False by simp
  qed
qed

lemma rows_of_data_row: "1 < width \<Longrightarrow> rows_of (data_row width dr cur) = [cur]"
  by (simp add: data_row_def right_edge_def)

lemma rows_of_data_rows:
  "data_rows width botRow drs cur = (ds, cur') \<Longrightarrow> cur \<le> botRow \<Longrightarrow> 1 < width \<Longrightarrow>
     rows_of ds = [cur..cur' - 1] \<and> cur \<le> cur' \<and> cur' \<le> botRow"
proof (induction drs arbitrary: cur ds)
  case (Cons dr drs)
  show ?case
  proof (cases "cur < botRow")
    case True
    obtain ds' where d: "data_rows width botRow drs (cur + 1) = (ds', cur')" "ds = data_row width dr cur @ ds'"
      using Cons.prems(1) True by (auto split: prod.splits)
    have "rows_of ds' = [cur + 1..cur' - 1] \<and> cur + 1 \<le> cur' \<and> cur' \<le> botRow"
      using Cons.IH [OF d(1)] True Cons.prems(3) by simp
    then show ?thesis
      using d(2) Cons.prems(3) upto_join [of cur "cur + 1" cur'] by (simp add: rows_of_data_row)
  qed (use Cons.prems in auto)
qed auto

lemma rows_of_groups:
  "area1_groups width botRow gs cur first = (ds, cur') \<Longrightarrow> cur \<le> botRow \<Longrightarrow> 1 < width \<Longrightarrow>
     rows_of ds = [cur..cur' - 1] \<and> cur \<le> cur' \<and> cur' \<le> botRow"
proof (induction width botRow gs cur first arbitrary: ds cur' rule: area1_groups.induct)
  case (1 width botRow cur first)
  then show ?case by auto
next
  case (2 width botRow gh gd gs cur first)
  show ?case
  proof (cases "\<not> cur < botRow")
    case True
    then show ?thesis using "2.prems" by auto
  next
    case False
    note lt = False
    show ?thesis
    proof (cases "gh_active gh")
      case False
      then show ?thesis using "2.IH"(1) [OF lt] "2.prems" lt by simp
    next
      case True
      obtain sep cur1 where sep: "(if \<not> first \<and> cur < botRow then (separator cur width, cur + 1) else ([], cur)) = (sep, cur1)"
        by fastforce
      obtain hdr cur2 where hdr: "group_header width botRow gh cur1 = (hdr, cur2)" by fastforce
      obtain rows cur3 where rows: "data_rows width botRow (take (gr_nrows gd) (gr_rows gd)) cur2 = (rows, cur3)"
        by fastforce
      obtain rest cur4 where rest: "area1_groups width botRow gs cur3 False = (rest, cur4)" by fastforce
      have ds: "ds = sep @ hdr @ rows @ rest" "cur' = cur4"
        using "2.prems"(1) lt True sep hdr rows rest by simp_all
      have s: "rows_of sep = [cur..cur1 - 1] \<and> cur \<le> cur1 \<and> cur1 \<le> botRow"
        using sep lt by (auto split: if_splits)
      have h: "rows_of hdr = [cur1..cur2 - 1] \<and> cur1 \<le> cur2 \<and> cur2 \<le> botRow"
        using rows_of_header [OF hdr] s "2.prems"(3) by simp
      have r: "rows_of rows = [cur2..cur3 - 1] \<and> cur2 \<le> cur3 \<and> cur3 \<le> botRow"
        using rows_of_data_rows [OF rows] h "2.prems"(3) by simp
      have g: "rows_of rest = [cur3..cur4 - 1] \<and> cur3 \<le> cur4 \<and> cur4 \<le> botRow"
        using "2.IH"(2) [OF lt _ sep [symmetric] refl hdr [symmetric] refl rows [symmetric] refl rest]
          True r "2.prems"(3) by simp
      show ?thesis
        using s h r g upto_join [of cur cur1 cur2] upto_join [of cur cur2 cur3] upto_join [of cur cur3 cur4]
        unfolding ds by (simp del: append_assoc add: append_assoc [symmetric])
    qed
  qed
qed

lemma rows_of_blank: "rows_of (map (blank_row width) rs) = rs"
  by (induction rs) (simp_all add: blank_row_def)

lemma rows_of_area1:
  assumes "2 \<le> height" and "1 < width"
  shows "rows_of (area1_draw startRow height width ridx l) = [startRow..startRow + height - 1]"
proof -
  let ?bot = "startRow + height - 1"
  obtain groups cur where g: "area1_groups width ?bot (zip (ly_headers l) (bf_groups (ly_bufs l ! ridx))) (startRow + 1) True
      = (groups, cur)" by fastforce
  have r: "rows_of groups = [startRow + 1..cur - 1] \<and> startRow + 1 \<le> cur \<and> cur \<le> ?bot"
    using rows_of_groups [OF g] assms by simp
  have "rows_of (area1_draw startRow height width ridx l) = [startRow] @ rows_of groups @ [cur..?bot - 1] @ [?bot]"
    by (simp add: area1_draw_def area1_top_def g Let_def rows_of_blank del: upto.simps)
  also have "\<dots> = [startRow] @ ([startRow + 1..cur - 1] @ [cur..?bot - 1]) @ [?bot]"
    using r by simp
  also have "\<dots> = [startRow..startRow] @ [startRow + 1..?bot - 1] @ [?bot]"
    using r by (simp only: upto_join upto_single)
  also have "\<dots> = [startRow..?bot]"
    using assms(1) upto_split1 [of startRow "startRow + 1" ?bot] upto_snoc [of "startRow + 1" ?bot] by simp
  finally show ?thesis .
qed

lemma rows_of_concat: "rows_of (concat (map f xs)) = concat (map (\<lambda>x. rows_of (f x)) xs)"
  by (induction xs) simp_all

lemma rows_of_line: "1 < width \<Longrightarrow> rows_of (area2_line r width m) = [r]"
  by (cases m) (simp_all add: area2_line_def right_edge_def)

lemma rows_of_scrollbar: "col \<noteq> 1 \<Longrightarrow> rows_of (RenderScrollbar thumb startRow height col n vis offset) = []"
proof -
  assume "col \<noteq> 1"
  then have "rows_of (map (\<lambda>r. At (startRow + r) col (f r)) rs) = []" for f rs
    by (induction rs) simp_all
  then show ?thesis by (simp add: RenderScrollbar_def Let_def)
qed

lemma upto_upt: "map (\<lambda>r. a + int r) [0..<n] = [a..a + int n - 1]"
proof (induction n)
  case (Suc n)
  then show ?case using upto_snoc [of a "a + int n"] by simp
qed simp

lemma rows_of_area2:
  assumes "3 \<le> height" and "3 \<le> width"
  shows "rows_of (area2_draw thumb startRow height width t) = [startRow..startRow + height - 1]"
proof -
  let ?bot = "startRow + height - 1"
  obtain startIdx linesToShow offset where w: "area2_window (nat (height - 2)) t = (startIdx, linesToShow, offset)"
    by (cases "area2_window (nat (height - 2)) t") auto
  have "rows_of (area2_draw thumb startRow height width t)
      = [startRow] @ map (\<lambda>r. startRow + 1 + int r) [0..<nat (height - 2)] @ [?bot]"
    using assms by (simp add: area2_draw_def w Let_def rows_of_concat rows_of_line rows_of_scrollbar)
  also have "\<dots> = [startRow..startRow] @ [startRow + 1..?bot - 1] @ [?bot]"
    using assms(1) by (simp add: upto_upt)
  also have "\<dots> = [startRow..?bot]"
    using assms(1) upto_split1 [of startRow "startRow + 1" ?bot] upto_snoc [of "startRow + 1" ?bot] by simp
  finally show ?thesis .
qed

lemma area_heights_split:
  assumes "10 \<le> rows" and "area_heights rows needed = (a1, a2)"
  shows "4 \<le> a1 \<and> 3 \<le> a2 \<and> a1 + a2 + 1 = rows"
  using assms by (auto simp: area_heights_def AREA2_MIN_ROWS_def Let_def)

subsection \<open>The bytes of a frame\<close>

fun draw_text :: "draw \<Rightarrow> char list" where
  "draw_text (At r c s) = cursor r c @ s"
| "draw_text (Put s) = s"
| "draw_text (App s) = s"
| "draw_text (Bar n) = concat (replicate (nat n) HBAR)"

definition frame_text :: "draw list \<Rightarrow> char list" where
  "frame_text ds = concat (map draw_text ds)"

lemma tui_append_fits:
  "length (t_out t) + length s < OUT_BUF_SIZE \<Longrightarrow> AppendData now s t = t\<lparr>t_out := t_out t @ s\<rparr>"
  by (simp add: AppendData_def Let_def)

lemma SafeSnprintf_fits:
  "length (t_out t) + length s < OUT_BUF_SIZE \<Longrightarrow> SafeSnprintf s t = t\<lparr>t_out := t_out t @ s\<rparr>"
  by (simp add: SafeSnprintf_def Let_def)

lemma hbar_fits:
  "length (t_out t) + length (concat (replicate k HBAR)) < OUT_BUF_SIZE \<Longrightarrow>
     (AppendData now HBAR ^^ k) t = t\<lparr>t_out := t_out t @ concat (replicate k HBAR)\<rparr>"
proof (induction k arbitrary: t)
  case (Suc k)
  let ?t = "t\<lparr>t_out := t_out t @ HBAR\<rparr>"
  have "(AppendData now HBAR ^^ Suc k) t = (AppendData now HBAR ^^ k) (AppendData now HBAR t)"
    by (simp add: funpow_swap1)
  also have "AppendData now HBAR t = ?t"
    using Suc.prems by (intro tui_append_fits) simp
  also have "(AppendData now HBAR ^^ k) ?t = ?t\<lparr>t_out := t_out ?t @ concat (replicate k HBAR)\<rparr>"
    using Suc.prems by (intro Suc.IH) simp
  finally show ?case by simp
qed simp

lemma draw_one_fits:
  "length (t_out t) + length (draw_text d) < OUT_BUF_SIZE \<Longrightarrow> draw_one now d t = t\<lparr>t_out := t_out t @ draw_text d\<rparr>"
  by (cases d) (simp_all add: tui_append_fits SafeSnprintf_fits AppendData_hbar_def hbar_fits)

lemma draw_all_fits:
  "length (t_out t) + length (frame_text ds) < OUT_BUF_SIZE \<Longrightarrow>
     draw_all now ds t = t\<lparr>t_out := t_out t @ frame_text ds\<rparr>"
proof (induction ds arbitrary: t)
  case (Cons d ds)
  have "draw_one now d t = t\<lparr>t_out := t_out t @ draw_text d\<rparr>"
    using Cons.prems by (intro draw_one_fits) (simp add: frame_text_def)
  then show ?case
    using Cons.IH [of "t\<lparr>t_out := t_out t @ draw_text d\<rparr>"] Cons.prems by (simp add: draw_all_def frame_text_def)
qed (simp add: draw_all_def frame_text_def)

lemma draw_all_append: "draw_all now (ds @ ds') t = draw_all now ds' (draw_all now ds t)"
  by (simp add: draw_all_def)

text \<open>The part of the state the second area is drawn from.\<close>

definition log_view :: "tui \<Rightarrow> Entry list \<times> nat \<times> nat \<times> nat \<times> bool" where
  "log_view t = (t_history t, t_logCount t, t_logHead t, t_scroll t, t_autoScroll t)"

lemma log_view_screen: "screen t = screen t' \<Longrightarrow> log_view t = log_view t'"
  using screen_fields(3-7) [of t t'] by (simp only: log_view_def)

lemma log_view_draw [simp]:
  "log_view (FlushOutput now t) = log_view t" "log_view (draw_all now ds t) = log_view t"
  by (rule log_view_screen, simp)+

lemma log_view_updates [simp]:
  "log_view (t\<lparr>t_out := x\<rparr>) = log_view t" "log_view (t\<lparr>t_layouts := ls\<rparr>) = log_view t"
  "log_view (t\<lparr>t_rows := r\<rparr>) = log_view t" "log_view (t\<lparr>t_cols := c\<rparr>) = log_view t"
  "log_view (t\<lparr>t_prevRows := r\<rparr>) = log_view t" "log_view (t\<lparr>t_prevCols := c\<rparr>) = log_view t"
  "log_view (t\<lparr>t_changed := b\<rparr>) = log_view t" "log_view (t\<lparr>t_queue := q\<rparr>) = log_view t"
  by (simp_all add: log_view_def)

lemma log_view_clear [simp]: "log_view (clear_if_changed now t) = log_view t"
proof -
  have "log_view (AppendData now s t') = log_view t'" for s t' by (rule log_view_screen) simp
  then show ?thesis by (simp add: clear_if_changed_def Let_def)
qed

lemma area2_draw_view:
  "log_view t = log_view t' \<Longrightarrow> area2_draw thumb r h w t = area2_draw thumb r h w t'"
  unfolding log_view_def area2_draw_def area2_window_def shown_entry_def by (simp only: prod.inject)

lemma render_frame_drawing:
  assumes "10 \<le> t_rows t" and "3 \<le> t_cols t"
  obtains a1 a2 upper lower t0 where "4 \<le> a1" "5 \<le> a2" "a1 + a2 + 1 = t_rows t" "t_out t0 = []" "log_view t0 = log_view t"
    "rows_of upper = [1..a1]" "rows_of lower = [t_rows t]"
    "render_frame thumb now needed t =
       FlushOutput now (draw_all now (upper @ area2_draw thumb (a1 + 1) a2 (t_cols t) t @ lower) t0)"
proof -
  let ?rows = "t_rows t" and ?cols = "t_cols t"
  obtain a1 a2 where a: "area_heights ?rows needed = (a1, a2)" by fastforce
  note h = area_heights_split [OF assms(1) a]
  let ?t = "(FlushOutput now (clear_if_changed now t))\<lparr>t_out := []\<rparr>"
  obtain ridx l where s: "swap_buffers (t_layouts ?t ! t_current ?t) = (ridx, l)" by fastforce
  define t0 where "t0 = ?t\<lparr>t_layouts := (t_layouts ?t)[t_current ?t := l]\<rparr>"
  define d1 where "d1 = area1_draw 1 a1 ?cols ridx l"
  define d2 where "d2 = area2_draw thumb (a1 + 1) a2 ?cols (draw_all now d1 t0)"
  define d3 where "d3 = [cmd_line ?rows (draw_all now d2 (draw_all now d1 t0))]"
  have v: "log_view t0 = log_view t" by (simp add: t0_def)
  have d2: "d2 = area2_draw thumb (a1 + 1) a2 ?cols t" unfolding d2_def by (rule area2_draw_view) (simp add: v)
  have "RenderArea1 now 1 a1 ?cols ?t = draw_all now d1 t0"
    using h s by (simp add: RenderArea1_def t0_def d1_def)
  then have render: "render_frame thumb now needed t = FlushOutput now (draw_all now (d1 @ d2 @ d3) t0)"
    by (simp add: render_frame_def a Let_def RenderArea2_def RenderCmdLine_def d2_def d3_def draw_all_append)
  have "rows_of d1 = [1..a1]" "rows_of d3 = [?rows]"
    using h assms(2) by (simp_all add: d1_def d3_def rows_of_area1 cmd_line_def)
  moreover have "t_out t0 = []" by (simp add: t0_def)
  moreover have "5 \<le> a2" using a assms(1) by (auto simp: area_heights_def AREA2_MIN_ROWS_def Let_def)
  ultimately show thesis using that [of a1 a2 t0 d1 d3] h v render unfolding d2 by blast
qed

lemma frame_rows:
  assumes "4 \<le> a1" and "5 \<le> a2" and "a1 + a2 + 1 = rows" and "rows_of upper = [1..a1]" and "rows_of lower = [rows]" and "3 \<le> cols"
  shows "rows_of (upper @ area2_draw thumb (a1 + 1) a2 cols t @ lower) = [1..rows]"
proof -
  have "rows_of (upper @ area2_draw thumb (a1 + 1) a2 cols t @ lower) = [1..a1] @ [a1 + 1..rows - 1] @ [rows]"
    using assms by (simp add: rows_of_area2 algebra_simps)
  also have "\<dots> = [1..rows]"
    using assms upto_snoc [of "a1 + 1" rows] upto_split1 [of 1 "a1 + 1" rows] by simp
  finally show ?thesis .
qed



subsection \<open>The width of the borders\<close>

text \<open>
  The columns a text takes: its code points outside escape sequences, which run from the
  escape character to a letter.
\<close>

fun columns :: "bool \<Rightarrow> char list \<Rightarrow> nat" where
  "columns esc [] = 0"
| "columns esc (c # cs) =
     (if esc then columns ((of_char c :: nat) < 64 \<or> c = CHR ''['') cs
      else if c = ESC then columns True cs
      else (if (of_char c :: nat) div 64 = 2 then 0 else 1) + columns False cs)"

lemma bottom_border_fits:
  "columns False (frame_text [At 9 1 (FG_CYAN @ BOT_LEFT), Bar (80 - 2), App BOT_RIGHT, App RESET]) = 80"
  by code_simp

text \<open>
  The top border of area 1 is two columns wider than the screen: \<open>remain_top\<close> leaves room
  for the title and two corners, but two bars are drawn around the title as well.
\<close>

lemma top_border_too_wide:
  "columns False (frame_text (area1_top 1 80 (area1_title (new_layout 0)))) = 82"
  by code_simp

section \<open>The terminal is given back\<close>

text \<open>The mode of the terminal and the descriptors that do not block, after a list of calls.\<close>

fun term_state :: "term_call list \<Rightarrow> bool \<times> int set \<Rightarrow> bool \<times> int set" where
  "term_state [] m = m"
| "term_state (c # cs) (raw, nb) =
     term_state cs
       (case c of
          Save_termios \<Rightarrow> (raw, nb)
        | Raw_termios \<Rightarrow> (True, nb)
        | Old_termios \<Rightarrow> (False, nb)
        | Nonblock fd on \<Rightarrow> (raw, if on then insert fd nb else nb - {fd})
        | Close_fd fd \<Rightarrow> (raw, nb))"

lemma term_state_append: "term_state (cs @ cs') m = term_state cs' (term_state cs m)"
  by (induction cs m rule: term_state.induct) simp_all

definition term_inv :: "tui \<Rightarrow> bool" where
  "term_inv t \<longleftrightarrow>
     (case term_state (t_calls t) (False, {}) of
        (raw, nb) \<Rightarrow> (if t_termActive t then 0 \<le> t_fd t \<and> nb \<subseteq> {0, t_fd t} else \<not> raw \<and> nb = {}))"

definition term_fields :: "tui \<Rightarrow> term_call list \<times> bool \<times> int" where
  "term_fields t = (t_calls t, t_termActive t, t_fd t)"

lemma term_inv_fields: "term_fields t' = term_fields t \<Longrightarrow> term_inv t \<Longrightarrow> term_inv t'"
  by (simp add: term_fields_def term_inv_def split: prod.splits)

lemma term_fields_screen: "screen t' = screen t \<Longrightarrow> term_fields t' = term_fields t"
proof -
  assume "screen t' = screen t"
  then have "term_fields (screen t') = term_fields (screen t)" by simp
  then show ?thesis by (simp add: term_fields_def screen_def)
qed

lemma term_fields_updates [simp]:
  "term_fields (t\<lparr>t_layouts := a\<rparr>) = term_fields t" "term_fields (t\<lparr>t_current := b\<rparr>) = term_fields t"
  "term_fields (t\<lparr>t_changed := c\<rparr>) = term_fields t" "term_fields (t\<lparr>t_scroll := s\<rparr>) = term_fields t"
  "term_fields (t\<lparr>t_autoScroll := e\<rparr>) = term_fields t" "term_fields (t\<lparr>t_lastKey := k\<rparr>) = term_fields t"
  "term_fields (t\<lparr>t_queue := q\<rparr>) = term_fields t" "term_fields (t\<lparr>t_rows := m\<rparr>) = term_fields t"
  "term_fields (t\<lparr>t_cols := n\<rparr>) = term_fields t" "term_fields (t\<lparr>t_prevRows := m\<rparr>) = term_fields t"
  "term_fields (t\<lparr>t_prevCols := n\<rparr>) = term_fields t" "term_fields (t\<lparr>t_out := x\<rparr>) = term_fields t"
  "term_fields (t\<lparr>t_history := h\<rparr>) = term_fields t" "term_fields (t\<lparr>t_logCount := i\<rparr>) = term_fields t"
  "term_fields (t\<lparr>t_logHead := i\<rparr>) = term_fields t" "term_fields (t\<lparr>t_running := c\<rparr>) = term_fields t"
  by (simp_all add: term_fields_def)

lemma term_fields_draw [simp]:
  "term_fields (FlushOutput now t) = term_fields t" "term_fields (AppendData now s t) = term_fields t"
  "term_fields (draw_all now ds t) = term_fields t"
  by (rule term_fields_screen, simp)+

lemma term_parts:
  "t_calls (FlushOutput now t) = t_calls t" "t_fd (FlushOutput now t) = t_fd t"
  "t_termActive (FlushOutput now t) = t_termActive t"
  "t_calls (AppendData now s t) = t_calls t" "t_fd (AppendData now s t) = t_fd t"
  "t_termActive (AppendData now s t) = t_termActive t"
  "t_calls (term_do c t) = t_calls t @ [c]" "t_fd (term_do c t) = t_fd t"
  "t_termActive (term_do c t) = t_termActive t"
  using term_fields_draw(1) [of now t] term_fields_draw(2) [of now s t]
  by (simp_all add: term_fields_def term_do_def)

lemma term_fields_setters [simp]:
  "term_fields (SetLayoutName i n t) = term_fields t" "term_fields (SetGroup i g lbl hdrs t) = term_fields t"
  "term_fields (SetGroupNoHeader i g t) = term_fields t" "term_fields (SetRowData i g r lbl cols t) = term_fields t"
  "term_fields (SetTextRow i g r lbl s t) = term_fields t"
  using setter_layouts [where t = t] term_fields_updates(1) by metis+

lemma term_fields_keys [simp]:
  "term_fields (switch_layout i t) = term_fields t" "term_fields (scroll_key buf page t) = term_fields t"
  "term_fields (HandleKey buf t) = term_fields t"
  by (simp_all add: switch_layout_def scroll_key_def HandleKey_def Let_def)

lemma term_fields_handle_keys [simp]: "term_fields (handle_keys kbuf t) = term_fields t"
proof (induction kbuf t rule: handle_keys.induct)
  case (1 kbuf t)
  show ?case unfolding handle_keys.simps [of kbuf t] Let_def using "1.IH"(1) [OF _ _ refl] "1.IH"(2) by simp
qed

lemma term_fields_keep [simp]: "term_fields (fold keep_entry es t) = term_fields t"
  by (induction es arbitrary: t) (simp_all add: keep_entry_def Let_def)

lemma term_fields_drain: "tui_inv t \<Longrightarrow> drain_log t = Some t' \<Longrightarrow> term_fields t' = term_fields t"
proof -
  assume t: "tui_inv t" and d: "drain_log t = Some t'"
  then obtain es where es: "queue_holds 10 (t_queue t) es" by (auto simp: tui_inv_def)
  obtain q where "drain (TryPop QUEUE_CAPACITY) keep_entry (t_queue t) t 0 = Some (q, fold keep_entry es t, 0 + length es)"
    using rtq.drain_returns [OF es, of keep_entry t 0] by blast
  then show ?thesis using d by (auto simp: drain_log_def)
qed

lemma term_fields_render [simp]: "term_fields (render_frame thumb now needed t) = term_fields t"
  by (simp add: render_frame_def Let_def RenderArea1_def RenderArea2_def RenderCmdLine_def clear_if_changed_def
      split: prod.split)

lemma term_fields_size [simp]: "term_fields (TermGetSize ws t) = term_fields t"
  by (simp add: TermGetSize_def split: option.split prod.split)

lemma term_fields_Tick: "tui_inv t \<Longrightarrow> Tick thumb now kbuf ws t = Some t' \<Longrightarrow> term_fields t' = term_fields t"
  using term_fields_drain [of t] by (auto simp: Tick_def Let_def split: if_splits)

lemma term_inv_do_fields: "term_inv t = (case term_fields t of (cs, act, fd) \<Rightarrow>
     (case term_state cs (False, {}) of (raw, nb) \<Rightarrow> (if act then 0 \<le> fd \<and> nb \<subseteq> {0, fd} else \<not> raw \<and> nb = {})))"
  by (simp add: term_inv_def term_fields_def)

lemma term_fields_term_do: "term_fields (term_do c t) = (t_calls t @ [c], t_termActive t, t_fd t)"
  by (simp add: term_fields_def term_do_def)

lemma term_inv_Init:
  assumes "term_inv t"
  shows "term_inv (snd (Init now opened ok t))"
proof (cases "t_termActive t")
  case True
  then show ?thesis using assms by (simp add: Init_def)
next
  case False
  then have m: "term_state (t_calls t) (False, {}) = (False, {})"
    using assms by (simp add: term_inv_def split: prod.splits)
  have f: "term_fields (snd (Init now opened ok t)) =
      (t_calls t @ [Save_termios, Raw_termios, Nonblock 0 True] @ (if opened < 0 \<and> ok then [Nonblock STDOUT_FILENO True] else []),
       True, if opened < 0 then STDOUT_FILENO else opened)"
    using False by (simp add: Init_def TermInit_def Let_def) (simp add: term_fields_def term_do_def)
  show ?thesis unfolding term_inv_do_fields f by (simp add: term_state_append m STDOUT_FILENO_def)
qed

lemma term_inv_Stop:
  assumes "term_inv t"
  shows "term_inv (Stop now True True t)" and "\<not> t_termActive (Stop now True True t)"
proof -
  have f: "term_fields (Stop now True True t) =
     (if t_termActive t
      then (t_calls t @ (if 0 \<le> t_fd t then [Nonblock (t_fd t) False] else []) @
              (if 0 \<le> t_fd t \<and> t_fd t \<noteq> STDOUT_FILENO then [Close_fd (t_fd t)] else []) @ [Nonblock 0 False, Old_termios],
            False, -1)
      else term_fields t)"
    by (cases "t_termActive t"; cases "0 \<le> t_fd t"; cases "t_fd t = STDOUT_FILENO")
       (simp_all add: Stop_def TermRestore_def Let_def term_parts, simp_all add: term_fields_def term_do_def term_parts)
  show "term_inv (Stop now True True t)"
    using assms unfolding term_inv_do_fields f
    by (auto simp: term_inv_def term_state_append term_fields_def split: prod.splits)
  show "\<not> t_termActive (Stop now True True t)"
    using arg_cong [OF f, of "\<lambda>x. fst (snd x)"] by (simp add: term_fields_def split: if_splits)
qed

lemma term_inv_do:
  assumes "tui_inv t" and "term_inv t" and "tui_do thumb c t = Some t'"
    and "case c of Do_stop now ok ok' \<Rightarrow> ok \<and> ok' | _ \<Rightarrow> True"
  shows "term_inv t'"
proof (cases c)
  case (Do_log junk lvl s)
  then have "term_fields t' = term_fields t" using assms(3) by (auto simp: LogV_def)
  then show ?thesis using assms(2) by (rule term_inv_fields)
next
  case (Do_tick now kbuf ws)
  then have "term_fields t' = term_fields t" using assms(1,3) term_fields_Tick by simp
  then show ?thesis using assms(2) by (rule term_inv_fields)
next
  case (Do_init now opened ok)
  then show ?thesis using assms(2,3) term_inv_Init by auto
next
  case (Do_stop now ok ok')
  then show ?thesis using assms(2-4) term_inv_Stop(1) by auto
qed (use assms(2,3) in \<open>auto simp: SetRowFmt_def SetTextRowFmt_def PopPendingKey_def Let_def intro: term_inv_fields [rotated]\<close>)

lemma term_inv_run:
  "tui_inv t \<Longrightarrow> term_inv t \<Longrightarrow> \<forall>c \<in> set cs. (case c of Do_stop now ok ok' \<Rightarrow> ok \<and> ok' | _ \<Rightarrow> True) \<Longrightarrow>
     \<exists>t'. tui_run thumb cs t = Some t' \<and> tui_inv t' \<and> term_inv t'"
proof (induction cs arbitrary: t)
  case (Cons c cs)
  from inv_tui_do [OF Cons.prems(1), of thumb c] obtain t' where t': "tui_do thumb c t = Some t'" "tui_inv t'" by blast
  have "term_inv t'" using term_inv_do [OF Cons.prems(1,2) t'(1)] Cons.prems(3) by simp
  then show ?case using Cons.IH [OF t'(2)] Cons.prems(3) t'(1) by simp
qed simp

lemma tui_run_append:
  "tui_run thumb (cs @ cs') t = (case tui_run thumb cs t of None \<Rightarrow> None | Some t' \<Rightarrow> tui_run thumb cs' t')"
  by (induction cs arbitrary: t) (simp_all split: option.split)

text \<open>
  C32: The terminal is given back: whatever was done before, after \<open>Stop\<close> the terminal is out
  of raw mode and every descriptor that had been set not to block blocks again, also in the
  fallback on the standard output and after several starts and stops; provided the flags of
  the descriptors can be read when they are to be restored.
\<close>

theorem terminal_given_back:
  assumes "\<forall>c \<in> set cs. case c of Do_stop now ok ok' \<Rightarrow> ok \<and> ok' | _ \<Rightarrow> True"
  shows "\<exists>t. tui_run thumb (cs @ [Do_stop now True True])
                (RtTui_new (LogQueue_init QUEUE_CAPACITY slots) (map history [0..<2000]) d polls) = Some t \<and>
             term_state (t_calls t) (False, {}) = (False, {}) \<and> \<not> t_running t \<and> \<not> t_termActive t"
proof -
  let ?t = "RtTui_new (LogQueue_init QUEUE_CAPACITY slots) (map history [0..<2000]) d polls"
  have "tui_inv ?t" by (rule inv_new) (simp_all add: queue_init_holds)
  moreover have "term_inv ?t" by (simp add: term_inv_def RtTui_new_def)
  ultimately obtain t where t: "tui_run thumb cs ?t = Some t" "term_inv t"
    using term_inv_run [OF _ _ assms] by blast
  have r: "\<not> t_running (Stop now True True t)"
  proof -
    have "t_running (FlushOutput now t) = t_running t" "t_running (AppendData now s t) = t_running t"
      "t_running (term_do c t) = t_running t" for t s c
      by (rule screen_fields(12), simp)+ (simp add: term_do_def)
    then show ?thesis by (simp add: Stop_def TermRestore_def Let_def)
  qed
  have "term_state (t_calls (Stop now True True t)) (False, {}) = (False, {})"
    using term_inv_Stop [OF t(2), of now] by (simp add: term_inv_def split: prod.splits)
  then show ?thesis
    using t(1) r term_inv_Stop(2) [OF t(2)] by (simp add: tui_run_append)
qed

theorem terminal_given_back_witness:
  "\<exists>t. tui_run (\<lambda>_ _ _. 0) ([Do_init 0 (-1) True, Do_tick 40 ''q'' None] @ [Do_stop 80 True True])
         (RtTui_new (LogQueue_init QUEUE_CAPACITY (\<lambda>_. ex_msg)) (map (\<lambda>_. ex_msg) [0..<2000])
            \<lparr>answers = [], sent = [], errno = EOK\<rparr> []) = Some t \<and>
       term_state (t_calls t) (False, {}) = (False, {})"
  using terminal_given_back [of "[Do_init 0 (-1) True, Do_tick 40 ''q'' None]" "\<lambda>_ _ _. 0" 80 "\<lambda>_. ex_msg" "\<lambda>_. ex_msg"
      "\<lparr>answers = [], sent = [], errno = EOK\<rparr>" "[]"]
  by auto

end
