(* ===== verification/LogToTui.thy ===== *)
theory LogToTui
  imports LogToFile TuiFrame
begin

text \<open>
  The real-time logger with the terminal interface: the calls the logger makes to the logging
  library and what they do to the sink of the terminal interface (\<open>TuiSinkT\<close>) and, when a frame
  is due, to the screen. The library is what it documents: it formats a message with the pattern
  and hands it to the sink, with the range the pattern marks for colouring.
\<close>

section \<open>Delivery\<close>

record log_screen =
  sc_tui :: "tui option"
  sc_pattern :: "char list"
  sc_level :: LogLevel

type_synonym tui_formatter = "char list \<Rightarrow> int option \<Rightarrow> LogLevel \<Rightarrow> char list \<Rightarrow> formatted"

text \<open>What a frame takes from outside: the clock, the keys \<open>read\<close> returns, the window size.\<close>

record frame_input =
  fr_now :: int
  fr_keys :: "char list"
  fr_size :: "(int \<times> int) option"

definition put_screen :: "Entry \<Rightarrow> formatted \<Rightarrow> LogLevel \<Rightarrow> log_screen \<Rightarrow> log_screen option" where
  "put_screen junk f lvl p =
     (if sc_level p \<le> lvl then map_option (\<lambda>t. p\<lparr>sc_tui := t\<rparr>) (TuiSink_sink_it junk f lvl (sc_tui p)) else Some p)"

fun deliver_screen ::
    "(nat \<Rightarrow> nat \<Rightarrow> int \<Rightarrow> int) \<Rightarrow> Entry \<Rightarrow> tui_formatter \<Rightarrow> frame_input \<Rightarrow> lib_call \<Rightarrow> log_screen \<Rightarrow> log_screen option" where
  "deliver_screen thumb junk fmt inp (Log_at To_default ts lvl text) p =
     put_screen junk (fmt (sc_pattern p) (Some ts) lvl text) lvl p"
| "deliver_screen thumb junk fmt inp (Log_now lvl text) p = put_screen junk (fmt (sc_pattern p) None lvl text) lvl p"
| "deliver_screen thumb junk fmt inp (Set_pattern To_default pat) p = Some (p\<lparr>sc_pattern := pat\<rparr>)"
| "deliver_screen thumb junk fmt inp (Set_level To_default lvl) p = Some (p\<lparr>sc_level := lvl\<rparr>)"
| "deliver_screen thumb junk fmt inp Tui_tick p =
     (case sc_tui p of
        None \<Rightarrow> Some p
      | Some t \<Rightarrow> map_option (\<lambda>t. p\<lparr>sc_tui := Some t\<rparr>) (Tick thumb (fr_now inp) (fr_keys inp) (fr_size inp) t))"
| "deliver_screen thumb junk fmt inp _ p = Some p"

fun deliver_all ::
    "(nat \<Rightarrow> nat \<Rightarrow> int \<Rightarrow> int) \<Rightarrow> Entry \<Rightarrow> tui_formatter \<Rightarrow> frame_input \<Rightarrow> lib_call list \<Rightarrow> log_screen \<Rightarrow> log_screen option" where
  "deliver_all thumb junk fmt inp [] p = Some p"
| "deliver_all thumb junk fmt inp (c # cs) p =
     (case deliver_screen thumb junk fmt inp c p of None \<Rightarrow> None | Some p \<Rightarrow> deliver_all thumb junk fmt inp cs p)"

section \<open>What the sink makes of a message\<close>

text \<open>The line: without its newline, the marked range in the colour of the level.\<close>

definition tinted :: "formatted \<Rightarrow> LogLevel \<Rightarrow> char list" where
  "tinted f lvl =
     (let buf = ftext f; cs = color_start f; ce = color_end f;
          sz = (if buf \<noteq> [] \<and> last buf = NL then length buf - 1 else length buf)
      in if SinkColorFor lvl \<noteq> [] \<and> cs < ce \<and> ce \<le> sz
         then take cs buf @ SinkColorFor lvl @ take (ce - cs) (drop cs buf) @ (ESC # ''[m'') @ take (sz - ce) (drop ce buf)
         else take sz buf)"

definition shown_line :: "formatted \<Rightarrow> LogLevel \<Rightarrow> char list" where
  "shown_line f lvl = take 1023 (cstr (tinted f lvl))"

lemma safe_copy_take: "safe_copy src (take 1023 xs) = take 1023 (xs @ src)"
  by (cases "length xs \<le> 1023") (auto simp: safe_copy_def min_def)

lemma safe_copy_first: "safe_copy src [] = take 1023 src"
  using safe_copy_take [of src "[]"] by simp

lemma safe_copy_chain:
  "safe_copy e (safe_copy d (safe_copy c (safe_copy b (safe_copy a [])))) = take 1023 (a @ b @ c @ d @ e)"
  by (simp only: safe_copy_first safe_copy_take append_assoc)

lemma cstr_take_comm: "cstr (take n xs) = take n (cstr xs)"
proof (induction xs arbitrary: n)
  case (Cons x xs)
  then show ?case by (cases n) (simp_all add: cstr_def)
qed (simp add: cstr_def)

definition line_entry :: "Entry \<Rightarrow> LogLevel \<Rightarrow> char list \<Rightarrow> Entry" where
  "line_entry junk lvl s = Entry_SetV 1024 lvl 0 (Some s) junk"

lemma sink_is_LogV:
  obtains s where "TuiSink_sink_it junk f lvl (Some t) = map_option Some (LogV junk lvl (Some s) t)"
    and "take 1023 s = shown_line f lvl" and "no_nul s"
proof -
  let ?buf = "ftext f" and ?cs = "color_start f" and ?ce = "color_end f"
  let ?sz = "if ?buf \<noteq> [] \<and> last ?buf = NL then length ?buf - 1 else length ?buf"
  have nn: "no_nul (cstr xs)" for xs
    by (auto simp: no_nul_def cstr_def dest: set_takeWhileD)
  show thesis
  proof (cases "SinkColorFor lvl \<noteq> [] \<and> ?cs < ?ce \<and> ?ce \<le> ?sz")
    case True
    have c: "tinted f lvl = take ?cs ?buf @ SinkColorFor lvl @ take (?ce - ?cs) (drop ?cs ?buf) @
        (ESC # ''[m'') @ take (?sz - ?ce) (drop ?ce ?buf)"
      unfolding tinted_def Let_def if_P [OF True] ..
    have "TuiSink_sink_it junk f lvl (Some t) = map_option Some (LogV junk lvl (Some (cstr (take 1023 (tinted f lvl)))) t)"
      unfolding c TuiSink_sink_it_def Let_def option.case safe_copy_chain if_P [OF True] ..
    then show ?thesis by (rule that) (simp only: shown_line_def cstr_take_comm take_take min.idem, rule nn)
  next
    case False
    have c: "tinted f lvl = take ?sz ?buf" unfolding tinted_def Let_def if_not_P [OF False] ..
    have "TuiSink_sink_it junk f lvl (Some t) = map_option Some (LogV junk lvl (Some (cstr (tinted f lvl))) t)"
      unfolding c TuiSink_sink_it_def Let_def option.case if_not_P [OF False] ..
    then show ?thesis by (rule that) (simp_all only: shown_line_def nn)
  qed
qed

lemma line_entry_fields:
  assumes "length (msg junk) = 1024" and "no_nul s"
  shows "level (line_entry junk lvl s) = lvl" and "cstr (msg (line_entry junk lvl s)) = take 1023 s"
proof -
  show "level (line_entry junk lvl s) = lvl" by (simp add: line_entry_def Entry_SetV_def Let_def)
  let ?k = "length (take 1023 s)"
  have m: "msg (line_entry junk lvl s) = take 1023 s @ NUL # drop (Suc ?k) (msg junk)"
    using assms(1) by (simp add: line_entry_def Entry_SetV_def Let_def snprintf_at_def memcpy_at_def)
  have "NUL \<notin> set (take 1023 s)" using assms(2) by (auto simp: no_nul_def dest: in_set_takeD)
  then show "cstr (msg (line_entry junk lvl s)) = take 1023 s"
    unfolding m cstr_def by (subst takeWhile_append2) auto
qed

definition entry_line :: "Entry \<Rightarrow> LogLevel \<times> char list" where
  "entry_line e = (level e, cstr (msg e))"

lemma put_screen_pushes:
  assumes "length (msg junk) = 1024" and "sc_tui p = Some t" and "queue_holds 10 (t_queue t) xs" and "sc_level p \<le> lvl"
  obtains q e where "put_screen junk f lvl p = Some (p\<lparr>sc_tui := Some (t\<lparr>t_queue := q\<rparr>)\<rparr>)"
    and "queue_holds 10 q (if length xs < 1024 then xs @ [e] else xs)" and "entry_line e = (lvl, shown_line f lvl)"
proof -
  obtain s where s: "TuiSink_sink_it junk f lvl (Some t) = map_option Some (LogV junk lvl (Some s) t)"
    "take 1023 s = shown_line f lvl" "no_nul s" by (rule sink_is_LogV)
  obtain q where q: "TryPush QUEUE_CAPACITY (line_entry junk lvl s) (t_queue t) = Some (length xs < QUEUE_CAPACITY, q)"
    "queue_holds 10 q (if length xs < QUEUE_CAPACITY then xs @ [line_entry junk lvl s] else xs)"
    using rtq.push_returns [OF assms(3), of "line_entry junk lvl s"] by blast
  show thesis
  proof (rule that [of q "line_entry junk lvl s"])
    show "put_screen junk f lvl p = Some (p\<lparr>sc_tui := Some (t\<lparr>t_queue := q\<rparr>)\<rparr>)"
      using q(1) assms(2,4) by (simp add: put_screen_def s(1) LogV_def line_entry_def)
    show "queue_holds 10 q (if length xs < 1024 then xs @ [line_entry junk lvl s] else xs)"
      using q(2) by (simp add: QUEUE_CAPACITY_def)
    show "entry_line (line_entry junk lvl s) = (lvl, shown_line f lvl)"
      using line_entry_fields [OF assms(1) s(3)] s(2) by (simp add: entry_line_def)
  qed
qed

text \<open>The lines a list of messages makes; what no longer fits the queue of the terminal is gone.\<close>

definition message_lines :: "tui_formatter \<Rightarrow> char list \<Rightarrow> (int \<times> LogLevel \<times> char list) list \<Rightarrow> (LogLevel \<times> char list) list" where
  "message_lines fmt pat ms = map (\<lambda>(ts, lvl, text). (lvl, shown_line (fmt pat (Some ts) lvl text) lvl)) ms"

lemma same_screen: "sc_tui p = Some t \<Longrightarrow> p\<lparr>sc_tui := Some t\<rparr> = p"
  by (cases p) simp

lemma deliver_messages:
  assumes "length (msg junk) = 1024"
  shows "sc_tui p = Some t \<Longrightarrow> queue_holds 10 (t_queue t) xs \<Longrightarrow> \<forall>(ts, lvl, text) \<in> set ms. sc_level p \<le> lvl \<Longrightarrow>
     \<exists>q es. deliver_all thumb junk fmt inp (map (\<lambda>(ts, lvl, text). Log_at To_default ts lvl text) ms @ cs) p =
              deliver_all thumb junk fmt inp cs (p\<lparr>sc_tui := Some (t\<lparr>t_queue := q\<rparr>)\<rparr>) \<and>
            queue_holds 10 q (xs @ es) \<and>
            map entry_line es = take (1024 - length xs) (message_lines fmt (sc_pattern p) ms)"
proof (induction ms arbitrary: p t xs)
  case Nil
  then show ?case by (intro exI [of _ "t_queue t"] exI [of _ "[]"]) (simp add: message_lines_def same_screen)
next
  case (Cons m ms)
  obtain ts lvl txt' where m: "m = (ts, lvl, txt')" by (cases m)
  have lvl: "sc_level p \<le> lvl" using Cons.prems(3) m by simp
  obtain q e where q: "put_screen junk (fmt (sc_pattern p) (Some ts) lvl txt') lvl p = Some (p\<lparr>sc_tui := Some (t\<lparr>t_queue := q\<rparr>)\<rparr>)"
    "queue_holds 10 q (if length xs < 1024 then xs @ [e] else xs)"
    "entry_line e = (lvl, shown_line (fmt (sc_pattern p) (Some ts) lvl txt') lvl)"
    by (rule put_screen_pushes [OF assms Cons.prems(1,2) lvl])
  let ?p = "p\<lparr>sc_tui := Some (t\<lparr>t_queue := q\<rparr>)\<rparr>" and ?xs = "if length xs < 1024 then xs @ [e] else xs"
  from Cons.IH [of ?p "t\<lparr>t_queue := q\<rparr>" ?xs] obtain q' es where q':
    "deliver_all thumb junk fmt inp (map (\<lambda>(ts, lvl, text). Log_at To_default ts lvl text) ms @ cs) ?p =
       deliver_all thumb junk fmt inp cs (p\<lparr>sc_tui := Some (t\<lparr>t_queue := q'\<rparr>)\<rparr>)"
    "queue_holds 10 q' (?xs @ es)" "map entry_line es = take (1024 - length ?xs) (message_lines fmt (sc_pattern p) ms)"
    using q(2) Cons.prems(3) by auto
  have lines: "message_lines fmt (sc_pattern p) (m # ms) = entry_line e # message_lines fmt (sc_pattern p) ms"
    by (simp add: message_lines_def m q(3))
  show ?case
  proof (intro exI [of _ q'] exI [of _ "(if length xs < 1024 then [e] else []) @ es"] conjI)
    show "map entry_line ((if length xs < 1024 then [e] else []) @ es) =
        take (1024 - length xs) (message_lines fmt (sc_pattern p) (m # ms))"
      using q'(3) unfolding lines by (auto simp: take_Cons' less_diff_conv)
    show "queue_holds 10 q' (xs @ (if length xs < 1024 then [e] else []) @ es)"
      using q'(2) by (auto split: if_splits)
  qed (simp add: m q(1) q'(1))
qed

section \<open>What a frame shows\<close>

text \<open>The rows of the second area: one line each, empty ones at the end.\<close>

definition log_rows :: "int \<Rightarrow> int \<Rightarrow> nat \<Rightarrow> char list list \<Rightarrow> draw list" where
  "log_rows row width v ls =
     concat (map (\<lambda>r. area2_line (row + int r) width (if r < length ls then Some (ls ! r) else None)) [0..<v])"

lemma area2_draw_rows:
  assumes "3 \<le> h"
  shows "\<exists>pre post. area2_draw thumb r h w t = pre @ log_rows (r + 1) w (nat (h - 2)) (map (cstr \<circ> msg) (visible (nat (h - 2)) t)) @ post"
proof -
  let ?v = "nat (h - 2)"
  obtain s0 ls off where w: "area2_window ?v t = (s0, ls, off)" by (cases "area2_window ?v t") auto
  have len: "length (visible ?v t) = ls" and nth: "i < ls \<Longrightarrow> visible ?v t ! i = shown_entry t (s0 + i)" for i
    by (simp_all add: visible_def w)
  have rows: "log_rows (r + 1) w ?v (map (cstr \<circ> msg) (visible ?v t)) =
      concat (map (\<lambda>i. area2_line (r + 1 + int i) w (if i < ls then Some (cstr (msg (shown_entry t (s0 + i)))) else None)) [0..<?v])"
    unfolding log_rows_def by (intro arg_cong [where f = concat] map_cong refl) (simp add: len nth)
  have "\<not> h < 3" using assms by simp
  then show ?thesis unfolding area2_draw_def Let_def w rows by (simp only: if_False prod.case) blast
qed

lemma hist_view: "log_view t = log_view t' \<Longrightarrow> hist t = hist t' \<and> visible v t = visible v t'"
  unfolding log_view_def hist_def visible_def area2_window_def shown_entry_def by (simp only: prod.inject)

lemma drain_log_screen:
  assumes "tui_inv t" and "queue_holds 10 (t_queue t) es"
  obtains t1 where "drain_log t = Some t1" "hist t1 = lastn 2000 (hist t @ es)" "tui_inv t1" "queue_holds 10 (t_queue t1) []"
    "t_autoScroll t1 = t_autoScroll t"
proof -
  have "hist_ok t" using assms(1) by (simp add: tui_inv_def)
  from drain_log_spec [OF this assms(2)] obtain t1 where t1: "drain_log t = Some t1" "hist t1 = lastn 2000 (hist t @ es)"
    "queue_holds 10 (t_queue t1) []" "t_autoScroll t1 = t_autoScroll t" by metis
  have "tui_inv t1" using inv_drain_log [OF assms(1)] t1(1) by simp
  with t1 show thesis by (intro that [of t1])
qed

lemma Tick_shows:
  assumes "tui_inv t" and "queue_holds 10 (t_queue t) es" and "t_running t" and "t_autoScroll t"
    and "10 \<le> row" and "3 \<le> col"
  obtains t' frame t0 v r pre post where "Tick thumb now [] (Some (row, col)) t = Some t'" "tui_inv t'"
    "hist t' = lastn 2000 (hist t @ es)" "t' = FlushOutput now (draw_all now frame t0)" "t_out t0 = []"
    "rows_of frame = [1..row]" "3 \<le> v"
    "frame = pre @ log_rows r col v (map (cstr \<circ> msg) (lastn v (hist t'))) @ post"
proof -
  obtain t1 where t1: "drain_log t = Some t1" "hist t1 = lastn 2000 (hist t @ es)" "tui_inv t1"
    "queue_holds 10 (t_queue t1) []" "t_autoScroll t1 = t_autoScroll t"
    by (rule drain_log_screen [OF assms(1,2)])
  let ?t2 = "t1\<lparr>t_rows := row, t_cols := col\<rparr>"
  let ?t3 = "render_frame thumb now (CalcArea1Height ?t2) ?t2"
  have size: "TermGetSize (Some (row, col)) (handle_keys [] t1) = ?t2"
    using assms(5) by (simp add: TermGetSize_def handle_keys.simps)
  have T: "Tick thumb now [] (Some (row, col)) t = Some ?t3"
    using assms(3) t1(1) by (simp add: Tick_def Let_def size)
  have big: "10 \<le> t_rows ?t2" "3 \<le> t_cols ?t2" using assms(5,6) by simp_all
  obtain a1 a2 upper lower t0 where a: "4 \<le> a1" "5 \<le> a2" "a1 + a2 + 1 = t_rows ?t2" "t_out t0 = []" "log_view t0 = log_view ?t2"
    "rows_of upper = [1..a1]" "rows_of lower = [t_rows ?t2]"
    and R: "?t3 = FlushOutput now (draw_all now (upper @ area2_draw thumb (a1 + 1) a2 (t_cols ?t2) ?t2 @ lower) t0)"
    by (rule render_frame_drawing [OF big])
  let ?v = "nat (a2 - 2)" and ?frame = "upper @ area2_draw thumb (a1 + 1) a2 (t_cols ?t2) ?t2 @ lower"
  have view: "log_view ?t3 = log_view t1" by (simp add: R a(5))
  note h = hist_view [OF view, of ?v]
  have "hist_ok t1" "t_scroll t1 = 0" using t1(3,5) assms(4) by (simp_all add: tui_inv_def)
  have v2: "visible ?v ?t2 = visible ?v t1" using hist_view [of ?t2 t1 ?v] by simp
  have vis: "visible ?v t1 = lastn ?v (hist t1)"
    unfolding visible_eq by (simp add: \<open>t_scroll t1 = 0\<close>)
  obtain pre post where d: "area2_draw thumb (a1 + 1) a2 (t_cols ?t2) ?t2 =
      pre @ log_rows (a1 + 1 + 1) (t_cols ?t2) ?v (map (cstr \<circ> msg) (visible ?v ?t2)) @ post"
    using area2_draw_rows [of a2 thumb "a1 + 1" "t_cols ?t2" ?t2] a(2) by auto
  have rows: "rows_of ?frame = [1..row]"
    using frame_rows [OF a(1-3,6,7)] big by simp
  have inv: "tui_inv ?t3" using t1(3) by (intro inv_render_frame) (simp add: tui_inv_def tui_wf_def hist_ok_def)
  show thesis
  proof (rule that [OF T inv _ R a(4) rows, of ?v "upper @ pre" "a1 + 1 + 1" "post @ lower"])
    show "hist ?t3 = lastn 2000 (hist t @ es)" using h t1(2) by simp
    show "3 \<le> ?v" using a(2) by simp
    show "?frame = (upper @ pre) @ log_rows (a1 + 1 + 1) col ?v (map (cstr \<circ> msg) (lastn ?v (hist ?t3))) @ post @ lower"
      using d v2 vis h by simp
  qed
qed

section \<open>From the call to the screen\<close>

lemma poll_session:
  assumes "lg_initialized s" and "queue_holds 10 (lg_queue s) []" and "drain_ok s" and "lg_calls s = []"
    and "lg_contLen s = 0" and "\<forall>r \<in> set rs. plain_request s r" and "length (passed s rs) \<le> 1024"
  obtains s1 s2 where "do_reqs rs s = Some s1" and "Poll now s1 = Some s2"
    and "lg_calls s2 = map (\<lambda>(ts, lvl, text). Log_at To_default ts lvl text) (request_messages s rs) @
           poll_calls now s (length (passed s rs))"
proof -
  from do_reqs_spec [OF assms(1,2), of rs] assms(7) obtain q where
    r: "do_reqs rs s = Some (s\<lparr>lg_queue := q\<rparr>)" "queue_holds 10 q (passed s rs)" by auto
  let ?s = "s\<lparr>lg_queue := q\<rparr>"
  have i: "queue_holds 10 (lg_queue ?s) (passed s rs)" "drain_ok ?s"
    using assms(3) r(2) by (simp_all add: drain_ok_def)
  obtain s2 where s2: "Poll now ?s = Some s2"
    "lg_calls s2 = fd_calls (fold (feed_entry (config_of ?s)) (passed s rs) (feed_of ?s)) @ poll_calls now ?s (length (passed s rs))"
    by (rule Poll_spec [OF i passed_wf [OF assms(6)]])
  have t: "fd_text (feed_of ?s) = []" using assms(5) by (simp add: feed_of_def cont_text_def)
  have cfg: "config_of ?s = config_of s" "poll_calls now ?s = poll_calls now s"
    by (simp_all add: config_of_def poll_calls_def fun_eq_iff)
  have "fd_calls (feed_of ?s) = []" using assms(4) by (simp add: feed_of_def)
  then have "lg_calls s2 = map (\<lambda>(ts, lvl, text). Log_at To_default ts lvl text) (request_messages s rs) @
       poll_calls now s (length (passed s rs))"
    unfolding s2(2) cfg fed_messages [OF assms(6) t] by simp
  then show thesis by (rule that [OF r(1) s2(1)])
qed

lemma deliver_poll_calls:
  assumes "lg_tui s" and "40000000 \<le> now - lg_lastRender s" and "sc_tui p = Some t"
    and "Tick thumb (fr_now inp) (fr_keys inp) (fr_size inp) t = Some t'"
  shows "deliver_all thumb junk fmt inp (poll_calls now s n) p = Some (p\<lparr>sc_tui := Some t'\<rparr>)"
  using assms by (simp add: poll_calls_def)

text \<open>
  C4: Logger, queue, drain thread, sink and terminal interface together. After any calls of the
  entry points that the queue can hold, one round of the drain thread in which a frame is due
  leaves the history with the latest 2000 of what it held and one line for every call whose
  level passed, in the order of the calls, with its level and its text as the sink colours it;
  and, while the user follows the log, the frame drawn in this round covers the screen and has
  the newest of these lines in consecutive rows. The calls are as in the theorem on the file.
\<close>

theorem calls_reach_the_screen:
  assumes "lg_initialized s" and "queue_holds 10 (lg_queue s) []" and "drain_ok s" and "lg_calls s = []"
    and "lg_contLen s = 0" and "\<forall>r \<in> set rs. plain_request s r" and "length (passed s rs) \<le> 1024"
    and "lg_tui s" and "40000000 \<le> now - lg_lastRender s" and "\<forall>lvl. IsActiveLevel lvl s \<longrightarrow> sc_level p \<le> lvl"
    and "sc_tui p = Some t" and "tui_inv t" and "queue_holds 10 (t_queue t) []" and "t_running t" and "t_autoScroll t"
    and "fr_keys inp = []" and "fr_size inp = Some (row, col)" and "10 \<le> row" and "3 \<le> col" and "length (msg junk) = 1024"
  shows "\<exists>s1 s2 p' t'. do_reqs rs s = Some s1 \<and> Poll now s1 = Some s2 \<and>
           deliver_all thumb junk fmt inp (lg_calls s2) p = Some p' \<and> sc_tui p' = Some t' \<and>
           map entry_line (hist t') =
             lastn 2000 (map entry_line (hist t) @ message_lines fmt (sc_pattern p) (request_messages s rs)) \<and>
           (\<exists>frame t0 v r pre post. t' = FlushOutput (fr_now inp) (draw_all (fr_now inp) frame t0) \<and> t_out t0 = [] \<and>
              rows_of frame = [1..row] \<and> 3 \<le> v \<and>
              frame = pre @ log_rows r col v (map snd (lastn v (map entry_line (hist t')))) @ post)"
proof -
  obtain s1 s2 where s: "do_reqs rs s = Some s1" "Poll now s1 = Some s2"
    "lg_calls s2 = map (\<lambda>(ts, lvl, text). Log_at To_default ts lvl text) (request_messages s rs) @
           poll_calls now s (length (passed s rs))"
    by (rule poll_session [OF assms(1-7)])
  let ?lines = "message_lines fmt (sc_pattern p) (request_messages s rs)" and ?pc = "poll_calls now s (length (passed s rs))"
  have low: "\<forall>(ts, lvl, text) \<in> set (request_messages s rs). sc_level p \<le> lvl"
    using assms(10) by (auto simp: request_messages_def)
  have n: "length ?lines \<le> 1024" using assms(7) by (simp add: message_lines_def request_messages_def passed_def)
  from deliver_messages [OF assms(20,11,13) low, of thumb fmt inp ?pc] n obtain q es where
    q: "deliver_all thumb junk fmt inp (lg_calls s2) p = deliver_all thumb junk fmt inp ?pc (p\<lparr>sc_tui := Some (t\<lparr>t_queue := q\<rparr>)\<rparr>)"
      "queue_holds 10 q es" "map entry_line es = ?lines"
    unfolding s(3) by auto
  let ?t = "t\<lparr>t_queue := q\<rparr>"
  have t: "tui_inv ?t" "queue_holds 10 (t_queue ?t) es" "t_running ?t" "t_autoScroll ?t"
    using assms(12,14,15) q(2) by (auto simp: tui_inv_def tui_wf_def hist_ok_def)
  obtain t' frame t0 v r pre post where t': "Tick thumb (fr_now inp) [] (Some (row, col)) ?t = Some t'"
    "hist t' = lastn 2000 (hist ?t @ es)" "t' = FlushOutput (fr_now inp) (draw_all (fr_now inp) frame t0)" "t_out t0 = []"
    "rows_of frame = [1..row]" "3 \<le> v" "frame = pre @ log_rows r col v (map (cstr \<circ> msg) (lastn v (hist t'))) @ post"
    by (rule Tick_shows [OF t assms(18,19)])
  let ?p = "p\<lparr>sc_tui := Some ?t\<rparr>"
  have d: "deliver_all thumb junk fmt inp (lg_calls s2) p = Some (?p\<lparr>sc_tui := Some t'\<rparr>)"
    unfolding q(1) by (rule deliver_poll_calls [OF assms(8,9), where t = ?t]) (simp_all add: t'(1) assms(16,17))
  have "hist ?t = hist t" using hist_view [of ?t t] by simp
  then have h: "map entry_line (hist t') = lastn 2000 (map entry_line (hist t) @ ?lines)"
    unfolding t'(2) by (simp add: lastn_def drop_map q(3) [symmetric])
  have "map (cstr \<circ> msg) (lastn v (hist t')) = map snd (lastn v (map entry_line (hist t')))"
    by (simp add: lastn_def drop_map entry_line_def comp_def)
  with t' have "\<exists>frame t0 v r pre post. t' = FlushOutput (fr_now inp) (draw_all (fr_now inp) frame t0) \<and> t_out t0 = [] \<and>
       rows_of frame = [1..row] \<and> 3 \<le> v \<and>
       frame = pre @ log_rows r col v (map snd (lastn v (map entry_line (hist t')))) @ post"
    by metis
  moreover have "sc_tui (?p\<lparr>sc_tui := Some t'\<rparr>) = Some t'" by simp
  ultimately show ?thesis using s(1,2) d h by (metis (lifting))
qed

text \<open>A running terminal of 30 rows and the logger in front of it.\<close>

definition ex_screen :: log_screen where
  "ex_screen = \<lparr>sc_tui = Some (ex_tui\<lparr>t_running := True\<rparr>), sc_pattern = ''> '', sc_level = L_trace\<rparr>"

definition ex_fmt :: tui_formatter where
  "ex_fmt pat ts lvl text = \<lparr>ftext = pat @ text @ [NL], color_start = 0, color_end = 1\<rparr>"

theorem calls_reach_the_screen_witness:
  "\<exists>s1 s2 p' t'. do_reqs [R_rt (ex_entry NUL []) L_err 0 (Some ''hot''), R_rt (ex_entry NUL []) L_trace 7 (Some ''ok'')]
       (ex_log\<lparr>lg_tui := True\<rparr>) = Some s1 \<and> Poll 50000000 s1 = Some s2 \<and>
     deliver_all (\<lambda>_ _ _. 0) (ex_entry NUL []) ex_fmt \<lparr>fr_now = 50, fr_keys = [], fr_size = Some (30, 100)\<rparr> (lg_calls s2) ex_screen = Some p' \<and>
     sc_tui p' = Some t' \<and>
     map entry_line (hist t') = [(L_err, SinkColorFor L_err @ ''>'' @ (ESC # ''[m'') @ '' hot''),
       (L_trace, SinkColorFor L_trace @ ''>'' @ (ESC # ''[m'') @ '' ok'')]"
proof -
  let ?s = "ex_log\<lparr>lg_tui := True\<rparr>" and ?t = "ex_tui\<lparr>t_running := True\<rparr>"
  let ?rs = "[R_rt (ex_entry NUL []) L_err 0 (Some ''hot''), R_rt (ex_entry NUL []) L_trace 7 (Some ''ok'')]"
  let ?inp = "\<lparr>fr_now = 50, fr_keys = [], fr_size = Some (30, 100)\<rparr>"
  have i: "lg_initialized ?s" "lg_calls ?s = []" "lg_contLen ?s = 0" "lg_tui ?s" "40000000 \<le> 50000000 - lg_lastRender ?s"
    by (simp_all add: ex_log_def RtLog_new_def)
  have q: "queue_holds 10 (lg_queue ?s) []" "drain_ok ?s" using ex_log_ok by (simp_all add: drain_ok_def)
  have pl: "\<forall>r \<in> set ?rs. plain_request ?s r"
    by (simp add: plain_request_def entry_shape_def ex_entry_def MSG_LEN_def)
  have len: "length (passed ?s ?rs) \<le> 1024" by (simp add: passed_def)
  have lvl: "\<forall>lvl. IsActiveLevel lvl ?s \<longrightarrow> sc_level ex_screen \<le> lvl"
    by (simp add: ex_screen_def less_eq_LogLevel_def IsActiveLevel_def ex_log_def RtLog_new_def)
  have new: "tui_inv ex_tui" unfolding ex_tui_def by (rule inv_new) (simp_all add: queue_init_holds)
  have t: "sc_tui ex_screen = Some ?t" "tui_inv ?t" "queue_holds 10 (t_queue ?t) []" "t_running ?t" "t_autoScroll ?t"
    using new ex_tui_hist(3)
    by (simp_all add: ex_screen_def tui_inv_def tui_wf_def hist_ok_def, simp add: ex_tui_def RtTui_new_def)
  have "log_view ?t = log_view ex_tui" by (simp add: log_view_def)
  then have h: "hist ?t = []" using hist_view ex_tui_hist(2) by metis
  have m: "request_messages ?s ?rs = [(0, L_err, ''hot''), (7, L_trace, ''ok'')]"
    by (simp add: request_messages_def ex_log_def RtLog_new_def IsActiveLevel_def)
  have l: "message_lines ex_fmt (sc_pattern ex_screen) (request_messages ?s ?rs) =
      [(L_err, SinkColorFor L_err @ ''>'' @ (ESC # ''[m'') @ '' hot''), (L_trace, SinkColorFor L_trace @ ''>'' @ (ESC # ''[m'') @ '' ok'')]"
    unfolding m by (simp add: message_lines_def ex_screen_def ex_fmt_def shown_line_def tinted_def Let_def SinkColorFor_def cstr_def)
  have "length (msg (ex_entry NUL [])) = 1024" by (simp add: ex_entry_def)
  from calls_reach_the_screen [OF i(1) q i(2,3) pl len i(4,5) lvl t, of ?inp 30 100 "ex_entry NUL []" "\<lambda>_ _ _. 0" ex_fmt] this
  show ?thesis unfolding l h by (auto simp: lastn_def)
qed

section \<open>A flood of lines\<close>

text \<open>
  The queue between the logger and the terminal has no counter, and one entry with continuation
  text can hold hundreds of lines: two entries that fit the logger's queue make more lines than
  the terminal's queue holds; the rest is gone, and the drop counter does not say so.
\<close>

definition cont_lines :: "tui_formatter \<Rightarrow> LogLevel \<Rightarrow> char list list \<Rightarrow> (LogLevel \<times> char list) list" where
  "cont_lines fmt lvl ls = map (\<lambda>l. (lvl, shown_line (fmt ''%v'' None lvl (replicate 21 CHR '' '' @ l)) lvl)) ls"

lemma deliver_cont_calls:
  assumes "length (msg junk) = 1024" and "sc_level p \<le> lvl"
  shows "sc_tui p = Some t \<Longrightarrow> sc_pattern p = pat \<Longrightarrow> queue_holds 10 (t_queue t) xs \<Longrightarrow>
     \<exists>q es. deliver_all thumb junk fmt inp (concat (map (cont_calls pat lvl) ls)) p =
              Some (p\<lparr>sc_tui := Some (t\<lparr>t_queue := q\<rparr>)\<rparr>) \<and> queue_holds 10 q (xs @ es) \<and>
            map entry_line es = take (1024 - length xs) (cont_lines fmt lvl ls)"
  using assms
proof (induction ls arbitrary: p t xs)
  case Nil
  then show ?case by (intro exI [of _ "t_queue t"] exI [of _ "[]"]) (simp add: cont_lines_def same_screen)
next
  case (Cons l ls)
  let ?p = "p\<lparr>sc_pattern := ''%v''\<rparr>" and ?f = "fmt ''%v'' None lvl (replicate 21 CHR '' '' @ l)"
  obtain q e where q: "put_screen junk ?f lvl ?p = Some (?p\<lparr>sc_tui := Some (t\<lparr>t_queue := q\<rparr>)\<rparr>)"
    "queue_holds 10 q (if length xs < 1024 then xs @ [e] else xs)" "entry_line e = (lvl, shown_line ?f lvl)"
    by (rule put_screen_pushes [of junk ?p t xs lvl ?f]) (use Cons.prems in simp_all)
  let ?p1 = "p\<lparr>sc_tui := Some (t\<lparr>t_queue := q\<rparr>)\<rparr>" and ?xs = "if length xs < 1024 then xs @ [e] else xs"
  have d: "deliver_all thumb junk fmt inp (concat (map (cont_calls pat lvl) (l # ls))) p =
      deliver_all thumb junk fmt inp (concat (map (cont_calls pat lvl) ls)) ?p1"
  proof -
    have "?p\<lparr>sc_tui := Some (t\<lparr>t_queue := q\<rparr>), sc_pattern := pat\<rparr> = ?p1" using Cons.prems(2) by (cases p) simp
    then show ?thesis using q(1) by (simp add: cont_calls_def)
  qed
  from Cons.IH [of ?p1 "t\<lparr>t_queue := q\<rparr>" ?xs] obtain q' es where q':
    "deliver_all thumb junk fmt inp (concat (map (cont_calls pat lvl) ls)) ?p1 = Some (p\<lparr>sc_tui := Some (t\<lparr>t_queue := q'\<rparr>)\<rparr>)"
    "queue_holds 10 q' (?xs @ es)" "map entry_line es = take (1024 - length ?xs) (cont_lines fmt lvl ls)"
    using q(2) Cons.prems by auto
  have lines: "cont_lines fmt lvl (l # ls) = entry_line e # cont_lines fmt lvl ls" by (simp add: cont_lines_def q(3))
  show ?case
  proof (intro exI [of _ q'] exI [of _ "(if length xs < 1024 then [e] else []) @ es"] conjI)
    show "map entry_line ((if length xs < 1024 then [e] else []) @ es) = take (1024 - length xs) (cont_lines fmt lvl (l # ls))"
      using q'(3) unfolding lines by (auto simp: take_Cons' less_diff_conv)
    show "queue_holds 10 q' (xs @ (if length xs < 1024 then [e] else []) @ es)"
      using q'(2) by (auto split: if_splits)
  qed (simp only: d q'(1))
qed

lemma lines_of_newlines: "lines_of (replicate n NL) = (replicate n [], [])"
  by (induction n) simp_all

lemma feed_newlines:
  assumes "is_cont e" and "entry_text e = replicate n NL" and "n \<le> 4096" and "fd_text f = []"
  shows "fd_calls (feed_entry fc e f) = fd_calls f @ concat (map (cont_calls (fc_pattern fc) (level e)) (replicate n []))"
    and "fd_text (feed_entry fc e f) = []"
  using assms by (simp_all add: feed_entry_def feed_cont_def feed_lines_def lines_of_newlines min_absorb1)

lemma continuation_floods_screen:
  assumes "queue_holds 10 (lg_queue s) [e, e]" and "drain_ok s" and "entry_wf MSG_LEN e" and "is_cont e"
    and "entry_text e = replicate 600 NL" and "lg_calls s = []" and "lg_contLen s = 0"
    and "sc_tui p = Some t" and "queue_holds 10 (t_queue t) []" and "sc_pattern p = lg_patternStr s"
    and "sc_level p \<le> level e" and "length (msg junk) = 1024"
  shows "\<exists>s' q es. DrainAll s = Some (2, s') \<and> lg_dropCount s' = lg_dropCount s \<and>
           lg_calls s' = concat (replicate 1200 (cont_calls (lg_patternStr s) (level e) [])) \<and>
           deliver_all thumb junk fmt inp (lg_calls s') p = Some (p\<lparr>sc_tui := Some (t\<lparr>t_queue := q\<rparr>)\<rparr>) \<and>
           queue_holds 10 q es \<and> length es = 1024"
proof -
  obtain s' where s': "DrainAll s = Some (length [e, e], s')" "feed_of s' = fold (feed_entry (config_of s)) [e, e] (feed_of s)"
    "only_output s (s'\<lparr>lg_queue := lg_queue s\<rparr>)"
    by (rule DrainAll_spec [OF assms(1,2)]) (use assms(3) in auto)
  have f0: "fd_text (feed_of s) = []" "fd_calls (feed_of s) = []" using assms(6,7) by (simp_all add: feed_of_def cont_text_def)
  let ?n = "replicate 600 ([] :: char list)" and ?fc = "config_of s"
  note 1 = feed_newlines [OF assms(4,5) _ f0(1), of ?fc]
  note 2 = feed_newlines(1) [OF assms(4,5), of "feed_entry ?fc e (feed_of s)" ?fc]
  let ?c = "cont_calls (lg_patternStr s) (level e)"
  have "lg_calls s' = fd_calls (feed_of s')" by (simp add: feed_of_def)
  also have "\<dots> = concat (map ?c ?n) @ concat (map ?c ?n)"
    unfolding s'(2) using 1 2 by (simp add: f0(2) del: map_replicate) (simp add: config_of_def)
  also have "\<dots> = concat (map ?c (replicate 1200 []))"
  proof -
    have "replicate 1200 ([] :: char list) = ?n @ ?n" by (simp only: replicate_add [symmetric]) simp
    then show ?thesis by (simp only: map_append concat_append)
  qed
  finally have calls: "lg_calls s' = concat (map ?c (replicate 1200 []))" .
  from deliver_cont_calls [OF assms(12,11,8,10,9), of thumb fmt inp "replicate 1200 []"] obtain q es where
    q: "deliver_all thumb junk fmt inp (lg_calls s') p = Some (p\<lparr>sc_tui := Some (t\<lparr>t_queue := q\<rparr>)\<rparr>)"
      "queue_holds 10 q es" "map entry_line es = take 1024 (cont_lines fmt (level e) (replicate 1200 []))"
    unfolding calls by auto
  have "length es = 1024" using arg_cong [OF q(3), of length] by (simp add: cont_lines_def)
  moreover have "lg_dropCount s' = lg_dropCount s" using only_output_keeps(5) [OF s'(3)] by simp
  ultimately show ?thesis using s'(1) calls q(1,2) by (intro exI [of _ s'] exI [of _ q] exI [of _ es]) (simp add: map_replicate)
qed

end
