(* ===== verification/ConcurrentLog.thy ===== *)
theory ConcurrentLog
  imports LogQueueMPSC LogToFile "HOL-Library.Multiset"
begin

text \<open>
  Logging by many threads: the entry points of the logger and its drain thread on the ring of
  \<open>LogQueueMPSC\<close>, in every interleaving. A thread that logs formats its entry on its own stack,
  goes through \<open>TryPush\<close> one access at a time and, when it is refused, increments the drop
  counter in a step of its own (\<open>Enqueue\<close>). The drain thread repeats \<open>TryPop\<close>, one access at a
  time, and \<open>FlushEntry\<close> (\<open>DrainAll\<close>); only it touches the continuation buffer and the library.
  The capacity is \<open>2 ^ k\<close>, in the code \<open>k = 10\<close>.
\<close>

section \<open>The threads\<close>

text \<open>
  \<open>cl_hand\<close> is the entry with which \<open>TryPop\<close> has returned, until \<open>FlushEntry\<close> has been called;
  \<open>cl_refused p\<close> says that thread \<open>p\<close> was refused and is about to count it. \<open>cl_tried\<close> records
  the requests whose level passed, in the order of the calls. The field \<open>lg_queue\<close> of the logger
  is not used: the ring is \<open>cl_ring\<close>.
\<close>

record conc_log =
  cl_ring :: "Entry mpsc"
  cl_log :: rtlog
  cl_hand :: "Entry option"
  cl_refused :: "nat \<Rightarrow> bool"
  cl_tried :: "(nat \<times> log_req) list"

definition conc_init :: "nat \<Rightarrow> (nat \<Rightarrow> Entry) \<Rightarrow> rtlog \<Rightarrow> conc_log" where
  "conc_init k junk s =
     \<lparr>cl_ring = mpsc_init (2 ^ k) junk, cl_log = s, cl_hand = None, cl_refused = (\<lambda>_. False), cl_tried = []\<rparr>"

text \<open>
  \<open>A_log p r\<close>: thread \<open>p\<close> calls an entry point and passes the tests of \<open>m_initialized\<close> and the
  level, or returns. \<open>A_push p\<close>: its next access in \<open>TryPush\<close>. \<open>A_count p\<close>: it counts the drop.
  \<open>A_pop\<close> and \<open>A_flush\<close>: the drain thread.
\<close>

datatype conc_act = A_log nat log_req | A_push nat | A_count nat | A_pop | A_flush

definition refuses :: "'e ppc \<Rightarrow> bool" where
  "refuses pc \<longleftrightarrow> (case pc of P_Test e head s \<Rightarrow> sub32 s head < 0 | _ \<Rightarrow> False)"

fun can_do :: "conc_act \<Rightarrow> conc_log \<Rightarrow> bool" where
  "can_do (A_log p r) c \<longleftrightarrow> ppc (cl_ring c) p = P_Idle \<and> \<not> cl_refused c p"
| "can_do (A_push p) c \<longleftrightarrow> ppc (cl_ring c) p \<noteq> P_Idle"
| "can_do (A_count p) c \<longleftrightarrow> cl_refused c p"
| "can_do A_pop c \<longleftrightarrow> cl_hand c = None"
| "can_do A_flush c \<longleftrightarrow> cl_hand c \<noteq> None"

fun conc_do :: "nat \<Rightarrow> conc_act \<Rightarrow> conc_log \<Rightarrow> conc_log" where
  "conc_do k (A_log p r) c =
     (if lg_initialized (cl_log c) \<and> IsActiveLevel (req_level r) (cl_log c)
      then c\<lparr>cl_ring := (cl_ring c)\<lparr>ppc := (ppc (cl_ring c))(p := P_Load (req_entry r))\<rparr>,
             cl_tried := cl_tried c @ [(p, r)]\<rparr>
      else c)"
| "conc_do k (A_push p) c =
     c\<lparr>cl_ring := prod_step (2 ^ k) p (cl_ring c),
       cl_refused := (cl_refused c)(p := refuses (ppc (cl_ring c) p))\<rparr>"
| "conc_do k (A_count p) c = c\<lparr>cl_log := count_drop (cl_log c), cl_refused := (cl_refused c)(p := False)\<rparr>"
| "conc_do k A_pop c =
     c\<lparr>cl_ring := cons_step (2 ^ k) (cl_ring c),
       cl_hand := (case cpc (cl_ring c) of C_Rel t e \<Rightarrow> Some e | _ \<Rightarrow> None)\<rparr>"
| "conc_do k A_flush c =
     (case cl_hand c of None \<Rightarrow> c | Some e \<Rightarrow> c\<lparr>cl_log := FlushEntry e (cl_log c), cl_hand := None\<rparr>)"

text \<open>
  The executions. A request is what a C program can pass (\<open>entry_shape\<close>, \<open>c_name\<close>); \<open>fresh\<close> is
  the assumption on the 32-bit counters.
\<close>

fun good_act :: "conc_act \<Rightarrow> bool" where
  "good_act (A_log p r) \<longleftrightarrow> entry_shape MSG_LEN (req_junk r) \<and> c_name r"
| "good_act _ \<longleftrightarrow> True"

inductive conc_reach :: "nat \<Rightarrow> rtlog \<Rightarrow> conc_log \<Rightarrow> bool" for k s where
  init: "conc_reach k s (conc_init k junk s)"
| act: "conc_reach k s c \<Longrightarrow> can_do a c \<Longrightarrow> good_act a \<Longrightarrow> fresh (cl_ring (conc_do k a c)) \<Longrightarrow>
    conc_reach k s (conc_do k a c)"

lemma conc_ring_reach: "conc_reach k s c \<Longrightarrow> reach (2 ^ k) (cl_ring c)"
proof (induction rule: conc_reach.induct)
  case (init junk)
  show ?case by (simp add: conc_init_def reach.start)
next
  case (act c a)
  have "step (2 ^ k) (cl_ring c) (cl_ring (conc_do k a c)) \<or> cl_ring (conc_do k a c) = cl_ring c"
    using act.hyps(2) by (cases a) (auto intro: step.intros split: option.splits)
  then show ?case using act.IH act.hyps(4) by (auto intro: reach.next_step)
qed

section \<open>Accounting\<close>

text \<open>The entry a thread has not got rid of yet, and the one the drain thread holds.\<close>

fun waiting :: "'e ppc \<Rightarrow> 'e list" where
  "waiting (P_Load e) = [e]"
| "waiting (P_Seq e h) = [e]"
| "waiting (P_Test e h s) = [e]"
| "waiting _ = []"

fun popping :: "'e cpc \<Rightarrow> 'e list" where
  "popping (C_Tail t e) = [e]"
| "popping (C_Rel t e) = [e]"
| "popping _ = []"

lemma waiting_cases:
  obtains "waiting pc = []" | e where "waiting pc = [e]"
  by (cases pc) auto

text \<open>What one access of \<open>TryPush\<close> does: nothing to the accounts, the claim, or the refusal.\<close>

lemma prod_step_cases:
  fixes st :: "'e mpsc" and cap p :: nat
  defines "st' \<equiv> prod_step cap p st"
  obtains (same) "claimed st' = claimed st" "waiting (ppc st' p) = waiting (ppc st p)" "\<not> refuses (ppc st p)"
    | (claim) e where "waiting (ppc st p) = [e]" "claimed st' = claimed st @ [(p, e)]" "waiting (ppc st' p) = []" "\<not> refuses (ppc st p)"
    | (refuse) e where "waiting (ppc st p) = [e]" "claimed st' = claimed st" "ppc st' p = P_Idle" "refuses (ppc st p)"
proof -
  have "claimed st' = claimed st \<and> waiting (ppc st' p) = waiting (ppc st p) \<and> \<not> refuses (ppc st p) \<or>
      (\<exists>e. waiting (ppc st p) = [e] \<and> claimed st' = claimed st @ [(p, e)] \<and> waiting (ppc st' p) = [] \<and> \<not> refuses (ppc st p)) \<or>
      (\<exists>e. waiting (ppc st p) = [e] \<and> claimed st' = claimed st \<and> ppc st' p = P_Idle \<and> refuses (ppc st p))"
    by (cases "ppc st p") (simp_all add: st'_def prod_step_def refuses_def Let_def)
  then show thesis using that by blast
qed

lemma prod_step_frame [simp]:
  "q \<noteq> p \<Longrightarrow> ppc (prod_step cap p st) q = ppc st q"
  "popped (prod_step cap p st) = popped st" "cpc (prod_step cap p st) = cpc st"
  by (cases "ppc st p"; simp add: prod_step_def Let_def)+

lemma cons_step_accounts [simp]:
  "claimed (cons_step cap st) = claimed st" "ppc (cons_step cap st) = ppc st"
  by (cases "cpc st"; simp add: cons_step_def Let_def)+

definition handed :: "conc_log \<Rightarrow> Entry list" where
  "handed c = (case cl_hand c of None \<Rightarrow> [] | Some e \<Rightarrow> [e])"

definition unsettled :: "conc_log \<Rightarrow> nat set" where
  "unsettled c = {p. waiting (ppc (cl_ring c) p) \<noteq> [] \<or> cl_refused c p}"

definition requests_of :: "nat \<Rightarrow> conc_log \<Rightarrow> log_req list" where
  "requests_of p c = map snd (filter (\<lambda>x. fst x = p) (cl_tried c))"

definition tried_by :: "nat \<Rightarrow> conc_log \<Rightarrow> Entry list" where
  "tried_by p c = map req_entry (requests_of p c)"

definition claimed_by :: "nat \<Rightarrow> conc_log \<Rightarrow> Entry list" where
  "claimed_by p c = map snd (filter (\<lambda>x. fst x = p) (claimed (cl_ring c)))"

text \<open>
  The invariant: the logger has output the entries \<open>F\<close>, which are the popped ones without the
  one in the drain thread's hands; every entry tried is claimed, counted among the \<open>n\<close> drops,
  or on its way; the entries of a thread keep their order; drops mean that the ring was full.
\<close>

definition drain_inv :: "rtlog \<Rightarrow> Entry list \<Rightarrow> nat \<Rightarrow> conc_log \<Rightarrow> bool" where
  "drain_inv s F n c \<longleftrightarrow>
     popped (cl_ring c) = F @ popping (cpc (cl_ring c)) @ handed c \<and> (cl_hand c \<noteq> None \<longrightarrow> cpc (cl_ring c) = C_Idle) \<and>
     drain_ok (cl_log c) \<and> config_of (cl_log c) = config_of s \<and>
     feed_of (cl_log c) = fold (feed_entry (config_of s)) F (feed_of s) \<and>
     lg_initialized (cl_log c) = lg_initialized s \<and> lg_level (cl_log c) = lg_level s \<and>
     lg_dropCount (cl_log c) = lg_dropCount s + of_nat n"

definition count_inv :: "nat \<Rightarrow> conc_log \<Rightarrow> bool" where
  "count_inv n c \<longleftrightarrow>
     finite (unsettled c) \<and> length (cl_tried c) = length (claimed (cl_ring c)) + n + card (unsettled c) \<and>
     (\<forall>p. cl_refused c p \<longrightarrow> ppc (cl_ring c) p = P_Idle)"

definition order_inv :: "conc_log \<Rightarrow> bool" where
  "order_inv c \<longleftrightarrow>
     (\<forall>p. subseq (claimed_by p c @ waiting (ppc (cl_ring c) p)) (tried_by p c)) \<and>
     (\<forall>(p, r) \<in> set (cl_tried c). entry_is r (req_entry r))"

definition full_inv :: "nat \<Rightarrow> nat \<Rightarrow> conc_log \<Rightarrow> bool" where
  "full_inv k n c \<longleftrightarrow>
     (n > 0 \<or> (\<exists>p. cl_refused c p \<or> refuses (ppc (cl_ring c) p)) \<longrightarrow> 2 ^ k \<le> length (claimed (cl_ring c)))"

text \<open>The producers' accesses.\<close>

lemma card_waiting:
  assumes "finite A" and "x \<notin> A"
  shows "card (insert x A) = Suc (card A)"
  using assms by simp

lemma count_push:
  assumes "count_inv n c" and "ppc (cl_ring c) p \<noteq> P_Idle"
  shows "count_inv n (conc_do k (A_push p) c)"
proof -
  let ?c = "conc_do k (A_push p) c" and ?st = "cl_ring c"
  have nr: "\<not> cl_refused c p" using assms by (auto simp: count_inv_def)
  have others: "q \<in> unsettled ?c \<longleftrightarrow> q \<in> unsettled c" if "q \<noteq> p" for q
    using that by (simp add: unsettled_def)
  show ?thesis
  proof (cases rule: prod_step_cases [where st = ?st and cap = "2 ^ k" and p = p])
    case same
    then have "unsettled ?c = unsettled c" using others nr by (auto simp: unsettled_def)
    then show ?thesis using assms same by (auto simp: count_inv_def)
  next
    case (claim e)
    then have pu: "p \<notin> unsettled ?c" "p \<in> unsettled c" by (simp_all add: unsettled_def)
    have u: "unsettled ?c = unsettled c - {p}"
    proof (rule set_eqI)
      show "q \<in> unsettled ?c \<longleftrightarrow> q \<in> unsettled c - {p}" for q
        using others [of q] pu(1) by (cases "q = p") (simp_all only: DiffI Diff_iff singleton_iff simp_thms)
    qed
    have "card (unsettled c) = Suc (card (unsettled c - {p}))"
      using card.remove [of "unsettled c" p] pu(2) assms(1) by (simp only: count_inv_def)
    then show ?thesis using assms claim unfolding count_inv_def u by auto
  next
    case (refuse e)
    then have "p \<in> unsettled ?c" "p \<in> unsettled c" by (simp_all add: unsettled_def)
    then have "unsettled ?c = unsettled c" using others by (intro set_eqI) metis
    then show ?thesis using assms refuse by (auto simp: count_inv_def)
  qed
qed

lemma claimed_by_push:
  "claimed_by q (conc_do k (A_push p) c) = map snd (filter (\<lambda>x. fst x = q) (claimed (prod_step (2 ^ k) p (cl_ring c))))"
  "tried_by q (conc_do k (A_push p) c) = tried_by q c"
  by (simp_all add: claimed_by_def tried_by_def requests_of_def)

lemma subseq_drop_last: "subseq (xs @ ys) zs \<Longrightarrow> subseq xs zs"
  by (rule subseq_order.order_trans [of xs "xs @ ys"]) (rule list_emb_prefix, simp_all)

lemma subseq_set: "subseq xs ys \<Longrightarrow> x \<in> set xs \<Longrightarrow> x \<in> set ys"
  by (induction rule: list_emb.induct) auto

lemma order_push:
  assumes "order_inv c"
  shows "order_inv (conc_do k (A_push p) c)"
proof -
  let ?c = "conc_do k (A_push p) c" and ?st = "cl_ring c"
  have "subseq (claimed_by q ?c @ waiting (ppc (cl_ring ?c) q)) (tried_by q ?c)" for q
  proof -
    have o: "subseq (claimed_by q c @ waiting (ppc ?st q)) (tried_by q c)" using assms by (simp add: order_inv_def)
    show ?thesis
      unfolding claimed_by_push
      by (cases rule: prod_step_cases [where st = ?st and cap = "2 ^ k" and p = p]; cases "q = p")
         (use o subseq_drop_last [of "claimed_by p c" _ "tried_by p c"] in \<open>auto simp: claimed_by_def\<close>)
  qed
  then show ?thesis using assms by (simp add: order_inv_def)
qed


lemma full_push:
  assumes "full_inv k n c" and "reach (2 ^ k) (cl_ring c)" and "1 \<le> k" and "k \<le> 30"
  shows "full_inv k n (conc_do k (A_push p) c)"
proof -
  let ?c = "conc_do k (A_push p) c" and ?st = "cl_ring c"
  have mono: "length (claimed ?st) \<le> length (claimed (cl_ring ?c))"
    by (cases rule: prod_step_cases [where st = ?st and cap = "2 ^ k" and p = p]) simp_all
  have "2 ^ k \<le> length (claimed (cl_ring ?c))" if f: "n > 0 \<or> (\<exists>q. cl_refused ?c q \<or> refuses (ppc (cl_ring ?c) q))"
  proof (cases "n > 0 \<or> (\<exists>q. cl_refused c q \<or> refuses (ppc ?st q))")
    case True
    then have "2 ^ k \<le> length (claimed ?st)" using assms(1) unfolding full_inv_def by blast
    then show ?thesis using mono by linarith
  next
    case False
    then have nr: "\<not> refuses (ppc ?st p)" by blast
    then have "refuses (ppc (cl_ring ?c) p)" using f False by (auto split: if_splits)
    then obtain e h x where t: "ppc (prod_step (2 ^ k) p ?st) p = P_Test e h x" "sub32 x h < 0"
      by (auto simp: refuses_def split: ppc.splits)
    have "\<exists>e h. ppc ?st p = P_Seq e h"
      using t(1) nr by (cases "ppc ?st p") (auto simp: prod_step_def refuses_def Let_def split: if_splits)
    then obtain e' h' where q: "ppc ?st p = P_Seq e' h'" by blast
    have "P_Test e h x = P_Test e' h' (seq (slot_at k ?st (ghd ?st p)))"
      using loaded_seq(4) [OF assms(2-4) q] t(1) by simp
    then have "ppc ?st p = P_Seq e h" using q by simp
    from mpsc_refusal_means_full [OF assms(2-4) this t] have "length (claimed ?st) = rel ?st + 2 ^ k" .
    then show ?thesis using mono by linarith
  qed
  then show ?thesis by (simp only: full_inv_def) blast
qed

lemma drain_push: "drain_inv s F n c \<Longrightarrow> drain_inv s F n (conc_do k (A_push p) c)"
  by (simp add: drain_inv_def handed_def)

text \<open>A call, the counting of a drop, and the drain thread.\<close>

definition logs :: "rtlog \<Rightarrow> log_req \<Rightarrow> bool" where
  "logs s r \<longleftrightarrow> lg_initialized s \<and> IsActiveLevel (req_level r) s"

lemma count_call:
  assumes "count_inv n c" and "can_do (A_log p r) c"
  shows "count_inv n (conc_do k (A_log p r) c)"
proof (cases "logs (cl_log c) r")
  case True
  let ?c = "conc_do k (A_log p r) c"
  have "p \<notin> unsettled c" using assms(2) by (simp add: unsettled_def)
  moreover have "unsettled ?c = insert p (unsettled c)" using True by (auto simp: unsettled_def logs_def)
  ultimately show ?thesis using assms True by (auto simp: count_inv_def logs_def)
next
  case False
  then show ?thesis using assms(1) by (auto simp: logs_def)
qed

lemma order_call:
  assumes "order_inv c" and "can_do (A_log p r) c" and "good_act (A_log p r)"
  shows "order_inv (conc_do k (A_log p r) c)"
proof (cases "logs (cl_log c) r")
  case True
  let ?c = "conc_do k (A_log p r) c"
  have e: "entry_is r (req_entry r)" using assms(3) by (intro req_entry_is) simp_all
  have idle: "ppc (cl_ring c) p = P_Idle" using assms(2) by simp
  have "subseq (claimed_by q ?c @ waiting (ppc (cl_ring ?c) q)) (tried_by q ?c)" for q
  proof -
    have o: "subseq (claimed_by q c @ waiting (ppc (cl_ring c) q)) (tried_by q c)" using assms(1) by (simp add: order_inv_def)
    show ?thesis
    proof (cases "q = p")
      case q: True
      have "subseq (claimed_by p c) (tried_by p c)" using o idle q by simp
      then have "subseq (claimed_by p c @ [req_entry r]) (tried_by p c @ [req_entry r])"
        by (rule list_emb_append_mono) simp
      then show ?thesis using True q by (simp add: logs_def claimed_by_def tried_by_def requests_of_def)
    next
      case False
      then show ?thesis using True o by (simp add: logs_def claimed_by_def tried_by_def requests_of_def)
    qed
  qed
  then show ?thesis using assms(1) True e by (auto simp: order_inv_def logs_def)
next
  case False
  then show ?thesis using assms(1) by (auto simp: logs_def)
qed

lemma call_others:
  "drain_inv s F n c \<Longrightarrow> drain_inv s F n (conc_do k (A_log p r) c)"
  "full_inv k n c \<Longrightarrow> full_inv k n (conc_do k (A_log p r) c)"
  by (auto simp: drain_inv_def handed_def full_inv_def refuses_def split: if_splits)

lemma count_count:
  assumes "count_inv n c" and "cl_refused c p"
  shows "count_inv (Suc n) (conc_do k (A_count p) c)"
proof -
  let ?c = "conc_do k (A_count p) c"
  have p: "p \<in> unsettled c" using assms(2) by (simp add: unsettled_def)
  have "ppc (cl_ring c) p = P_Idle" using assms by (simp add: count_inv_def)
  then have u: "unsettled ?c = unsettled c - {p}" by (auto simp: unsettled_def)
  have "card (unsettled c) = Suc (card (unsettled c - {p}))"
    using card.remove [of "unsettled c" p] p assms(1) by (simp only: count_inv_def)
  then show ?thesis using assms unfolding count_inv_def u by auto
qed

lemma count_others:
  assumes "cl_refused c p"
  shows "order_inv c \<Longrightarrow> order_inv (conc_do k (A_count p) c)"
    and "full_inv k n c \<Longrightarrow> full_inv k (Suc n) (conc_do k (A_count p) c)"
    and "drain_inv s F n c \<Longrightarrow> drain_inv s F (Suc n) (conc_do k (A_count p) c)"
proof -
  show "order_inv c \<Longrightarrow> order_inv (conc_do k (A_count p) c)"
    by (simp add: order_inv_def claimed_by_def tried_by_def requests_of_def)
  show "full_inv k n c \<Longrightarrow> full_inv k (Suc n) (conc_do k (A_count p) c)"
    using assms by (auto simp: full_inv_def)
  show "drain_inv s F n c \<Longrightarrow> drain_inv s F (Suc n) (conc_do k (A_count p) c)"
    by (simp add: drain_inv_def handed_def count_drop_def drain_ok_def config_of_def feed_of_def cont_text_def)
qed

lemma pop_keeps:
  assumes "can_do A_pop c"
  shows "order_inv c \<Longrightarrow> order_inv (conc_do k A_pop c)"
    and "full_inv k n c \<Longrightarrow> full_inv k n (conc_do k A_pop c)"
    and "count_inv n c \<Longrightarrow> count_inv n (conc_do k A_pop c)"
    and "drain_inv s F n c \<Longrightarrow> drain_inv s F n (conc_do k A_pop c)"
proof -
  show "order_inv c \<Longrightarrow> order_inv (conc_do k A_pop c)"
    by (simp add: order_inv_def claimed_by_def tried_by_def requests_of_def)
  show "full_inv k n c \<Longrightarrow> full_inv k n (conc_do k A_pop c)" by (simp add: full_inv_def)
  show "count_inv n c \<Longrightarrow> count_inv n (conc_do k A_pop c)" by (simp add: count_inv_def unsettled_def)
  show "drain_inv s F n c \<Longrightarrow> drain_inv s F n (conc_do k A_pop c)"
    using assms by (cases "cpc (cl_ring c)") (simp_all add: drain_inv_def handed_def cons_step_def Let_def)
qed

lemma popped_wf:
  assumes "order_inv c" and "qinv k (cl_ring c)" and "e \<in> set (popped (cl_ring c))"
  shows "entry_wf MSG_LEN e"
proof -
  have "e \<in> set (map snd (claimed (cl_ring c)))"
  proof -
    have "\<exists>m. popped (cl_ring c) = map snd (take m (claimed (cl_ring c)))"
      by (rule exI) (rule invD(4) [OF assms(2)])
    then obtain m where m: "popped (cl_ring c) = map snd (take m (claimed (cl_ring c)))" ..
    show ?thesis using assms(3) unfolding m by (auto dest: in_set_takeD)
  qed
  then obtain p where "(p, e) \<in> set (claimed (cl_ring c))" by auto
  then have "e \<in> set (claimed_by p c)" by (force simp: claimed_by_def)
  moreover have "subseq (claimed_by p c) (tried_by p c)"
    using assms(1) subseq_drop_last unfolding order_inv_def by blast
  ultimately have "e \<in> set (tried_by p c)" by (blast intro: subseq_set)
  then obtain r where "(p, r) \<in> set (cl_tried c)" "e = req_entry r" by (auto simp: tried_by_def requests_of_def)
  then show ?thesis using assms(1) by (auto simp: order_inv_def entry_is_def)
qed

lemma flush_keeps_inv:
  assumes "cl_hand c = Some e" and "entry_wf MSG_LEN e" and "drain_inv s F n c"
  shows "drain_inv s (F @ [e]) n (conc_do k A_flush c)"
proof -
  have d: "drain_ok (cl_log c)" using assms(3) by (simp add: drain_inv_def)
  note f = FlushEntry_refines [OF d assms(2)]
  note o = only_output_keeps [OF conjunct1 [OF conjunct2 [OF f]]]
  show ?thesis using assms(1,3) f o by (simp add: drain_inv_def handed_def)
qed

lemma flush_others:
  "order_inv c \<Longrightarrow> order_inv (conc_do k A_flush c)"
  "full_inv k n c \<Longrightarrow> full_inv k n (conc_do k A_flush c)"
  "count_inv n c \<Longrightarrow> count_inv n (conc_do k A_flush c)"
  by (auto simp: order_inv_def claimed_by_def tried_by_def requests_of_def full_inv_def count_inv_def unsettled_def split: option.splits)

definition conc_inv :: "nat \<Rightarrow> rtlog \<Rightarrow> conc_log \<Rightarrow> bool" where
  "conc_inv k s c \<longleftrightarrow> (\<exists>F n. drain_inv s F n c \<and> count_inv n c \<and> full_inv k n c) \<and> order_inv c"

lemma conc_reach_inv:
  assumes "conc_reach k s c" and "1 \<le> k" and "k \<le> 30" and "drain_ok s"
  shows "conc_inv k s c"
  using assms(1)
proof (induction rule: conc_reach.induct)
  case (init junk)
  have "drain_inv s [] 0 (conc_init k junk s)"
    using assms(4) by (simp add: drain_inv_def conc_init_def mpsc_init_def handed_def)
  moreover have "count_inv 0 (conc_init k junk s)" "full_inv k 0 (conc_init k junk s)" "order_inv (conc_init k junk s)"
    by (simp_all add: count_inv_def full_inv_def order_inv_def conc_init_def mpsc_init_def unsettled_def refuses_def
        claimed_by_def tried_by_def requests_of_def)
  ultimately show ?case by (auto simp: conc_inv_def)
next
  case (act c a)
  then obtain F n where i: "drain_inv s F n c" "count_inv n c" "full_inv k n c" "order_inv c" by (auto simp: conc_inv_def)
  note ring = conc_ring_reach [OF act.hyps(1)]
  show ?case
  proof (cases a)
    case (A_log p r)
    then show ?thesis
      using call_others(1) [OF i(1), of k p r] call_others(2) [OF i(3), of p r] count_call [OF i(2), of p r k]
        order_call [OF i(4), of p r k] act.hyps(2,3) unfolding conc_inv_def by blast
  next
    case (A_push p)
    then show ?thesis
      using drain_push [OF i(1), of k p] full_push [OF i(3) ring assms(2,3), of p] count_push [OF i(2), of p k]
        order_push [OF i(4), of k p] act.hyps(2) unfolding conc_inv_def by (metis can_do.simps(2))
  next
    case (A_count p)
    then have r: "cl_refused c p" using act.hyps(2) by simp
    then show ?thesis
      using count_others [OF r] count_count [OF i(2) r] i A_count unfolding conc_inv_def by blast
  next
    case A_pop
    then show ?thesis using pop_keeps [of c] i act.hyps(2) unfolding conc_inv_def by blast
  next
    case A_flush
    then obtain e where h: "cl_hand c = Some e" using act.hyps(2) by auto
    have "e \<in> set (popped (cl_ring c))" using i(1) h by (simp add: drain_inv_def handed_def)
    then have "entry_wf MSG_LEN e" using popped_wf [OF i(4)] reach_inv [OF ring assms(2,3)] by blast
    then show ?thesis
      using flush_keeps_inv [OF h _ i(1)] flush_others i(2-4) A_flush unfolding conc_inv_def by blast
  qed
qed

section \<open>What is logged\<close>

text \<open>Nothing is under way and the drain thread has caught up.\<close>

definition settled :: "conc_log \<Rightarrow> bool" where
  "settled c \<longleftrightarrow>
     (\<forall>p. ppc (cl_ring c) p = P_Idle \<and> \<not> cl_refused c p) \<and> cpc (cl_ring c) = C_Idle \<and> cl_hand c = None \<and>
     length (popped (cl_ring c)) = length (claimed (cl_ring c))"

definition logged_call :: "rtlog \<Rightarrow> log_req \<Rightarrow> lib_call" where
  "logged_call s r = Log_at To_default (lg_wall s - lg_mono s + req_now r) (req_level r) (take 1023 (req_text r))"

lemma count_fst: "count (mset (map fst zs)) p = length (filter (\<lambda>x. fst x = p) zs)"
  by (induction zs) auto

lemma same_threads:
  assumes "\<And>p. length (filter (\<lambda>x. fst x = p) xs) \<le> length (filter (\<lambda>x. fst x = p) ys)" and "length xs = length ys"
  shows "length (filter (\<lambda>x. fst x = p) xs) = length (filter (\<lambda>x. fst x = p) ys)"
proof -
  have "mset (map fst xs) \<subseteq># mset (map fst ys)" by (rule mset_subset_eqI) (simp only: count_fst assms(1))
  moreover have "size (mset (map fst xs)) = size (mset (map fst ys))" using assms(2) by simp
  ultimately have "mset (map fst xs) = mset (map fst ys)" by (metis mset_subset_size nless_le subset_mset.le_less)
  then show ?thesis by (metis count_fst)
qed

text \<open>
  C3: Logging from any number of threads, in every interleaving of their accesses with those of
  the drain thread: when all have finished, the library has been asked to log the messages of
  the calls whose level passed, with their own time, level and text; the messages of each
  thread come in the order of its calls, none twice; as many as are missing have been added
  to the drop counter; and nothing is missing when no more were logged than the ring holds.
\<close>

theorem threads_are_logged:
  assumes "conc_reach k s c" and "1 \<le> k" and "k \<le> 30" and "drain_ok s" and "lg_contLen s = 0" and "settled c"
    and "\<forall>(p, r) \<in> set (cl_tried c). plain_request s r"
  shows "\<exists>out. lg_calls (cl_log c) = lg_calls s @ map snd out \<and> length out \<le> length (cl_tried c) \<and>
           (\<forall>p. subseq (map snd (filter (\<lambda>x. fst x = p) out)) (map (logged_call s) (requests_of p c))) \<and>
           lg_dropCount (cl_log c) = lg_dropCount s + of_nat (length (cl_tried c) - length out) \<and>
           (length (cl_tried c) \<le> 2 ^ k \<longrightarrow>
              length out = length (cl_tried c) \<and>
              (\<forall>p. map snd (filter (\<lambda>x. fst x = p) out) = map (logged_call s) (requests_of p c)))"
proof -
  let ?cl = "claimed (cl_ring c)"
  note ring = conc_ring_reach [OF assms(1)]
  obtain F n where i: "drain_inv s F n c" "count_inv n c" "full_inv k n c" "order_inv c"
    using conc_reach_inv [OF assms(1-4)] by (auto simp: conc_inv_def)
  have "unsettled c = {}" using assms(6) by (simp add: unsettled_def settled_def)
  then have len: "length (cl_tried c) = length ?cl + n" using i(2) by (simp add: count_inv_def)
  have "popped (cl_ring c) = map snd ?cl"
    using invD(4) [OF conjunct1 [OF reach_inv [OF ring assms(2,3)]]] assms(6) by (simp add: settled_def)
  then have F: "F = map snd ?cl" using i(1) assms(6) by (simp add: drain_inv_def settled_def handed_def)
  define mc where "mc e = Log_at To_default (fc_offset (config_of s) + timeStamp_ns e) (level e) (entry_text e)" for e
  define out where "out = map (apsnd mc) ?cl"
  have by_p: "map snd (filter (\<lambda>x. fst x = p) out) = map mc (claimed_by p c)" for p
    by (simp add: out_def claimed_by_def filter_map comp_def)
  have sub: "subseq (claimed_by p c) (tried_by p c)" for p
    using i(4) subseq_drop_last unfolding order_inv_def by blast
  have tr: "map mc (tried_by p c) = map (logged_call s) (requests_of p c)" for p
    using i(4) by (auto simp: tried_by_def requests_of_def order_inv_def entry_is_def mc_def logged_call_def config_of_def)
  have sub': "subseq (map snd (filter (\<lambda>x. fst x = p) out)) (map (logged_call s) (requests_of p c))" for p
    using subseq_map [OF sub [of p], of mc] by (simp only: by_p tr)
  have "\<forall>e \<in> set F. \<not> is_cont e \<and> (cstr (loggerName e) = [] \<or> \<not> fc_registry (config_of s) (cstr (loggerName e)))"
  proof
    fix e assume "e \<in> set F"
    then obtain p where "e \<in> set (claimed_by p c)" unfolding F claimed_by_def by force
    then have "e \<in> set (tried_by p c)" by (rule subseq_set [OF sub [of p]])
    then obtain r where r: "(p, r) \<in> set (cl_tried c)" "e = req_entry r" by (auto simp: tried_by_def requests_of_def)
    then have "entry_is r e" "plain_request s r" using i(4) assms(7) by (auto simp: order_inv_def)
    then show "\<not> is_cont e \<and> (cstr (loggerName e) = [] \<or> \<not> fc_registry (config_of s) (cstr (loggerName e)))"
      by (auto simp: entry_is_def plain_request_def config_of_def)
  qed
  then have "fold (feed_entry (config_of s)) F (feed_of s) = (feed_of s)\<lparr>fd_calls := fd_calls (feed_of s) @ map mc F\<rparr>"
    unfolding mc_def by (rule feed_entries_plain) (simp add: feed_of_def cont_text_def assms(5))
  then have "fd_calls (feed_of (cl_log c)) = fd_calls (feed_of s) @ map mc F" using i(1) by (simp add: drain_inv_def)
  then have calls: "lg_calls (cl_log c) = lg_calls s @ map snd out"
    by (simp add: feed_of_def F out_def comp_def)
  have drops: "lg_dropCount (cl_log c) = lg_dropCount s + of_nat (length (cl_tried c) - length out)"
    using i(1) len by (simp add: drain_inv_def out_def)
  have all: "length out = length (cl_tried c) \<and>
      (\<forall>p. map snd (filter (\<lambda>x. fst x = p) out) = map (logged_call s) (requests_of p c))" if "length (cl_tried c) \<le> 2 ^ k"
  proof -
    have "n = 0" using i(3) len that unfolding full_inv_def by linarith
    then have l: "length out = length (cl_tried c)" using len by (simp add: out_def)
    have le: "length (filter (\<lambda>x. fst x = p) out) \<le> length (filter (\<lambda>x. fst x = p) (cl_tried c))" for p
      using list_emb_length [OF sub' [of p]] by (simp add: requests_of_def)
    have "map snd (filter (\<lambda>x. fst x = p) out) = map (logged_call s) (requests_of p c)" for p
      by (rule subseq_same_length [OF sub']) (use same_threads [OF le l, of p] in \<open>simp add: requests_of_def\<close>)
    then show ?thesis using l by blast
  qed
  have "length out \<le> length (cl_tried c)" using len by (simp add: out_def)
  then show ?thesis using calls sub' drops all by blast
qed

text \<open>Concrete executions.\<close>

fun conc_run :: "nat \<Rightarrow> conc_act list \<Rightarrow> conc_log \<Rightarrow> conc_log option" where
  "conc_run k [] c = Some c"
| "conc_run k (a # as) c =
     (if can_do a c \<and> good_act a \<and> length (claimed (cl_ring (conc_do k a c))) < 2 ^ 30 then conc_run k as (conc_do k a c)
      else None)"

lemma conc_run_reach:
  "conc_reach k s c \<Longrightarrow> conc_run k as c = Some c' \<Longrightarrow> conc_reach k s c'"
proof (induction as arbitrary: c)
  case (Cons a as)
  have "can_do a c" "good_act a" "fresh (cl_ring (conc_do k a c))"
    using Cons.prems(2) fresh_small by (auto split: if_splits)
  from conc_reach.act [OF Cons.prems(1) this] show ?case using Cons.IH Cons.prems(2) by (auto split: if_splits)
qed simp

definition ex_req :: "char list \<Rightarrow> log_req" where
  "ex_req t = R_rt (ex_entry NUL []) L_err 0 (Some t)"

text \<open>Two threads that race for the first slot; the second wins.\<close>

definition ex_acts :: "conc_act list" where
  "ex_acts =
     [A_log 0 (ex_req ''a''), A_log 1 (ex_req ''b''), A_push 0, A_push 1, A_push 1, A_push 0, A_push 1, A_push 0, A_push 1,
      A_push 0, A_push 0, A_push 1, A_push 0, A_push 0, A_pop, A_pop, A_pop, A_pop, A_pop, A_flush,
      A_pop, A_pop, A_pop, A_pop, A_pop, A_flush]"

lemma ex_conc_run:
  "\<exists>c. conc_run 1 ex_acts (conc_init 1 (\<lambda>_. ex_entry NUL []) ex_log) = Some c \<and> settled c \<and>
       cl_tried c = [(0, ex_req ''a''), (1, ex_req ''b'')]"
proof -
  have l: "lg_initialized ex_log" "IsActiveLevel L_err ex_log"
    by (simp_all add: ex_log_def RtLog_new_def IsActiveLevel_def)
  have g: "good_act (A_log p (ex_req t))" for p t
    by (simp add: ex_req_def entry_shape_def ex_entry_def MSG_LEN_def)
  have r: "req_level (ex_req t) = L_err" for t by (simp add: ex_req_def)
  show ?thesis
    unfolding ex_acts_def
    by (simp add: l g r conc_init_def mpsc_init_def LogQueue_init_def prod_step_def cons_step_def refuses_def Let_def
        slot_idx_def sub32_def upt_rec settled_def del: good_act.simps(1))
qed

theorem threads_are_logged_witness:
  "\<exists>c. \<exists>out :: (nat \<times> lib_call) list. conc_run 1 ex_acts (conc_init 1 (\<lambda>_. ex_entry NUL []) ex_log) = Some c \<and>
     lg_calls (cl_log c) = map snd out \<and> length out = 2 \<and>
     map snd (filter (\<lambda>x. fst x = 0) out) = [Log_at To_default 0 L_err ''a''] \<and>
     map snd (filter (\<lambda>x. fst x = 1) out) = [Log_at To_default 0 L_err ''b'']"
proof -
  obtain c where c: "conc_run 1 ex_acts (conc_init 1 (\<lambda>_. ex_entry NUL []) ex_log) = Some c" "settled c"
      "cl_tried c = [(0, ex_req ''a''), (1, ex_req ''b'')]" using ex_conc_run by blast
  have r: "conc_reach 1 ex_log c" by (rule conc_run_reach [OF conc_reach.init c(1)])
  have p: "\<forall>(p, r) \<in> set (cl_tried c). plain_request ex_log r"
    by (simp add: c(3) ex_req_def plain_request_def entry_shape_def ex_entry_def MSG_LEN_def)
  have l: "lg_contLen ex_log = 0" "lg_calls ex_log = []" "lg_wall ex_log = 0" "lg_mono ex_log = 0"
    by (simp_all add: ex_log_def RtLog_new_def)
  have q: "map (logged_call ex_log) (requests_of 0 c) = [Log_at To_default 0 L_err ''a'']"
      "map (logged_call ex_log) (requests_of 1 c) = [Log_at To_default 0 L_err ''b'']"
    by (simp_all add: requests_of_def c(3) logged_call_def ex_req_def l)
  have n: "length (cl_tried c) \<le> 2 ^ 1" "(1::nat) \<le> 1" "(1::nat) \<le> 30" by (simp_all add: c(3))
  from threads_are_logged [OF r n(2,3) ex_log_ok(1) l(1) c(2) p] n(1) obtain out where out:
      "lg_calls (cl_log c) = lg_calls ex_log @ map snd out" "length out = length (cl_tried c)"
      "\<forall>p. map snd (filter (\<lambda>x. fst x = p) out) = map (logged_call ex_log) (requests_of p c)"
    by blast
  have "lg_calls (cl_log c) = map snd out" "length out = 2" using out(1,2) l(2) c(3) by simp_all
  moreover have "map snd (filter (\<lambda>x. fst x = 0) out) = [Log_at To_default 0 L_err ''a'']"
      "map snd (filter (\<lambda>x. fst x = 1) out) = [Log_at To_default 0 L_err ''b'']"
    using out(3) q by simp_all
  ultimately show ?thesis using c(1) by (intro exI [of _ c] exI [of _ out] conjI)
qed

text \<open>
  The ring keeps the order of each thread, but the continuation buffer belongs to all of them:
  a part that thread 0 has not ended and the next part of thread 1 come out as one line, with
  the level of the second; an ordinary message of thread 1 in between cuts the line in two.
\<close>

lemma lines_of_plain: "NL \<notin> set xs \<Longrightarrow> lines_of xs = ([], xs)"
  by (induction xs) auto

lemma lines_of_line: "NL \<notin> set xs \<Longrightarrow> lines_of (xs @ [NL]) = ([xs], [])"
  by (induction xs) auto

lemma threads_mix_continuations:
  assumes "is_cont e0" and "is_cont e1" and "fd_text f = []"
    and "NL \<notin> set (entry_text e0)" and "entry_text e1 = y @ [NL]" and "NL \<notin> set y"
    and "length (entry_text e0) + length y < 4096"
  shows "fold (feed_entry fc) [e0, e1] f = feed_lines fc [entry_text e0 @ y] (f\<lparr>fd_level := level e1\<rparr>)"
proof -
  have "feed_entry fc e0 f = f\<lparr>fd_text := entry_text e0, fd_level := level e0\<rparr>"
    using assms by (simp add: feed_entry_def feed_cont_def lines_of_plain feed_lines_def)
  moreover have "lines_of (take 4096 (entry_text e0 @ y @ [NL])) = ([entry_text e0 @ y], [])"
    using assms(4,6,7) lines_of_line [of "entry_text e0 @ y"] by simp
  ultimately show ?thesis using assms by (simp add: feed_entry_def feed_cont_def feed_lines_def)
qed

lemma message_cuts_continuation:
  assumes "is_cont e0" and "\<not> is_cont e1" and "is_cont e2" and "fd_text f = []" and "cstr (loggerName e1) = []"
    and "NL \<notin> set (entry_text e0)" and "entry_text e0 \<noteq> []" and "entry_text e2 = y @ [NL]" and "NL \<notin> set y"
    and "length (entry_text e0) < 4096" and "length y < 4096"
  shows "fd_calls (fold (feed_entry fc) [e0, e1, e2] f) =
           fd_calls f @ cont_calls (fc_pattern fc) (level e0) (entry_text e0) @
           [Log_at To_default (fc_offset fc + timeStamp_ns e1) (level e1) (entry_text e1)] @
           cont_calls (fc_pattern fc) (level e2) y"
proof -
  have 1: "feed_entry fc e0 f = f\<lparr>fd_text := entry_text e0, fd_level := level e0\<rparr>"
    using assms by (simp add: feed_entry_def feed_cont_def lines_of_plain feed_lines_def)
  have 2: "lines_of (take 4096 (y @ [NL])) = ([y], [])" using assms(9,11) lines_of_line [of y] by simp
  show ?thesis
    using assms 2 by (simp add: 1) (simp add: feed_entry_def feed_cont_def feed_message_def feed_flush_def feed_lines_def lines_of_plain Let_def)
qed

end
