(* ===== verification/ThreadReg.thy ===== *)
theory ThreadReg
  imports Prelude
begin

text \<open>
  The thread library: creation of POSIX threads, semaphores and mutexes, and the three
  static arrays in which they are registered so that all of one kind can be joined, posted
  or destroyed at once. Objects are identified by their address; what the POSIX calls do is
  modelled as far as it is documented, and what is undefined (writing behind an array,
  joining a thread twice, using a destroyed semaphore) is the outcome \<open>Undefined\<close>.
\<close>

section \<open>Outcomes\<close>

datatype 'a outcome = Undefined | Blocks | Ret 'a

fun obind :: "'a outcome \<Rightarrow> ('a \<Rightarrow> 'b outcome) \<Rightarrow> 'b outcome" where
  "obind Undefined f = Undefined"
| "obind Blocks f = Blocks"
| "obind (Ret x) f = f x"

type_synonym addr = nat

section \<open>The static arrays\<close>

text \<open>
  A counter and an array of pointers. The counter only grows: a slot is used once. Writing
  at an index outside the array is undefined.
\<close>

record registry =
  rg_num :: nat
  rg_slots :: "addr option list"

definition registry_new :: "nat \<Rightarrow> registry" where
  "registry_new n = \<lparr>rg_num = 0, rg_slots = replicate n None\<rparr>"

definition reg_add :: "addr \<Rightarrow> registry \<Rightarrow> (int \<times> registry) outcome" where
  "reg_add p r =
     (if rg_num r < length (rg_slots r)
      then Ret (int (rg_num r), \<lparr>rg_num = rg_num r + 1, rg_slots = (rg_slots r)[rg_num r := Some p]\<rparr>)
      else Undefined)"

definition reg_clear :: "int \<Rightarrow> registry \<Rightarrow> registry outcome" where
  "reg_clear i r =
     (if 0 \<le> i \<and> nat i < length (rg_slots r) then Ret (r\<lparr>rg_slots := (rg_slots r)[nat i := None]\<rparr>)
      else Undefined)"

text \<open>
  The loops of \<open>DeleteAllThread\<close>, \<open>DeleteAllSemaphore\<close> and \<open>DeleteAllMutex\<close>: from the last
  index used down to 0, stopping at the first call that fails. The result says whether none
  failed and how many succeeded.
\<close>

fun delete_loop :: "(addr \<Rightarrow> 's \<Rightarrow> (bool \<times> 's) outcome) \<Rightarrow> addr option list \<Rightarrow> nat \<Rightarrow> nat \<Rightarrow> 's \<Rightarrow> (bool \<times> nat \<times> 's) outcome" where
  "delete_loop release slots 0 num s = Ret (True, num, s)"
| "delete_loop release slots (Suc idx) num s =
     (case slots ! idx of
        None \<Rightarrow> delete_loop release slots idx num s
      | Some p \<Rightarrow> obind (release p s) (\<lambda>(ok, s').
          if ok then delete_loop release slots idx (num + 1) s' else Ret (False, num, s')))"

section \<open>Threads\<close>

datatype sched_policy = SCHED_FIFO | SCHED_OTHER

datatype attr_call =
    Attr_init
  | Attr_inheritsched
  | Attr_policy sched_policy
  | Attr_param int
  | Attr_affinity int
  | Attr_joinable
  | Attr_stacksize nat
  | Thread_create
  | Attr_destroy

record ThreadInfo =
  ti_cpuIdx :: int
  ti_priority :: int
  ti_stackSz :: nat
  ti_id :: nat
  ti_listIdx :: int

datatype os_thread = Joinable "attr_call list" | Joined

text \<open>
  \<open>th_info\<close> is the memory of \<open>ThreadInfo\<close> objects, \<open>th_os\<close> the threads of the process by
  their identifier, \<open>th_next\<close> the next identifier, \<open>th_ends\<close> says which threads return.
\<close>

record threads =
  th_reg :: registry
  th_info :: "addr \<Rightarrow> ThreadInfo"
  th_os :: "nat \<Rightarrow> os_thread option"
  th_next :: nat
  th_ends :: "nat \<Rightarrow> bool"
  th_maxCpuCnt :: int

text \<open>
  \<open>GetCpuCount\<close>: \<open>affinity n\<close> is the outcome of \<open>sched_getaffinity\<close> with a set of \<open>n\<close>
  processors: it succeeds, says that the set is too small, or fails otherwise. The bound
  \<open>max_count\<close> is an \<open>int\<close>; doubling it past its range is undefined.
\<close>

datatype affinity = Affinity_ok | Affinity_EINVAL | Affinity_other

function cpu_loop :: "(nat \<Rightarrow> affinity) \<Rightarrow> int \<Rightarrow> nat \<Rightarrow> int outcome" where
  "cpu_loop affinity nprocessors max_count =
     (if 2 ^ 31 \<le> max_count then Undefined
      else case affinity max_count of
             Affinity_ok \<Rightarrow> Ret nprocessors
           | Affinity_other \<Rightarrow> Ret 1
           | Affinity_EINVAL \<Rightarrow> if max_count = 0 then Undefined else cpu_loop affinity nprocessors (max_count * 2))"
  by pat_completeness auto
termination by (relation "measure (\<lambda>(a, n, m). 2 ^ 31 - m)") auto

declare cpu_loop.simps [simp del]

definition GetCpuCount :: "(nat \<Rightarrow> affinity) \<Rightarrow> int \<Rightarrow> threads \<Rightarrow> threads outcome" where
  "GetCpuCount affinity nprocessors t =
     obind (cpu_loop affinity nprocessors 128) (\<lambda>n. Ret (t\<lparr>th_maxCpuCnt := n\<rparr>))"

text \<open>The calls \<open>CreateThread\<close> makes up to the creation, each behind a \<open>goto error\<close>.\<close>

definition create_calls :: "ThreadInfo \<Rightarrow> bool \<Rightarrow> attr_call list" where
  "create_calls thread realtime =
     [Attr_init, Attr_inheritsched] @
     (if realtime then [Attr_policy SCHED_FIFO, Attr_param (ti_priority thread)] else [Attr_policy SCHED_OTHER]) @
     [Attr_affinity (ti_cpuIdx thread), Attr_joinable] @
     (if ti_stackSz thread > 0 then [Attr_stacksize (ti_stackSz thread)] else []) @
     [Thread_create]"

text \<open>
  \<open>PrintThreadAttr\<close>: \<open>get\<close> is what the functions that read an attribute answer, \<open>None\<close> when
  they fail; the numbers of the constants are those of Linux. The result is the value returned
  and the lines logged, each with whether it is an error.
\<close>

datatype attr_get = Get_stacksize | Get_guardsize | Get_schedpolicy | Get_schedparam | Get_detachstate | Get_inheritsched

definition policy_text :: "int \<Rightarrow> char list" where
  "policy_text p =
     ''  Scheduling policy: '' @
     (if p = 1 then ''SCHED_FIFO'' else if p = 2 then ''SCHED_RR'' else if p = 0 then ''SCHED_OTHER'' else ''[unknown]'')"

definition detach_text :: "int \<Rightarrow> char list" where
  "detach_text d = ''  Detach state: '' @ (if d = 1 then ''DETACHED'' else if d = 0 then ''JOINABLE'' else ''[unknown]'')"

definition inherit_text :: "int \<Rightarrow> char list" where
  "inherit_text i = ''  Inherit scheduler: '' @ (if i = 0 then ''INHERIT'' else if i = 1 then ''EXPLICIT'' else ''[unknown]'')"

fun print_attrs ::
    "char list \<Rightarrow> (attr_get \<Rightarrow> int option) \<Rightarrow> (attr_get \<times> (int \<Rightarrow> char list)) list \<Rightarrow> int \<times> (bool \<times> char list) list" where
  "print_attrs err get [] = (0, [])"
| "print_attrs err get ((a, show_attr) # rest) =
     (case get a of
        None \<Rightarrow> (-1, [(True, ''!Error! PrintThreadAttr() : '' @ err @ [NL])])
      | Some v \<Rightarrow> (case print_attrs err get rest of (r, ls) \<Rightarrow> (r, (False, show_attr v @ [NL]) # ls)))"

definition PrintThreadAttr :: "char list \<Rightarrow> (attr_get \<Rightarrow> int option) \<Rightarrow> int \<times> (bool \<times> char list) list" where
  "PrintThreadAttr err get =
     print_attrs err get
       [(Get_stacksize, \<lambda>v. ''  Stack size: '' @ int_str v), (Get_guardsize, \<lambda>v. ''  Guard size: '' @ int_str v),
        (Get_schedpolicy, policy_text), (Get_schedparam, \<lambda>v. ''  Scheduling priority: '' @ int_str v),
        (Get_detachstate, detach_text), (Get_inheritsched, inherit_text)]"

text \<open>
  \<open>CreateThread\<close>; \<open>ok\<close> says which of the calls succeed. The error exits are the same \<open>-1\<close>,
  but behind \<open>pthread_create\<close> the thread is already running.
\<close>

definition CreateThread ::
    "(nat \<Rightarrow> affinity) \<Rightarrow> int \<Rightarrow> (attr_call \<Rightarrow> bool) \<Rightarrow> addr \<Rightarrow> bool \<Rightarrow> bool \<Rightarrow> threads \<Rightarrow> (int \<times> threads) outcome" where
  "CreateThread affinity nprocessors ok p realtime addList t =
     obind (if th_maxCpuCnt t = 0 then GetCpuCount affinity nprocessors t else Ret t) (\<lambda>t.
       let thread = th_info t p;
           thread = (if ti_cpuIdx thread < 0 \<or> ti_cpuIdx thread \<ge> th_maxCpuCnt t then thread\<lparr>ti_cpuIdx := 0\<rparr> else thread);
           t = t\<lparr>th_info := (th_info t)(p := thread)\<rparr>
       in if \<not> list_all ok (create_calls thread realtime) then Ret (-1, t)
          else
            let thread = thread\<lparr>ti_id := th_next t\<rparr>;
                t = t\<lparr>th_os := (th_os t)(th_next t := Some (Joinable (create_calls thread realtime))),
                      th_next := th_next t + 1, th_info := (th_info t)(p := thread)\<rparr>
            in if \<not> ok Attr_destroy then Ret (-1, t)
               else if addList then
                 obind (reg_add p (th_reg t)) (\<lambda>(i, r).
                   Ret (0, t\<lparr>th_reg := r, th_info := (th_info t)(p := thread\<lparr>ti_listIdx := i\<rparr>)\<rparr>))
               else Ret (0, t\<lparr>th_info := (th_info t)(p := thread\<lparr>ti_listIdx := -1\<rparr>)\<rparr>))"

definition CreateRtThread ::
    "(nat \<Rightarrow> affinity) \<Rightarrow> int \<Rightarrow> (attr_call \<Rightarrow> bool) \<Rightarrow> addr \<Rightarrow> threads \<Rightarrow> (int \<times> threads) outcome" where
  "CreateRtThread affinity nprocessors ok p t = CreateThread affinity nprocessors ok p True True t"

definition CreateNonRtThread ::
    "(nat \<Rightarrow> affinity) \<Rightarrow> int \<Rightarrow> (attr_call \<Rightarrow> bool) \<Rightarrow> addr \<Rightarrow> threads \<Rightarrow> (int \<times> threads) outcome" where
  "CreateNonRtThread affinity nprocessors ok p t = CreateThread affinity nprocessors ok p False True t"

text \<open>
  \<open>pthread_join(*threadList[idx], NULL)\<close>: joining waits for the thread to return; joining what
  is not a joinable thread is undefined.
\<close>

definition join_thread :: "addr \<Rightarrow> threads \<Rightarrow> (bool \<times> threads) outcome" where
  "join_thread p t =
     (let h = ti_id (th_info t p) in
      case th_os t h of
        Some (Joinable _) \<Rightarrow> if th_ends t h then Ret (True, t\<lparr>th_os := (th_os t)(h := Some Joined)\<rparr>) else Blocks
      | _ \<Rightarrow> Undefined)"

definition DeleteThread :: "addr \<Rightarrow> threads \<Rightarrow> (int \<times> threads) outcome" where
  "DeleteThread p t =
     obind (join_thread p t) (\<lambda>(ok, t).
       if \<not> ok then Ret (-1, t)
       else if ti_listIdx (th_info t p) \<ge> 0 then
         obind (reg_clear (ti_listIdx (th_info t p)) (th_reg t)) (\<lambda>r. Ret (0, t\<lparr>th_reg := r\<rparr>))
       else Ret (0, t))"

definition DeleteAllThread :: "threads \<Rightarrow> (int \<times> threads) outcome" where
  "DeleteAllThread t =
     obind (delete_loop join_thread (rg_slots (th_reg t)) (rg_num (th_reg t)) 0 t)
       (\<lambda>(ok, num, t). Ret (if ok then 0 else -1, t))"

section \<open>Semaphores\<close>

record semaphores =
  sm_reg :: registry
  sm_listIdx :: "addr \<Rightarrow> int"
  sm_val :: "addr \<Rightarrow> nat option"

definition CreateSemaphore :: "bool \<Rightarrow> addr \<Rightarrow> nat \<Rightarrow> semaphores \<Rightarrow> (int \<times> semaphores) outcome" where
  "CreateSemaphore init_ok p initValue s =
     (if \<not> init_ok then Ret (-1, s)
      else obind (reg_add p (sm_reg s)) (\<lambda>(i, r).
        Ret (0, s\<lparr>sm_val := (sm_val s)(p := Some initValue), sm_reg := r, sm_listIdx := (sm_listIdx s)(p := i)\<rparr>)))"

text \<open>
  Posting a semaphore at the maximal value of its type fails with \<open>EOVERFLOW\<close> and changes
  nothing.
\<close>

definition SEM_VALUE_MAX :: nat where "SEM_VALUE_MAX = 2147483647"

definition sem_posted :: "nat \<Rightarrow> nat" where
  "sem_posted v = (if v < SEM_VALUE_MAX then v + 1 else v)"

definition PostSemaphore :: "addr \<Rightarrow> semaphores \<Rightarrow> (int \<times> semaphores) outcome" where
  "PostSemaphore p s =
     (case sm_val s p of
        None \<Rightarrow> Undefined
      | Some v \<Rightarrow> Ret (if v < SEM_VALUE_MAX then 0 else -1, s\<lparr>sm_val := (sm_val s)(p := Some (sem_posted v))\<rparr>))"

definition WaitSemaphore :: "addr \<Rightarrow> semaphores \<Rightarrow> (int \<times> semaphores) outcome" where
  "WaitSemaphore p s =
     (case sm_val s p of
        None \<Rightarrow> Undefined
      | Some v \<Rightarrow> if v = 0 then Blocks else Ret (0, s\<lparr>sm_val := (sm_val s)(p := Some (v - 1))\<rparr>))"

fun post_loop :: "addr option list \<Rightarrow> nat \<Rightarrow> semaphores \<Rightarrow> semaphores outcome" where
  "post_loop slots 0 s = Ret s"
| "post_loop slots (Suc idx) s =
     (case slots ! idx of
        None \<Rightarrow> post_loop slots idx s
      | Some p \<Rightarrow> obind (PostSemaphore p s) (\<lambda>(rc, s). post_loop slots idx s))"

definition PostAllSemaphore :: "semaphores \<Rightarrow> semaphores outcome" where
  "PostAllSemaphore s = post_loop (rg_slots (sm_reg s)) (rg_num (sm_reg s)) s"

definition destroy_sem :: "addr \<Rightarrow> semaphores \<Rightarrow> (bool \<times> semaphores) outcome" where
  "destroy_sem p s =
     (case sm_val s p of None \<Rightarrow> Undefined | Some v \<Rightarrow> Ret (True, s\<lparr>sm_val := (sm_val s)(p := None)\<rparr>))"

definition DeleteSemaphore :: "addr \<Rightarrow> semaphores \<Rightarrow> (int \<times> semaphores) outcome" where
  "DeleteSemaphore p s =
     obind (destroy_sem p s) (\<lambda>(ok, s).
       if \<not> ok then Ret (-1, s)
       else obind (reg_clear (sm_listIdx s p) (sm_reg s)) (\<lambda>r. Ret (0, s\<lparr>sm_reg := r\<rparr>)))"

definition DeleteAllSemaphore :: "semaphores \<Rightarrow> (int \<times> semaphores) outcome" where
  "DeleteAllSemaphore s =
     obind (delete_loop destroy_sem (rg_slots (sm_reg s)) (rg_num (sm_reg s)) 0 s)
       (\<lambda>(ok, num, s). Ret (if ok then 0 else -1, s))"

section \<open>Mutexes\<close>

text \<open>A mutex is free or held by a thread; destroying one that is held reports \<open>EBUSY\<close>.\<close>

record mutexes =
  mx_reg :: registry
  mx_listIdx :: "addr \<Rightarrow> int"
  mx_state :: "addr \<Rightarrow> nat option option"

definition CreateMutex :: "bool \<Rightarrow> addr \<Rightarrow> mutexes \<Rightarrow> (int \<times> mutexes) outcome" where
  "CreateMutex init_ok p m =
     (if \<not> init_ok then Ret (-1, m)
      else obind (reg_add p (mx_reg m)) (\<lambda>(i, r).
        Ret (0, m\<lparr>mx_state := (mx_state m)(p := Some None), mx_reg := r, mx_listIdx := (mx_listIdx m)(p := i)\<rparr>)))"

definition MutexLock :: "nat \<Rightarrow> addr \<Rightarrow> mutexes \<Rightarrow> (int \<times> mutexes) outcome" where
  "MutexLock me p m =
     (case mx_state m p of
        None \<Rightarrow> Undefined
      | Some None \<Rightarrow> Ret (0, m\<lparr>mx_state := (mx_state m)(p := Some (Some me))\<rparr>)
      | Some (Some _) \<Rightarrow> Blocks)"

definition EBUSY :: int where "EBUSY = 16"

definition MutexTryLock :: "nat \<Rightarrow> addr \<Rightarrow> mutexes \<Rightarrow> (int \<times> mutexes) outcome" where
  "MutexTryLock me p m =
     (case mx_state m p of
        None \<Rightarrow> Undefined
      | Some None \<Rightarrow> Ret (0, m\<lparr>mx_state := (mx_state m)(p := Some (Some me))\<rparr>)
      | Some (Some _) \<Rightarrow> Ret (EBUSY, m))"

definition MutexUnlock :: "nat \<Rightarrow> addr \<Rightarrow> mutexes \<Rightarrow> (int \<times> mutexes) outcome" where
  "MutexUnlock me p m =
     (case mx_state m p of
        Some (Some h) \<Rightarrow> if h = me then Ret (0, m\<lparr>mx_state := (mx_state m)(p := Some None)\<rparr>) else Undefined
      | _ \<Rightarrow> Undefined)"

definition destroy_mutex :: "addr \<Rightarrow> mutexes \<Rightarrow> (bool \<times> mutexes) outcome" where
  "destroy_mutex p m =
     (case mx_state m p of
        None \<Rightarrow> Undefined
      | Some None \<Rightarrow> Ret (True, m\<lparr>mx_state := (mx_state m)(p := None)\<rparr>)
      | Some (Some _) \<Rightarrow> Ret (False, m))"

definition DeleteMutex :: "addr \<Rightarrow> mutexes \<Rightarrow> (int \<times> mutexes) outcome" where
  "DeleteMutex p m =
     obind (destroy_mutex p m) (\<lambda>(ok, m).
       if \<not> ok then Ret (-1, m)
       else obind (reg_clear (mx_listIdx m p) (mx_reg m)) (\<lambda>r. Ret (0, m\<lparr>mx_reg := r\<rparr>)))"

definition DeleteAllMutex :: "mutexes \<Rightarrow> (int \<times> mutexes) outcome" where
  "DeleteAllMutex m =
     obind (delete_loop destroy_mutex (rg_slots (mx_reg m)) (rg_num (mx_reg m)) 0 m)
       (\<lambda>(ok, num, m). Ret (if ok then 0 else -1, m))"

section \<open>The try-lock and the watchdog\<close>

text \<open>\<open>Lock\<close>: \<open>lock\<close> is one compare-and-swap, \<open>unlock\<close> one store.\<close>

definition lock :: "bool \<Rightarrow> bool \<times> bool" where
  "lock l = (if l = False then (True, True) else (False, l))"

definition unlock :: "bool \<Rightarrow> bool" where
  "unlock l = False"

text \<open>\<open>Watchdog<COUNTER_MAX>\<close>, on its counter.\<close>

definition Watchdog_new :: "int \<Rightarrow> int" where
  "Watchdog_new COUNTER_MAX = COUNTER_MAX"

definition Watchdog_init :: "int \<Rightarrow> int \<Rightarrow> int" where
  "Watchdog_init COUNTER_MAX counter_init = (if counter_init < 0 then COUNTER_MAX else counter_init)"

definition Watch :: "int \<Rightarrow> bool \<Rightarrow> int \<Rightarrow> int" where
  "Watch COUNTER_MAX watch counter = (if watch then COUNTER_MAX else if counter > 0 then counter - 1 else counter)"

definition Reset :: "int \<Rightarrow> int \<Rightarrow> int" where
  "Reset c counter = c"

definition IsValid :: "int \<Rightarrow> bool" where
  "IsValid counter \<longleftrightarrow> counter > 0"

definition DecAndCheckValid :: "int \<Rightarrow> bool \<times> int" where
  "DecAndCheckValid counter = (let counter = counter - 1 in (counter > 0, counter))"

definition DecAndReset :: "int \<Rightarrow> int \<Rightarrow> bool \<times> int" where
  "DecAndReset c counter =
     (case DecAndCheckValid counter of (valid, counter) \<Rightarrow> if valid then (False, counter) else (True, c))"

end
