(* ===== verification/ThreadProps.thy ===== *)
theory ThreadProps
  imports ThreadReg
begin

text \<open>
  What the registries promise: as long as objects are created and deleted in turn and not too
  many are created over the life of the program, the array holds exactly the live objects,
  and the operations on all of them reach each one once. The three kinds of objects provide
  one interface, \<open>lifecycle\<close>; what happens at its edges is stated for the threads.
\<close>

section \<open>Objects that can be released\<close>

definition registered :: "registry \<Rightarrow> addr set" where
  "registered r = {p. \<exists>i < rg_num r. rg_slots r ! i = Some p}"

locale releasable =
  fixes wf :: "'s \<Rightarrow> bool"
    and alive :: "'s \<Rightarrow> addr \<Rightarrow> bool"
    and release :: "addr \<Rightarrow> 's \<Rightarrow> (bool \<times> 's) outcome"
  assumes release_ok: "wf s \<Longrightarrow> alive s p \<Longrightarrow>
            \<exists>s'. release p s = Ret (True, s') \<and> wf s' \<and> (\<forall>q. alive s' q \<longleftrightarrow> alive s q \<and> q \<noteq> p)"
    and release_twice: "wf s \<Longrightarrow> alive s p \<Longrightarrow> release p s = Ret (True, s') \<Longrightarrow> release p s' = Undefined"
begin

lemma delete_loop_all:
  "wf s \<Longrightarrow> n \<le> length slots \<Longrightarrow> (\<And>i p. i < n \<Longrightarrow> slots ! i = Some p \<Longrightarrow> alive s p) \<Longrightarrow>
   (\<And>i j p. i < n \<Longrightarrow> j < n \<Longrightarrow> slots ! i = Some p \<Longrightarrow> slots ! j = Some p \<Longrightarrow> i = j) \<Longrightarrow>
     \<exists>s' k. delete_loop release slots n num s = Ret (True, k, s') \<and> wf s' \<and>
        (\<forall>q. alive s' q \<longleftrightarrow> alive s q \<and> \<not> (\<exists>i < n. slots ! i = Some q)) \<and>
        k = num + card {p. \<exists>i < n. slots ! i = Some p}"
proof (induction n arbitrary: s num)
  case (Suc n)
  have fin: "finite {p. \<exists>i < m. slots ! i = Some p}" for m
  proof -
    have "{p. \<exists>i < m. slots ! i = Some p} \<subseteq> (\<lambda>i. the (slots ! i)) ` {..<m}" by force
    then show ?thesis by (rule finite_subset) simp
  qed
  show ?case
  proof (cases "slots ! n")
    case None
    then have eq: "(\<exists>i < Suc n. slots ! i = Some q) \<longleftrightarrow> (\<exists>i < n. slots ! i = Some q)" for q
      by (auto simp: less_Suc_eq)
    have "\<exists>s' k. delete_loop release slots n num s = Ret (True, k, s') \<and> wf s' \<and>
        (\<forall>q. alive s' q \<longleftrightarrow> alive s q \<and> \<not> (\<exists>i < n. slots ! i = Some q)) \<and>
        k = num + card {p. \<exists>i < n. slots ! i = Some p}"
    proof (rule Suc.IH [OF Suc.prems(1)])
      show "n \<le> length slots" using Suc.prems(2) by simp
      show "alive s p" if "i < n" "slots ! i = Some p" for i p
        using that Suc.prems(3) [of i p] by simp
      show "i = j" if "i < n" "j < n" "slots ! i = Some p" "slots ! j = Some p" for i j p
        using that Suc.prems(4) [of i j p] by simp
    qed
    then show ?thesis unfolding eq using None by simp
  next
    case (Some p)
    have "alive s p" using Suc.prems(3) [of n p] Some by simp
    then obtain s1 where s1: "release p s = Ret (True, s1)" "wf s1" "\<forall>q. alive s1 q \<longleftrightarrow> alive s q \<and> q \<noteq> p"
      using release_ok [OF Suc.prems(1)] by blast
    have np: "i < n \<Longrightarrow> slots ! i \<noteq> Some p" for i
      using Suc.prems(4) [of i n p] Some by auto
    have "\<exists>s' k. delete_loop release slots n (num + 1) s1 = Ret (True, k, s') \<and> wf s' \<and>
        (\<forall>q. alive s' q \<longleftrightarrow> alive s1 q \<and> \<not> (\<exists>i < n. slots ! i = Some q)) \<and>
        k = num + 1 + card {p. \<exists>i < n. slots ! i = Some p}"
    proof (rule Suc.IH [OF s1(2)])
      show "n \<le> length slots" using Suc.prems(2) by simp
      show "alive s1 q" if "i < n" "slots ! i = Some q" for i q
        using that np [of i] Suc.prems(3) [of i q] s1(3) by auto
      show "i = j" if "i < n" "j < n" "slots ! i = Some q" "slots ! j = Some q" for i j q
        using that Suc.prems(4) [of i j q] by simp
    qed
    then obtain s' k where s': "delete_loop release slots n (num + 1) s1 = Ret (True, k, s')" "wf s'"
      "\<forall>q. alive s' q \<longleftrightarrow> alive s1 q \<and> \<not> (\<exists>i < n. slots ! i = Some q)"
      "k = num + 1 + card {p. \<exists>i < n. slots ! i = Some p}" by blast
    have set: "{q. \<exists>i < Suc n. slots ! i = Some q} = insert p {q. \<exists>i < n. slots ! i = Some q}"
      using Some by (auto simp: less_Suc_eq)
    have "k = num + card {q. \<exists>i < Suc n. slots ! i = Some q}"
      unfolding set using s'(4) np fin by (subst card_insert_disjoint) auto
    moreover have "alive s' q \<longleftrightarrow> alive s q \<and> \<not> (\<exists>i < Suc n. slots ! i = Some q)" for q
      using s'(3) s1(3) Some by (auto simp: less_Suc_eq)
    ultimately show ?thesis using s'(1,2) s1(1) Some by simp
  qed
qed simp

text \<open>Going over an array again whose objects have all been released is undefined.\<close>

lemma delete_loop_twice:
  assumes "i < n" and "slots ! i = Some p"
    and "\<And>i p. i < n \<Longrightarrow> slots ! i = Some p \<Longrightarrow> release p s = Undefined"
  shows "delete_loop release slots n num s = Undefined"
  using assms
proof (induction n arbitrary: i p)
  case (Suc n)
  show ?case
  proof (cases "slots ! n")
    case None
    then have "i < n" using Suc.prems(1,2) by (metis less_Suc_eq option.distinct(1))
    have "delete_loop release slots n num s = Undefined"
      by (rule Suc.IH [OF \<open>i < n\<close> Suc.prems(2)]) (rule Suc.prems(3), simp_all)
    then show ?thesis using None by simp
  next
    case (Some q)
    then show ?thesis using Suc.prems(3) [of n q] by simp
  qed
qed simp

end

section \<open>The life of registered objects\<close>

datatype life = Make addr | Kill addr

fun life_run :: "(addr \<Rightarrow> 's \<Rightarrow> (int \<times> 's) outcome) \<Rightarrow> (addr \<Rightarrow> 's \<Rightarrow> (int \<times> 's) outcome) \<Rightarrow> life list \<Rightarrow> 's \<Rightarrow> 's outcome" where
  "life_run create delete [] s = Ret s"
| "life_run create delete (Make p # ops) s = obind (create p s) (\<lambda>(r, s). life_run create delete ops s)"
| "life_run create delete (Kill p # ops) s = obind (delete p s) (\<lambda>(r, s). life_run create delete ops s)"

fun protocol :: "life list \<Rightarrow> addr set \<Rightarrow> bool" where
  "protocol [] live \<longleftrightarrow> True"
| "protocol (Make p # ops) live \<longleftrightarrow> p \<notin> live \<and> protocol ops (insert p live)"
| "protocol (Kill p # ops) live \<longleftrightarrow> p \<in> live \<and> protocol ops (live - {p})"

fun live_after :: "life list \<Rightarrow> addr set \<Rightarrow> addr set" where
  "live_after [] live = live"
| "live_after (Make p # ops) live = live_after ops (insert p live)"
| "live_after (Kill p # ops) live = live_after ops (live - {p})"

fun makes :: "life list \<Rightarrow> nat" where
  "makes [] = 0"
| "makes (Make p # ops) = Suc (makes ops)"
| "makes (Kill p # ops) = makes ops"

locale lifecycle = releasable wf alive release
  for wf :: "'s \<Rightarrow> bool" and alive :: "'s \<Rightarrow> addr \<Rightarrow> bool" and release :: "addr \<Rightarrow> 's \<Rightarrow> (bool \<times> 's) outcome" +
  fixes create :: "addr \<Rightarrow> 's \<Rightarrow> (int \<times> 's) outcome"
    and delete :: "addr \<Rightarrow> 's \<Rightarrow> (int \<times> 's) outcome"
    and reg :: "'s \<Rightarrow> registry"
    and index :: "'s \<Rightarrow> addr \<Rightarrow> int"
  assumes create_ok: "wf s \<Longrightarrow> \<not> alive s p \<Longrightarrow> rg_num (reg s) < length (rg_slots (reg s)) \<Longrightarrow>
            \<exists>s'. create p s = Ret (0, s') \<and> wf s' \<and> (\<forall>q. alive s' q \<longleftrightarrow> alive s q \<or> q = p) \<and>
              reg s' = \<lparr>rg_num = Suc (rg_num (reg s)), rg_slots = (rg_slots (reg s))[rg_num (reg s) := Some p]\<rparr> \<and>
              index s' = (index s)(p := int (rg_num (reg s)))"
    and create_full: "wf s \<Longrightarrow> \<not> rg_num (reg s) < length (rg_slots (reg s)) \<Longrightarrow> create p s = Undefined"
    and delete_ok: "wf s \<Longrightarrow> alive s p \<Longrightarrow> index s p = int i \<Longrightarrow> i < length (rg_slots (reg s)) \<Longrightarrow>
            \<exists>s'. delete p s = Ret (0, s') \<and> wf s' \<and> (\<forall>q. alive s' q \<longleftrightarrow> alive s q \<and> q \<noteq> p) \<and>
              reg s' = (reg s)\<lparr>rg_slots := (rg_slots (reg s))[i := None]\<rparr> \<and> index s' = index s"
begin

text \<open>The array holds exactly the live objects, each at its index.\<close>

definition good :: "nat \<Rightarrow> 's \<Rightarrow> bool" where
  "good n s \<longleftrightarrow> wf s \<and> length (rg_slots (reg s)) = n \<and> rg_num (reg s) \<le> n \<and>
     (\<forall>p. alive s p \<longleftrightarrow> (\<exists>i < n. rg_slots (reg s) ! i = Some p)) \<and>
     (\<forall>i < n. \<forall>p. rg_slots (reg s) ! i = Some p \<longrightarrow> i < rg_num (reg s) \<and> index s p = int i)"

lemma good_create:
  assumes "good n s" and "\<not> alive s p" and "rg_num (reg s) < n"
  shows "\<exists>s'. create p s = Ret (0, s') \<and> good n s' \<and> Collect (alive s') = insert p (Collect (alive s)) \<and>
              rg_num (reg s') = Suc (rg_num (reg s))"
proof -
  note g = assms(1) [unfolded good_def]
  obtain s' where s': "create p s = Ret (0, s')" "wf s'" "\<forall>q. alive s' q \<longleftrightarrow> alive s q \<or> q = p"
    "reg s' = \<lparr>rg_num = Suc (rg_num (reg s)), rg_slots = (rg_slots (reg s))[rg_num (reg s) := Some p]\<rparr>"
    "index s' = (index s)(p := int (rg_num (reg s)))"
    using create_ok [of s p] g assms by auto
  let ?m = "rg_num (reg s)"
  have at: "rg_slots (reg s') ! i = (if i = ?m then Some p else rg_slots (reg s) ! i)" if "i < n" for i
    using that g s'(4) by (simp add: nth_list_update)
  have old: "rg_slots (reg s) ! i \<noteq> Some p" if "i < n" for i using that g assms(2) by blast
  have new: "rg_slots (reg s) ! ?m = None"
    using g assms(3) by (cases "rg_slots (reg s) ! ?m") auto
  have "alive s' q \<longleftrightarrow> (\<exists>i < n. rg_slots (reg s') ! i = Some q)" for q
  proof
    assume "alive s' q"
    then consider "q = p" | i where "i < n" "rg_slots (reg s) ! i = Some q" using s'(3) g by blast
    then show "\<exists>i < n. rg_slots (reg s') ! i = Some q"
    proof cases
      case 1
      then show ?thesis using at [OF assms(3)] assms(3) by auto
    next
      case 2
      then show ?thesis using at [of i] new by (intro exI [of _ i]) auto
    qed
  next
    assume "\<exists>i < n. rg_slots (reg s') ! i = Some q"
    then show "alive s' q" using at g s'(3) by (metis option.inject)
  qed
  moreover have "i < rg_num (reg s') \<and> index s' q = int i" if "i < n" "rg_slots (reg s') ! i = Some q" for i q
  proof (cases "i = ?m")
    case True
    then show ?thesis using that at [of i] s'(4,5) by simp
  next
    case False
    then have "rg_slots (reg s) ! i = Some q" using that at by simp
    then show ?thesis using that(1) g old [of i] s'(4,5) by auto
  qed
  moreover have "length (rg_slots (reg s')) = n" "rg_num (reg s') = Suc ?m" using g s'(4) by simp_all
  ultimately have "good n s'" using s'(2) assms(3) unfolding good_def by simp
  then show ?thesis using s'(1,3) \<open>rg_num (reg s') = Suc ?m\<close> by auto
qed

lemma good_delete:
  assumes "good n s" and "alive s p"
  shows "\<exists>s'. delete p s = Ret (0, s') \<and> good n s' \<and> Collect (alive s') = Collect (alive s) - {p} \<and>
              rg_num (reg s') = rg_num (reg s)"
proof -
  note g = assms(1) [unfolded good_def]
  obtain i where i: "i < n" "rg_slots (reg s) ! i = Some p" using g assms(2) by blast
  then have "index s p = int i" using g by blast
  then obtain s' where s': "delete p s = Ret (0, s')" "wf s'" "\<forall>q. alive s' q \<longleftrightarrow> alive s q \<and> q \<noteq> p"
    "reg s' = (reg s)\<lparr>rg_slots := (rg_slots (reg s))[i := None]\<rparr>" "index s' = index s"
    using delete_ok [of s p i] g assms(2) i(1) by auto
  have at: "rg_slots (reg s') ! j = (if j = i then None else rg_slots (reg s) ! j)" if "j < n" for j
    using that g s'(4) i by (simp add: nth_list_update)
  have uniq: "j = i" if "j < n" "rg_slots (reg s) ! j = Some p" for j
    using that i g by (metis of_nat_eq_iff)
  have "alive s' q \<longleftrightarrow> (\<exists>j < n. rg_slots (reg s') ! j = Some q)" for q
  proof
    assume "alive s' q"
    then have "alive s q" "q \<noteq> p" using s'(3) by auto
    then obtain j where j: "j < n" "rg_slots (reg s) ! j = Some q" using g by blast
    then have "j \<noteq> i" using i(2) \<open>q \<noteq> p\<close> by auto
    then show "\<exists>j < n. rg_slots (reg s') ! j = Some q" using j at by auto
  next
    assume "\<exists>j < n. rg_slots (reg s') ! j = Some q"
    then obtain j where j: "j < n" "j \<noteq> i" "rg_slots (reg s) ! j = Some q" using at by (metis option.distinct(1))
    then have "alive s q" using g by blast
    moreover have "q \<noteq> p" using uniq j by blast
    ultimately show "alive s' q" using s'(3) by simp
  qed
  moreover have "j < rg_num (reg s') \<and> index s' q = int j" if "j < n" "rg_slots (reg s') ! j = Some q" for j q
  proof -
    have "rg_slots (reg s) ! j = Some q" using that at [of j] by (simp split: if_splits)
    then show ?thesis using that(1) g s'(4,5) by simp
  qed
  moreover have "length (rg_slots (reg s')) = n" "rg_num (reg s') = rg_num (reg s)" using g s'(4) by simp_all
  ultimately have "good n s'" using s'(2) g unfolding good_def by simp
  then show ?thesis using s'(1,3) \<open>rg_num (reg s') = rg_num (reg s)\<close> by auto
qed

lemma life_good:
  "good n s \<Longrightarrow> protocol ops (Collect (alive s)) \<Longrightarrow> rg_num (reg s) + makes ops \<le> n \<Longrightarrow>
     \<exists>s'. life_run create delete ops s = Ret s' \<and> good n s' \<and>
          Collect (alive s') = live_after ops (Collect (alive s)) \<and> rg_num (reg s') = rg_num (reg s) + makes ops"
proof (induction ops arbitrary: s)
  case Nil
  then show ?case by simp
next
  case (Cons c ops)
  show ?case
  proof (cases c)
    case (Make p)
    obtain s1 where s1: "create p s = Ret (0, s1)" "good n s1" "Collect (alive s1) = insert p (Collect (alive s))"
      "rg_num (reg s1) = Suc (rg_num (reg s))"
      using good_create [OF Cons.prems(1), of p] Cons.prems(2,3) Make by auto
    then show ?thesis using Cons.IH [OF s1(2)] Cons.prems(2,3) Make by auto
  next
    case (Kill p)
    obtain s1 where s1: "delete p s = Ret (0, s1)" "good n s1" "Collect (alive s1) = Collect (alive s) - {p}"
      "rg_num (reg s1) = rg_num (reg s)"
      using good_delete [OF Cons.prems(1), of p] Cons.prems(2) Kill by auto
    then show ?thesis using Cons.IH [OF s1(2)] Cons.prems(2,3) Kill by auto
  qed
qed

lemma delete_all_good:
  assumes "good n s"
  shows "\<exists>s'. delete_loop release (rg_slots (reg s)) (rg_num (reg s)) 0 s
           = Ret (True, card (Collect (alive s)), s') \<and> (\<forall>p. \<not> alive s' p)"
proof -
  note g = assms [unfolded good_def]
  have set: "Collect (alive s) = {p. \<exists>i < rg_num (reg s). rg_slots (reg s) ! i = Some p}"
  proof -
    have "(\<exists>i < n. rg_slots (reg s) ! i = Some p) \<longleftrightarrow> (\<exists>i < rg_num (reg s). rg_slots (reg s) ! i = Some p)" for p
      using g by (meson less_le_trans)
    then show ?thesis using g by (simp add: set_eq_iff)
  qed
  have alive: "alive s p" if "i < rg_num (reg s)" "rg_slots (reg s) ! i = Some p" for i p
    using that set by blast
  have uniq: "i = j" if "i < rg_num (reg s)" "j < rg_num (reg s)" "rg_slots (reg s) ! i = Some p" "rg_slots (reg s) ! j = Some p"
    for i j p using that g by (metis less_le_trans of_nat_eq_iff)
  have "\<exists>s' k. delete_loop release (rg_slots (reg s)) (rg_num (reg s)) 0 s = Ret (True, k, s') \<and> wf s' \<and>
      (\<forall>q. alive s' q \<longleftrightarrow> alive s q \<and> \<not> (\<exists>i < rg_num (reg s). rg_slots (reg s) ! i = Some q)) \<and>
      k = 0 + card {p. \<exists>i < rg_num (reg s). rg_slots (reg s) ! i = Some p}"
  proof (rule delete_loop_all)
    show "wf s" "rg_num (reg s) \<le> length (rg_slots (reg s))" using g by simp_all
  qed (fact alive uniq)+
  moreover have "alive s q \<longleftrightarrow> (\<exists>i < rg_num (reg s). rg_slots (reg s) ! i = Some q)" for q
    using set by blast
  ultimately show ?thesis unfolding set [symmetric] by auto
qed

lemma life_exhausted:
  assumes "good n s" and "protocol ops (Collect (alive s))" and "rg_num (reg s) + makes ops = n"
  shows "life_run create delete (ops @ [Make p]) s = Undefined"
proof -
  have app: "life_run create delete (ops @ ops') s = obind (life_run create delete ops s) (life_run create delete ops')" for ops' s
  proof (induction ops arbitrary: s)
    case (Cons c ops)
    show ?case
    proof (cases c)
      case (Make q)
      then show ?thesis using Cons by (cases "create q s") (auto split: prod.splits)
    next
      case (Kill q)
      then show ?thesis using Cons by (cases "delete q s") (auto split: prod.splits)
    qed
  qed simp
  obtain s' where "life_run create delete ops s = Ret s'" "good n s'" "rg_num (reg s') = n"
    using life_good [OF assms(1,2)] assms(3) by auto
  then show ?thesis using create_full [of s' p] by (simp add: app good_def)
qed

end

section \<open>The three kinds of objects\<close>

definition joinable :: "threads \<Rightarrow> addr \<Rightarrow> bool" where
  "joinable t p \<longleftrightarrow> (\<exists>cs. th_os t (ti_id (th_info t p)) = Some (Joinable cs))"

definition threads_wf :: "(nat \<Rightarrow> affinity) \<Rightarrow> int \<Rightarrow> threads \<Rightarrow> bool" where
  "threads_wf affinity nprocessors t \<longleftrightarrow>
     (\<forall>h. th_next t \<le> h \<longrightarrow> th_os t h = None) \<and> (\<forall>p. ti_id (th_info t p) < th_next t) \<and>
     (\<forall>p q. joinable t p \<longrightarrow> joinable t q \<longrightarrow> ti_id (th_info t p) = ti_id (th_info t q) \<longrightarrow> p = q) \<and>
     (\<forall>h. th_ends t h) \<and>
     (th_maxCpuCnt t \<noteq> 0 \<or> (\<exists>n. cpu_loop affinity nprocessors 128 = Ret n))"

lemma join_thread_ok:
  assumes "threads_wf aff n t" and "joinable t p"
  shows "\<exists>t'. join_thread p t = Ret (True, t') \<and> threads_wf aff n t' \<and> (\<forall>q. joinable t' q \<longleftrightarrow> joinable t q \<and> q \<noteq> p) \<and>
              th_reg t' = th_reg t \<and> th_info t' = th_info t"
proof -
  note w = assms(1) [unfolded threads_wf_def]
  let ?h = "ti_id (th_info t p)"
  let ?t = "t\<lparr>th_os := (th_os t)(?h := Some Joined)\<rparr>"
  have "join_thread p t = Ret (True, ?t)"
    using assms(2) w by (auto simp: join_thread_def joinable_def Let_def)
  moreover have j: "joinable ?t q \<longleftrightarrow> joinable t q \<and> q \<noteq> p" for q
    using w assms(2) by (auto simp: joinable_def)
  moreover have "threads_wf aff n ?t"
  proof -
    have "h \<noteq> ?h" if "th_next t \<le> h" for h using w that by (metis not_le)
    then have "th_os ?t h = None" if "th_next t \<le> h" for h using w that by simp
    then show ?thesis unfolding threads_wf_def j using w by auto
  qed
  ultimately show ?thesis by auto
qed

lemma join_thread_twice:
  assumes "join_thread p t = Ret (True, t')"
  shows "join_thread p t' = Undefined"
  using assms by (auto simp: join_thread_def Let_def split: option.splits os_thread.splits if_splits)

lemma create_calls_id [simp]:
  "create_calls (i\<lparr>ti_id := h\<rparr>) rt = create_calls i rt"
  by (simp add: create_calls_def)

text \<open>What \<open>CreateThread\<close> does before it looks at the attributes.\<close>

lemma CreateThread_ok:
  assumes "threads_wf aff n t" and "\<not> joinable t p" and "rg_num (th_reg t) < length (rg_slots (th_reg t))"
  shows "\<exists>t'. CreateThread aff n (\<lambda>_. True) p rt True t = Ret (0, t') \<and> threads_wf aff n t' \<and>
              (\<forall>q. joinable t' q \<longleftrightarrow> joinable t q \<or> q = p) \<and>
              th_reg t' = \<lparr>rg_num = Suc (rg_num (th_reg t)), rg_slots = (rg_slots (th_reg t))[rg_num (th_reg t) := Some p]\<rparr> \<and>
              (\<lambda>q. ti_listIdx (th_info t' q)) = (\<lambda>q. ti_listIdx (th_info t q))(p := int (rg_num (th_reg t)))"
proof -
  note w = assms(1) [unfolded threads_wf_def]
  obtain m where m: "(if th_maxCpuCnt t = 0 then GetCpuCount aff n t else Ret t) = Ret (t\<lparr>th_maxCpuCnt := m\<rparr>)"
    "m \<noteq> 0 \<or> (\<exists>n'. cpu_loop aff n 128 = Ret n')"
  proof (cases "th_maxCpuCnt t = 0")
    case True
    then obtain k where "cpu_loop aff n 128 = Ret k" using w by auto
    then show ?thesis using True that [of k] by (simp add: GetCpuCount_def)
  next
    case False
    then show ?thesis using that [of "th_maxCpuCnt t"] by simp
  qed
  define i where "i = (if ti_cpuIdx (th_info t p) < 0 \<or> ti_cpuIdx (th_info t p) \<ge> m then (th_info t p)\<lparr>ti_cpuIdx := 0\<rparr> else th_info t p)"
  define t' where "t' = t\<lparr>th_maxCpuCnt := m, th_os := (th_os t)(th_next t := Some (Joinable (create_calls i rt))),
     th_next := th_next t + 1, th_info := (th_info t)(p := i\<lparr>ti_id := th_next t, ti_listIdx := int (rg_num (th_reg t))\<rparr>),
     th_reg := \<lparr>rg_num = Suc (rg_num (th_reg t)), rg_slots = (rg_slots (th_reg t))[rg_num (th_reg t) := Some p]\<rparr>\<rparr>"
  have all: "list_all (\<lambda>_. True) cs" for cs :: "attr_call list" by (simp add: list_all_iff)
  have "CreateThread aff n (\<lambda>_. True) p rt True t = Ret (0, t')"
    using assms(3)
    by (cases "ti_cpuIdx (th_info t p) < 0 \<or> ti_cpuIdx (th_info t p) \<ge> m")
       (simp_all add: CreateThread_def m(1) Let_def i_def reg_add_def all t'_def)
  moreover have j: "joinable t' q \<longleftrightarrow> joinable t q \<or> q = p" for q
  proof -
    have "ti_id (th_info t q) \<noteq> th_next t" for q
      using w by (metis less_irrefl)
    then show ?thesis using assms(2) by (auto simp: joinable_def t'_def split: if_splits)
  qed
  moreover have "threads_wf aff n t'"
  proof -
    have lt: "ti_id (th_info t q) < th_next t" for q using w by blast
    have "x = y" if "joinable t' x" "joinable t' y" "ti_id (th_info t' x) = ti_id (th_info t' y)" for x y
      using that w lt [of x, THEN less_imp_neq] lt [of y, THEN less_imp_neq] unfolding j by (simp add: t'_def split: if_splits)
    moreover have "th_os t' h = None" if "th_next t' \<le> h" for h
      using that w by (simp add: t'_def)
    moreover have "ti_id (th_info t' q) < th_next t'" for q
      using lt [of q] by (simp add: t'_def)
    moreover have "th_ends t' h" "th_maxCpuCnt t' = m" for h using w by (simp_all add: t'_def)
    ultimately show ?thesis using m(2) unfolding threads_wf_def by blast
  qed
  ultimately show ?thesis by (intro exI [of _ t']) (auto simp: t'_def)
qed

lemma CreateThread_full:
  assumes "threads_wf aff n t" and "\<not> rg_num (th_reg t) < length (rg_slots (th_reg t))"
  shows "CreateThread aff n (\<lambda>_. True) p rt True t = Undefined"
proof -
  obtain t1 where t1: "(if th_maxCpuCnt t = 0 then GetCpuCount aff n t else Ret t) = Ret t1" "th_reg t1 = th_reg t"
  proof (cases "th_maxCpuCnt t = 0")
    case True
    then obtain k where "cpu_loop aff n 128 = Ret k" using assms(1) by (auto simp: threads_wf_def)
    then show ?thesis using that True by (simp add: GetCpuCount_def)
  next
    case False
    then show ?thesis using that by simp
  qed
  have all: "list_all (\<lambda>_. True) cs" for cs :: "attr_call list" by (simp add: list_all_iff)
  show ?thesis using assms(2) t1(2) by (simp add: CreateThread_def t1(1) Let_def reg_add_def all)
qed

lemma DeleteThread_ok:
  assumes "threads_wf aff n t" and "joinable t p" and "ti_listIdx (th_info t p) = int i"
    and "i < length (rg_slots (th_reg t))"
  shows "\<exists>t'. DeleteThread p t = Ret (0, t') \<and> threads_wf aff n t' \<and> (\<forall>q. joinable t' q \<longleftrightarrow> joinable t q \<and> q \<noteq> p) \<and>
              th_reg t' = (th_reg t)\<lparr>rg_slots := (rg_slots (th_reg t))[i := None]\<rparr> \<and>
              (\<lambda>q. ti_listIdx (th_info t' q)) = (\<lambda>q. ti_listIdx (th_info t q))"
proof -
  obtain t1 where t1: "join_thread p t = Ret (True, t1)" "threads_wf aff n t1"
    "\<forall>q. joinable t1 q \<longleftrightarrow> joinable t q \<and> q \<noteq> p" "th_reg t1 = th_reg t" "th_info t1 = th_info t"
    using join_thread_ok [OF assms(1,2)] by blast
  let ?r = "(th_reg t)\<lparr>rg_slots := (rg_slots (th_reg t))[i := None]\<rparr>"
  have "DeleteThread p t = Ret (0, t1\<lparr>th_reg := ?r\<rparr>)"
    using t1 assms(3,4) by (simp add: DeleteThread_def reg_clear_def)
  moreover have "joinable (t1\<lparr>th_reg := ?r\<rparr>) q = joinable t1 q" for q by (simp add: joinable_def)
  moreover then have "threads_wf aff n (t1\<lparr>th_reg := ?r\<rparr>)" using t1(2) by (simp add: threads_wf_def)
  ultimately show ?thesis using t1(3,5) by auto
qed

interpretation thr: lifecycle "threads_wf aff n" joinable join_thread
  "\<lambda>p. CreateThread aff n (\<lambda>_. True) p (rt p) True" DeleteThread th_reg "\<lambda>t p. ti_listIdx (th_info t p)"
proof (unfold_locales, goal_cases)
  case (1 s p)
  then show ?case using join_thread_ok by blast
next
  case (2 s p s')
  then show ?case using join_thread_twice by blast
next
  case (3 s p)
  then show ?case by (rule CreateThread_ok)
next
  case (4 s p)
  then show ?case by (rule CreateThread_full)
next
  case (5 s p i)
  then show ?case by (rule DeleteThread_ok)
qed

definition sem_alive :: "semaphores \<Rightarrow> addr \<Rightarrow> bool" where
  "sem_alive s p \<longleftrightarrow> sm_val s p \<noteq> None"

interpretation sem: lifecycle "\<lambda>_. True" sem_alive destroy_sem
  "\<lambda>p. CreateSemaphore True p (init p)" DeleteSemaphore sm_reg sm_listIdx
  by unfold_locales
     (auto simp: sem_alive_def destroy_sem_def CreateSemaphore_def DeleteSemaphore_def reg_add_def reg_clear_def)

definition all_free :: "mutexes \<Rightarrow> bool" where
  "all_free m \<longleftrightarrow> (\<forall>p. mx_state m p = None \<or> mx_state m p = Some None)"

definition mtx_alive :: "mutexes \<Rightarrow> addr \<Rightarrow> bool" where
  "mtx_alive m p \<longleftrightarrow> mx_state m p \<noteq> None"

interpretation mtx: lifecycle all_free mtx_alive destroy_mutex
  "CreateMutex True" DeleteMutex mx_reg mx_listIdx
proof (unfold_locales, goal_cases)
  case (1 s p)
  then have "mx_state s p = Some None" by (metis all_free_def mtx_alive_def)
  then show ?case using 1 by (auto simp: destroy_mutex_def all_free_def mtx_alive_def)
next
  case (2 s p s')
  then have "mx_state s p = Some None" by (metis all_free_def mtx_alive_def)
  then show ?case using 2 by (auto simp: destroy_mutex_def mtx_alive_def)
next
  case (3 s p)
  then show ?case by (auto simp: CreateMutex_def reg_add_def all_free_def mtx_alive_def)
next
  case (4 s p)
  then show ?case by (simp add: CreateMutex_def reg_add_def)
next
  case (5 s p i)
  then have "mx_state s p = Some None" by (metis all_free_def mtx_alive_def)
  then show ?case using 5 by (auto simp: DeleteMutex_def destroy_mutex_def reg_clear_def all_free_def mtx_alive_def)
qed

section \<open>Properties\<close>

text \<open>The state at the start of the program: nothing registered, arrays of 32 and 64 slots.\<close>

definition threads_init :: "(addr \<Rightarrow> ThreadInfo) \<Rightarrow> threads" where
  "threads_init info =
     \<lparr>th_reg = registry_new 32, th_info = (\<lambda>p. (info p)\<lparr>ti_id := 0\<rparr>), th_os = (\<lambda>_. None), th_next = 1,
      th_ends = (\<lambda>_. True), th_maxCpuCnt = 0\<rparr>"

definition semaphores_init :: semaphores where
  "semaphores_init = \<lparr>sm_reg = registry_new 64, sm_listIdx = (\<lambda>_. 0), sm_val = (\<lambda>_. None)\<rparr>"

definition mutexes_init :: mutexes where
  "mutexes_init = \<lparr>mx_reg = registry_new 64, mx_listIdx = (\<lambda>_. 0), mx_state = (\<lambda>_. None)\<rparr>"

lemma threads_init_good:
  assumes "cpu_loop aff n 128 = Ret m"
  shows "thr.good aff n 32 (threads_init info)" and "joinable (threads_init info) p \<longleftrightarrow> False"
  using assms by (auto simp: thr.good_def threads_wf_def threads_init_def registry_new_def joinable_def)

lemma semaphores_init_good: "sem.good 64 semaphores_init"
  by (simp add: sem.good_def sem_alive_def semaphores_init_def registry_new_def)

lemma mutexes_init_good: "mtx.good 64 mutexes_init"
  by (simp add: mtx.good_def mtx_alive_def mutexes_init_def registry_new_def all_free_def)

text \<open>
  C18: Threads, with real-time priority or not, may be created and deleted in any order, as long
  as a \<open>ThreadInfo\<close> is not used for two threads at once, only running threads are deleted and
  not more than 32 are created in all: every call succeeds, the threads that can be joined
  are those created and not yet deleted, and \<open>DeleteAllThread\<close> then joins each of them once.
\<close>

theorem thread_lifecycle:
  assumes "protocol ops {}" and "makes ops \<le> 32" and "cpu_loop aff n 128 = Ret m"
  shows "\<exists>t t'. life_run (\<lambda>p. CreateThread aff n (\<lambda>_. True) p (rt p) True) DeleteThread ops (threads_init info) = Ret t \<and>
           Collect (joinable t) = live_after ops {} \<and>
           DeleteAllThread t = Ret (0, t') \<and> Collect (joinable t') = {}"
proof -
  have e: "Collect (joinable (threads_init info)) = {}" using threads_init_good(2) [OF assms(3)] by simp
  have z: "rg_num (th_reg (threads_init info)) = 0" by (simp add: threads_init_def registry_new_def)
  obtain t where t: "life_run (\<lambda>p. CreateThread aff n (\<lambda>_. True) p (rt p) True) DeleteThread ops (threads_init info) = Ret t"
    "thr.good aff n 32 t" "Collect (joinable t) = live_after ops {}"
    using thr.life_good [OF threads_init_good(1) [OF assms(3), of info], where ops = ops and rt = rt] assms(1,2) unfolding e z by auto
  obtain t' where "delete_loop join_thread (rg_slots (th_reg t)) (rg_num (th_reg t)) 0 t
      = Ret (True, card (Collect (joinable t)), t')" "\<forall>p. \<not> joinable t' p"
    using thr.delete_all_good [OF t(2)] by blast
  then show ?thesis using t(1,3) by (simp add: DeleteAllThread_def)
qed

theorem thread_lifecycle_witness:
  "\<exists>t t'. life_run (\<lambda>p. CreateThread (\<lambda>_. Affinity_ok) 4 (\<lambda>_. True) p (p = 1) True) DeleteThread
            [Make 1, Make 2, Kill 1, Make 3, Make 1]
            (threads_init (\<lambda>_. \<lparr>ti_cpuIdx = 7, ti_priority = 80, ti_stackSz = 0, ti_id = 0, ti_listIdx = 0\<rparr>)) = Ret t \<and>
          Collect (joinable t) = {1, 2, 3} \<and> DeleteAllThread t = Ret (0, t') \<and> Collect (joinable t') = {}"
proof -
  have "cpu_loop (\<lambda>_. Affinity_ok) 4 128 = Ret 4" by (subst cpu_loop.simps) simp
  moreover have "live_after [Make 1, Make 2, Kill 1, Make 3, Make 1] {} = {1, 2, 3}" by auto
  ultimately show ?thesis
    using thread_lifecycle [of "[Make 1, Make 2, Kill 1, Make 3, Make 1]" "\<lambda>_. Affinity_ok" 4 4 "\<lambda>p. p = 1"] by auto
qed

text \<open>
  The array of threads is used up: after 32 threads have been created, however many of
  them have been deleted again, creating another one writes behind the end of the array.
\<close>

theorem thread_array_exhausted:
  assumes "protocol ops {}" and "makes ops = 32" and "cpu_loop aff n 128 = Ret m"
  shows "life_run (\<lambda>p. CreateThread aff n (\<lambda>_. True) p (rt p) True) DeleteThread (ops @ [Make p]) (threads_init info) = Undefined"
proof -
  have e: "Collect (joinable (threads_init info)) = {}" using threads_init_good(2) [OF assms(3)] by simp
  have z: "rg_num (th_reg (threads_init info)) = 0" by (simp add: threads_init_def registry_new_def)
  show ?thesis
    by (rule thr.life_exhausted [OF threads_init_good(1) [OF assms(3)]]) (simp_all only: e z assms(1,2) add_0)
qed

lemma churn_protocol: "protocol (concat (replicate k [Make p, Kill p])) {}" "makes (concat (replicate k [Make p, Kill p])) = k"
  by (induction k) simp_all

theorem thread_array_exhausted_witness:
  "life_run (\<lambda>p. CreateThread (\<lambda>_. Affinity_ok) 4 (\<lambda>_. True) p False True) DeleteThread
     (concat (replicate 32 [Make 1, Kill 1]) @ [Make 1])
     (threads_init (\<lambda>_. \<lparr>ti_cpuIdx = 0, ti_priority = 0, ti_stackSz = 0, ti_id = 0, ti_listIdx = 0\<rparr>)) = Undefined"
proof (rule thread_array_exhausted [where rt = "\<lambda>_. False", OF churn_protocol])
  show "cpu_loop (\<lambda>_. Affinity_ok) 4 128 = Ret 4" by (subst cpu_loop.simps) simp
qed

text \<open>
  The number of processors is found: if the kernel accepts a set of at most \<open>2 ^ 30\<close>
  processors, the search ends and the set has stayed in the range of \<open>int\<close>; when the call
  fails for another reason the answer is 1.
\<close>

theorem GetCpuCount_returns:
  assumes "k \<le> 23" and "affinity (128 * 2 ^ k) \<noteq> Affinity_EINVAL"
  shows "\<exists>m. GetCpuCount affinity nprocessors t = Ret (t\<lparr>th_maxCpuCnt := m\<rparr>) \<and> (m = nprocessors \<or> m = 1)"
proof -
  have "n * 2 ^ k < 2 ^ 31 \<Longrightarrow> 0 < n \<Longrightarrow> affinity (n * 2 ^ k) \<noteq> Affinity_EINVAL \<Longrightarrow>
      \<exists>m. cpu_loop affinity nprocessors n = Ret m \<and> (m = nprocessors \<or> m = 1)" for n
  proof (induction k arbitrary: n)
    case 0
    then show ?case by (subst (1) cpu_loop.simps) (simp split: affinity.split)
  next
    case (Suc k)
    have lt: "n < 2 ^ 31" using Suc.prems(1) by (metis le_less_trans mult.right_neutral mult_le_mono2 one_le_numeral one_le_power)
    show ?case
    proof (cases "affinity n")
      case Affinity_EINVAL
      have "\<exists>m. cpu_loop affinity nprocessors (n * 2) = Ret m \<and> (m = nprocessors \<or> m = 1)"
        using Suc.prems by (intro Suc.IH) (simp_all add: ac_simps)
      then show ?thesis using lt Affinity_EINVAL Suc.prems(2) by (subst (1) cpu_loop.simps) simp
    qed (use lt in \<open>subst (1) cpu_loop.simps, simp\<close>)+
  qed
  moreover have "(2 :: nat) ^ k \<le> 2 ^ 23" using assms(1) by (rule power_increasing) simp
  then have "128 * (2 :: nat) ^ k < 2 ^ 31" by simp
  ultimately obtain m where "cpu_loop affinity nprocessors 128 = Ret m" "m = nprocessors \<or> m = 1"
    using assms(2) by (metis zero_less_numeral)
  then show ?thesis by (auto simp: GetCpuCount_def)
qed

theorem GetCpuCount_returns_witness:
  "\<exists>m. GetCpuCount (\<lambda>n. if n < 1000 then Affinity_EINVAL else Affinity_ok) 768 (threads_init (\<lambda>_.
     \<lparr>ti_cpuIdx = 0, ti_priority = 0, ti_stackSz = 0, ti_id = 0, ti_listIdx = 0\<rparr>)) =
     Ret ((threads_init (\<lambda>_. \<lparr>ti_cpuIdx = 0, ti_priority = 0, ti_stackSz = 0, ti_id = 0, ti_listIdx = 0\<rparr>))\<lparr>th_maxCpuCnt := m\<rparr>) \<and>
     (m = 768 \<or> m = 1)"
  by (rule GetCpuCount_returns [of 3]) simp_all

text \<open>
  What \<open>CreateThread\<close> does: it returns 0 or -1; on 0 the thread exists with the scheduling
  asked for, real-time threads with \<open>SCHED_FIFO\<close> and their priority, on a processor that
  exists (0 when the index is out of range), and on -1 nothing is registered and there is no
  new thread, unless it was the destruction of the attributes that failed.
\<close>

theorem CreateThread_spec:
  assumes "CreateThread aff n ok p realtime addList t = Ret (r, t')" and "0 < th_maxCpuCnt t"
  shows "let i = th_info t' p in
         0 \<le> ti_cpuIdx i \<and> ti_cpuIdx i < th_maxCpuCnt t \<and> ti_priority i = ti_priority (th_info t p) \<and>
         (r = 0 \<and> ti_id i = th_next t \<and> th_os t' = (th_os t)(th_next t := Some (Joinable (create_calls i realtime))) \<and>
            th_reg t' = (if addList
              then \<lparr>rg_num = rg_num (th_reg t) + 1, rg_slots = (rg_slots (th_reg t))[rg_num (th_reg t) := Some p]\<rparr>
              else th_reg t) \<or>
          r = -1 \<and> th_reg t' = th_reg t \<and> (if list_all ok (create_calls i realtime) then \<not> ok Attr_destroy else th_os t' = th_os t))"
proof -
  define i where "i = (if ti_cpuIdx (th_info t p) < 0 \<or> ti_cpuIdx (th_info t p) \<ge> th_maxCpuCnt t
                       then (th_info t p)\<lparr>ti_cpuIdx := 0\<rparr> else th_info t p)"
  have i: "0 \<le> ti_cpuIdx i" "ti_cpuIdx i < th_maxCpuCnt t" "ti_priority i = ti_priority (th_info t p)"
    using assms(2) by (auto simp: i_def)
  have listIdx: "create_calls (j\<lparr>ti_listIdx := k\<rparr>) rt = create_calls j rt" for j k rt
    by (simp add: create_calls_def)
  have c: "CreateThread aff n ok p realtime addList t =
      (let t = t\<lparr>th_info := (th_info t)(p := i)\<rparr> in
       if \<not> list_all ok (create_calls i realtime) then Ret (-1, t)
       else
         let thread = i\<lparr>ti_id := th_next t\<rparr>;
             t = t\<lparr>th_os := (th_os t)(th_next t := Some (Joinable (create_calls i realtime))),
                   th_next := th_next t + 1, th_info := (th_info t)(p := thread)\<rparr>
         in if \<not> ok Attr_destroy then Ret (-1, t)
            else if addList then
              obind (reg_add p (th_reg t)) (\<lambda>(i, r).
                Ret (0, t\<lparr>th_reg := r, th_info := (th_info t)(p := thread\<lparr>ti_listIdx := i\<rparr>)\<rparr>))
            else Ret (0, t\<lparr>th_info := (th_info t)(p := thread\<lparr>ti_listIdx := -1\<rparr>)\<rparr>))"
    using assms(2) by (simp add: CreateThread_def i_def Let_def)
  show ?thesis
  proof (cases "list_all ok (create_calls i realtime)")
    case False
    then show ?thesis using assms(1) i unfolding c Let_def by auto
  next
    case calls: True
    show ?thesis
    proof (cases "ok Attr_destroy")
      case False
      then show ?thesis using assms(1) i calls unfolding c Let_def by auto
    next
      case True
      then show ?thesis
        using assms(1) i calls unfolding c Let_def by (auto simp: reg_add_def listIdx split: if_splits)
    qed
  qed
qed

theorem CreateThread_spec_witness:
  "let t = (threads_init (\<lambda>_. \<lparr>ti_cpuIdx = 9, ti_priority = 80, ti_stackSz = 65536, ti_id = 0, ti_listIdx = 0\<rparr>))\<lparr>th_maxCpuCnt := 4\<rparr>
   in \<exists>t'. CreateThread (\<lambda>_. Affinity_ok) 4 (\<lambda>_. True) 5 True True t = Ret (0, t') \<and>
           ti_cpuIdx (th_info t' 5) < 4 \<and> ti_priority (th_info t' 5) = 80"
proof -
  let ?t = "(threads_init (\<lambda>_. \<lparr>ti_cpuIdx = 9, ti_priority = 80, ti_stackSz = 65536, ti_id = 0, ti_listIdx = 0\<rparr>))\<lparr>th_maxCpuCnt := 4\<rparr>"
  have "\<exists>t'. CreateThread (\<lambda>_. Affinity_ok) 4 (\<lambda>_. True) 5 True True ?t = Ret (0, t')"
    by (simp add: CreateThread_def Let_def list_all_iff reg_add_def threads_init_def registry_new_def)
  then obtain t' where t': "CreateThread (\<lambda>_. Affinity_ok) 4 (\<lambda>_. True) 5 True True ?t = Ret (0, t')" by blast
  have "0 < th_maxCpuCnt ?t" by simp
  from CreateThread_spec [OF t' this] show ?thesis
    using t' by (auto simp: Let_def threads_init_def)
qed

subsection \<open>All semaphores, and all mutexes\<close>

lemma post_loop_all:
  "n \<le> length slots \<Longrightarrow> (\<And>i p. i < n \<Longrightarrow> slots ! i = Some p \<Longrightarrow> sem_alive s p) \<Longrightarrow>
   (\<And>i j p. i < n \<Longrightarrow> j < n \<Longrightarrow> slots ! i = Some p \<Longrightarrow> slots ! j = Some p \<Longrightarrow> i = j) \<Longrightarrow>
     \<exists>s'. post_loop slots n s = Ret s' \<and>
        (\<forall>q. sm_val s' q = (if \<exists>i < n. slots ! i = Some q then map_option sem_posted (sm_val s q) else sm_val s q))"
proof (induction n arbitrary: s)
  case (Suc n)
  show ?case
  proof (cases "slots ! n")
    case None
    then have eq: "(\<exists>i < Suc n. slots ! i = Some q) \<longleftrightarrow> (\<exists>i < n. slots ! i = Some q)" for q
      by (auto simp: less_Suc_eq)
    have "\<exists>s'. post_loop slots n s = Ret s' \<and>
        (\<forall>q. sm_val s' q = (if \<exists>i < n. slots ! i = Some q then map_option sem_posted (sm_val s q) else sm_val s q))"
    proof (rule Suc.IH)
      show "n \<le> length slots" using Suc.prems(1) by simp
      show "sem_alive s p" if "i < n" "slots ! i = Some p" for i p using that Suc.prems(2) [of i p] by simp
      show "i = j" if "i < n" "j < n" "slots ! i = Some p" "slots ! j = Some p" for i j p
        using that Suc.prems(3) [of i j p] by simp
    qed
    then show ?thesis unfolding eq using None by simp
  next
    case (Some p)
    then obtain v where v: "sm_val s p = Some v" using Suc.prems(2) [of n p] by (auto simp: sem_alive_def)
    let ?s = "s\<lparr>sm_val := (sm_val s)(p := Some (sem_posted v))\<rparr>"
    have np: "i < n \<Longrightarrow> slots ! i \<noteq> Some p" for i using Suc.prems(3) [of i n p] Some by auto
    have "\<exists>s'. post_loop slots n ?s = Ret s' \<and>
        (\<forall>q. sm_val s' q = (if \<exists>i < n. slots ! i = Some q then map_option sem_posted (sm_val ?s q) else sm_val ?s q))"
    proof (rule Suc.IH)
      show "n \<le> length slots" using Suc.prems(1) by simp
      show "sem_alive ?s q" if "i < n" "slots ! i = Some q" for i q
        using that Suc.prems(2) [of i q] by (simp add: sem_alive_def)
      show "i = j" if "i < n" "j < n" "slots ! i = Some q" "slots ! j = Some q" for i j q
        using that Suc.prems(3) [of i j q] by simp
    qed
    then obtain s' where s': "post_loop slots n ?s = Ret s'"
      "\<forall>q. sm_val s' q = (if \<exists>i < n. slots ! i = Some q then map_option sem_posted (sm_val ?s q) else sm_val ?s q)" by blast
    have "sm_val s' q = (if \<exists>i < Suc n. slots ! i = Some q then map_option sem_posted (sm_val s q) else sm_val s q)" for q
      using s'(2) np Some v by (auto simp: less_Suc_eq)
    then show ?thesis using s'(1) Some v by (simp add: PostSemaphore_def)
  qed
qed simp

text \<open>
  \<open>PostAllSemaphore\<close> posts every semaphore created and not yet deleted exactly once (one at
  its maximal value stays there), and
  touches no other: whatever the sequence of creations and deletions, as long as not more than
  64 are created in all; and \<open>DeleteAllSemaphore\<close> then destroys all of them.
\<close>

theorem post_all_semaphores:
  assumes "protocol ops {}" and "makes ops \<le> 64"
  shows "\<exists>s s' s''. life_run (\<lambda>p. CreateSemaphore True p (init p)) DeleteSemaphore ops semaphores_init = Ret s \<and>
           {p. sm_val s p \<noteq> None} = live_after ops {} \<and>
           PostAllSemaphore s = Ret s' \<and> (\<forall>p. sm_val s' p = map_option sem_posted (sm_val s p)) \<and>
           DeleteAllSemaphore s = Ret (0, s'') \<and> (\<forall>p. sm_val s'' p = None)"
proof -
  have e: "Collect (sem_alive semaphores_init) = {}" by (auto simp: sem_alive_def semaphores_init_def)
  have z: "rg_num (sm_reg semaphores_init) = 0" by (simp add: semaphores_init_def registry_new_def)
  obtain s where s: "life_run (\<lambda>p. CreateSemaphore True p (init p)) DeleteSemaphore ops semaphores_init = Ret s"
    "sem.good 64 s" "Collect (sem_alive s) = live_after ops {}"
    using sem.life_good [OF semaphores_init_good, where ops = ops and init = init] assms unfolding e z by auto
  note g = s(2) [unfolded sem.good_def]
  have reg: "sem_alive s p \<longleftrightarrow> (\<exists>i < rg_num (sm_reg s). rg_slots (sm_reg s) ! i = Some p)" for p
    using g by (meson less_le_trans)
  have "\<exists>s'. post_loop (rg_slots (sm_reg s)) (rg_num (sm_reg s)) s = Ret s' \<and>
      (\<forall>q. sm_val s' q = (if \<exists>i < rg_num (sm_reg s). rg_slots (sm_reg s) ! i = Some q
                          then map_option sem_posted (sm_val s q) else sm_val s q))"
  proof (rule post_loop_all)
    show "rg_num (sm_reg s) \<le> length (rg_slots (sm_reg s))" using g by simp
    show "sem_alive s p" if "i < rg_num (sm_reg s)" "rg_slots (sm_reg s) ! i = Some p" for i p
      using that reg by blast
    show "i = j" if "i < rg_num (sm_reg s)" "j < rg_num (sm_reg s)" "rg_slots (sm_reg s) ! i = Some p"
      "rg_slots (sm_reg s) ! j = Some p" for i j p
      using that g by (metis less_le_trans of_nat_eq_iff)
  qed
  then obtain s' where "PostAllSemaphore s = Ret s'"
    "\<forall>q. sm_val s' q = (if sem_alive s q then map_option sem_posted (sm_val s q) else sm_val s q)"
    unfolding PostAllSemaphore_def reg [symmetric] by blast
  moreover have "(if sem_alive s q then map_option sem_posted (sm_val s q) else sm_val s q) = map_option sem_posted (sm_val s q)" for q
    by (simp add: sem_alive_def)
  moreover obtain s'' where "delete_loop destroy_sem (rg_slots (sm_reg s)) (rg_num (sm_reg s)) 0 s
      = Ret (True, card (Collect (sem_alive s)), s'')" "\<forall>p. \<not> sem_alive s'' p"
    using sem.delete_all_good [OF s(2)] by blast
  moreover have "{p. sm_val s p \<noteq> None} = live_after ops {}" unfolding s(3) [symmetric] by (auto simp: sem_alive_def)
  ultimately show ?thesis using s(1) by (auto simp: DeleteAllSemaphore_def sem_alive_def)
qed

theorem post_all_semaphores_witness:
  "\<exists>s s'. life_run (\<lambda>p. CreateSemaphore True p 0) DeleteSemaphore [Make 1, Make 2, Kill 1, Make 3] semaphores_init = Ret s \<and>
          {p. sm_val s p \<noteq> None} = {2, 3} \<and> PostAllSemaphore s = Ret s' \<and> sm_val s' 2 = map_option sem_posted (sm_val s 2)"
proof -
  have "live_after [Make 1, Make 2, Kill 1, Make 3] {} = {2, 3}" by auto
  then show ?thesis using post_all_semaphores [of "[Make 1, Make 2, Kill 1, Make 3]" "\<lambda>_. 0"] by auto
qed

lemma mutex_lifecycle:
  assumes "protocol ops {}" and "makes ops \<le> 64"
  shows "\<exists>m m'. life_run (CreateMutex True) DeleteMutex ops mutexes_init = Ret m \<and>
           Collect (mtx_alive m) = live_after ops {} \<and> DeleteAllMutex m = Ret (0, m') \<and> Collect (mtx_alive m') = {}"
proof -
  have e: "Collect (mtx_alive mutexes_init) = {}" by (auto simp: mtx_alive_def mutexes_init_def)
  have z: "rg_num (mx_reg mutexes_init) = 0" by (simp add: mutexes_init_def registry_new_def)
  obtain m where m: "life_run (CreateMutex True) DeleteMutex ops mutexes_init = Ret m"
    "mtx.good 64 m" "Collect (mtx_alive m) = live_after ops {}"
    using mtx.life_good [OF mutexes_init_good, where ops = ops] assms unfolding e z by auto
  obtain m' where "delete_loop destroy_mutex (rg_slots (mx_reg m)) (rg_num (mx_reg m)) 0 m
      = Ret (True, card (Collect (mtx_alive m)), m')" "\<forall>p. \<not> mtx_alive m' p"
    using mtx.delete_all_good [OF m(2)] by blast
  then show ?thesis using m(1,3) by (simp add: DeleteAllMutex_def)
qed

lemma join_not_joinable: "\<not> joinable t p \<Longrightarrow> join_thread p t = Undefined"
  by (auto simp: join_thread_def joinable_def Let_def split: option.splits os_thread.splits)

lemma join_loop_reg: "delete_loop join_thread slots n num t = Ret (ok, k, t') \<Longrightarrow> th_reg t' = th_reg t"
proof (induction n arbitrary: num t)
  case (Suc n)
  have j: "join_thread p t = Ret (ok1, t1) \<Longrightarrow> th_reg t1 = th_reg t" for p ok1 t1
    by (auto simp: join_thread_def Let_def split: option.splits os_thread.splits if_splits)
  show ?case
  proof (cases "slots ! n")
    case None
    then show ?thesis using Suc.IH Suc.prems by simp
  next
    case (Some p)
    then show ?thesis
      using Suc.IH Suc.prems j by (cases "join_thread p t") (auto split: if_splits)
  qed
qed simp

text \<open>
  The arrays are not cleared: calling \<open>DeleteAllThread\<close> twice, or \<open>DeleteThread\<close> after it,
  joins a thread that has been joined already, which is undefined.
\<close>

theorem delete_all_twice:
  assumes "protocol ops {}" and "makes ops \<le> 32" and "cpu_loop aff n 128 = Ret m" and "p \<in> live_after ops {}"
  shows "\<exists>t t'. life_run (\<lambda>p. CreateThread aff n (\<lambda>_. True) p (rt p) True) DeleteThread ops (threads_init info) = Ret t \<and>
           DeleteAllThread t = Ret (0, t') \<and> DeleteAllThread t' = Undefined \<and> DeleteThread p t' = Undefined"
proof -
  have e: "Collect (joinable (threads_init info)) = {}" using threads_init_good(2) [OF assms(3)] by simp
  have z: "rg_num (th_reg (threads_init info)) = 0" by (simp add: threads_init_def registry_new_def)
  obtain t where t: "life_run (\<lambda>p. CreateThread aff n (\<lambda>_. True) p (rt p) True) DeleteThread ops (threads_init info) = Ret t"
    "thr.good aff n 32 t" "Collect (joinable t) = live_after ops {}"
    using thr.life_good [OF threads_init_good(1) [OF assms(3), of info], where ops = ops and rt = rt] assms(1,2)
    unfolding e z by auto
  obtain t' where t': "delete_loop join_thread (rg_slots (th_reg t)) (rg_num (th_reg t)) 0 t
      = Ret (True, card (Collect (joinable t)), t')" "\<forall>p. \<not> joinable t' p"
    using thr.delete_all_good [OF t(2)] by blast
  have "joinable t p" using t(3) assms(4) by blast
  then obtain i where i: "i < rg_num (th_reg t)" "rg_slots (th_reg t) ! i = Some p"
    using t(2) unfolding thr.good_def by (meson less_le_trans)
  have "delete_loop join_thread (rg_slots (th_reg t)) (rg_num (th_reg t)) 0 t' = Undefined"
    by (rule thr.delete_loop_twice [OF i]) (use t'(2) join_not_joinable in blast)
  then have "DeleteAllThread t' = Undefined"
    unfolding DeleteAllThread_def join_loop_reg [OF t'(1)] by simp
  moreover have "DeleteThread p t' = Undefined"
    using t'(2) join_not_joinable by (simp add: DeleteThread_def)
  ultimately show ?thesis using t(1) t'(1) by (simp add: DeleteAllThread_def)
qed

theorem delete_all_twice_witness:
  "\<exists>t t'. life_run (\<lambda>p. CreateThread (\<lambda>_. Affinity_ok) 4 (\<lambda>_. True) p False True) DeleteThread [Make 1]
            (threads_init (\<lambda>_. \<lparr>ti_cpuIdx = 0, ti_priority = 0, ti_stackSz = 0, ti_id = 0, ti_listIdx = 0\<rparr>)) = Ret t \<and>
          DeleteAllThread t = Ret (0, t') \<and> DeleteAllThread t' = Undefined"
proof -
  have "cpu_loop (\<lambda>_. Affinity_ok) 4 128 = Ret 4" by (subst cpu_loop.simps) simp
  then show ?thesis
    using delete_all_twice [of "[Make 1]" "\<lambda>_. Affinity_ok" 4 4 1 "\<lambda>_. False"
        "\<lambda>_. \<lparr>ti_cpuIdx = 0, ti_priority = 0, ti_stackSz = 0, ti_id = 0, ti_listIdx = 0\<rparr>"]
    by (simp del: life_run.simps) blast
qed

text \<open>
  The try-lock: of any number of attempts while it is held none succeeds, and after an
  \<open>unlock\<close> the next one does.
\<close>

lemma lock_excludes: "fst (lock False)" "snd (lock l)" "\<not> fst (lock (snd (lock l)))" "fst (lock (unlock (snd (lock l))))"
  by (simp_all add: lock_def unlock_def)

text \<open>A watchdog is valid for as many calls without new data as its limit says, and then not.\<close>

lemma watchdog_expires: "0 \<le> m \<Longrightarrow> (Watch m False ^^ k) m = max 0 (m - int k)"
proof (induction k)
  case (Suc k)
  then show ?case by (auto simp: Watch_def)
qed simp

text \<open>
  \<open>PrintThreadAttr\<close> succeeds exactly when every attribute can be read, and then logs six lines;
  otherwise it logs those before the first that cannot and one error.
\<close>

lemma print_attrs_result:
  "(fst (print_attrs err get as) = 0 \<longleftrightarrow> (\<forall>a \<in> fst ` set as. get a \<noteq> None)) \<and>
   snd (print_attrs err get as) =
     map (\<lambda>(a, f). (False, f (the (get a)) @ [NL])) (takeWhile (\<lambda>(a, f). get a \<noteq> None) as) @
     (if \<forall>a \<in> fst ` set as. get a \<noteq> None then [] else [(True, ''!Error! PrintThreadAttr() : '' @ err @ [NL])])"
proof (induction as)
  case (Cons x as)
  obtain a f where x: "x = (a, f)" by (cases x)
  show ?case using Cons.IH by (cases "get a"; cases "print_attrs err get as") (auto simp: x)
qed simp

lemma PrintThreadAttr_result:
  "fst (PrintThreadAttr err get) = 0 \<longleftrightarrow> (\<forall>a. get a \<noteq> None)"
  "length (snd (PrintThreadAttr err get)) \<le> 6"
proof -
  have all: "(\<forall>a. get a \<noteq> None) \<longleftrightarrow> (\<forall>a \<in> {Get_stacksize, Get_guardsize, Get_schedpolicy, Get_schedparam, Get_detachstate, Get_inheritsched}. get a \<noteq> None)"
    by (metis (full_types) attr_get.exhaust insert_iff)
  show "fst (PrintThreadAttr err get) = 0 \<longleftrightarrow> (\<forall>a. get a \<noteq> None)"
    unfolding all PrintThreadAttr_def using print_attrs_result by (simp del: print_attrs.simps)
  show "length (snd (PrintThreadAttr err get)) \<le> 6"
    by (simp add: PrintThreadAttr_def split: option.split)
qed

end
