(* ===== verification/StatePub.thy ===== *)
theory StatePub
  imports Prelude "HOL-Library.Sublist" "HOL-Library.Transitive_Closure_Table"
begin

text \<open>
  \<open>StatePublisherGrpc\<close>: a server that streams state messages to every client that has called
  it. Each call is a session with its own state machine and queue. Two threads run: the
  program calls \<open>Publish\<close> and \<open>Stop\<close>, and a thread takes completions off the queue of the
  gRPC library and calls the session's handler. The library is modelled by what it
  documents: an operation started on a session completes once, with success or failure; a
  second write must not be started before the first one has completed; nothing must be
  started after the completion queue has been shut down.
\<close>

section \<open>Sessions\<close>

datatype call_state =
  WAIT_CONNECT | READY_TO_WRITE | WAIT_WRITE_DONE | WAIT_FINISH | FINISHED | PEER_DISCONNECTED

text \<open>
  \<open>ss_request\<close>: the request for a call is outstanding. \<open>ss_writing\<close>: the number of writes
  outstanding. \<open>ss_wire\<close>: the messages handed to \<open>Write\<close>. \<open>ss_offered\<close> records for the
  specification the messages published while the stream was open.
\<close>

record 'm session =
  ss_state :: call_state
  ss_queue :: "'m list"
  ss_request :: bool
  ss_writing :: nat
  ss_wire :: "'m list"
  ss_offered :: "'m list"

definition new_session :: "'m session" where
  "new_session = \<lparr>ss_state = WAIT_CONNECT, ss_queue = [], ss_request = True, ss_writing = 0, ss_wire = [], ss_offered = []\<rparr>"

definition start_write :: "'m \<Rightarrow> 'm session \<Rightarrow> 'm session" where
  "start_write m s = s\<lparr>ss_writing := ss_writing s + 1, ss_wire := ss_wire s @ [m]\<rparr>"

definition session_Publish :: "int \<Rightarrow> 'm \<Rightarrow> 'm session \<Rightarrow> 'm session" where
  "session_Publish msg_queue_size msg s =
     (if ss_state s = WAIT_WRITE_DONE then
        (if msg_queue_size = 0 then s
         else
           let q = (if msg_queue_size > 0 \<and> length (ss_queue s) \<ge> nat msg_queue_size then tl (ss_queue s) else ss_queue s)
           in s\<lparr>ss_queue := q @ [msg]\<rparr>)
      else if ss_state s = READY_TO_WRITE then start_write msg (s\<lparr>ss_state := WAIT_WRITE_DONE\<rparr>)
      else s)"

definition offer :: "int \<Rightarrow> 'm \<Rightarrow> 'm session \<Rightarrow> 'm session" where
  "offer msg_queue_size msg s =
     (session_Publish msg_queue_size msg s)
       \<lparr>ss_offered := (if ss_state s \<in> {READY_TO_WRITE, WAIT_WRITE_DONE} then ss_offered s @ [msg] else ss_offered s)\<rparr>"

text \<open>The branch of \<open>OnCompletionEvent\<close> for a finished write.\<close>

definition write_done :: "'m session \<Rightarrow> 'm session" where
  "write_done s =
     (case ss_queue s of
        m # ms \<Rightarrow> start_write m (s\<lparr>ss_state := WAIT_WRITE_DONE, ss_queue := ms\<rparr>)
      | [] \<Rightarrow> s\<lparr>ss_state := READY_TO_WRITE\<rparr>)"

definition Pub_TryCancelCallAndShutdown :: "'m session \<Rightarrow> 'm session" where
  "Pub_TryCancelCallAndShutdown s =
     (if ss_state s \<noteq> WAIT_CONNECT \<and> ss_state s \<noteq> WAIT_FINISH \<and> ss_state s \<noteq> FINISHED
      then s\<lparr>ss_state := FINISHED\<rparr> else s)"

section \<open>The publisher\<close>

text \<open>
  \<open>pb_next\<close> is the counter of session numbers. \<open>pb_shutdown\<close> is set by \<open>Shutdown\<close> of the
  completion queue; \<open>pb_illegal\<close> records that an operation was started after it.
\<close>

record 'm publisher =
  pb_sessions :: "nat \<Rightarrow> 'm session option"
  pb_next :: nat
  pb_queue_size :: int
  pb_running :: bool
  pb_shutdown :: bool
  pb_illegal :: bool

definition upd_session :: "nat \<Rightarrow> ('m session \<Rightarrow> 'm session) \<Rightarrow> 'm publisher \<Rightarrow> 'm publisher" where
  "upd_session sid f p = p\<lparr>pb_sessions := (pb_sessions p)(sid := map_option f (pb_sessions p sid))\<rparr>"

definition started :: "'m publisher \<Rightarrow> 'm publisher" where
  "started p = p\<lparr>pb_illegal := pb_illegal p \<or> pb_shutdown p\<rparr>"

definition Pub_AddSession :: "'m publisher \<Rightarrow> 'm publisher" where
  "Pub_AddSession p =
     (let sid = pb_next p + 1
      in started (p\<lparr>pb_next := sid, pb_sessions := (pb_sessions p)(sid := Some new_session)\<rparr>))"

definition Pub_RemoveSession :: "nat \<Rightarrow> 'm publisher \<Rightarrow> 'm publisher" where
  "Pub_RemoveSession sid p = p\<lparr>pb_sessions := (pb_sessions p)(sid := None)\<rparr>"

definition StatePublisherGrpc :: "int \<Rightarrow> 'm publisher" where
  "StatePublisherGrpc queue_size =
     (Pub_AddSession \<lparr>pb_sessions = (\<lambda>_. None), pb_next = 0, pb_queue_size = queue_size, pb_running = False,
                  pb_shutdown = False, pb_illegal = False\<rparr>)\<lparr>pb_running := True\<rparr>"

text \<open>\<open>Publish\<close> holds the mutex of the session list and offers the message to every session.\<close>

definition writes_now :: "'m session option \<Rightarrow> bool" where
  "writes_now s \<longleftrightarrow> (\<exists>x. s = Some x \<and> ss_state x = READY_TO_WRITE)"

definition Pub_Publish :: "'m \<Rightarrow> 'm publisher \<Rightarrow> 'm publisher" where
  "Pub_Publish msg p =
     p\<lparr>pb_sessions := (\<lambda>sid. map_option (offer (pb_queue_size p) msg) (pb_sessions p sid)),
       pb_illegal := pb_illegal p \<or> (pb_shutdown p \<and> (\<exists>sid. writes_now (pb_sessions p sid)))\<rparr>"

text \<open>The two parts of \<open>Stop\<close> before the thread is joined.\<close>

definition stop_sessions :: "'m publisher \<Rightarrow> 'm publisher" where
  "stop_sessions p = p\<lparr>pb_sessions := (\<lambda>sid. map_option Pub_TryCancelCallAndShutdown (pb_sessions p sid)), pb_running := False\<rparr>"

definition stop_shutdown :: "'m publisher \<Rightarrow> 'm publisher" where
  "stop_shutdown p = p\<lparr>pb_shutdown := True\<rparr>"

definition Pub_Stop :: "'m publisher \<Rightarrow> 'm publisher" where
  "Pub_Stop p = stop_shutdown (stop_sessions p)"

text \<open>
  The handler of a completion, run to its end by itself. The state is read without the
  mutex; the step relation below separates the reading from the action.
\<close>

definition Pub_OnCompletionEvent :: "nat \<Rightarrow> 'm publisher \<Rightarrow> 'm publisher" where
  "Pub_OnCompletionEvent sid p =
     (case pb_sessions p sid of
        None \<Rightarrow> p
      | Some s \<Rightarrow>
          (case ss_state s of
             WAIT_CONNECT \<Rightarrow> upd_session sid (\<lambda>s. s\<lparr>ss_state := READY_TO_WRITE\<rparr>) (Pub_AddSession p)
           | WAIT_WRITE_DONE \<Rightarrow> (if ss_queue s = [] then upd_session sid write_done p else started (upd_session sid write_done p))
           | WAIT_FINISH \<Rightarrow> Pub_RemoveSession sid p
           | _ \<Rightarrow> p))"

section \<open>Steps of the threads\<close>

text \<open>
  Where the thread of the dispatcher is: waiting for a completion, holding one (with its
  \<open>ok\<close> flag), between \<open>AddSession\<close> and the change of the state, or having read
  \<open>WAIT_WRITE_DONE\<close> and not yet taken the mutex.
\<close>

datatype dispatcher = Next | Event nat bool | Connected nat | Write_done nat

definition write_done_illegal :: "nat \<Rightarrow> 'm publisher \<Rightarrow> 'm publisher" where
  "write_done_illegal sid p =
     (case pb_sessions p sid of
        Some s \<Rightarrow> if ss_queue s = [] then p else started p
      | None \<Rightarrow> p)"

text \<open>The moves of the dispatcher that do not depend on the library, as a function.\<close>

fun dispatch :: "'m publisher \<times> dispatcher \<Rightarrow> 'm publisher \<times> dispatcher" where
  "dispatch (p, Next) = (p, Next)"
| "dispatch (p, Event sid False) = (upd_session sid Pub_TryCancelCallAndShutdown p, Next)"
| "dispatch (p, Event sid True) =
     (case pb_sessions p sid of
        None \<Rightarrow> (p, Next)
      | Some s \<Rightarrow>
          (case ss_state s of
             WAIT_CONNECT \<Rightarrow> (Pub_AddSession p, Connected sid)
           | WAIT_WRITE_DONE \<Rightarrow> (p, Write_done sid)
           | WAIT_FINISH \<Rightarrow> (Pub_RemoveSession sid p, Next)
           | _ \<Rightarrow> (p, Next)))"
| "dispatch (p, Connected sid) = (upd_session sid (\<lambda>s. s\<lparr>ss_state := READY_TO_WRITE\<rparr>) p, Next)"
| "dispatch (p, Write_done sid) = (upd_session sid write_done (write_done_illegal sid p), Next)"

inductive pub_step :: "'m publisher \<times> dispatcher \<Rightarrow> 'm publisher \<times> dispatcher \<Rightarrow> bool" where
  publish: "pub_step (p, r) (Pub_Publish m p, r)"
| connected: "pb_sessions p sid = Some s \<Longrightarrow> ss_request s \<Longrightarrow>
    pub_step (p, Next) (upd_session sid (\<lambda>s. s\<lparr>ss_request := False\<rparr>) p, Event sid ok)"
| written: "pb_sessions p sid = Some s \<Longrightarrow> 0 < ss_writing s \<Longrightarrow>
    pub_step (p, Next) (upd_session sid (\<lambda>s. s\<lparr>ss_writing := ss_writing s - 1\<rparr>) p, Event sid ok)"
| handle: "r \<noteq> Next \<Longrightarrow> pub_step (p, r) (dispatch (p, r))"
| stop1: "pb_running p \<Longrightarrow> pub_step (p, r) (stop_sessions p, r)"
| stop2: "\<not> pb_running p \<Longrightarrow> pub_step (p, r) (stop_shutdown p, r)"

inductive_cases pub_stepE: "pub_step (p, r) (p', r')"

definition pub_reach :: "int \<Rightarrow> 'm publisher \<times> dispatcher \<Rightarrow> bool" where
  "pub_reach queue_size st \<longleftrightarrow> pub_step\<^sup>*\<^sup>* (StatePublisherGrpc queue_size, Next) st"

text \<open>The handler alone, and the moves of the dispatcher, do the same.\<close>

lemma dispatch_is_handler:
  "(case dispatch (p, Event sid True) of (p', Next) \<Rightarrow> p' | st \<Rightarrow> fst (dispatch st)) = Pub_OnCompletionEvent sid p"
  by (auto simp: Pub_OnCompletionEvent_def write_done_illegal_def upd_session_def started_def split: option.split call_state.split)

end
