(* ===== verification/StatePubProps.thy ===== *)
theory StatePubProps
  imports StatePub
begin

text \<open>
  The publisher's promises, for every interleaving of its two threads with the completions of
  the library: the protocol of each stream, what a client receives, and two defects.
\<close>

section \<open>The messages of a session\<close>

text \<open>
  What has been written or waits to be written is a part of what was published, in order;
  the queue is within its size and holds the latest; without a bound nothing is missing.
\<close>

definition msgs_ok :: "int \<Rightarrow> 'm session \<Rightarrow> bool" where
  "msgs_ok qs s \<longleftrightarrow>
     subseq (ss_wire s @ ss_queue s) (ss_offered s) \<and> suffix (ss_queue s) (ss_offered s) \<and>
     (qs < 0 \<longrightarrow> ss_wire s @ ss_queue s = ss_offered s) \<and> (0 \<le> qs \<longrightarrow> length (ss_queue s) \<le> nat qs) \<and>
     (qs \<noteq> 0 \<and> ss_offered s \<noteq> [] \<longrightarrow> ss_wire s @ ss_queue s \<noteq> [] \<and> last (ss_wire s @ ss_queue s) = last (ss_offered s))"

definition proto_ok :: "dispatcher \<Rightarrow> nat \<Rightarrow> 'm session \<Rightarrow> bool" where
  "proto_ok r sid s \<longleftrightarrow>
     (ss_request s \<longrightarrow> ss_state s = WAIT_CONNECT) \<and> ss_state s \<noteq> WAIT_FINISH \<and> ss_state s \<noteq> PEER_DISCONNECTED \<and>
     (ss_state s = WAIT_CONNECT \<longrightarrow> ss_writing s = 0 \<and> ss_queue s = []) \<and>
     (ss_state s = READY_TO_WRITE \<longrightarrow> ss_writing s = 0 \<and> ss_queue s = []) \<and> ss_writing s \<le> 1 \<and>
     (ss_state s = WAIT_WRITE_DONE \<longrightarrow> (ss_writing s = 0 \<longleftrightarrow> r = Event sid True \<or> r = Event sid False \<or> r = Write_done sid)) \<and>
     (r = Event sid True \<or> r = Event sid False \<longrightarrow> ss_writing s = 0 \<and> \<not> ss_request s \<and> ss_state s \<noteq> READY_TO_WRITE) \<and>
     (r = Write_done sid \<longrightarrow> ss_writing s = 0 \<and> (ss_state s = WAIT_WRITE_DONE \<or> ss_state s = FINISHED)) \<and>
     (r = Connected sid \<longrightarrow> ss_state s = WAIT_CONNECT \<and> \<not> ss_request s)"

lemma msgs_new [simp]: "msgs_ok qs new_session"
  by (simp add: msgs_ok_def new_session_def)

lemma msgs_fields [simp]:
  "msgs_ok qs (s\<lparr>ss_state := c\<rparr>) = msgs_ok qs s" "msgs_ok qs (s\<lparr>ss_request := b\<rparr>) = msgs_ok qs s"
  "msgs_ok qs (s\<lparr>ss_writing := n\<rparr>) = msgs_ok qs s"
  by (simp_all add: msgs_ok_def)

lemma msgs_cancel [simp]: "msgs_ok qs (Pub_TryCancelCallAndShutdown s) = msgs_ok qs s"
  by (simp add: Pub_TryCancelCallAndShutdown_def)

lemma msgs_write_done: "msgs_ok qs s \<Longrightarrow> msgs_ok qs (write_done s)"
  by (cases "ss_queue s") (auto simp: msgs_ok_def write_done_def start_write_def dest: suffix_ConsD)

lemma subseq_snoc2: "subseq xs ys \<Longrightarrow> subseq (xs @ [m]) (ys @ [m])"
  by (rule list_emb_append_mono) simp_all

lemma suffix_snoc2: "suffix xs ys \<Longrightarrow> suffix (xs @ [m]) (ys @ [m])"
  by (auto simp: suffix_def)

lemma subseq_tl_queue: "subseq (w @ q) ys \<Longrightarrow> subseq (w @ tl q) ys"
proof -
  assume "subseq (w @ q) ys"
  moreover have "subseq (w @ tl q) (w @ q)"
    by (rule list_emb_append_mono) (simp, cases q, simp_all add: subseq_Cons')
  ultimately show ?thesis by (rule subseq_order.order_trans [rotated])
qed

lemma suffix_tl_queue: "suffix q ys \<Longrightarrow> suffix (tl q) ys"
  by (cases q) (auto dest: suffix_ConsD)

lemma msgs_offer:
  assumes "msgs_ok qs s" and "proto_ok r sid s"
  shows "msgs_ok qs (offer qs m s)"
proof -
  note m = assms(1) [unfolded msgs_ok_def]
  show ?thesis
  proof (cases "ss_state s")
    case READY_TO_WRITE
    then have "ss_queue s = []" using assms(2) by (simp add: proto_ok_def)
    then show ?thesis
      using READY_TO_WRITE m subseq_snoc2
      by (auto simp: msgs_ok_def offer_def session_Publish_def start_write_def)
  next
    case WAIT_WRITE_DONE
    define q where "q = (if qs > 0 \<and> length (ss_queue s) \<ge> nat qs then tl (ss_queue s) else ss_queue s)"
    show ?thesis
    proof (cases "qs = 0")
      case True
      then have "ss_queue s = []" using m by simp
      moreover have "subseq (ss_wire s) (ss_offered s @ [m])"
        using m \<open>ss_queue s = []\<close> list_emb_append_mono [of "(=)" "ss_wire s" "ss_offered s" "[]" "[m]"] by simp
      ultimately show ?thesis
        using WAIT_WRITE_DONE True by (simp add: msgs_ok_def offer_def session_Publish_def)
    next
      case False
      have o: "offer qs m s = s\<lparr>ss_queue := q @ [m], ss_offered := ss_offered s @ [m]\<rparr>"
        using WAIT_WRITE_DONE False by (simp add: offer_def session_Publish_def q_def Let_def)
      have "subseq (ss_wire s @ q) (ss_offered s)" "suffix q (ss_offered s)"
        using m subseq_tl_queue suffix_tl_queue by (auto simp: q_def)
      then have "subseq ((ss_wire s @ q) @ [m]) (ss_offered s @ [m])" "suffix (q @ [m]) (ss_offered s @ [m])"
        by (simp_all only: subseq_snoc2 suffix_snoc2)
      moreover have "length (q @ [m]) \<le> nat qs" if "0 \<le> qs"
        using m False that by (auto simp: q_def)
      ultimately show ?thesis using m unfolding o by (auto simp: msgs_ok_def q_def)
    qed
  qed (use m in \<open>simp_all add: msgs_ok_def offer_def session_Publish_def\<close>)
qed

section \<open>The protocol of a session\<close>

lemma proto_offer: "proto_ok r sid s \<Longrightarrow> proto_ok r sid (offer qs m s)"
  by (cases "ss_state s") (auto simp: proto_ok_def offer_def session_Publish_def start_write_def Let_def)

lemma proto_cancel: "proto_ok r sid s \<Longrightarrow> proto_ok r sid (Pub_TryCancelCallAndShutdown s)"
  by (cases "ss_state s") (auto simp: proto_ok_def Pub_TryCancelCallAndShutdown_def)

text \<open>The session the dispatcher is working on, and the others, when it goes on.\<close>

lemma proto_other:
  assumes "proto_ok r sid s" and "\<And>ok. r \<noteq> Event sid ok" and "r \<noteq> Connected sid" and "r \<noteq> Write_done sid"
    and "\<And>ok. r' \<noteq> Event sid ok" and "r' \<noteq> Connected sid" and "r' \<noteq> Write_done sid"
  shows "proto_ok r' sid s"
  using assms by (auto simp: proto_ok_def)

definition pub_inv :: "int \<Rightarrow> 'm publisher \<times> dispatcher \<Rightarrow> bool" where
  "pub_inv qs st \<longleftrightarrow>
     (case st of (p, r) \<Rightarrow>
        pb_queue_size p = qs \<and>
        (\<forall>sid s. pb_sessions p sid = Some s \<longrightarrow> sid \<le> pb_next p \<and> msgs_ok qs s \<and> proto_ok r sid s) \<and>
        (\<forall>sid ok. r = Event sid ok \<or> r = Connected sid \<or> r = Write_done sid \<longrightarrow> sid \<le> pb_next p))"

lemma upd_session_at:
  "pb_sessions (upd_session sid f p) x = (if x = sid then map_option f (pb_sessions p sid) else pb_sessions p x)"
  by (simp add: upd_session_def)

lemma upd_session_other [simp]:
  "pb_queue_size (upd_session sid f p) = pb_queue_size p" "pb_next (upd_session sid f p) = pb_next p"
  by (simp_all add: upd_session_def)

lemma started_fields [simp]:
  "pb_sessions (started p) = pb_sessions p" "pb_queue_size (started p) = pb_queue_size p" "pb_next (started p) = pb_next p"
  by (simp_all add: started_def)

lemma write_done_illegal_fields [simp]:
  "pb_sessions (write_done_illegal sid p) = pb_sessions p" "pb_queue_size (write_done_illegal sid p) = pb_queue_size p"
  "pb_next (write_done_illegal sid p) = pb_next p"
  by (simp_all add: write_done_illegal_def split: option.split)

lemma proto_new: "r \<noteq> Event sid True \<Longrightarrow> r \<noteq> Event sid False \<Longrightarrow> r \<noteq> Connected sid \<Longrightarrow> r \<noteq> Write_done sid \<Longrightarrow>
    proto_ok r sid new_session"
  by (simp add: proto_ok_def new_session_def)

lemma pub_inv_init: "pub_inv qs (StatePublisherGrpc qs, Next)"
  by (auto simp: pub_inv_def StatePublisherGrpc_def Pub_AddSession_def Let_def proto_new split: if_splits)

lemma pub_inv_dispatch:
  assumes "pub_inv qs (p, r)"
  shows "pub_inv qs (dispatch (p, r))"
proof -
  note i = assms [unfolded pub_inv_def prod.case]
  have qs: "pb_queue_size p = qs" using i by simp
  have sess: "sid \<le> pb_next p" "msgs_ok qs s" "proto_ok r sid s" if "pb_sessions p sid = Some s" for sid s
    using i that by blast+
  show ?thesis
  proof (cases r)
    case Next
    then show ?thesis using assms by simp
  next
    case (Event sid ok)
    show ?thesis
    proof (cases ok)
      case False
      have "proto_ok Next x s'" if x: "pb_sessions (upd_session sid Pub_TryCancelCallAndShutdown p) x = Some s'" for x s'
      proof (cases "x = sid")
        case True
        then obtain s where s: "pb_sessions p sid = Some s" "s' = Pub_TryCancelCallAndShutdown s"
          using x by (auto simp: upd_session_at)
        then have "proto_ok (Event sid False) sid s" using sess(3) [OF s(1)] Event False by simp
        then show ?thesis unfolding s(2) True
          by (cases "ss_state s") (auto simp: proto_ok_def Pub_TryCancelCallAndShutdown_def)
      next
        case ne: False
        then have "proto_ok r x s'" using x sess(3) by (simp add: upd_session_at)
        then show ?thesis by (rule proto_other) (use ne Event in simp_all)
      qed
      then show ?thesis
        using Event False qs sess(1,2) by (auto simp: pub_inv_def upd_session_at)
    next
      case ok: True
      show ?thesis
      proof (cases "pb_sessions p sid")
        case None
        have "proto_ok Next x s" if "pb_sessions p x = Some s" for x s
          by (rule proto_other [OF sess(3) [OF that]]) (use that None Event in auto)
        then show ?thesis using None Event ok qs sess(1,2) by (auto simp: pub_inv_def)
      next
        case (Some s)
        have pr: "proto_ok (Event sid True) sid s" using sess(3) [OF Some] Event ok by simp
        have rest: "proto_ok r' x s'" if "pb_sessions p x = Some s'" "x \<noteq> sid"
          "\<And>ok. r' \<noteq> Event x ok" "r' \<noteq> Connected x" "r' \<noteq> Write_done x" for r' x s'
          by (rule proto_other [OF sess(3) [OF that(1)]]) (use that Event in auto)
        show ?thesis
        proof (cases "ss_state s")
          case WAIT_CONNECT
          have new: "proto_ok (Connected sid) (Suc (pb_next p)) new_session"
            using sess(1) [OF Some] by (auto simp: proto_ok_def new_session_def)
          have "proto_ok (Connected sid) sid s" using pr WAIT_CONNECT by (auto simp: proto_ok_def)
          then have "proto_ok (Connected sid) x s'" if "pb_sessions p x = Some s'" for x s'
            using that Some rest [of x s' "Connected sid"] by (cases "x = sid") auto
          then show ?thesis
            using Some Event ok WAIT_CONNECT qs sess(1,2) new
            by (auto simp: pub_inv_def Pub_AddSession_def Let_def le_Suc_eq)
        next
          case WAIT_WRITE_DONE
          have "proto_ok (Write_done sid) sid s" using pr WAIT_WRITE_DONE by (auto simp: proto_ok_def)
          then have "proto_ok (Write_done sid) x s'" if "pb_sessions p x = Some s'" for x s'
            using that Some rest [of x s' "Write_done sid"] by (cases "x = sid") auto
          then show ?thesis
            using Some Event ok WAIT_WRITE_DONE qs sess(1,2) by (auto simp: pub_inv_def)
        next
          case FINISHED
          have "proto_ok Next sid s" using pr FINISHED by (auto simp: proto_ok_def)
          then have "proto_ok Next x s'" if "pb_sessions p x = Some s'" for x s'
            using that Some rest [of x s' Next] by (cases "x = sid") auto
          then show ?thesis
            using Some Event ok FINISHED qs sess(1,2) by (auto simp: pub_inv_def)
        qed (use pr in \<open>simp_all add: proto_ok_def\<close>)
      qed
    qed
  next
    case (Connected sid)
    have "proto_ok Next x s'" if x: "pb_sessions (upd_session sid (\<lambda>s. s\<lparr>ss_state := READY_TO_WRITE\<rparr>) p) x = Some s'" for x s'
    proof (cases "x = sid")
      case True
      then obtain s where s: "pb_sessions p sid = Some s" "s' = s\<lparr>ss_state := READY_TO_WRITE\<rparr>"
        using x by (auto simp: upd_session_at)
      then have "proto_ok (Connected sid) sid s" using sess(3) [OF s(1)] Connected by simp
      then show ?thesis unfolding s(2) True by (auto simp: proto_ok_def)
    next
      case ne: False
      then have "proto_ok r x s'" using x sess(3) by (simp add: upd_session_at)
      then show ?thesis by (rule proto_other) (use ne Connected in simp_all)
    qed
    then show ?thesis
      using Connected qs sess(1,2) by (auto simp: pub_inv_def upd_session_at)
  next
    case (Write_done sid)
    have "proto_ok Next x s'" if x: "pb_sessions (upd_session sid write_done (write_done_illegal sid p)) x = Some s'" for x s'
    proof (cases "x = sid")
      case True
      then obtain s where s: "pb_sessions p sid = Some s" "s' = write_done s"
        using x by (auto simp: upd_session_at)
      then have "proto_ok (Write_done sid) sid s" using sess(3) [OF s(1)] Write_done by simp
      then show ?thesis unfolding s(2) True
        by (cases "ss_queue s") (auto simp: proto_ok_def write_done_def start_write_def)
    next
      case ne: False
      then have "proto_ok r x s'" using x sess(3) by (simp add: upd_session_at)
      then show ?thesis by (rule proto_other) (use ne Write_done in simp_all)
    qed
    moreover have "msgs_ok qs (write_done s)" if "pb_sessions p x = Some s" for x s
      by (rule msgs_write_done [OF sess(2) [OF that]])
    ultimately show ?thesis
      using Write_done qs sess(1,2) by (auto simp: pub_inv_def upd_session_at)
  qed
qed

lemma pub_inv_step:
  assumes "pub_step st st'" and "pub_inv qs st"
  shows "pub_inv qs st'"
  using assms
proof (induction rule: pub_step.induct)
  case (publish p r m)
  then show ?case
    using msgs_offer proto_offer by (fastforce simp: pub_inv_def Pub_Publish_def)
next
  case (connected p sid s ok)
  then have "proto_ok Next sid s" by (simp add: pub_inv_def)
  then have "proto_ok (Event sid ok) sid (s\<lparr>ss_request := False\<rparr>)"
    using connected.hyps by (cases ok) (auto simp: proto_ok_def)
  moreover have "proto_ok (Event sid ok) x s'" if "pb_sessions p x = Some s'" "x \<noteq> sid" for x s'
  proof -
    have "proto_ok Next x s'" using that connected.prems by (simp add: pub_inv_def)
    then show ?thesis by (rule proto_other) (use that in simp_all)
  qed
  ultimately show ?case using connected by (auto simp: pub_inv_def upd_session_at)
next
  case (written p sid s ok)
  then have "proto_ok Next sid s" by (simp add: pub_inv_def)
  then have "proto_ok (Event sid ok) sid (s\<lparr>ss_writing := ss_writing s - 1\<rparr>)"
    using written.hyps by (cases ok; cases "ss_state s") (auto simp: proto_ok_def)
  moreover have "proto_ok (Event sid ok) x s'" if "pb_sessions p x = Some s'" "x \<noteq> sid" for x s'
  proof -
    have "proto_ok Next x s'" using that written.prems by (simp add: pub_inv_def)
    then show ?thesis by (rule proto_other) (use that in simp_all)
  qed
  ultimately show ?case using written by (auto simp: pub_inv_def upd_session_at)
next
  case (handle r p)
  then show ?case using pub_inv_dispatch by blast
next
  case (stop1 p r)
  then show ?case using proto_cancel by (fastforce simp: pub_inv_def stop_sessions_def)
next
  case (stop2 p r)
  then show ?case by (simp add: pub_inv_def stop_shutdown_def)
qed

lemma pub_reach_inv: "pub_reach qs st \<Longrightarrow> pub_inv qs st"
  unfolding pub_reach_def by (induction rule: rtranclp_induct) (auto intro: pub_inv_init pub_inv_step)

section \<open>Properties\<close>



lemma round_trip:
  assumes "pb_sessions p sid = Some s" and "ss_state s = WAIT_WRITE_DONE" and "ss_writing s = 1"
  shows "\<exists>p'. pub_step\<^sup>*\<^sup>* (p, Next) (p', Next) \<and> pb_sessions p' sid = Some (write_done (s\<lparr>ss_writing := 0\<rparr>))"
proof -
  let ?p1 = "upd_session sid (\<lambda>s. s\<lparr>ss_writing := ss_writing s - 1\<rparr>) p"
  have s1: "pb_sessions ?p1 sid = Some (s\<lparr>ss_writing := 0\<rparr>)" using assms by (simp add: upd_session_at)
  have 1: "pub_step (p, Next) (?p1, Event sid True)" by (rule written [OF assms(1)]) (simp add: assms(3))
  have "dispatch (?p1, Event sid True) = (?p1, Write_done sid)" using s1 assms(2) by simp
  with handle [of "Event sid True" ?p1] have 2: "pub_step (?p1, Event sid True) (?p1, Write_done sid)" by simp
  let ?p2 = "upd_session sid write_done (write_done_illegal sid ?p1)"
  have 3: "pub_step (?p1, Write_done sid) (?p2, Next)"
    using handle [of "Write_done sid" ?p1] by simp
  have "pb_sessions ?p2 sid = Some (write_done (s\<lparr>ss_writing := 0\<rparr>))"
    using assms(1,3) by (simp add: upd_session_at)
  moreover have "pub_step\<^sup>*\<^sup>* (p, Next) (?p2, Next)"
    using 1 2 3 by (meson converse_rtranclp_into_rtranclp rtranclp.rtrancl_refl)
  ultimately show ?thesis by blast
qed

lemma drain_session:
  "pb_sessions p sid = Some s \<Longrightarrow> ss_state s = WAIT_WRITE_DONE \<Longrightarrow> ss_writing s = 1 \<Longrightarrow>
     \<exists>p' s'. pub_step\<^sup>*\<^sup>* (p, Next) (p', Next) \<and> pb_sessions p' sid = Some s' \<and> ss_state s' = READY_TO_WRITE \<and>
             ss_queue s' = [] \<and> ss_writing s' = 0 \<and> ss_wire s' = ss_wire s @ ss_queue s"
proof (induction "ss_queue s" arbitrary: p s)
  case Nil
  then show ?case using round_trip [of p sid s] by (auto simp: write_done_def)
next
  case (Cons m ms)
  obtain p1 where p1: "pub_step\<^sup>*\<^sup>* (p, Next) (p1, Next)" "pb_sessions p1 sid = Some (write_done (s\<lparr>ss_writing := 0\<rparr>))"
    using round_trip [OF Cons.prems] by blast
  let ?s = "write_done (s\<lparr>ss_writing := 0\<rparr>)"
  have s: "ms = ss_queue ?s" "ss_state ?s = WAIT_WRITE_DONE" "ss_writing ?s = 1" "ss_wire ?s = ss_wire s @ [m]"
    using Cons.hyps(2) by (simp_all add: write_done_def start_write_def flip: Cons.hyps(2))
  obtain p' s' where "pub_step\<^sup>*\<^sup>* (p1, Next) (p', Next)" "pb_sessions p' sid = Some s'" "ss_state s' = READY_TO_WRITE"
    "ss_queue s' = []" "ss_writing s' = 0" "ss_wire s' = ss_wire ?s @ ss_queue ?s"
    using Cons.hyps(1) [OF s(1) p1(2) s(2,3)] by blast
  then show ?case using p1(1) s(1,4) Cons.hyps(2) by (metis append_Cons append_Nil append_assoc rtranclp_trans)
qed

text \<open>
  A client is never left behind for good: from any state in which the dispatcher waits,
  the completions of the writes alone bring a busy session to the point where everything
  queued has been written and it is ready again.
\<close>

theorem queued_messages_get_written:
  assumes "pub_reach qs (p, Next)" and "pb_sessions p sid = Some s" and "ss_state s = WAIT_WRITE_DONE"
  shows "\<exists>p' s'. pub_step\<^sup>*\<^sup>* (p, Next) (p', Next) \<and> pb_sessions p' sid = Some s' \<and> ss_state s' = READY_TO_WRITE \<and>
             ss_queue s' = [] \<and> ss_wire s' = ss_wire s @ ss_queue s"
proof -
  have "proto_ok Next sid s" using pub_reach_inv [OF assms(1)] assms(2) by (simp add: pub_inv_def)
  then have "ss_writing s = 1" using assms(3) by (auto simp: proto_ok_def)
  then show ?thesis using drain_session [OF assms(2,3)] by blast
qed

subsection \<open>An execution\<close>

text \<open>A client connects, and three messages are published, with room for one in the queue.\<close>

fun follow :: "('m publisher \<times> dispatcher) list \<Rightarrow> bool" where
  "follow (st # st' # sts) \<longleftrightarrow> pub_step st st' \<and> follow (st' # sts)"
| "follow _ \<longleftrightarrow> True"

lemma follow_reach: "follow (st # sts) \<Longrightarrow> pub_step\<^sup>*\<^sup>* st (last (st # sts))"
proof (induction sts arbitrary: st)
  case (Cons st' sts)
  then have "pub_step st st'" "pub_step\<^sup>*\<^sup>* st' (last (st' # sts))" by simp_all
  then show ?case by (simp add: converse_rtranclp_into_rtranclp)
qed simp

definition ex0 :: "nat publisher" where "ex0 = StatePublisherGrpc 1"
definition ex1 :: "nat publisher" where "ex1 = upd_session 1 (\<lambda>s. s\<lparr>ss_request := False\<rparr>) ex0"
definition ex2 :: "nat publisher" where "ex2 = Pub_AddSession ex1"
definition ex3 :: "nat publisher" where "ex3 = upd_session 1 (\<lambda>s. s\<lparr>ss_state := READY_TO_WRITE\<rparr>) ex2"
definition ex4 :: "nat publisher" where "ex4 = Pub_Publish 30 (Pub_Publish 20 (Pub_Publish 10 ex3))"

lemma ex_sessions:
  "pb_sessions ex0 = [1 \<mapsto> new_session]" "pb_sessions ex1 = [1 \<mapsto> new_session\<lparr>ss_request := False\<rparr>]"
  "pb_sessions ex2 = [1 \<mapsto> new_session\<lparr>ss_request := False\<rparr>, 2 \<mapsto> new_session]"
  "pb_sessions ex3 1 = Some (new_session\<lparr>ss_request := False, ss_state := READY_TO_WRITE\<rparr>)"
  by (auto simp: ex0_def ex1_def ex2_def ex3_def StatePublisherGrpc_def Pub_AddSession_def upd_session_def Let_def
      started_def fun_eq_iff)

lemma ex_session: "pb_sessions ex4 1 =
    Some \<lparr>ss_state = WAIT_WRITE_DONE, ss_queue = [30], ss_request = False, ss_writing = 1, ss_wire = [10], ss_offered = [10, 20, 30]\<rparr>"
  using ex_sessions(4)
  by (simp add: ex4_def Pub_Publish_def offer_def session_Publish_def start_write_def new_session_def)
     (simp add: ex3_def ex2_def ex1_def ex0_def StatePublisherGrpc_def Pub_AddSession_def upd_session_def Let_def started_def)

lemma ex_reach: "pub_reach 1 (ex4, Next)"
proof -
  have "pub_step (ex0, Next) (ex1, Event 1 True)"
    unfolding ex1_def by (rule connected [where s = new_session]) (simp_all add: ex_sessions new_session_def)
  moreover have "dispatch (ex1, Event 1 True) = (ex2, Connected 1)"
    by (simp add: ex_sessions ex2_def new_session_def)
  then have "pub_step (ex1, Event 1 True) (ex2, Connected 1)" using handle [of "Event 1 True" ex1] by simp
  moreover have "pub_step (ex2, Connected 1) (ex3, Next)" using handle [of "Connected 1" ex2] by (simp add: ex3_def)
  moreover have "pub_step (ex3, Next) (Pub_Publish 10 ex3, Next)" by (rule publish)
  moreover have "pub_step (Pub_Publish 10 ex3, Next) (Pub_Publish 20 (Pub_Publish 10 ex3), Next)" by (rule publish)
  moreover have "pub_step (Pub_Publish 20 (Pub_Publish 10 ex3), Next) (ex4, Next)" unfolding ex4_def by (rule publish)
  ultimately have "follow [(ex0, Next), (ex1, Event 1 True), (ex2, Connected 1), (ex3, Next), (Pub_Publish 10 ex3, Next),
      (Pub_Publish 20 (Pub_Publish 10 ex3), Next), (ex4, Next)]" by simp
  from follow_reach [OF this] show ?thesis by (simp add: pub_reach_def ex0_def)
qed



theorem queued_messages_get_written_witness:
  "\<exists>p' s'. pub_step\<^sup>*\<^sup>* (ex4, Next) (p', Next) \<and> pb_sessions p' 1 = Some s' \<and> ss_wire s' = [10, 30]"
  using queued_messages_get_written [OF ex_reach ex_session] by auto

subsection \<open>Two defects\<close>

lemma step_keeps_sessions:
  assumes "pub_step st st'" and "pub_inv qs st" and "pb_sessions (fst st) sid \<noteq> None"
  shows "pb_sessions (fst st') sid \<noteq> None"
  using assms
proof (induction rule: pub_step.induct)
  case (handle r p)
  then show ?case
  proof (cases r)
    case (Event x ok)
    then show ?thesis
    proof (cases "ok \<and> (\<exists>s. pb_sessions p x = Some s)")
      case True
      then obtain s where s: "pb_sessions p x = Some s" "ok" by blast
      then have "ss_state s \<noteq> WAIT_FINISH" using handle.prems(1) by (auto simp: pub_inv_def proto_ok_def)
      then show ?thesis using s handle.prems(2) Event
        by (auto simp: Pub_AddSession_def Let_def split: call_state.split)
    next
      case False
      then show ?thesis using handle.prems(2) Event by (cases ok) (auto simp: upd_session_at)
    qed
  qed (auto simp: upd_session_at)
qed (auto simp: Pub_Publish_def upd_session_at stop_sessions_def stop_shutdown_def)

text \<open>
  Sessions are never removed: a session once added, with its queue, stays for the life of
  the publisher, also when its client has long gone; every client that ever connected still
  costs a call of \<open>Publish\<close> a step.
\<close>

theorem sessions_never_removed:
  assumes "pub_reach qs st" and "pub_step\<^sup>*\<^sup>* st st'" and "pb_sessions (fst st) sid \<noteq> None"
  shows "pb_sessions (fst st') sid \<noteq> None"
proof -
  have "pub_reach qs st' \<and> pb_sessions (fst st') sid \<noteq> None"
    using assms(2)
  proof (induction rule: rtranclp_induct)
    case base
    then show ?case using assms(1,3) by simp
  next
    case (step st1 st2)
    then show ?case
      using step_keeps_sessions [OF step.hyps(2) pub_reach_inv]
      by (auto simp: pub_reach_def dest: rtranclp.rtrancl_into_rtrancl)
  qed
  then show ?thesis by blast
qed

theorem sessions_never_removed_witness: "pb_sessions (fst (stop_shutdown (stop_sessions ex4), Next)) 1 \<noteq> None"
proof -
  have "pb_running ex4"
    by (simp add: ex4_def ex3_def ex2_def ex1_def ex0_def Pub_Publish_def upd_session_def Pub_AddSession_def started_def
        StatePublisherGrpc_def Let_def)
  then have "pub_step (ex4, Next) (stop_sessions ex4, Next)" by (rule stop1)
  moreover have "pub_step (stop_sessions ex4, Next) (stop_shutdown (stop_sessions ex4), Next)"
    by (rule stop2) (simp add: stop_sessions_def)
  ultimately have "pub_step\<^sup>*\<^sup>* (ex4, Next) (stop_shutdown (stop_sessions ex4), Next)" by simp
  then show ?thesis by (rule sessions_never_removed [OF ex_reach]) (simp only: fst_conv ex_session, simp)
qed

text \<open>
  \<open>Stop\<close> races with a client that connects: a completion taken off the queue before the
  shutdown makes the dispatcher request the next call on a queue that is shut down, which the
  library forbids.
\<close>

theorem request_after_shutdown:
  "\<exists>p :: nat publisher. \<exists>r. pub_reach 1 (p, r) \<and> pb_shutdown p \<and> pb_illegal p"
proof -
  let ?q = "stop_shutdown (stop_sessions ex1)"
  have run: "pb_running ex1" by (simp add: ex1_def ex0_def upd_session_def StatePublisherGrpc_def)
  have 1: "pub_step (ex0, Next) (ex1, Event 1 True)"
    unfolding ex1_def by (rule connected [where s = new_session]) (simp_all add: ex_sessions new_session_def)
  have 2: "pub_step (ex1, Event 1 True) (stop_sessions ex1, Event 1 True)" using run by (rule stop1)
  have 3: "pub_step (stop_sessions ex1, Event 1 True) (?q, Event 1 True)"
    by (rule stop2) (simp add: stop_sessions_def)
  have "dispatch (?q, Event 1 True) = (Pub_AddSession ?q, Connected 1)"
    by (simp add: stop_shutdown_def stop_sessions_def ex_sessions new_session_def Pub_TryCancelCallAndShutdown_def)
  then have 4: "pub_step (?q, Event 1 True) (Pub_AddSession ?q, Connected 1)" using handle [of "Event 1 True" ?q] by simp
  have "follow [(ex0, Next), (ex1, Event 1 True), (stop_sessions ex1, Event 1 True), (?q, Event 1 True), (Pub_AddSession ?q, Connected 1)]"
    using 1 2 3 4 by simp
  from follow_reach [OF this] have "pub_reach 1 (Pub_AddSession ?q, Connected 1)" by (simp add: pub_reach_def ex0_def)
  moreover have "pb_shutdown (Pub_AddSession ?q)" "pb_illegal (Pub_AddSession ?q)"
    by (simp_all add: Pub_AddSession_def Let_def started_def stop_shutdown_def)
  ultimately show ?thesis by blast
qed

end
