(* ===== verification/StateSub.thy ===== *)
theory StateSub
  imports Prelude "HOL-Library.Sublist"
begin

text \<open>
  \<open>StateSubscriberGrpc\<close>: the client of the state stream. A session starts the call, reads one
  message after another in a thread of its own, hands each to the program's handler, and is
  stopped by cancelling the call, shutting the completion queue down and joining the thread.
  Every handler runs under the session's mutex, so a handler is one step; the library
  completes the operations outstanding in any order.
\<close>

datatype rpc_state =
  WAIT_START | READY_TO_READ | WAIT_READ_DONE | WAIT_FINISH | FINISHED | PEER_DISCONNECTED

text \<open>
  \<open>cl_starting\<close>, \<open>cl_reading\<close>, \<open>cl_finishing\<close>: operations outstanding. \<open>cl_status\<close>: whether
  \<open>_status\<close> is ok. \<open>cl_received\<close> records the messages that reads completed with,
  \<open>cl_handled\<close> those given to the handler, \<open>cl_finishes\<close> how often \<open>Finish\<close> was called and
  \<open>cl_illegal\<close> that an operation was started after the shutdown of the queue.
\<close>

record 'm client =
  cl_state :: rpc_state
  cl_msg :: 'm
  cl_handler :: bool
  cl_running :: bool
  cl_status :: bool
  cl_starting :: bool
  cl_reading :: bool
  cl_finishing :: bool
  cl_shutdown :: bool
  cl_received :: "'m list"
  cl_handled :: "'m list"
  cl_finishes :: nat
  cl_illegal :: bool

text \<open>The constructor and \<open>InitRequest\<close>; the handler has been registered or not.\<close>

definition Sub_InitRequest :: "'m \<Rightarrow> bool \<Rightarrow> 'm client" where
  "Sub_InitRequest m handler =
     \<lparr>cl_state = WAIT_START, cl_msg = m, cl_handler = handler, cl_running = True, cl_status = True, cl_starting = True,
      cl_reading = False, cl_finishing = False, cl_shutdown = False, cl_received = [], cl_handled = [],
      cl_finishes = 0, cl_illegal = False\<rparr>"

definition Sub_RegMessageHandler :: "'m client \<Rightarrow> 'm client" where
  "Sub_RegMessageHandler c = c\<lparr>cl_handler := True\<rparr>"

definition Sub_IsRunning :: "'m client \<Rightarrow> bool" where
  "Sub_IsRunning c = cl_running c"

definition start_read :: "'m client \<Rightarrow> 'm client" where
  "start_read c = c\<lparr>cl_reading := True, cl_illegal := cl_illegal c \<or> cl_shutdown c\<rparr>"

definition Sub_OnCompletionEvent :: "'m client \<Rightarrow> bool \<times> 'm client" where
  "Sub_OnCompletionEvent c =
     (if cl_state c = WAIT_START then
        (if \<not> cl_status c then (False, c)
         else (True, (start_read c)\<lparr>cl_state := WAIT_READ_DONE\<rparr>))
      else if cl_state c = WAIT_READ_DONE then
        (if \<not> cl_status c then (False, c)
         else
           let c = (if cl_handler c then c\<lparr>cl_handled := cl_handled c @ [cl_msg c]\<rparr> else c)
           in (True, (start_read c)\<lparr>cl_state := WAIT_READ_DONE\<rparr>))
      else if cl_state c = WAIT_FINISH then (False, c\<lparr>cl_state := FINISHED\<rparr>)
      else (False, c))"

definition Sub_TryCancelCallAndShutdown :: "'m client \<Rightarrow> 'm client" where
  "Sub_TryCancelCallAndShutdown c =
     (if cl_state c \<noteq> WAIT_START \<and> cl_state c \<noteq> WAIT_FINISH \<and> cl_state c \<noteq> FINISHED
      then c\<lparr>cl_state := WAIT_FINISH, cl_finishing := True, cl_finishes := cl_finishes c + 1,
             cl_illegal := cl_illegal c \<or> cl_shutdown c\<rparr>
      else c)"

text \<open>
  The thread that takes completions off the queue. After the first completion that is not
  handled it cancels and ends. \<open>Stop\<close>, in the destructor and in \<open>Reconnect\<close>, cancels, shuts
  the queue down and waits for the thread; then the session is freed.
\<close>

datatype receiver = Polling | Got bool | Cancelling | Exited

datatype stopper = Running | Stop_cancelled | Stop_shutdown | Freed

inductive sub_step :: "'m client \<times> receiver \<times> stopper \<Rightarrow> 'm client \<times> receiver \<times> stopper \<Rightarrow> bool" where
  start_done: "cl_starting c \<Longrightarrow> sub_step (c, Polling, d) (c\<lparr>cl_starting := False\<rparr>, Got ok, d)"
| read_done: "cl_reading c \<Longrightarrow>
    sub_step (c, Polling, d) (c\<lparr>cl_reading := False, cl_msg := m, cl_received := cl_received c @ [m]\<rparr>, Got True, d)"
| read_failed: "cl_reading c \<Longrightarrow> sub_step (c, Polling, d) (c\<lparr>cl_reading := False\<rparr>, Got False, d)"
| finish_done: "cl_finishing c \<Longrightarrow> sub_step (c, Polling, d) (c\<lparr>cl_finishing := False, cl_status := st\<rparr>, Got True, d)"
| handled: "Sub_OnCompletionEvent c = (True, c') \<Longrightarrow> sub_step (c, Got True, d) (c', Polling, d)"
| refused: "Sub_OnCompletionEvent c = (False, c') \<Longrightarrow> sub_step (c, Got True, d) (c', Cancelling, d)"
| failed: "sub_step (c, Got False, d) (c, Cancelling, d)"
| cancel: "sub_step (c, Cancelling, d) ((Sub_TryCancelCallAndShutdown c)\<lparr>cl_running := False\<rparr>, Exited, d)"
| drained: "cl_shutdown c \<Longrightarrow> \<not> cl_starting c \<Longrightarrow> \<not> cl_reading c \<Longrightarrow> \<not> cl_finishing c \<Longrightarrow>
    sub_step (c, Polling, d) (c\<lparr>cl_running := False\<rparr>, Exited, d)"
| stop1: "sub_step (c, r, Running) (Sub_TryCancelCallAndShutdown c, r, Stop_cancelled)"
| stop2: "sub_step (c, r, Stop_cancelled) (c\<lparr>cl_shutdown := True\<rparr>, r, Stop_shutdown)"
| join: "sub_step (c, Exited, Stop_shutdown) (c, Exited, Freed)"

text \<open>\<open>Stop\<close> alone, with the thread ending as the queue runs empty, and \<open>Reconnect\<close>.\<close>

definition Sub_Stop :: "'m client \<Rightarrow> 'm client" where
  "Sub_Stop c = (Sub_TryCancelCallAndShutdown c)\<lparr>cl_shutdown := True\<rparr>"

definition Sub_Reconnect :: "'m \<Rightarrow> 'm client \<Rightarrow> 'm client" where
  "Sub_Reconnect m c = Sub_InitRequest m (cl_handler c)"

definition sub_reach :: "'m \<Rightarrow> bool \<Rightarrow> 'm client \<times> receiver \<times> stopper \<Rightarrow> bool" where
  "sub_reach m handler st \<longleftrightarrow> sub_step\<^sup>*\<^sup>* (Sub_InitRequest m handler, Polling, Running) st"

section \<open>The invariant\<close>

definition sub_inv :: "'m client \<times> receiver \<times> stopper \<Rightarrow> bool" where
  "sub_inv st \<longleftrightarrow>
     (case st of (c, r, d) \<Rightarrow>
        (cl_state c = WAIT_START \<longrightarrow> \<not> cl_reading c \<and> \<not> cl_finishing c \<and> cl_received c = [] \<and> cl_handled c = [] \<and> cl_finishes c = 0) \<and>
        (cl_starting c \<longrightarrow> cl_state c = WAIT_START \<and> r = Polling) \<and>
        (cl_state c = WAIT_READ_DONE \<longrightarrow> cl_finishes c = 0 \<and> \<not> cl_finishing c \<and> cl_status c) \<and>
        (cl_state c \<in> {WAIT_START, WAIT_READ_DONE, WAIT_FINISH, FINISHED}) \<and>
        cl_finishes c \<le> 1 \<and>
        (cl_finishing c \<longrightarrow> cl_state c \<in> {WAIT_FINISH, FINISHED}) \<and>
        (cl_state c = WAIT_START \<longrightarrow> cl_status c) \<and>
        (if cl_handler c then
           prefix (cl_handled c) (cl_received c) \<and> length (cl_received c) \<le> length (cl_handled c) + 1 \<and>
           (cl_state c = WAIT_READ_DONE \<longrightarrow>
              (if r = Got True then cl_received c = cl_handled c @ [cl_msg c] else cl_received c = cl_handled c)) \<and>
           (cl_reading c \<longrightarrow> cl_received c = cl_handled c)
         else cl_handled c = []) \<and>
        (r = Got True \<longrightarrow> \<not> cl_reading c \<or> cl_state c \<in> {WAIT_FINISH, FINISHED}))"

lemma sub_init: "sub_inv (Sub_InitRequest m handler, Polling, Running)"
  by (simp add: sub_inv_def Sub_InitRequest_def)

lemma sub_cancel:
  assumes "sub_inv (c, r, d)" and "r' = r \<or> (r = Cancelling \<and> r' = Exited)"
  shows "sub_inv ((Sub_TryCancelCallAndShutdown c)\<lparr>cl_running := b\<rparr>, r', d')"
  using assms
  by (cases "cl_state c"; cases "cl_handler c"; cases "r' = r")
     (simp_all add: sub_inv_def Sub_TryCancelCallAndShutdown_def)

lemma sub_event:
  assumes "sub_inv (c, Got True, d)" and "Sub_OnCompletionEvent c = (ok, c')"
  shows "sub_inv (c', if ok then Polling else Cancelling, d)"
  using assms(1) assms(2) [symmetric]
  by (cases "cl_state c"; cases "cl_handler c"; cases "cl_status c")
     (simp_all add: sub_inv_def Sub_OnCompletionEvent_def start_read_def Let_def)

lemma sub_inv_step:
  assumes "sub_step st st'" and "sub_inv st"
  shows "sub_inv st'"
  using assms
proof (induction rule: sub_step.induct)
  case (start_done c d ok)
  then show ?case
    by (cases "cl_state c"; cases "cl_handler c") (simp_all add: sub_inv_def)
next
  case (read_done c d m)
  then show ?case
    by (cases "cl_state c"; cases "cl_handler c") (simp_all add: sub_inv_def)
next
  case (read_failed c d)
  then show ?case
    by (cases "cl_state c"; cases "cl_handler c") (simp_all add: sub_inv_def)
next
  case (finish_done c d st)
  then show ?case
    by (cases "cl_state c"; cases "cl_handler c") (simp_all add: sub_inv_def)
next
  case (handled c c' d)
  then show ?case using sub_event by fastforce
next
  case (refused c c' d)
  then show ?case using sub_event by fastforce
next
  case (failed c d)
  then show ?case
    by (cases "cl_state c"; cases "cl_handler c") (simp_all add: sub_inv_def)
next
  case (cancel c d)
  then show ?case using sub_cancel by blast
next
  case (drained c d)
  then show ?case
    by (cases "cl_state c"; cases "cl_handler c") (simp_all add: sub_inv_def)
next
  case (stop1 c r)
  then show ?case
    by (cases "cl_state c"; cases "cl_handler c") (simp_all add: sub_inv_def Sub_TryCancelCallAndShutdown_def)
next
  case (stop2 c r)
  then show ?case
    by (cases "cl_state c"; cases "cl_handler c") (simp_all add: sub_inv_def)
next
  case (join c)
  then show ?case by (cases "cl_handler c") (simp_all add: sub_inv_def)
qed

lemma sub_reach_inv: "sub_reach m handler st \<Longrightarrow> sub_inv st"
  unfolding sub_reach_def by (induction rule: rtranclp_induct) (auto intro: sub_init sub_inv_step)

section \<open>Properties\<close>


text \<open>A session that has received a message, and is then stopped.\<close>

definition sub1 :: "nat client" where "sub1 = (Sub_InitRequest 0 True)\<lparr>cl_starting := False\<rparr>"
definition sub2 :: "nat client" where "sub2 = (start_read sub1)\<lparr>cl_state := WAIT_READ_DONE\<rparr>"
definition sub3 :: "nat client" where "sub3 = sub2\<lparr>cl_reading := False, cl_msg := 5, cl_received := [5]\<rparr>"
definition sub4 :: "nat client" where "sub4 = (start_read (sub3\<lparr>cl_handled := [5]\<rparr>))\<lparr>cl_state := WAIT_READ_DONE\<rparr>"

lemmas sub_defs = sub1_def sub2_def sub3_def sub4_def Sub_InitRequest_def start_read_def Sub_OnCompletionEvent_def

lemma sub_run: "sub_reach 0 True (sub4, Polling, Running)"
proof -
  have 1: "sub_step (Sub_InitRequest 0 True, Polling, Running) (sub1, Got True, Running)"
    unfolding sub1_def by (rule start_done) (simp add: Sub_InitRequest_def)
  have 2: "sub_step (sub1, Got True, Running) (sub2, Polling, Running)"
    by (rule handled) (simp add: sub_defs)
  have 3: "sub_step (sub2, Polling, Running) (sub3, Got True, Running)"
    using read_done [of sub2 Running 5] by (simp add: sub_defs)
  have 4: "sub_step (sub3, Got True, Running) (sub4, Polling, Running)"
    by (rule handled) (simp add: sub_defs)
  show ?thesis unfolding sub_reach_def using 1 2 3 4 by (meson converse_rtranclp_into_rtranclp rtranclp.rtrancl_refl)
qed


text \<open>
  The session is freed too early: \<open>Stop\<close> calls \<open>Finish\<close>, whose completion has yet to come
  with the session as its tag and its status as the result, but the thread ends with the
  first completion that fails, and the session is freed with \<open>Finish\<close> outstanding.
\<close>

theorem session_freed_with_finish_outstanding:
  "\<exists>c :: nat client. sub_reach 0 True (c, Exited, Freed) \<and> cl_finishing c"
proof -
  let ?c1 = "Sub_TryCancelCallAndShutdown sub4"
  let ?c2 = "?c1\<lparr>cl_shutdown := True\<rparr>"
  let ?c3 = "?c2\<lparr>cl_reading := False\<rparr>"
  let ?c4 = "(Sub_TryCancelCallAndShutdown ?c3)\<lparr>cl_running := False\<rparr>"
  have 1: "sub_step (sub4, Polling, Running) (?c1, Polling, Stop_cancelled)" by (rule stop1)
  have 2: "sub_step (?c1, Polling, Stop_cancelled) (?c2, Polling, Stop_shutdown)" by (rule stop2)
  have 3: "sub_step (?c2, Polling, Stop_shutdown) (?c3, Got False, Stop_shutdown)"
    by (rule read_failed) (simp add: sub_defs Sub_TryCancelCallAndShutdown_def)
  have 4: "sub_step (?c3, Got False, Stop_shutdown) (?c3, Cancelling, Stop_shutdown)" by (rule failed)
  have 5: "sub_step (?c3, Cancelling, Stop_shutdown) (?c4, Exited, Stop_shutdown)" by (rule cancel)
  have 6: "sub_step (?c4, Exited, Stop_shutdown) (?c4, Exited, Freed)" by (rule join)
  have "sub_step\<^sup>*\<^sup>* (sub4, Polling, Running) (?c4, Exited, Freed)"
    using 1 2 3 4 5 6 by (meson converse_rtranclp_into_rtranclp rtranclp.rtrancl_refl)
  then have "sub_reach 0 True (?c4, Exited, Freed)"
    using sub_run unfolding sub_reach_def by (rule rtranclp_trans [rotated])
  moreover have "cl_finishing ?c4" by (simp add: sub_defs Sub_TryCancelCallAndShutdown_def)
  ultimately show ?thesis by blast
qed

text \<open>
  A stopped subscriber may start a read on a queue that is shut down, which the library
  forbids: when the start of the call completes just before \<open>Stop\<close>, cancelling leaves the
  state as it is and the handler goes on to read.
\<close>

theorem read_after_shutdown:
  "\<exists>c :: nat client. \<exists>r d. sub_reach 0 True (c, r, d) \<and> cl_shutdown c \<and> cl_illegal c"
proof -
  let ?c1 = "Sub_TryCancelCallAndShutdown sub1"
  let ?c2 = "?c1\<lparr>cl_shutdown := True\<rparr>"
  let ?c3 = "(start_read ?c2)\<lparr>cl_state := WAIT_READ_DONE\<rparr>"
  have 1: "sub_step (Sub_InitRequest 0 True, Polling, Running) (sub1, Got True, Running)"
    unfolding sub1_def by (rule start_done) (simp add: Sub_InitRequest_def)
  have 2: "sub_step (sub1, Got True, Running) (?c1, Got True, Stop_cancelled)" by (rule stop1)
  have 3: "sub_step (?c1, Got True, Stop_cancelled) (?c2, Got True, Stop_shutdown)" by (rule stop2)
  have 4: "sub_step (?c2, Got True, Stop_shutdown) (?c3, Polling, Stop_shutdown)"
    by (rule handled) (simp add: sub_defs Sub_TryCancelCallAndShutdown_def)
  have "sub_reach 0 True (?c3, Polling, Stop_shutdown)"
    unfolding sub_reach_def using 1 2 3 4 by (meson converse_rtranclp_into_rtranclp rtranclp.rtrancl_refl)
  moreover have "cl_shutdown ?c3" "cl_illegal ?c3" by (simp_all add: sub_defs Sub_TryCancelCallAndShutdown_def)
  ultimately show ?thesis by blast
qed

end
