(* ===== verification/StatePipe.thy ===== *)
theory StatePipe
  imports StatePubProps StateSub
begin

text \<open>
  A publisher and one of its subscribers together: \<open>StatePub\<close> and \<open>StateSub\<close> joined by the
  stream of the session \<open>sid\<close>. What gRPC documents of a stream is the one new rule: a read
  completes with the first message written to the stream that has not been read, so messages
  arrive in order, once and unchanged. Both sides run all their threads; other sessions go on.
\<close>

type_synonym 'm pipe = "('m publisher \<times> dispatcher) \<times> ('m client \<times> receiver \<times> stopper)"

inductive pipe_step :: "nat \<Rightarrow> 'm pipe \<Rightarrow> 'm pipe \<Rightarrow> bool" for sid where
  server: "pub_step P P' \<Longrightarrow> pipe_step sid (P, C) (P', C)"
| client: "sub_step C C' \<Longrightarrow> cl_received (fst C') = cl_received (fst C) \<Longrightarrow> pipe_step sid (P, C) (P, C')"
| carry: "pb_sessions p sid = Some s \<Longrightarrow> length (cl_received c) < length (ss_wire s) \<Longrightarrow> cl_reading c \<Longrightarrow>
    m = ss_wire s ! length (cl_received c) \<Longrightarrow>
    pipe_step sid ((p, r), (c, Polling, d))
      ((p, r), (c\<lparr>cl_reading := False, cl_msg := m, cl_received := cl_received c @ [m]\<rparr>, Got True, d))"

definition pipe_reach :: "int \<Rightarrow> nat \<Rightarrow> 'm \<Rightarrow> bool \<Rightarrow> 'm pipe \<Rightarrow> bool" where
  "pipe_reach queue_size sid m handler st \<longleftrightarrow>
     (pipe_step sid)\<^sup>*\<^sup>* ((StatePublisherGrpc queue_size, Next), (Sub_InitRequest m handler, Polling, Running)) st"

section \<open>Safety\<close>

lemma wire_offer: "prefix (ss_wire s) (ss_wire (offer qs m s))"
  by (simp add: offer_def session_Publish_def start_write_def Let_def)

lemma wire_write_done: "prefix (ss_wire s) (ss_wire (write_done s))"
  by (cases "ss_queue s") (simp_all add: write_done_def start_write_def)

lemma wire_cancel: "ss_wire (Pub_TryCancelCallAndShutdown s) = ss_wire s"
  by (simp add: Pub_TryCancelCallAndShutdown_def)

lemma wire_dispatch:
  assumes "pub_inv qs (p, r)" and "pb_sessions p sid = Some s"
  shows "\<exists>s'. pb_sessions (fst (dispatch (p, r))) sid = Some s' \<and> prefix (ss_wire s) (ss_wire s')"
proof -
  have i: "sid \<le> pb_next p" "ss_state s \<noteq> call_state.WAIT_FINISH"
    using assms by (auto simp: pub_inv_def proto_ok_def)
  show ?thesis
  proof (cases "(p, r)" rule: dispatch.cases)
    case (3 p' x)
    show ?thesis
    proof (cases "pb_sessions p x")
      case None
      then show ?thesis using 3 assms(2) by simp
    next
      case (Some t)
      have "x = sid \<longrightarrow> ss_state t \<noteq> call_state.WAIT_FINISH" using Some assms(2) i(2) by auto
      then show ?thesis
        using 3 Some assms(2) i(1) by (cases "ss_state t") (auto simp: Pub_AddSession_def Pub_RemoveSession_def Let_def)
    qed
  qed (use assms(2) in \<open>auto simp: upd_session_at wire_cancel wire_write_done\<close>)
qed

lemma wire_step:
  assumes "pub_step (p, r) (p', r')" and "pub_inv qs (p, r)" and "pb_sessions p sid = Some s"
  shows "\<exists>s'. pb_sessions p' sid = Some s' \<and> prefix (ss_wire s) (ss_wire s')"
  using assms(1)
proof (cases rule: pub_step.cases)
  case (publish m)
  then show ?thesis using assms(3) wire_offer by (simp add: Pub_Publish_def)
next
  case handle
  then show ?thesis using wire_dispatch [OF assms(2,3)] by (metis fst_conv)
qed (use assms(3) in \<open>auto simp: upd_session_at stop_sessions_def stop_shutdown_def wire_cancel\<close>)

definition pipe_inv :: "int \<Rightarrow> nat \<Rightarrow> 'm pipe \<Rightarrow> bool" where
  "pipe_inv qs sid st \<longleftrightarrow>
     pub_inv qs (fst st) \<and> sub_inv (snd st) \<and>
     (case pb_sessions (fst (fst st)) sid of
        None \<Rightarrow> cl_received (fst (snd st)) = []
      | Some s \<Rightarrow> prefix (cl_received (fst (snd st))) (ss_wire s))"

lemma pipe_inv_step:
  assumes "pipe_step sid st st'" and "pipe_inv qs sid st"
  shows "pipe_inv qs sid st'"
  using assms
proof (induction rule: pipe_step.induct)
  case (server P P' C)
  obtain p r p' r' where P: "P = (p, r)" "P' = (p', r')" by (cases P; cases P')
  have i: "pub_inv qs (p, r)" using server.prems by (simp add: pipe_inv_def P)
  then have "pub_inv qs (p', r')" using pub_inv_step server.hyps P by blast
  moreover have "case pb_sessions p' sid of None \<Rightarrow> cl_received (fst C) = [] | Some s \<Rightarrow> prefix (cl_received (fst C)) (ss_wire s)"
  proof (cases "pb_sessions p sid")
    case None
    then show ?thesis using server.prems by (simp add: pipe_inv_def P split: option.split)
  next
    case (Some s)
    then obtain s' where "pb_sessions p' sid = Some s'" "prefix (ss_wire s) (ss_wire s')"
      using wire_step [OF _ i Some] server.hyps P by blast
    then show ?thesis using server.prems Some by (auto simp: pipe_inv_def P intro: prefix_order.trans)
  qed
  ultimately show ?case using server.prems by (cases "pb_sessions p' sid") (auto simp: pipe_inv_def P)
next
  case (client C C' P)
  then show ?case
    using sub_inv_step [OF client.hyps(1)] by (cases "pb_sessions (fst P) sid") (auto simp: pipe_inv_def)
next
  case (carry p s c m r d)
  have "sub_step (c, Polling, d) (c\<lparr>cl_reading := False, cl_msg := m, cl_received := cl_received c @ [m]\<rparr>, Got True, d)"
    by (rule read_done [OF carry.hyps(3)])
  then have "sub_inv (c\<lparr>cl_reading := False, cl_msg := m, cl_received := cl_received c @ [m]\<rparr>, Got True, d)"
    using sub_inv_step carry.prems by (auto simp: pipe_inv_def)
  moreover have "prefix (cl_received c @ [m]) (ss_wire s)"
  proof -
    have "prefix (cl_received c) (ss_wire s)" using carry.prems carry.hyps(1) by (simp add: pipe_inv_def)
    then obtain t where t: "ss_wire s = cl_received c @ t" by (auto simp: prefix_def)
    then have "m = hd t" "t \<noteq> []" using carry.hyps(2,4) by (auto simp: nth_append hd_conv_nth)
    then show ?thesis using t by (cases t) auto
  qed
  ultimately show ?case using carry.prems carry.hyps(1) by (simp add: pipe_inv_def)
qed

lemma pipe_reach_inv: "pipe_reach qs sid m handler st \<Longrightarrow> pipe_inv qs sid st"
  unfolding pipe_reach_def
proof (induction rule: rtranclp_induct)
  case base
  show ?case using pub_inv_init [of qs] sub_init [of m handler]
    by (auto simp: pipe_inv_def Sub_InitRequest_def split: option.split)
qed (rule pipe_inv_step)


section \<open>Progress\<close>

lemma lift_server: "pub_step\<^sup>*\<^sup>* P P' \<Longrightarrow> (pipe_step sid)\<^sup>*\<^sup>* (P, C) (P', C)"
  by (induction rule: rtranclp_induct) (auto intro: server rtranclp.rtrancl_into_rtrancl)

text \<open>The subscriber reads what is on the stream and handles it, one message after another.\<close>

definition reading_on :: "'m client \<Rightarrow> bool" where
  "reading_on c \<longleftrightarrow> cl_state c = WAIT_READ_DONE \<and> cl_status c \<and> cl_reading c \<and> cl_handler c \<and> cl_handled c = cl_received c"

lemma client_round:
  assumes "reading_on c" and "pb_sessions p sid = Some s" and "ss_wire s = cl_received c @ m # ms"
  obtains c' where "(pipe_step sid)\<^sup>*\<^sup>* ((p, r), (c, Polling, d)) ((p, r), (c', Polling, d))" and "reading_on c'"
    and "cl_received c' = cl_received c @ [m]"
proof -
  let ?c1 = "c\<lparr>cl_reading := False, cl_msg := m, cl_received := cl_received c @ [m]\<rparr>"
  let ?c2 = "(start_read (?c1\<lparr>cl_handled := cl_handled c @ [m]\<rparr>))\<lparr>cl_state := WAIT_READ_DONE\<rparr>"
  have 1: "pipe_step sid ((p, r), (c, Polling, d)) ((p, r), (?c1, Got True, d))"
    using assms by (intro carry [of p sid s]) (simp_all add: reading_on_def)
  have "Sub_OnCompletionEvent ?c1 = (True, ?c2)"
    using assms(1) by (simp add: Sub_OnCompletionEvent_def reading_on_def Let_def)
  from sub_step.handled [OF this] have 2: "pipe_step sid ((p, r), (?c1, Got True, d)) ((p, r), (?c2, Polling, d))"
    by (rule pipe_step.client) (simp add: start_read_def)
  show thesis
    by (rule that [of ?c2]) (use 1 2 assms(1) in \<open>auto simp: reading_on_def start_read_def intro: converse_rtranclp_into_rtranclp\<close>)
qed

lemma client_catches_up:
  "reading_on c \<Longrightarrow> pb_sessions p sid = Some s \<Longrightarrow> ss_wire s = cl_received c @ ms \<Longrightarrow>
     \<exists>c'. (pipe_step sid)\<^sup>*\<^sup>* ((p, r), (c, Polling, d)) ((p, r), (c', Polling, d)) \<and> reading_on c' \<and> cl_received c' = ss_wire s"
proof (induction ms arbitrary: c)
  case Nil
  then show ?case by auto
next
  case (Cons m ms)
  obtain c1 where c1: "(pipe_step sid)\<^sup>*\<^sup>* ((p, r), (c, Polling, d)) ((p, r), (c1, Polling, d))" "reading_on c1"
      "cl_received c1 = cl_received c @ [m]"
    by (rule client_round [OF Cons.prems(1,2,3)])
  have "ss_wire s = cl_received c1 @ ms" using Cons.prems(3) c1(3) by simp
  from Cons.IH [OF c1(2) Cons.prems(2) this] show ?case using c1(1) by (meson rtranclp_trans)
qed


text \<open>The client of \<open>sub_run\<close> on the first session of the publisher of \<open>ex_reach\<close>.\<close>

lemma ex_pipe: "pipe_reach 1 1 0 True ((ex4, Next), (sub2, Polling, Running))"
proof -
  let ?Q = "(StatePublisherGrpc 1, Next)" and ?P = "(ex4, Next)"
  have 1: "(pipe_step 1)\<^sup>*\<^sup>* (?Q, (Sub_InitRequest 0 True, Polling, Running)) (?P, (Sub_InitRequest 0 True, Polling, Running))"
    using lift_server ex_reach by (simp add: pub_reach_def)
  have 2: "pipe_step 1 (?P, (Sub_InitRequest 0 True, Polling, Running)) (?P, (sub1, Got True, Running))"
    by (rule pipe_step.client) (unfold sub1_def, rule start_done, simp_all add: Sub_InitRequest_def)
  have 3: "pipe_step 1 (?P, (sub1, Got True, Running)) (?P, (sub2, Polling, Running))"
    by (rule pipe_step.client, rule sub_step.handled) (simp_all add: sub_defs)
  show ?thesis unfolding pipe_reach_def using 1 2 3 by (meson rtranclp.rtrancl_into_rtrancl)
qed



end
