(* ===== verification/ServiceRpc.thy ===== *)
theory ServiceRpc
  imports Prelude
begin

text \<open>
  \<open>ServiceListenerGrpc\<close> and \<open>ServiceCallerGrpc\<close>: the dispatchers of remote calls, on the
  server's and on the client's side. Both keep a table of the calls in progress; the program
  supplies what a call is and how it handles a completion, by overriding
  \<open>OnCompletionEvent\<close>, which is therefore a parameter. A handler that returns false has its
  call removed from the table and freed.
\<close>

section \<open>Calls\<close>

datatype service_state =
    S_WAIT_CONNECT | S_WAIT_RESPONSE | S_READY_TO_READ | S_WAIT_READ_DONE | S_READY_TO_WRITE | S_WAIT_WRITE_DONE
  | S_WAIT_FINISH | S_FINISHED | S_PEER_DISCONNECTED

record 'u rpc_call =
  rc_state :: service_state
  rc_cancelled :: bool
  rc_user :: 'u

type_synonym 'u handler = "bool \<Rightarrow> 'u rpc_call \<Rightarrow> bool \<times> 'u rpc_call"

text \<open>The constructors of the base classes; what the subclass adds is \<open>u\<close>.\<close>

definition new_call :: "'u \<Rightarrow> 'u rpc_call" where
  "new_call u = \<lparr>rc_state = S_WAIT_CONNECT, rc_cancelled = False, rc_user = u\<rparr>"

definition Session_TryCancel :: "'u rpc_call \<Rightarrow> 'u rpc_call" where
  "Session_TryCancel s =
     (if rc_state s \<noteq> S_WAIT_CONNECT \<and> rc_state s \<noteq> S_WAIT_FINISH \<and> rc_state s \<noteq> S_FINISHED
      then s\<lparr>rc_cancelled := True, rc_state := S_FINISHED\<rparr> else s)"

definition Call_TryCancel :: "'u rpc_call \<Rightarrow> 'u rpc_call" where
  "Call_TryCancel s = s\<lparr>rc_cancelled := True\<rparr>"

section \<open>The table\<close>

text \<open>
  \<open>rs_calls\<close> is the table, \<open>rs_fresh\<close> the calls that have been constructed, and may receive
  completions, but are not in the table yet; a call lives as long as it is in one of them.
\<close>

record 'u rpc_service =
  rs_calls :: "nat \<Rightarrow> 'u rpc_call option"
  rs_fresh :: "nat \<Rightarrow> 'u rpc_call option"
  rs_next :: nat
  rs_running :: bool
  rs_shutdown :: bool

definition rpc_new :: "'u rpc_service" where
  "rpc_new = \<lparr>rs_calls = (\<lambda>_. None), rs_fresh = (\<lambda>_. None), rs_next = 0, rs_running = True, rs_shutdown = False\<rparr>"

text \<open>\<open>make_shared\<close> and the insertion, the two parts of \<open>StartCall\<close> and of \<open>AddSession\<close>.\<close>

definition construct :: "'u \<Rightarrow> 'u rpc_service \<Rightarrow> nat \<times> 'u rpc_service" where
  "construct u s =
     (let cid = rs_next s + 1 in (cid, s\<lparr>rs_next := cid, rs_fresh := (rs_fresh s)(cid := Some (new_call u))\<rparr>))"

definition insert_call :: "nat \<Rightarrow> 'u rpc_service \<Rightarrow> 'u rpc_service" where
  "insert_call cid s =
     s\<lparr>rs_calls := (rs_calls s)(cid := rs_fresh s cid), rs_fresh := (rs_fresh s)(cid := None)\<rparr>"

definition StartCall :: "'u \<Rightarrow> 'u rpc_service \<Rightarrow> nat \<times> 'u rpc_service" where
  "StartCall u s = (case construct u s of (cid, s) \<Rightarrow> (cid, insert_call cid s))"

definition Listener_AddSession :: "'u \<Rightarrow> 'u rpc_service \<Rightarrow> nat \<times> 'u rpc_service" where
  "Listener_AddSession u s = (case construct u s of (cid, s) \<Rightarrow> (cid, insert_call cid s))"

definition RemoveCall :: "nat \<Rightarrow> 'u rpc_service \<Rightarrow> 'u rpc_service" where
  "RemoveCall cid s = s\<lparr>rs_calls := (rs_calls s)(cid := None)\<rparr>"

definition Listener_RemoveSession :: "nat \<Rightarrow> 'u rpc_service \<Rightarrow> 'u rpc_service" where
  "Listener_RemoveSession cid s = s\<lparr>rs_calls := (rs_calls s)(cid := None)\<rparr>"

definition GetCall :: "nat \<Rightarrow> 'u rpc_service \<Rightarrow> 'u rpc_call option" where
  "GetCall cid s = rs_calls s cid"

definition Listener_GetSession :: "nat \<Rightarrow> 'u rpc_service \<Rightarrow> 'u rpc_call option" where
  "Listener_GetSession cid s = rs_calls s cid"

text \<open>The object a tag points to, and its update, wherever it is.\<close>

definition live_call :: "nat \<Rightarrow> 'u rpc_service \<Rightarrow> 'u rpc_call option" where
  "live_call cid s = (case rs_calls s cid of Some c \<Rightarrow> Some c | None \<Rightarrow> rs_fresh s cid)"

definition put_call :: "nat \<Rightarrow> 'u rpc_call \<Rightarrow> 'u rpc_service \<Rightarrow> 'u rpc_service" where
  "put_call cid c s =
     (case rs_calls s cid of
        Some _ \<Rightarrow> s\<lparr>rs_calls := (rs_calls s)(cid := Some c)\<rparr>
      | None \<Rightarrow> s\<lparr>rs_fresh := (rs_fresh s)(cid := Some c)\<rparr>)"

text \<open>
  One turn of the dispatchers for the completion \<open>(tag, ok)\<close>; \<open>None\<close> when the tag points to a
  call that has been freed.
\<close>

definition Caller_dispatch :: "'u handler \<Rightarrow> nat option \<Rightarrow> bool \<Rightarrow> 'u rpc_service \<Rightarrow> 'u rpc_service option" where
  "Caller_dispatch handle tag ok s =
     (case tag of
        None \<Rightarrow> Some s
      | Some cid \<Rightarrow>
          (case live_call cid s of
             None \<Rightarrow> None
           | Some c \<Rightarrow>
               (case handle ok c of (handled, c) \<Rightarrow>
                  let s = put_call cid c s in
                  if \<not> handled then Some (RemoveCall cid s) else Some s)))"

definition Listener_dispatch :: "'u handler \<Rightarrow> nat option \<Rightarrow> bool \<Rightarrow> 'u rpc_service \<Rightarrow> 'u rpc_service option" where
  "Listener_dispatch handle tag ok s =
     (case tag of
        None \<Rightarrow> Some s
      | Some cid \<Rightarrow>
          (case live_call cid s of
             None \<Rightarrow> None
           | Some c \<Rightarrow>
               (case handle ok c of (handled, c) \<Rightarrow>
                  let s = put_call cid c s in
                  if \<not> handled then Some (Listener_RemoveSession cid (put_call cid (Session_TryCancel c) s)) else Some s)))"

text \<open>The loops, over the completions the queue returns until it is shut down and empty.\<close>

fun rpc_loop :: "(nat option \<Rightarrow> bool \<Rightarrow> 's \<Rightarrow> 's option) \<Rightarrow> (nat option \<times> bool) list \<Rightarrow> 's \<Rightarrow> 's option" where
  "rpc_loop dispatch [] s = Some s"
| "rpc_loop dispatch ((tag, ok) # evs) s =
     (case dispatch tag ok s of None \<Rightarrow> None | Some s' \<Rightarrow> rpc_loop dispatch evs s')"

text \<open>
  \<open>Stop\<close>: cancel every call in the table, shut the queue down, and join the dispatcher, which
  handles the completions \<open>evs\<close> still to come; the loop behind the join finds none.
\<close>

definition Caller_Stop :: "'u handler \<Rightarrow> (nat option \<times> bool) list \<Rightarrow> 'u rpc_service \<Rightarrow> 'u rpc_service option" where
  "Caller_Stop handle evs s =
     (let s = s\<lparr>rs_calls := (\<lambda>cid. map_option Call_TryCancel (rs_calls s cid)), rs_shutdown := True\<rparr>
      in map_option (\<lambda>s. s\<lparr>rs_running := False\<rparr>) (rpc_loop (Caller_dispatch handle) evs s))"

definition Listener_Stop :: "'u handler \<Rightarrow> (nat option \<times> bool) list \<Rightarrow> 'u rpc_service \<Rightarrow> 'u rpc_service option" where
  "Listener_Stop handle evs s =
     (let s = s\<lparr>rs_calls := (\<lambda>cid. map_option Session_TryCancel (rs_calls s cid)), rs_running := False, rs_shutdown := True\<rparr>
      in rpc_loop (Listener_dispatch handle) evs s)"

section \<open>Properties\<close>

text \<open>
  The specification of both tables: an object is in the table until its handler returns
  false, and its state is what its handler has made of its own completions.
\<close>

fun call_life :: "'u handler \<Rightarrow> nat \<Rightarrow> (nat option \<times> bool) list \<Rightarrow> 'u rpc_call \<Rightarrow> 'u rpc_call option" where
  "call_life handle cid [] c = Some c"
| "call_life handle cid ((tag, ok) # evs) c =
     (if tag = Some cid then
        (case handle ok c of (handled, c') \<Rightarrow> if handled then call_life handle cid evs c' else None)
      else call_life handle cid evs c)"

definition life :: "'u handler \<Rightarrow> (nat \<Rightarrow> 'u rpc_call option) \<Rightarrow> nat \<Rightarrow> (nat option \<times> bool) list \<Rightarrow> 'u rpc_call option" where
  "life handle t cid evs = (case t cid of None \<Rightarrow> None | Some c \<Rightarrow> call_life handle cid evs c)"

text \<open>No completion comes for a call that is gone, or was never there.\<close>

definition tags_live :: "'u handler \<Rightarrow> (nat \<Rightarrow> 'u rpc_call option) \<Rightarrow> (nat option \<times> bool) list \<Rightarrow> bool" where
  "tags_live handle t evs \<longleftrightarrow>
     list_all (\<lambda>i. case fst (evs ! i) of None \<Rightarrow> True | Some cid \<Rightarrow> life handle t cid (take i evs) \<noteq> None) [0..<length evs]"

definition table_spec :: "'u handler \<Rightarrow> (nat \<Rightarrow> 'u rpc_call option) \<Rightarrow> (nat option \<times> bool) list \<Rightarrow> (nat \<Rightarrow> 'u rpc_call option) option" where
  "table_spec handle t evs = (if tags_live handle t evs then Some (\<lambda>cid. life handle t cid evs) else None)"

lemma life_Nil [simp]: "life handle t cid [] = t cid"
  by (simp add: life_def split: option.split)

lemma life_Cons: "life handle t cid (ev # evs) = life handle (\<lambda>cid. life handle t cid [ev]) cid evs"
  by (cases ev) (auto simp: life_def split: option.split prod.split)

lemma table_spec_Nil [simp]: "table_spec handle t [] = Some t"
  by (simp add: table_spec_def tags_live_def)

lemma table_spec_Cons:
  "table_spec handle t (ev # evs) =
     (if (case fst ev of None \<Rightarrow> True | Some cid \<Rightarrow> t cid \<noteq> None)
      then table_spec handle (\<lambda>cid. life handle t cid [ev]) evs else None)"
proof -
  have upt: "[0..<length (ev # evs)] = 0 # map Suc [0..<length evs]"
    by (simp add: upt_conv_Cons map_Suc_upt del: upt_Suc)
  have "tags_live handle t (ev # evs) \<longleftrightarrow>
      (case fst ev of None \<Rightarrow> True | Some cid \<Rightarrow> t cid \<noteq> None) \<and> tags_live handle (\<lambda>cid. life handle t cid [ev]) evs"
    unfolding tags_live_def upt list.pred_inject list.pred_map comp_def
    by (simp only: nth_Cons_0 nth_Cons_Suc take_0 take_Suc_Cons life_Nil life_Cons [symmetric])
  moreover have "(\<lambda>cid. life handle t cid (ev # evs)) = (\<lambda>cid. life handle (\<lambda>cid. life handle t cid [ev]) cid evs)"
    by (simp add: fun_eq_iff life_Cons [symmetric])
  ultimately show ?thesis by (simp add: table_spec_def)
qed

lemma Caller_dispatch_table:
  assumes "rs_fresh s = (\<lambda>_. None)"
  shows "case Caller_dispatch handle tag ok s of
           None \<Rightarrow> \<exists>cid. tag = Some cid \<and> rs_calls s cid = None
         | Some s' \<Rightarrow> rs_fresh s' = (\<lambda>_. None) \<and> (case tag of None \<Rightarrow> True | Some cid \<Rightarrow> rs_calls s cid \<noteq> None) \<and>
                     rs_calls s' = (\<lambda>cid. life handle (rs_calls s) cid [(tag, ok)])"
  using assms
  by (auto simp: Caller_dispatch_def live_call_def put_call_def RemoveCall_def Let_def fun_eq_iff life_def
      split: option.splits prod.splits if_splits)

lemma Listener_dispatch_table:
  assumes "rs_fresh s = (\<lambda>_. None)"
  shows "case Listener_dispatch handle tag ok s of
           None \<Rightarrow> \<exists>cid. tag = Some cid \<and> rs_calls s cid = None
         | Some s' \<Rightarrow> rs_fresh s' = (\<lambda>_. None) \<and> (case tag of None \<Rightarrow> True | Some cid \<Rightarrow> rs_calls s cid \<noteq> None) \<and>
                     rs_calls s' = (\<lambda>cid. life handle (rs_calls s) cid [(tag, ok)])"
  using assms
  by (auto simp: Listener_dispatch_def live_call_def put_call_def Listener_RemoveSession_def Let_def fun_eq_iff life_def
      split: option.splits prod.splits if_splits)

text \<open>Whatever dispatcher has this table law runs like the specification.\<close>

locale dispatcher =
  fixes disp :: "'u handler \<Rightarrow> nat option \<Rightarrow> bool \<Rightarrow> 'u rpc_service \<Rightarrow> 'u rpc_service option"
  assumes law: "rs_fresh s = (\<lambda>_. None) \<Longrightarrow>
    case disp handle tag ok s of
      None \<Rightarrow> \<exists>cid. tag = Some cid \<and> rs_calls s cid = None
    | Some s' \<Rightarrow> rs_fresh s' = (\<lambda>_. None) \<and> (case tag of None \<Rightarrow> True | Some cid \<Rightarrow> rs_calls s cid \<noteq> None) \<and>
                rs_calls s' = (\<lambda>cid. life handle (rs_calls s) cid [(tag, ok)])"
begin

lemma loop_spec:
  "rs_fresh s = (\<lambda>_. None) \<Longrightarrow> map_option rs_calls (rpc_loop (disp handle) evs s) = table_spec handle (rs_calls s) evs"
proof (induction evs arbitrary: s)
  case (Cons ev evs)
  obtain tag ok where ev: "ev = (tag, ok)" by (cases ev)
  show ?case
  proof (cases "disp handle tag ok s")
    case None
    then show ?thesis using law [OF Cons.prems, where handle = handle and tag = tag and ok = ok] by (auto simp: ev table_spec_Cons)
  next
    case (Some s1)
    then show ?thesis using law [OF Cons.prems, where handle = handle and tag = tag and ok = ok] Cons.IH [of s1]
      by (simp add: ev table_spec_Cons)
  qed
qed simp

end

interpretation caller: dispatcher Caller_dispatch
  by unfold_locales (rule Caller_dispatch_table)

interpretation listener: dispatcher Listener_dispatch
  by unfold_locales (rule Listener_dispatch_table)


text \<open>A handler that counts completions and gives up on the first that fails.\<close>

definition count_handler :: "nat handler" where
  "count_handler ok c = (ok, c\<lparr>rc_user := rc_user c + 1\<rparr>)"

definition two_calls :: "nat rpc_service" where
  "two_calls = snd (StartCall 0 (snd (StartCall 0 rpc_new)))"

lemma two_calls_eq: "rs_calls two_calls = [1 \<mapsto> new_call 0, 2 \<mapsto> new_call 0]" "rs_fresh two_calls = (\<lambda>_. None)"
  by (auto simp: two_calls_def StartCall_def construct_def insert_call_def rpc_new_def Let_def fun_eq_iff)


text \<open>
  \<open>StartCall\<close> inserts the call after its constructor has started it: when the call fails
  at once, the dispatcher removes it before it is in the table, and it is inserted
  afterwards, to stay for good.
\<close>

theorem failed_call_stays:
  "\<exists>s1 s2. construct u rpc_new = (1, s1) \<and> Caller_dispatch (\<lambda>ok c. (ok, c)) (Some 1) False s1 = Some s2 \<and>
           GetCall 1 (insert_call 1 s2) = Some (new_call u)"
  by (simp add: construct_def rpc_new_def Caller_dispatch_def live_call_def put_call_def RemoveCall_def insert_call_def
      GetCall_def Let_def)

end
