(* ===== verification/SampleService.thy ===== *)
theory SampleService
  imports ServiceRpc "HOL-Library.Multiset"
begin

text \<open>
  The services and the call of examples/example_grpc_service_listener and
  examples/example_grpc_service_caller: the program's side of \<open>ServiceListenerGrpc\<close> and
  \<open>ServiceCallerGrpc\<close>, which \<open>ServiceRpc\<close> leaves open, and both ends together. A session adds the
  session for the next call when one arrives. The operations handed to gRPC and not completed
  yet are recorded with their tags, so that a completion for a session that has been freed can
  be stated. Locks and the log output are left out.
\<close>

section \<open>The listener\<close>

record robot_info =
  ri_name :: "char list"
  ri_version :: "char list"
  ri_author :: "char list"
  ri_description :: "char list"
  ri_serial :: "char list"
  ri_type :: int
  ri_id :: int
  ri_dof :: int

datatype reply = Rep_response int "char list" | Rep_info robot_info | Rep_failed

definition command_reply :: reply where
  "command_reply = Rep_response 0 ''success''"

definition info_reply :: reply where
  "info_reply = Rep_info \<lparr>ri_name = ''QuadIP'', ri_version = ''v0.1'', ri_author = ''HMC'', ri_description = '''',
     ri_serial = ''HMC-8-001'', ri_type = 8, ri_id = 1, ri_dof = 12\<rparr>"

text \<open>The two session classes; an operation: a request for the next call, or \<open>Finish\<close>.\<close>

datatype service = Command | RobotInfo

datatype server_op = Requested service | Finishing reply

record service_listener =
  ln_service :: "service rpc_service"
  ln_ops :: "(nat \<times> server_op) list"

text \<open>\<open>AddSession\<close> with the constructors of the two classes.\<close>

definition AddService :: "service \<Rightarrow> service_listener \<Rightarrow> service_listener" where
  "AddService v l =
     (case Listener_AddSession v (ln_service l) of
        (sid, s) \<Rightarrow> l\<lparr>ln_service := s, ln_ops := ln_ops l @ [(sid, Requested v)]\<rparr>)"

definition finish_call :: "nat \<Rightarrow> service rpc_call \<Rightarrow> reply \<Rightarrow> service_listener \<Rightarrow> service_listener" where
  "finish_call sid c r l =
     l\<lparr>ln_service := put_call sid (c\<lparr>rc_state := S_WAIT_FINISH\<rparr>) (ln_service l), ln_ops := ln_ops l @ [(sid, Finishing r)]\<rparr>"

definition OnControlCmd_event :: "bool \<Rightarrow> nat \<Rightarrow> service rpc_call \<Rightarrow> service_listener \<Rightarrow> bool \<times> service_listener" where
  "OnControlCmd_event ok sid c l =
     (if rc_state c = S_FINISHED then (True, l)
      else if rc_state c = S_WAIT_FINISH then (False, l)
      else if ok then
        (if rc_state c = S_WAIT_CONNECT then (True, finish_call sid c command_reply (AddService Command l))
         else (False, l))
      else
        (if rc_state c = S_WAIT_CONNECT then (False, l)
         else (True, finish_call sid c Rep_failed l)))"

definition OnQueryRobotInfo_event :: "bool \<Rightarrow> nat \<Rightarrow> service rpc_call \<Rightarrow> service_listener \<Rightarrow> bool \<times> service_listener" where
  "OnQueryRobotInfo_event ok sid c l =
     (if rc_state c = S_FINISHED then (True, l)
      else if rc_state c = S_WAIT_FINISH then (False, l)
      else if ok then
        (if rc_state c = S_WAIT_CONNECT then (True, finish_call sid c info_reply (AddService RobotInfo l))
         else (False, l))
      else
        (if rc_state c = S_WAIT_CONNECT then (False, l)
         else (True, finish_call sid c Rep_failed l)))"

text \<open>A turn of the dispatcher, with the virtual call resolved; \<open>None\<close> for a freed session.\<close>

definition serve :: "bool \<Rightarrow> nat \<Rightarrow> service_listener \<Rightarrow> service_listener option" where
  "serve ok sid l =
     (case live_call sid (ln_service l) of
        None \<Rightarrow> None
      | Some c \<Rightarrow>
          (case (case rc_user c of Command \<Rightarrow> OnControlCmd_event | RobotInfo \<Rightarrow> OnQueryRobotInfo_event) ok sid c l of
             (handled, l) \<Rightarrow>
               if \<not> handled then
                 (case live_call sid (ln_service l) of
                    None \<Rightarrow> None
                  | Some c \<Rightarrow> Some (l\<lparr>ln_service := Listener_RemoveSession sid (put_call sid (Session_TryCancel c) (ln_service l))\<rparr>))
               else Some l))"

text \<open>The completion of an operation: it is no longer outstanding and its tag is handled.\<close>

definition complete :: "bool \<Rightarrow> nat \<times> server_op \<Rightarrow> service_listener \<Rightarrow> service_listener option" where
  "complete ok x l = serve ok (fst x) (l\<lparr>ln_ops := remove1 x (ln_ops l)\<rparr>)"

text \<open>What \<open>main\<close> sets up, and \<open>Stop\<close>: the completions still to come are \<open>evs\<close>.\<close>

definition sample_listener :: service_listener where
  "sample_listener = AddService RobotInfo (AddService Command \<lparr>ln_service = rpc_new, ln_ops = []\<rparr>)"

fun complete_all :: "(bool \<times> nat \<times> server_op) list \<Rightarrow> service_listener \<Rightarrow> service_listener option" where
  "complete_all [] l = Some l"
| "complete_all ((ok, x) # evs) l = (case complete ok x l of None \<Rightarrow> None | Some l \<Rightarrow> complete_all evs l)"

definition sample_Stop :: "(bool \<times> nat \<times> server_op) list \<Rightarrow> service_listener \<Rightarrow> service_listener option" where
  "sample_Stop evs l =
     complete_all evs (l\<lparr>ln_service := (ln_service l)\<lparr>rs_calls := (\<lambda>sid. map_option Session_TryCancel (rs_calls (ln_service l) sid)),
       rs_running := False, rs_shutdown := True\<rparr>\<rparr>)"

subsection \<open>Its invariant\<close>

text \<open>Every session has exactly one operation outstanding, which fits its state.\<close>

definition reply_to :: "service \<Rightarrow> reply" where
  "reply_to v = (case v of Command \<Rightarrow> command_reply | RobotInfo \<Rightarrow> info_reply)"

definition op_fits :: "server_op \<Rightarrow> service rpc_call \<Rightarrow> bool" where
  "op_fits x c \<longleftrightarrow>
     (case x of Requested v \<Rightarrow> rc_state c = S_WAIT_CONNECT \<and> rc_user c = v
      | Finishing r \<Rightarrow> rc_state c = S_WAIT_FINISH \<and> r = reply_to (rc_user c))"

definition sessions_ok :: "service_listener \<Rightarrow> bool" where
  "sessions_ok l \<longleftrightarrow>
     rs_fresh (ln_service l) = (\<lambda>_. None) \<and> distinct (map fst (ln_ops l)) \<and>
     (\<forall>sid. rs_calls (ln_service l) sid \<noteq> None \<longleftrightarrow> sid \<in> fst ` set (ln_ops l)) \<and>
     (\<forall>(sid, x) \<in> set (ln_ops l). sid \<le> rs_next (ln_service l) \<and> (\<exists>c. rs_calls (ln_service l) sid = Some c \<and> op_fits x c))"

definition waiting_for :: "service \<Rightarrow> service_listener \<Rightarrow> nat" where
  "waiting_for v l = length (filter (\<lambda>x. snd x = Requested v) (ln_ops l))"

lemma event_cases:
  "(case rc_user c of Command \<Rightarrow> OnControlCmd_event | RobotInfo \<Rightarrow> OnQueryRobotInfo_event) ok sid c l =
     (if rc_state c = S_FINISHED then (True, l)
      else if rc_state c = S_WAIT_FINISH then (False, l)
      else if ok then
        (if rc_state c = S_WAIT_CONNECT then (True, finish_call sid c (reply_to (rc_user c)) (AddService (rc_user c) l))
         else (False, l))
      else
        (if rc_state c = S_WAIT_CONNECT then (False, l)
         else (True, finish_call sid c Rep_failed l)))"
  by (cases "rc_user c") (simp_all only: OnControlCmd_event_def OnQueryRobotInfo_event_def reply_to_def service.case)

lemma sessions_okD:
  assumes "sessions_ok l" and "(sid, x) \<in> set (ln_ops l)"
  obtains c where "rs_calls (ln_service l) sid = Some c" "live_call sid (ln_service l) = Some c" "op_fits x c"
    "sid \<le> rs_next (ln_service l)"
  using assms by (fastforce simp: sessions_ok_def live_call_def)

lemma sessions_okI:
  assumes "rs_fresh (ln_service l) = (\<lambda>_. None)" and "distinct (map fst (ln_ops l))"
    and "\<And>k. rs_calls (ln_service l) k \<noteq> None \<longleftrightarrow> k \<in> fst ` set (ln_ops l)"
    and "\<And>k y. (k, y) \<in> set (ln_ops l) \<Longrightarrow> k \<le> rs_next (ln_service l) \<and> (\<exists>c. rs_calls (ln_service l) k = Some c \<and> op_fits y c)"
  shows "sessions_ok l"
  unfolding sessions_ok_def using assms by blast

lemma keys_remove1:
  assumes "distinct (map fst xs)" and "(k, v) \<in> set xs"
  shows "distinct (map fst (remove1 (k, v) xs))" and "fst ` set (remove1 (k, v) xs) = fst ` set xs - {k}"
proof -
  have "distinct (map fst (remove1 (k, v) xs)) \<and> fst ` set (remove1 (k, v) xs) = fst ` set xs - {k}"
    using assms
  proof (induction xs)
    case (Cons y ys)
    then show ?case by (cases "y = (k, v)") (auto simp: image_iff)
  qed simp
  then show "distinct (map fst (remove1 (k, v) xs))" "fst ` set (remove1 (k, v) xs) = fst ` set xs - {k}" by blast+
qed

text \<open>A completion that ends a session.\<close>

lemma complete_removes:
  assumes "sessions_ok l" and "(sid, x) \<in> set (ln_ops l)" and "\<forall>v. x = Requested v \<longrightarrow> \<not> ok"
  obtains l' where "complete ok (sid, x) l = Some l'" "ln_ops l' = remove1 (sid, x) (ln_ops l)" "sessions_ok l'"
proof -
  let ?s = "ln_service l" and ?ops = "remove1 (sid, x) (ln_ops l)"
  obtain c where c: "rs_calls ?s sid = Some c" "live_call sid ?s = Some c" "op_fits x c" by (rule sessions_okD [OF assms(1,2)])
  let ?l = "l\<lparr>ln_service := ?s\<lparr>rs_calls := (rs_calls ?s)(sid := None)\<rparr>, ln_ops := ?ops\<rparr>"
  have cancel: "Session_TryCancel c = c" using c(3) by (auto simp: Session_TryCancel_def op_fits_def split: server_op.splits)
  let ?start = "l\<lparr>ln_ops := ?ops\<rparr>"
  have ev: "(case rc_user c of Command \<Rightarrow> OnControlCmd_event | RobotInfo \<Rightarrow> OnQueryRobotInfo_event) ok sid c ?start = (False, ?start)"
    unfolding event_cases using c(3) assms(3) by (cases x) (simp_all add: op_fits_def)
  have e: "complete ok (sid, x) l = Some ?l"
    using c(1,2) ev cancel
    by (simp add: complete_def serve_def put_call_def Listener_RemoveSession_def)
  have d: "distinct (map fst (ln_ops l))" using assms(1) by (simp add: sessions_ok_def)
  note m = keys_remove1 [OF d assms(2)]
  have "distinct (map fst ?ops)" by (rule m(1))
  moreover have "rs_calls (ln_service ?l) k \<noteq> None \<longleftrightarrow> k \<in> fst ` set ?ops" for k
    using assms(1) unfolding m(2) by (simp add: sessions_ok_def)
  moreover have "k \<le> rs_next (ln_service ?l) \<and> (\<exists>c. rs_calls (ln_service ?l) k = Some c \<and> op_fits y c)"
    if "(k, y) \<in> set ?ops" for k y
  proof -
    have "k \<noteq> sid" using imageI [OF that, of fst] unfolding m(2) by auto
    moreover have "(k, y) \<in> set (ln_ops l)" using that set_remove1_subset by fast
    ultimately show ?thesis by (auto elim: sessions_okD [OF assms(1)])
  qed
  moreover have "rs_fresh (ln_service ?l) = (\<lambda>_. None)" using assms(1) by (simp add: sessions_ok_def)
  ultimately have "sessions_ok ?l" unfolding sessions_ok_def by auto
  with e show thesis by (intro that [of ?l]) simp_all
qed

text \<open>A completion that brings a call: the next request is made, the call is answered.\<close>

lemma complete_request:
  assumes "sessions_ok l" and "(sid, Requested v) \<in> set (ln_ops l)"
  obtains l' where "complete True (sid, Requested v) l = Some l'" "sessions_ok l'"
    "ln_ops l' = remove1 (sid, Requested v) (ln_ops l) @ [(rs_next (ln_service l) + 1, Requested v), (sid, Finishing (reply_to v))]"
proof -
  let ?s = "ln_service l" and ?ops = "remove1 (sid, Requested v) (ln_ops l)" and ?new = "rs_next (ln_service l) + 1"
  obtain c where c: "rs_calls ?s sid = Some c" "live_call sid ?s = Some c" "op_fits (Requested v) c" "sid \<le> rs_next ?s"
    by (rule sessions_okD [OF assms])
  have v: "rc_state c = S_WAIT_CONNECT" "rc_user c = v" using c(3) by (simp_all add: op_fits_def)
  have fr: "rs_fresh ?s = (\<lambda>_. None)" using assms(1) by (simp add: sessions_ok_def)
  let ?ops' = "?ops @ [(?new, Requested v), (sid, Finishing (reply_to v))]"
  let ?calls = "(rs_calls ?s)(?new \<mapsto> new_call v, sid \<mapsto> c\<lparr>rc_state := S_WAIT_FINISH\<rparr>)"
  let ?l = "l\<lparr>ln_service := ?s\<lparr>rs_next := ?new, rs_fresh := (\<lambda>_. None), rs_calls := ?calls\<rparr>, ln_ops := ?ops'\<rparr>"
  let ?start = "l\<lparr>ln_ops := ?ops\<rparr>"
  have ne: "sid \<noteq> ?new" using c(4) by simp
  have add: "AddService v ?start = l\<lparr>ln_service := ?s\<lparr>rs_next := ?new, rs_fresh := (\<lambda>_. None), rs_calls := (rs_calls ?s)(?new \<mapsto> new_call v)\<rparr>,
      ln_ops := ?ops @ [(?new, Requested v)]\<rparr>"
    by (simp add: AddService_def Listener_AddSession_def construct_def insert_call_def fr fun_upd_idem Let_def)
  have fin: "finish_call sid c (reply_to v) (AddService v ?start) = ?l"
    unfolding add using c(1) ne by (simp add: finish_call_def put_call_def)
  have e: "complete True (sid, Requested v) l = Some ?l"
  proof -
    have "(case rc_user c of Command \<Rightarrow> OnControlCmd_event | RobotInfo \<Rightarrow> OnQueryRobotInfo_event) True sid c ?start = (True, ?l)"
      unfolding event_cases using v fin by simp
    then show ?thesis using c(2) by (simp add: complete_def serve_def)
  qed
  have d: "distinct (map fst (ln_ops l))" using assms(1) by (simp add: sessions_ok_def)
  note m = keys_remove1 [OF d assms(2)]
  have small: "?new \<notin> fst ` set (ln_ops l)" using assms(1) by (fastforce simp: sessions_ok_def)
  have "distinct (map fst ?ops')" using m small ne by auto
  moreover have "rs_calls (ln_service ?l) k \<noteq> None \<longleftrightarrow> k \<in> fst ` set ?ops'" for k
    using assms(1) m(2) by (auto simp: sessions_ok_def)
  moreover have "k \<le> rs_next (ln_service ?l) \<and> (\<exists>c. rs_calls (ln_service ?l) k = Some c \<and> op_fits y c)"
    if k: "(k, y) \<in> set ?ops'" for k y
  proof -
    consider "(k, y) = (?new, Requested v)" | "(k, y) = (sid, Finishing (reply_to v))" | "(k, y) \<in> set ?ops" using k by auto
    then show ?thesis
    proof cases
      case 1
      then show ?thesis using ne by (simp add: op_fits_def new_call_def)
    next
      case 2
      then show ?thesis using c(4) v by (simp add: op_fits_def)
    next
      case 3
      have "k \<noteq> sid" using imageI [OF 3, of fst] unfolding m(2) by auto
      moreover have in_ops: "(k, y) \<in> set (ln_ops l)" using 3 set_remove1_subset by fast
      moreover have "k \<noteq> ?new" using small imageI [OF in_ops, of fst] by (metis fst_conv)
      ultimately show ?thesis by (auto elim: sessions_okD [OF assms(1)])
    qed
  qed
  moreover have "rs_fresh (ln_service ?l) = (\<lambda>_. None)" "ln_ops ?l = ?ops'" by simp_all
  ultimately have "sessions_ok ?l" by (intro sessions_okI) (simp_all only:)
  with e show thesis by (intro that [of ?l]) simp_all
qed

lemma sample_listener_ops: "ln_ops sample_listener = [(1, Requested Command), (2, Requested RobotInfo)]"
  by (simp add: sample_listener_def AddService_def Listener_AddSession_def construct_def insert_call_def rpc_new_def Let_def)

lemma sample_listener_ok: "sessions_ok sample_listener"
  unfolding sessions_ok_def sample_listener_ops
  by (auto simp: sample_listener_def AddService_def Listener_AddSession_def construct_def insert_call_def rpc_new_def Let_def
      op_fits_def new_call_def split: if_splits)

text \<open>
  Stopping the listener: the cancellation changes no session, since each one waits for a call or
  for its end; then every operation outstanding completes, in any order, and every session goes.
\<close>

lemma complete_all_empties:
  assumes "sessions_ok l" and "mset (map snd evs) = mset (ln_ops l)"
    and "\<forall>(ok, sid, x) \<in> set evs. \<forall>v. x = Requested v \<longrightarrow> \<not> ok"
  shows "\<exists>l'. complete_all evs l = Some l' \<and> ln_ops l' = [] \<and> rs_calls (ln_service l') = (\<lambda>_. None)"
  using assms
proof (induction evs arbitrary: l)
  case Nil
  then have "ln_ops l = []" by simp
  then have "\<forall>sid. rs_calls (ln_service l) sid = None" using Nil.prems(1) by (simp add: sessions_ok_def)
  then show ?case using \<open>ln_ops l = []\<close> by auto
next
  case (Cons ev evs)
  obtain ok sid x where ev: "ev = (ok, sid, x)" by (cases ev)
  have x: "(sid, x) \<in> set (ln_ops l)" using arg_cong [OF Cons.prems(2), of set_mset] by (auto simp: ev)
  have "\<forall>v. x = Requested v \<longrightarrow> \<not> ok" using Cons.prems(3) by (simp add: ev)
  from complete_removes [OF Cons.prems(1) x this] obtain l1 where
    l1: "complete ok (sid, x) l = Some l1" "ln_ops l1 = remove1 (sid, x) (ln_ops l)" "sessions_ok l1" by blast
  have "mset (ln_ops l) = add_mset (sid, x) (mset (map snd evs))" using Cons.prems(2) by (simp add: ev)
  then have "mset (map snd evs) = mset (ln_ops l1)" by (simp add: l1(2))
  from Cons.IH [OF l1(3) this] Cons.prems(3) show ?case by (simp add: ev l1(1))
qed

lemma cancel_idle: "sessions_ok l \<Longrightarrow> (\<lambda>sid. map_option Session_TryCancel (rs_calls (ln_service l) sid)) = rs_calls (ln_service l)"
proof (rule ext)
  fix sid
  assume l: "sessions_ok l"
  show "map_option Session_TryCancel (rs_calls (ln_service l) sid) = rs_calls (ln_service l) sid"
  proof (cases "rs_calls (ln_service l) sid")
    case (Some c)
    then obtain x where "(sid, x) \<in> set (ln_ops l)" using l by (fastforce simp: sessions_ok_def)
    then have "op_fits x c" using Some by (auto elim: sessions_okD [OF l])
    then show ?thesis using Some by (auto simp: op_fits_def Session_TryCancel_def split: server_op.splits)
  qed simp
qed

lemma sample_Stop_empties:
  assumes "sessions_ok l" and "mset (map snd evs) = mset (ln_ops l)"
    and "\<forall>(ok, sid, x) \<in> set evs. \<forall>v. x = Requested v \<longrightarrow> \<not> ok"
  shows "\<exists>l'. sample_Stop evs l = Some l' \<and> rs_calls (ln_service l') = (\<lambda>_. None)"
proof -
  let ?l = "l\<lparr>ln_service := (ln_service l)\<lparr>rs_calls := rs_calls (ln_service l), rs_running := False, rs_shutdown := True\<rparr>\<rparr>"
  have "sessions_ok ?l" using assms(1) by (simp add: sessions_ok_def)
  moreover have "sample_Stop evs l = complete_all evs ?l" by (simp only: sample_Stop_def cancel_idle [OF assms(1)])
  moreover have "mset (map snd evs) = mset (ln_ops ?l)" using assms(2) by simp
  ultimately show ?thesis using complete_all_empties [of ?l evs] assms(3) by metis
qed

section \<open>The caller\<close>

text \<open>
  The call: its number, the response gRPC writes into it, and the one it reports. The constructor
  starts the call and asks for its end, so it waits for one completion.
\<close>

record query =
  qu_id :: int
  qu_response :: reply
  qu_shown :: "reply option"

definition OnQueryRobotInfo :: "int \<Rightarrow> query rpc_service \<Rightarrow> nat \<times> query rpc_service" where
  "OnQueryRobotInfo udata s =
     (case construct \<lparr>qu_id = udata, qu_response = Rep_failed, qu_shown = None\<rparr> s of
        (cid, s) \<Rightarrow> (cid, s\<lparr>rs_fresh := (rs_fresh s)(cid := map_option (\<lambda>c. c\<lparr>rc_state := S_WAIT_FINISH\<rparr>) (rs_fresh s cid))\<rparr>))"

definition Query_event :: "query handler" where
  "Query_event ok c =
     (if ok then
        (if rc_state c = S_WAIT_FINISH
         then (False, c\<lparr>rc_user := (rc_user c)\<lparr>qu_shown := Some (qu_response (rc_user c))\<rparr>, rc_state := S_FINISHED\<rparr>)
         else (False, c))
      else (False, c))"

section \<open>Both ends\<close>

text \<open>
  \<open>nt_pending\<close> are the calls on their way to the listener, \<open>nt_replies\<close> the responses on their
  way back, \<open>nt_answered\<close> records the completions the caller's handler has been given. Of gRPC:
  a call arrives at a session that has requested one of its kind and takes its response from the
  \<open>Finish\<close> of that session; a call that is lost ends with an error; every completion is
  delivered once. Other clients use the other service.
\<close>

record rpc_net =
  nt_listener :: service_listener
  nt_caller :: "query rpc_service"
  nt_pending :: "nat list"
  nt_replies :: "(nat \<times> reply) list"
  nt_answered :: "(nat \<times> reply) list"

definition answer :: "nat \<Rightarrow> reply \<Rightarrow> query rpc_service \<Rightarrow> query rpc_service option" where
  "answer cid r s =
     (case live_call cid s of
        None \<Rightarrow> None
      | Some c \<Rightarrow> Caller_dispatch Query_event (Some cid) True (put_call cid (c\<lparr>rc_user := (rc_user c)\<lparr>qu_response := r\<rparr>\<rparr>) s))"

inductive net_step :: "rpc_net \<Rightarrow> rpc_net \<Rightarrow> bool" where
  call: "OnQueryRobotInfo udata (nt_caller n) = (cid, s) \<Longrightarrow>
    net_step n (n\<lparr>nt_caller := s, nt_pending := nt_pending n @ [cid]\<rparr>)"
| insert: "rs_fresh (nt_caller n) cid \<noteq> None \<Longrightarrow> net_step n (n\<lparr>nt_caller := insert_call cid (nt_caller n)\<rparr>)"
| arrive: "(sid, Requested RobotInfo) \<in> set (ln_ops (nt_listener n)) \<Longrightarrow> cid \<in> set (nt_pending n) \<Longrightarrow>
    complete True (sid, Requested RobotInfo) (nt_listener n) = Some l \<Longrightarrow> (sid, Finishing r) \<in> set (ln_ops l) \<Longrightarrow>
    net_step n (n\<lparr>nt_listener := l, nt_pending := remove1 cid (nt_pending n), nt_replies := nt_replies n @ [(cid, r)]\<rparr>)"
| other: "(sid, Requested Command) \<in> set (ln_ops (nt_listener n)) \<Longrightarrow>
    complete True (sid, Requested Command) (nt_listener n) = Some l \<Longrightarrow> net_step n (n\<lparr>nt_listener := l\<rparr>)"
| finished: "(sid, Finishing r) \<in> set (ln_ops (nt_listener n)) \<Longrightarrow>
    complete ok (sid, Finishing r) (nt_listener n) = Some l \<Longrightarrow> net_step n (n\<lparr>nt_listener := l\<rparr>)"
| lost: "cid \<in> set (nt_pending n) \<Longrightarrow>
    net_step n (n\<lparr>nt_pending := remove1 cid (nt_pending n), nt_replies := nt_replies n @ [(cid, Rep_failed)]\<rparr>)"
| answered: "(cid, r) \<in> set (nt_replies n) \<Longrightarrow> answer cid r (nt_caller n) = Some s \<Longrightarrow>
    net_step n (n\<lparr>nt_caller := s, nt_replies := remove1 (cid, r) (nt_replies n), nt_answered := nt_answered n @ [(cid, r)]\<rparr>)"

definition net_init :: rpc_net where
  "net_init = \<lparr>nt_listener = sample_listener, nt_caller = rpc_new, nt_pending = [], nt_replies = [], nt_answered = []\<rparr>"

definition net_reach :: "rpc_net \<Rightarrow> bool" where
  "net_reach n \<longleftrightarrow> net_step\<^sup>*\<^sup>* net_init n"

subsection \<open>Its invariant\<close>

definition started :: "rpc_net \<Rightarrow> nat list" where
  "started n = nt_pending n @ map fst (nt_replies n) @ map fst (nt_answered n)"

definition waits :: "nat \<Rightarrow> query rpc_service \<Rightarrow> bool" where
  "waits cid s \<longleftrightarrow> (\<exists>c. live_call cid s = Some c \<and> rc_state c = S_WAIT_FINISH)"

definition caller_ok :: "rpc_net \<Rightarrow> bool" where
  "caller_ok n \<longleftrightarrow>
     mset (started n) = mset [1..<Suc (rs_next (nt_caller n))] \<and>
     (\<forall>cid \<in> set (nt_pending n @ map fst (nt_replies n)). waits cid (nt_caller n)) \<and>
     (\<forall>cid. rs_calls (nt_caller n) cid = None \<or> rs_fresh (nt_caller n) cid = None) \<and>
     (\<forall>cid. live_call cid (nt_caller n) \<noteq> None \<longrightarrow> cid \<le> rs_next (nt_caller n)) \<and>
     (\<forall>(cid, r) \<in> set (nt_replies n @ nt_answered n). r = info_reply \<or> r = Rep_failed)"

definition net_inv :: "rpc_net \<Rightarrow> bool" where
  "net_inv n \<longleftrightarrow>
     sessions_ok (nt_listener n) \<and> waiting_for Command (nt_listener n) = 1 \<and> waiting_for RobotInfo (nt_listener n) = 1 \<and>
     caller_ok n"

lemma net_inv_init: "net_inv net_init"
  by (simp add: net_inv_def net_init_def sample_listener_ok waiting_for_def sample_listener_ops caller_ok_def started_def
      rpc_new_def live_call_def)

lemma started_distinct: "caller_ok n \<Longrightarrow> distinct (started n) \<and> set (started n) = {1..rs_next (nt_caller n)}"
  unfolding caller_ok_def by (metis atLeastLessThanSuc_atLeastAtMost distinct_upt mset_eq_imp_distinct_iff mset_eq_setD set_upt)

lemma waiting_remove1:
  "(sid, x) \<in> set (ln_ops l) \<Longrightarrow> ln_ops l' = remove1 (sid, x) (ln_ops l) @ ys \<Longrightarrow>
     waiting_for v l' = waiting_for v l - (if x = Requested v then 1 else 0) + length (filter (\<lambda>x. snd x = Requested v) ys)"
  by (auto simp: waiting_for_def filter_remove1 length_remove1)

definition apart :: "query rpc_service \<Rightarrow> bool" where
  "apart s \<longleftrightarrow> (\<forall>cid. rs_calls s cid = None \<or> rs_fresh s cid = None)"

lemma apartD: "apart s \<Longrightarrow> rs_fresh s cid \<noteq> None \<Longrightarrow> rs_calls s cid = None"
  by (auto simp: apart_def)

lemma new_query:
  assumes "OnQueryRobotInfo udata s = (cid, s')" and "apart s" and "\<forall>k. live_call k s \<noteq> None \<longrightarrow> k \<le> rs_next s"
  shows "cid = rs_next s + 1" and "rs_next s' = cid" and "waits cid s'" and "apart s'"
    and "\<And>k. k \<noteq> cid \<Longrightarrow> live_call k s' = live_call k s"
proof -
  have s': "cid = rs_next s + 1" "rs_next s' = cid" "rs_calls s' = rs_calls s"
    "\<exists>c. rs_fresh s' = (rs_fresh s)(cid \<mapsto> c) \<and> rc_state c = S_WAIT_FINISH"
    using assms(1) by (auto simp: OnQueryRobotInfo_def construct_def new_call_def Let_def)
  have "live_call cid s = None" using assms(3) s'(1) by (cases "live_call cid s") auto
  then have free: "rs_calls s cid = None" by (auto simp: live_call_def split: option.splits)
  show "cid = rs_next s + 1" "rs_next s' = cid" by (fact s')+
  show "waits cid s'" "apart s'" "\<And>k. k \<noteq> cid \<Longrightarrow> live_call k s' = live_call k s"
    using s'(3,4) free assms(2) by (auto simp: waits_def live_call_def apart_def split: option.split if_splits)
qed

lemma insert_query:
  assumes "apart s" and "rs_fresh s cid \<noteq> None"
  shows "live_call k (insert_call cid s) = live_call k s" and "apart (insert_call cid s)" and "rs_next (insert_call cid s) = rs_next s"
  using assms apartD [OF assms] by (auto simp: insert_call_def live_call_def apart_def split: option.split)

lemma answer_query:
  assumes "waits cid s" and "apart s"
  obtains s' where "answer cid r s = Some s'" "rs_next s' = rs_next s" "apart s'"
    "\<And>k. k \<noteq> cid \<Longrightarrow> live_call k s' = live_call k s"
proof -
  obtain c where c: "live_call cid s = Some c" "rc_state c = S_WAIT_FINISH" using assms(1) by (auto simp: waits_def)
  let ?c = "c\<lparr>rc_user := (rc_user c)\<lparr>qu_response := r\<rparr>\<rparr>"
  obtain c' where ev: "Query_event True ?c = (False, c')" using c(2) by (simp add: Query_event_def)
  show thesis
  proof (cases "rs_calls s cid")
    case None
    then have "answer cid r s = Some (s\<lparr>rs_fresh := (rs_fresh s)(cid \<mapsto> c'), rs_calls := (rs_calls s)(cid := None)\<rparr>)"
      using c(1) ev by (simp add: answer_def Caller_dispatch_def put_call_def live_call_def RemoveCall_def)
    then show thesis by (rule that) (use None assms(2) in \<open>auto simp: apart_def live_call_def split: option.split\<close>)
  next
    case (Some c0)
    then have "answer cid r s = Some (s\<lparr>rs_calls := (rs_calls s)(cid := None)\<rparr>)"
      using c(1) ev by (simp add: answer_def Caller_dispatch_def put_call_def live_call_def RemoveCall_def)
    then show thesis by (rule that) (use assms(2) in \<open>auto simp: apart_def live_call_def split: option.split\<close>)
  qed
qed

lemma caller_okD:
  assumes "caller_ok n"
  shows "mset (started n) = mset [1..<Suc (rs_next (nt_caller n))]"
    and "cid \<in> set (nt_pending n) \<or> cid \<in> fst ` set (nt_replies n) \<Longrightarrow> waits cid (nt_caller n)"
    and "apart (nt_caller n)" and "live_call cid (nt_caller n) \<noteq> None \<Longrightarrow> cid \<le> rs_next (nt_caller n)"
    and "(cid, r) \<in> set (nt_replies n) \<or> (cid, r) \<in> set (nt_answered n) \<Longrightarrow> r = info_reply \<or> r = Rep_failed"
  using assms by (auto simp: caller_ok_def apart_def)

lemma caller_okI:
  assumes "mset (started n) = mset [1..<Suc (rs_next (nt_caller n))]"
    and "\<And>cid. cid \<in> set (nt_pending n) \<or> cid \<in> fst ` set (nt_replies n) \<Longrightarrow> waits cid (nt_caller n)"
    and "apart (nt_caller n)" and "\<And>cid. live_call cid (nt_caller n) \<noteq> None \<Longrightarrow> cid \<le> rs_next (nt_caller n)"
    and "\<And>cid r. (cid, r) \<in> set (nt_replies n) \<or> (cid, r) \<in> set (nt_answered n) \<Longrightarrow> r = info_reply \<or> r = Rep_failed"
  shows "caller_ok n"
proof -
  have "\<forall>(cid, r) \<in> set (nt_replies n @ nt_answered n). r = info_reply \<or> r = Rep_failed" using assms(5) by fastforce
  moreover have "\<forall>cid \<in> set (nt_pending n @ map fst (nt_replies n)). waits cid (nt_caller n)" using assms(2) by auto
  ultimately show ?thesis using assms(1,3,4) unfolding caller_ok_def apart_def by blast
qed

text \<open>A call that leaves \<open>nt_pending\<close> for \<open>nt_replies\<close>.\<close>

lemma caller_reply:
  assumes "caller_ok n" and "cid \<in> set (nt_pending n)" and "r = info_reply \<or> r = Rep_failed"
    and "n' = n\<lparr>nt_listener := l, nt_pending := remove1 cid (nt_pending n), nt_replies := nt_replies n @ [(cid, r)]\<rparr>"
  shows "caller_ok n'"
proof (rule caller_okI)
  have "mset (started n') = mset (started n)" using assms(2) by (simp add: started_def assms(4))
  then show "mset (started n') = mset [1..<Suc (rs_next (nt_caller n'))]" using caller_okD(1) [OF assms(1)] by (simp add: assms(4))
  show "waits k (nt_caller n')" if "k \<in> set (nt_pending n') \<or> k \<in> fst ` set (nt_replies n')" for k
  proof -
    have "k \<in> set (nt_pending n) \<or> k \<in> fst ` set (nt_replies n)"
      using that assms(2) by (auto simp: assms(4) dest: notin_set_remove1)
    then show ?thesis using caller_okD(2) [OF assms(1)] by (simp add: assms(4))
  qed
  show "apart (nt_caller n')" using caller_okD(3) [OF assms(1)] by (simp add: assms(4))
  show "live_call k (nt_caller n') \<noteq> None \<Longrightarrow> k \<le> rs_next (nt_caller n')" for k
    using caller_okD(4) [OF assms(1), of k] by (simp add: assms(4))
  show "x = info_reply \<or> x = Rep_failed" if "(k, x) \<in> set (nt_replies n') \<or> (k, x) \<in> set (nt_answered n')" for k x
    using caller_okD(5) [OF assms(1), of k x] assms(3) that by (auto simp: assms(4))
qed

lemma caller_answer:
  assumes "caller_ok n" and "(cid, r) \<in> set (nt_replies n)" and "answer cid r (nt_caller n) = Some s"
    and "n' = n\<lparr>nt_caller := s, nt_replies := remove1 (cid, r) (nt_replies n), nt_answered := nt_answered n @ [(cid, r)]\<rparr>"
  shows "caller_ok n'" and "rs_next s = rs_next (nt_caller n)"
proof -
  have w: "waits cid (nt_caller n)" using caller_okD(2) [OF assms(1)] assms(2) by force
  have "\<exists>s'. answer cid r (nt_caller n) = Some s' \<and> rs_next s' = rs_next (nt_caller n) \<and> apart s' \<and>
      (\<forall>k. k \<noteq> cid \<longrightarrow> live_call k s' = live_call k (nt_caller n))"
    by (rule answer_query [OF w caller_okD(3) [OF assms(1)], of r]) blast
  then have s: "rs_next s = rs_next (nt_caller n)" "apart s" "\<And>k. k \<noteq> cid \<Longrightarrow> live_call k s = live_call k (nt_caller n)"
    using assms(3) by auto
  show "rs_next s = rs_next (nt_caller n)" by (rule s(1))
  have d: "distinct (started n)" using started_distinct [OF assms(1)] by blast
  then have dr: "distinct (map fst (nt_replies n))" by (simp add: started_def)
  note keys = keys_remove1 [OF dr assms(2)]
  have np: "cid \<notin> set (nt_pending n)" using d imageI [OF assms(2), of fst] by (auto simp: started_def)
  have small: "cid \<le> rs_next (nt_caller n)" using caller_okD(4) [OF assms(1)] w by (auto simp: waits_def)
  show "caller_ok n'"
  proof (rule caller_okI)
    have "mset (map fst (remove1 (cid, r) (nt_replies n))) = mset (map fst (nt_replies n)) - {#cid#}"
      using assms(2) by (simp add: image_mset_Diff)
    then have "mset (started n') = mset (started n)"
      using assms(2) by (simp add: started_def assms(4)) (metis (no_types) image_eqI fst_conv insert_DiffM set_image_mset set_mset_mset add_mset_add_single)
    then show "mset (started n') = mset [1..<Suc (rs_next (nt_caller n'))]" using caller_okD(1) [OF assms(1)] by (simp add: assms(4) s(1))
    show "waits k (nt_caller n')" if "k \<in> set (nt_pending n') \<or> k \<in> fst ` set (nt_replies n')" for k
    proof -
      have "k \<noteq> cid" "k \<in> set (nt_pending n) \<or> k \<in> fst ` set (nt_replies n)"
        using that np keys(2) by (auto simp: assms(4))
      then show ?thesis using caller_okD(2) [OF assms(1)] s(3) by (simp add: assms(4) waits_def)
    qed
    show "apart (nt_caller n')" using s(2) by (simp add: assms(4))
    show "live_call k (nt_caller n') \<noteq> None \<Longrightarrow> k \<le> rs_next (nt_caller n')" for k
      using caller_okD(4) [OF assms(1), of k] s small by (cases "k = cid") (simp_all add: assms(4))
    show "x = info_reply \<or> x = Rep_failed" if "(k, x) \<in> set (nt_replies n') \<or> (k, x) \<in> set (nt_answered n')" for k x
    proof -
      have "(k, x) \<in> set (nt_replies n) \<or> (k, x) \<in> set (nt_answered n)  \<or> (k, x) = (cid, r)"
        using that subsetD [OF set_remove1_subset, of "(k, x)" "(cid, r)" "nt_replies n"] by (auto simp: assms(4) simp del: in_set_remove1)
      then show ?thesis using caller_okD(5) [OF assms(1)] assms(2) by blast
    qed
  qed
qed

lemma net_inv_complete:
  assumes "net_inv n" and "complete ok (sid, x) (nt_listener n) = Some l" and "(sid, x) \<in> set (ln_ops (nt_listener n))"
    and "ok \<or> (\<forall>v. x \<noteq> Requested v)"
  shows "sessions_ok l" and "waiting_for Command l = 1" and "waiting_for RobotInfo l = 1"
    and "x = Requested v \<Longrightarrow> (sid, Finishing r) \<in> set (ln_ops l) \<Longrightarrow> r = reply_to v"
proof -
  have i: "sessions_ok (nt_listener n)" "waiting_for Command (nt_listener n) = 1" "waiting_for RobotInfo (nt_listener n) = 1"
    using assms(1) by (simp_all add: net_inv_def)
  have d: "distinct (map fst (ln_ops (nt_listener n)))" using i(1) by (simp add: sessions_ok_def)
  note keys = keys_remove1 [OF d assms(3)]
  have "sessions_ok l \<and> waiting_for Command l = 1 \<and> waiting_for RobotInfo l = 1 \<and>
      (x = Requested v \<longrightarrow> (sid, Finishing r) \<in> set (ln_ops l) \<longrightarrow> r = reply_to v)"
  proof (cases x)
    case (Requested w)
    then have ok: "ok" using assms(4) by simp
    obtain l' where l': "complete True (sid, Requested w) (nt_listener n) = Some l'" "sessions_ok l'"
      "ln_ops l' = remove1 (sid, Requested w) (ln_ops (nt_listener n)) @
         [(rs_next (ln_service (nt_listener n)) + 1, Requested w), (sid, Finishing (reply_to w))]"
      using complete_request [OF i(1)] assms(3) Requested by metis
    have "l = l'" using l'(1) assms(2) ok Requested by simp
    moreover have "waiting_for Command l' = 1 \<and> waiting_for RobotInfo l' = 1"
      using waiting_remove1 [OF _ l'(3)] assms(3) Requested i by (cases w) auto
    moreover have "(sid, y) \<notin> set (remove1 (sid, Requested w) (ln_ops (nt_listener n)))" for y
      using keys(2) imageI [of "(sid, y)" _ fst] Requested by auto
    moreover have "sid \<noteq> rs_next (ln_service (nt_listener n)) + 1"
      using i(1) assms(3) by (fastforce simp: sessions_ok_def)
    ultimately show ?thesis using l' Requested by (auto simp del: in_set_remove1)
  next
    case (Finishing q)
    have h: "(sid, Finishing q) \<in> set (ln_ops (nt_listener n))" "\<forall>v. Finishing q = Requested v \<longrightarrow> \<not> ok"
      using assms(3) Finishing by simp_all
    obtain l' where l': "complete ok (sid, Finishing q) (nt_listener n) = Some l'"
      "ln_ops l' = remove1 (sid, Finishing q) (ln_ops (nt_listener n))" "sessions_ok l'"
      by (rule complete_removes [OF i(1) h])
    have "l = l'" using l'(1) assms(2) Finishing by simp
    moreover have "waiting_for Command l' = 1 \<and> waiting_for RobotInfo l' = 1"
      using waiting_remove1 [of sid "Finishing q" _ l' "[]"] assms(3) Finishing i l'(2) by auto
    ultimately show ?thesis using l' Finishing by simp
  qed
  then show "sessions_ok l" "waiting_for Command l = 1" "waiting_for RobotInfo l = 1"
    "x = Requested v \<Longrightarrow> (sid, Finishing r) \<in> set (ln_ops l) \<Longrightarrow> r = reply_to v" by blast+
qed

lemma net_inv_step:
  assumes "net_step n n'" and "net_inv n"
  shows "net_inv n'"
  using assms
proof (induction rule: net_step.induct)
  case (call udata n cid s)
  have c: "caller_ok n" using call.prems by (simp add: net_inv_def)
  have live: "\<forall>k. live_call k (nt_caller n) \<noteq> None \<longrightarrow> k \<le> rs_next (nt_caller n)" using caller_okD(4) [OF c] by blast
  note new = new_query [OF call.hyps caller_okD(3) [OF c] live]
  let ?n = "n\<lparr>nt_caller := s, nt_pending := nt_pending n @ [cid]\<rparr>"
  have small: "k \<le> rs_next (nt_caller n)" if "k \<in> set (started n)" for k
    using started_distinct [OF c] that by auto
  have "caller_ok ?n"
  proof (rule caller_okI)
    have "mset (started ?n) = add_mset cid (mset (started n))" by (simp add: started_def)
    then show "mset (started ?n) = mset [1..<Suc (rs_next (nt_caller ?n))]"
      using caller_okD(1) [OF c] new(1,2) by simp
    show "waits k (nt_caller ?n)" if "k \<in> set (nt_pending ?n) \<or> k \<in> fst ` set (nt_replies ?n)" for k
    proof (cases "k = cid")
      case False
      then have "waits k (nt_caller n)" using that caller_okD(2) [OF c] by auto
      then show ?thesis using new(5) [OF False] by (simp add: waits_def)
    qed (simp add: new(3))
    show "live_call k (nt_caller ?n) \<noteq> None \<Longrightarrow> k \<le> rs_next (nt_caller ?n)" for k
      using caller_okD(4) [OF c, of k] new by (cases "k = cid") auto
    show "x = info_reply \<or> x = Rep_failed" if "(k, x) \<in> set (nt_replies ?n) \<or> (k, x) \<in> set (nt_answered ?n)" for k x
      using caller_okD(5) [OF c, of k x] that by simp
  qed (simp add: new(4))
  then show ?case using call.prems by (simp add: net_inv_def)
next
  case (insert n cid)
  have c: "caller_ok n" using insert.prems by (simp add: net_inv_def)
  note k = insert_query [OF caller_okD(3) [OF c] insert.hyps]
  have "caller_ok (n\<lparr>nt_caller := insert_call cid (nt_caller n)\<rparr>)"
    using c k by (simp add: caller_ok_def started_def waits_def apart_def)
  then show ?case using insert.prems by (simp add: net_inv_def)
next
  case (arrive sid n cid l r)
  have c: "caller_ok n" using arrive.prems by (simp add: net_inv_def)
  note l = net_inv_complete [OF arrive.prems arrive.hyps(3,1)]
  have "r = info_reply" using l(4) [OF _ refl arrive.hyps(4)] by (simp add: reply_to_def)
  then have "caller_ok (n\<lparr>nt_listener := l, nt_pending := remove1 cid (nt_pending n), nt_replies := nt_replies n @ [(cid, r)]\<rparr>)"
    by (intro caller_reply [OF c arrive.hyps(2) _ refl]) simp
  then show ?case using l by (simp add: net_inv_def)
next
  case (other sid n l)
  have "caller_ok (n\<lparr>nt_listener := l\<rparr>)" using other.prems by (simp add: net_inv_def caller_ok_def started_def)
  then show ?case using net_inv_complete [OF other.prems other.hyps(2,1)] by (simp add: net_inv_def)
next
  case (finished sid r n ok l)
  have "caller_ok (n\<lparr>nt_listener := l\<rparr>)" using finished.prems by (simp add: net_inv_def caller_ok_def started_def)
  then show ?case using net_inv_complete [OF finished.prems finished.hyps(2,1)] by (simp add: net_inv_def)
next
  case (lost cid n)
  have c: "caller_ok n" using lost.prems by (simp add: net_inv_def)
  have "caller_ok (n\<lparr>nt_listener := nt_listener n, nt_pending := remove1 cid (nt_pending n), nt_replies := nt_replies n @ [(cid, Rep_failed)]\<rparr>)"
    by (intro caller_reply [OF c lost.hyps _ refl]) simp
  then show ?case using lost.prems by (simp add: net_inv_def)
next
  case (answered cid r n s)
  have "caller_ok n" using answered.prems by (simp add: net_inv_def)
  from caller_answer(1) [OF this answered.hyps refl] show ?case using answered.prems by (simp add: net_inv_def)
qed

lemma net_reach_inv: "net_reach n \<Longrightarrow> net_inv n"
  unfolding net_reach_def by (induction rule: rtranclp_induct) (auto intro: net_inv_init net_inv_step)

section \<open>Every call is answered\<close>


text \<open>One step towards the end: an arrival, a completion of \<open>Finish\<close>, or an answer.\<close>

definition finishing :: "rpc_net \<Rightarrow> nat" where
  "finishing n = length (filter (\<lambda>x. \<exists>r. snd x = Finishing r) (ln_ops (nt_listener n)))"

definition work :: "rpc_net \<Rightarrow> nat" where
  "work n = 3 * length (nt_pending n) + length (nt_replies n) + finishing n"

definition keeps :: "rpc_net \<Rightarrow> rpc_net \<Rightarrow> bool" where
  "keeps n n' \<longleftrightarrow> rs_next (nt_caller n') = rs_next (nt_caller n) \<and>
     (\<forall>cid \<in> set (nt_pending n). cid \<in> set (nt_pending n') \<or> (cid, info_reply) \<in> set (nt_replies n') \<union> set (nt_answered n')) \<and>
     set (nt_replies n) \<union> set (nt_answered n) \<subseteq> set (nt_replies n') \<union> set (nt_answered n')"

lemma keeps_refl: "keeps n n"
  by (auto simp: keeps_def)

lemma keeps_trans: "keeps n n1 \<Longrightarrow> keeps n1 n2 \<Longrightarrow> keeps n n2"
  unfolding keeps_def by (intro conjI ballI) (metis, blast, blast)

lemma waiting_obtain: "waiting_for v l = 1 \<Longrightarrow> \<exists>sid. (sid, Requested v) \<in> set (ln_ops l)"
  by (cases "filter (\<lambda>x. snd x = Requested v) (ln_ops l)")
    (auto simp: waiting_for_def filter_eq_Cons_iff)

lemma progress:
  assumes "net_inv n" and "work n > 0"
  shows "\<exists>n'. net_step n n' \<and> work n' < work n \<and> keeps n n'"
proof -
  have c: "caller_ok n" and s: "sessions_ok (nt_listener n)" and w: "waiting_for RobotInfo (nt_listener n) = 1"
    using assms(1) by (simp_all add: net_inv_def)
  consider "nt_pending n \<noteq> []" | "nt_replies n \<noteq> []" | "finishing n > 0" using assms(2) by (auto simp: work_def)
  then show ?thesis
  proof cases
    case 1
    then obtain cid where cid: "cid \<in> set (nt_pending n)" by fastforce
    obtain sid where sid: "(sid, Requested RobotInfo) \<in> set (ln_ops (nt_listener n))" using waiting_obtain [OF w] by blast
    obtain l where l: "complete True (sid, Requested RobotInfo) (nt_listener n) = Some l"
      "ln_ops l = remove1 (sid, Requested RobotInfo) (ln_ops (nt_listener n)) @
         [(rs_next (ln_service (nt_listener n)) + 1, Requested RobotInfo), (sid, Finishing (reply_to RobotInfo))]"
      using complete_request [OF s sid] by metis
    let ?n = "n\<lparr>nt_listener := l, nt_pending := remove1 cid (nt_pending n), nt_replies := nt_replies n @ [(cid, info_reply)]\<rparr>"
    have "(sid, Finishing info_reply) \<in> set (ln_ops l)" by (simp add: l(2) reply_to_def)
    then have "net_step n ?n" by (rule net_step.arrive [OF sid cid l(1)])
    moreover have "finishing ?n \<le> finishing n + 1"
      by (simp add: finishing_def l(2) filter_remove1 length_remove1)
    moreover obtain k where k: "length (nt_pending n) = Suc k" using 1 by (cases "nt_pending n") auto
    moreover have "length (remove1 cid (nt_pending n)) = k" using cid k by (simp add: length_remove1)
    ultimately have "work ?n < work n" by (simp add: work_def)
    moreover have "keeps n ?n" by (auto simp: keeps_def)
    ultimately show ?thesis using \<open>net_step n ?n\<close> by blast
  next
    case 2
    then obtain cid r where r: "(cid, r) \<in> set (nt_replies n)" by (cases "nt_replies n") auto
    then have "waits cid (nt_caller n)" using caller_okD(2) [OF c] by force
    from answer_query [OF this caller_okD(3) [OF c], of r] obtain s' where s': "answer cid r (nt_caller n) = Some s'" by auto
    let ?n = "n\<lparr>nt_caller := s', nt_replies := remove1 (cid, r) (nt_replies n), nt_answered := nt_answered n @ [(cid, r)]\<rparr>"
    have "net_step n ?n" by (rule net_step.answered [OF r s'])
    moreover have "length (nt_replies n) > 0" using 2 by simp
    then have "work ?n < work n" using r by (simp add: work_def finishing_def length_remove1)
    moreover have "set (nt_replies n) \<subseteq> insert (cid, r) (set (remove1 (cid, r) (nt_replies n)))"
      by (metis in_set_remove1 insertCI subsetI)
    then have "keeps n ?n"
      using caller_answer(2) [OF c r s' refl] by (auto simp: keeps_def simp del: in_set_remove1)
    ultimately show ?thesis by blast
  next
    case 3
    then obtain sid r where x: "(sid, Finishing r) \<in> set (ln_ops (nt_listener n))"
      by (auto simp: finishing_def filter_empty_conv)
    obtain l where l: "complete True (sid, Finishing r) (nt_listener n) = Some l"
      "ln_ops l = remove1 (sid, Finishing r) (ln_ops (nt_listener n))"
      by (rule complete_removes [OF s x]) auto
    let ?n = "n\<lparr>nt_listener := l\<rparr>"
    have "net_step n ?n" by (rule net_step.finished [OF x l(1)])
    moreover have "work ?n < work n"
      using x 3 by (auto simp: work_def finishing_def l(2) filter_remove1 length_remove1)
    moreover have "keeps n ?n" by (auto simp: keeps_def)
    ultimately show ?thesis by blast
  qed
qed

lemma settles:
  "net_inv n \<Longrightarrow> \<exists>n'. net_step\<^sup>*\<^sup>* n n' \<and> work n' = 0 \<and> keeps n n' \<and> net_inv n'"
proof (induction "work n" arbitrary: n rule: less_induct)
  case less
  show ?case
  proof (cases "work n = 0")
    case True
    then show ?thesis using less.prems keeps_refl by blast
  next
    case False
    then obtain n1 where n1: "net_step n n1" "work n1 < work n" "keeps n n1" using progress [OF less.prems] by auto
    from less.hyps [OF n1(2) net_inv_step [OF n1(1) less.prems]] obtain n' where
      "net_step\<^sup>*\<^sup>* n1 n'" "work n' = 0" "keeps n1 n'" "net_inv n'" by blast
    then show ?thesis using n1 keeps_trans by (meson converse_rtranclp_into_rtranclp)
  qed
qed


definition ex_query :: rpc_net where
  "ex_query = net_init\<lparr>nt_caller := snd (OnQueryRobotInfo 7 rpc_new), nt_pending := [1]\<rparr>"

lemma ex_query_reach: "net_reach ex_query"
proof -
  have "OnQueryRobotInfo 7 rpc_new = (1, snd (OnQueryRobotInfo 7 rpc_new))"
    by (simp add: OnQueryRobotInfo_def construct_def rpc_new_def Let_def)
  then have "net_step net_init ex_query"
    using net_step.call [of 7 net_init 1 "snd (OnQueryRobotInfo 7 rpc_new)"] by (simp add: ex_query_def net_init_def)
  then show ?thesis by (simp add: net_reach_def)
qed



end
