(* ===== verification/GnuPlot.thy ===== *)
theory GnuPlot
  imports Prelude "HOL-Library.Monad_Syntax"
begin

text \<open>
  \<open>GnuPlot<m_type>\<close> (dtGnuPlot.h, dtGnuPlot.tpp): commands for the program gnuplot, written to
  a pipe. Settings are sent at once; a plot command is put together in an array of 4096 bytes
  by any number of calls and sent by \<open>Draw\<close>; data given as arrays is written to numbered
  files first. An operation is \<open>None\<close> where the code has no defined behaviour: output to a
  pipe that was not opened, an access outside an array.
\<close>

section \<open>State\<close>

abbreviation QUOT :: char where "QUOT \<equiv> CHR 0x22"
abbreviation APOS :: char where "APOS \<equiv> CHR 0x27"
abbreviation TAB :: char where "TAB \<equiv> CHR 0x09"

text \<open>
  \<open>gp_sent\<close>: the bytes written to the pipe. \<open>gp_opens\<close>: whether the next calls of \<open>fopen\<close>
  succeed. \<open>gp_files\<close>: the files written, in order. \<open>gp_this\<close>: the address of the object as
  \<open>%p\<close> prints it, which is part of the names of the files.
\<close>

record gnuplot =
  gp_pipe :: bool
  gp_sent :: "char list"
  gp_opens :: "bool list"
  gp_files :: "(char list \<times> char list) list"
  gp_this :: "char list"
  gp_dataNum :: int
  gp_filePath :: "char list list"
  gp_firstPlot :: bool
  gp_strCmd :: "char list"
  gp_strCmdPos :: int

definition fputs :: "char list \<Rightarrow> gnuplot \<Rightarrow> gnuplot option" where
  "fputs s g = (if gp_pipe g then Some (g\<lparr>gp_sent := gp_sent g @ s\<rparr>) else None)"

definition fputs_line :: "char list \<Rightarrow> gnuplot \<Rightarrow> gnuplot option" where
  "fputs_line s g = do { g \<leftarrow> fputs s g; fputs [NL] g }"

text \<open>
  The constructors: \<open>opened\<close> is whether \<open>popen\<close> succeeds. The members \<open>m_dataNum\<close>,
  \<open>m_filePath\<close>, \<open>m_strCmd\<close> and \<open>m_strCmdPos\<close> are left as they are in the memory of the object
  \<open>mem\<close>.
\<close>

definition gnuplot_init :: "char list" where
  "gnuplot_init = ''reset'' @ [NL] @ ''set autoscale'' @ [NL] @ ''set grid x y z vertical'' @ [NL] @
     ''set xyplane at 0'' @ [NL]"

definition GnuPlot_named :: "bool \<Rightarrow> gnuplot \<Rightarrow> gnuplot" where
  "GnuPlot_named opened mem =
     mem\<lparr>gp_pipe := opened, gp_firstPlot := False, gp_sent := (if opened then gnuplot_init else [])\<rparr>"

definition gnuplot_command :: "bool \<Rightarrow> char list" where
  "gnuplot_command persist = (if persist then ''gnuplot -persist -slow'' else ''gnuplot -slow'')"

definition GnuPlot_new :: "(char list \<Rightarrow> bool) \<Rightarrow> bool \<Rightarrow> gnuplot \<Rightarrow> gnuplot" where
  "GnuPlot_new popen persist mem = GnuPlot_named (popen (gnuplot_command persist)) mem"

section \<open>Settings\<close>

text \<open>\<open>vsnprintf(strCmd, n, ...)\<close> into a local array of \<open>n\<close> bytes, read back as a string.\<close>

definition local_text :: "nat \<Rightarrow> char list \<Rightarrow> char list" where
  "local_text n s = cstr (take (n - 1) s)"

definition Cmd :: "char list \<Rightarrow> gnuplot \<Rightarrow> gnuplot option" where
  "Cmd rtext g = (if \<not> gp_pipe g then Some g else fputs_line (local_text 1024 rtext) g)"

definition SetGrid :: "bool \<Rightarrow> gnuplot \<Rightarrow> gnuplot option" where
  "SetGrid on g = (if on then fputs (''set grid x y z vertical'' @ [NL]) g else fputs (''unset grid'' @ [NL]) g)"

definition quoted :: "char list \<Rightarrow> char list" where
  "quoted s = QUOT # s @ [QUOT]"

text \<open>The four setters of a title or label differ in the word \<open>what\<close> alone.\<close>

definition label_text :: "char list \<Rightarrow> char list \<Rightarrow> int \<Rightarrow> char list option \<Rightarrow> char list" where
  "label_text what nm sz font =
     (case font of
        Some f \<Rightarrow>
          if sz > 0 then ''set '' @ what @ '' '' @ quoted nm @ '' font '' @ quoted (f @ '','' @ int_str sz)
          else ''set '' @ what @ '' '' @ quoted nm @ '' font '' @ quoted (f @ '',10'')
      | None \<Rightarrow>
          if sz > 0 then ''set '' @ what @ '' '' @ quoted nm @ '' font '' @ quoted ('','' @ int_str sz)
          else ''set '' @ what @ '' '' @ quoted nm)"

definition SetTitle :: "char list \<Rightarrow> int \<Rightarrow> char list option \<Rightarrow> gnuplot \<Rightarrow> gnuplot option" where
  "SetTitle nm sz font g = fputs_line (local_text 1024 (label_text ''title'' nm sz font)) g"

definition SetXlabel :: "char list \<Rightarrow> int \<Rightarrow> char list option \<Rightarrow> gnuplot \<Rightarrow> gnuplot option" where
  "SetXlabel nm sz font g = fputs_line (local_text 1024 (label_text ''xlabel'' nm sz font)) g"

definition SetYlabel :: "char list \<Rightarrow> int \<Rightarrow> char list option \<Rightarrow> gnuplot \<Rightarrow> gnuplot option" where
  "SetYlabel nm sz font g = fputs_line (local_text 1024 (label_text ''ylabel'' nm sz font)) g"

definition SetZlabel :: "char list \<Rightarrow> int \<Rightarrow> char list option \<Rightarrow> gnuplot \<Rightarrow> gnuplot option" where
  "SetZlabel nm sz font g = fputs_line (local_text 1024 (label_text ''zlabel'' nm sz font)) g"

definition set_tics :: "char list \<Rightarrow> int \<Rightarrow> int \<Rightarrow> gnuplot \<Rightarrow> gnuplot option" where
  "set_tics axis majorTic minorTic g = do {
     g \<leftarrow> fputs_line (local_text 64
            (if majorTic < 0 then ''unset '' @ axis @ ''tics''
             else if majorTic = 0 then ''set '' @ axis @ ''tics autofreq''
             else ''set '' @ axis @ ''tics '' @ int_str majorTic)) g;
     fputs_line (local_text 64
            (if minorTic < 0 then ''unset m'' @ axis @ ''tics''
             else if minorTic = 0 then ''set m'' @ axis @ ''tics''
             else ''set m'' @ axis @ ''tics '' @ int_str minorTic)) g }"

definition SetXtics :: "int \<Rightarrow> int \<Rightarrow> gnuplot \<Rightarrow> gnuplot option" where "SetXtics = set_tics ''x''"
definition SetYtics :: "int \<Rightarrow> int \<Rightarrow> gnuplot \<Rightarrow> gnuplot option" where "SetYtics = set_tics ''y''"
definition SetZtics :: "int \<Rightarrow> int \<Rightarrow> gnuplot \<Rightarrow> gnuplot option" where "SetZtics = set_tics ''z''"

text \<open>\<open>fmt\<close> is what the conversion \<open>%f\<close> makes of a number.\<close>

definition set_range :: "('m \<Rightarrow> char list) \<Rightarrow> char list \<Rightarrow> 'm \<Rightarrow> 'm \<Rightarrow> gnuplot \<Rightarrow> gnuplot option" where
  "set_range fmt axis lo hi g = fputs_line (local_text 64 (''set '' @ axis @ ''range ['' @ fmt lo @ '':'' @ fmt hi @ '']'')) g"

definition SetXrange :: "('m \<Rightarrow> char list) \<Rightarrow> 'm \<Rightarrow> 'm \<Rightarrow> gnuplot \<Rightarrow> gnuplot option" where "SetXrange fmt = set_range fmt ''x''"
definition SetYrange :: "('m \<Rightarrow> char list) \<Rightarrow> 'm \<Rightarrow> 'm \<Rightarrow> gnuplot \<Rightarrow> gnuplot option" where "SetYrange fmt = set_range fmt ''y''"
definition SetZrange :: "('m \<Rightarrow> char list) \<Rightarrow> 'm \<Rightarrow> 'm \<Rightarrow> gnuplot \<Rightarrow> gnuplot option" where "SetZrange fmt = set_range fmt ''z''"

text \<open>
  \<open>SetMultiPlot\<close>: every \<open>snprintf\<close> writes to the start of the array, not behind what is there.
\<close>

definition multiplot_text :: "int \<Rightarrow> int \<Rightarrow> char list option \<Rightarrow> int \<Rightarrow> char list option \<Rightarrow> char list" where
  "multiplot_text row col title fontSz font =
     (let strCmd = ''set multiplot layout '' @ int_str row @ '','' @ int_str col;
          strCmd = (case title of Some t \<Rightarrow> '' title '' @ quoted t | None \<Rightarrow> strCmd)
      in case font of
           Some f \<Rightarrow> if fontSz > 0 then '' font '' @ quoted (f @ '':'' @ int_str fontSz) else '' font '' @ quoted (f @ '':'')
         | None \<Rightarrow> if fontSz > 0 then '' font '' @ quoted ('':'' @ int_str fontSz) else strCmd)"

definition SetMultiPlot :: "int \<Rightarrow> int \<Rightarrow> char list option \<Rightarrow> int \<Rightarrow> char list option \<Rightarrow> gnuplot \<Rightarrow> gnuplot option" where
  "SetMultiPlot row col title fontSz font g = fputs_line (local_text 1024 (multiplot_text row col title fontSz font)) g"

section \<open>Putting a plot command together\<close>

text \<open>
  \<open>m_strCmdPos += snprintf(m_strCmd + m_strCmdPos, 4096 - m_strCmdPos, ...)\<close>: the returned
  length is that of the whole text, so the position can get beyond the array; the size is
  then a negative \<open>int\<close> turned into a \<open>size_t\<close>, and the next call writes outside.
\<close>

definition put :: "char list \<Rightarrow> gnuplot \<Rightarrow> gnuplot option" where
  "put s g =
     (let pos = gp_strCmdPos g in
      if 0 \<le> pos \<and> pos \<le> 4096 then
        Some (g\<lparr>gp_strCmd := snprintf_at (gp_strCmd g) (nat pos) (nat (4096 - pos)) (Some s),
                gp_strCmdPos := pos + int (length s)\<rparr>)
      else None)"

fun put_opt :: "char list option \<Rightarrow> gnuplot \<Rightarrow> gnuplot option" where
  "put_opt None g = Some g"
| "put_opt (Some s) g = put s g"

definition begin_item :: "char list \<Rightarrow> char list \<Rightarrow> gnuplot \<Rightarrow> gnuplot option" where
  "begin_item kind item g =
     (if \<not> gp_firstPlot g then
        Some (g\<lparr>gp_firstPlot := True, gp_strCmd := snprintf_at (replicate 4096 NUL) 0 4096 (Some (kind @ item)),
                gp_strCmdPos := int (length (kind @ item))\<rparr>)
      else put ('', '' @ item) g)"

definition using2 :: "char list \<Rightarrow> int \<Rightarrow> int \<Rightarrow> char list" where
  "using2 f i j = [APOS] @ f @ [APOS] @ '' using '' @ int_str i @ '':'' @ int_str j"

definition using3 :: "char list \<Rightarrow> int \<Rightarrow> int \<Rightarrow> int \<Rightarrow> char list" where
  "using3 f i j k = [APOS] @ f @ [APOS] @ '' using '' @ int_str i @ '':'' @ int_str j @ '':'' @ int_str k"

text \<open>The options; \<open>pointType\<close> is a signed \<open>char\<close>, printed as a number or as the character.\<close>

definition opt_color :: "char list option \<Rightarrow> char list option" where
  "opt_color c = map_option (\<lambda>s. '' lc rgb '' @ quoted s) c"

definition opt_title :: "char list option \<Rightarrow> char list option" where
  "opt_title t = map_option (\<lambda>s. '' title '' @ quoted s) t"

definition opt_pattern :: "char list option \<Rightarrow> char list option" where
  "opt_pattern t = map_option (\<lambda>s. '' dt '' @ quoted s) t"

definition opt_width :: "int \<Rightarrow> char list option" where
  "opt_width lw = (if lw > 0 then Some ('' lw '' @ int_str lw) else None)"

definition opt_size :: "int \<Rightarrow> char list option" where
  "opt_size ps = (if ps > 0 then Some ('' ps '' @ int_str ps) else None)"

definition opt_interval :: "int \<Rightarrow> char list option" where
  "opt_interval n = (if n \<noteq> 0 then Some ('' pi '' @ int_str n) else None)"

definition point_char :: "int \<Rightarrow> char list" where
  "point_char pt = '' pt '' @ quoted [char_of (nat (pt mod 256))]"

definition point_type0 :: "int \<Rightarrow> char list" where
  "point_type0 pt = (if 0 \<le> pt \<and> pt < 16 then '' pt '' @ int_str pt else point_char pt)"

definition point_type1 :: "int \<Rightarrow> char list" where
  "point_type1 pt = (if 0 < pt \<and> pt < 16 then '' pt '' @ int_str pt else point_char pt)"

subsection \<open>Plots of columns of a file\<close>

definition Point2 :: "char list \<Rightarrow> int \<Rightarrow> int \<Rightarrow> char list option \<Rightarrow> char list option \<Rightarrow> int \<Rightarrow> int \<Rightarrow> gnuplot \<Rightarrow> gnuplot option" where
  "Point2 f i j title color pt ps g = do {
     g \<leftarrow> begin_item ''plot '' (using2 f i j @ '' with points'') g;
     g \<leftarrow> put_opt (opt_color color) g;
     g \<leftarrow> put (point_type0 pt) g;
     g \<leftarrow> put_opt (opt_size ps) g;
     put_opt (opt_title title) g }"

definition Line2 :: "char list \<Rightarrow> int \<Rightarrow> int \<Rightarrow> char list option \<Rightarrow> char list option \<Rightarrow> int \<Rightarrow> gnuplot \<Rightarrow> gnuplot option" where
  "Line2 f i j title color lw g = do {
     g \<leftarrow> begin_item ''plot '' (using2 f i j @ '' with lines'') g;
     g \<leftarrow> put_opt (opt_color color) g;
     g \<leftarrow> put_opt (opt_width lw) g;
     put_opt (opt_title title) g }"

definition LinePoint2 :: "char list \<Rightarrow> int \<Rightarrow> int \<Rightarrow> char list option \<Rightarrow> char list option \<Rightarrow> int \<Rightarrow> int \<Rightarrow> int \<Rightarrow> int \<Rightarrow> gnuplot \<Rightarrow> gnuplot option" where
  "LinePoint2 f i j title color lw pt ps ival g = do {
     g \<leftarrow> begin_item ''plot '' (using2 f i j @ '' with linespoints'') g;
     g \<leftarrow> put_opt (opt_color color) g;
     g \<leftarrow> put_opt (opt_width lw) g;
     g \<leftarrow> put (point_type1 pt) g;
     g \<leftarrow> put_opt (opt_size ps) g;
     g \<leftarrow> put_opt (opt_interval ival) g;
     put_opt (opt_title title) g }"

definition Dash2 :: "char list \<Rightarrow> int \<Rightarrow> int \<Rightarrow> char list option \<Rightarrow> char list option \<Rightarrow> char list option \<Rightarrow> int \<Rightarrow> gnuplot \<Rightarrow> gnuplot option" where
  "Dash2 f i j title pattern color lw g = do {
     g \<leftarrow> begin_item ''plot '' (using2 f i j @ '' with lines'') g;
     g \<leftarrow> put_opt (opt_color color) g;
     g \<leftarrow> put_opt (opt_width lw) g;
     g \<leftarrow> put_opt (opt_pattern pattern) g;
     put_opt (opt_title title) g }"

definition Point3 :: "char list \<Rightarrow> int \<Rightarrow> int \<Rightarrow> int \<Rightarrow> char list option \<Rightarrow> char list option \<Rightarrow> int \<Rightarrow> int \<Rightarrow> gnuplot \<Rightarrow> gnuplot option" where
  "Point3 f i j k title color pt ps g = do {
     g \<leftarrow> begin_item ''splot '' (using3 f i j k @ '' with points'') g;
     g \<leftarrow> put_opt (opt_color color) g;
     g \<leftarrow> put (point_type1 pt) g;
     g \<leftarrow> put_opt (opt_size ps) g;
     put_opt (opt_title title) g }"

definition Line3 :: "char list \<Rightarrow> int \<Rightarrow> int \<Rightarrow> int \<Rightarrow> char list option \<Rightarrow> char list option \<Rightarrow> int \<Rightarrow> gnuplot \<Rightarrow> gnuplot option" where
  "Line3 f i j k title color lw g = do {
     g \<leftarrow> begin_item ''splot '' (using3 f i j k @ '' with lines'') g;
     g \<leftarrow> put_opt (opt_color color) g;
     g \<leftarrow> put_opt (opt_width lw) g;
     put_opt (opt_title title) g }"

definition LinePoint3 :: "char list \<Rightarrow> int \<Rightarrow> int \<Rightarrow> int \<Rightarrow> char list option \<Rightarrow> char list option \<Rightarrow> int \<Rightarrow> int \<Rightarrow> int \<Rightarrow> int \<Rightarrow> gnuplot \<Rightarrow> gnuplot option" where
  "LinePoint3 f i j k title color lw pt ps ival g = do {
     g \<leftarrow> begin_item ''splot '' (using3 f i j k @ '' with linespoints'') g;
     g \<leftarrow> put_opt (opt_color color) g;
     g \<leftarrow> put_opt (opt_width lw) g;
     g \<leftarrow> put (point_type1 pt) g;
     g \<leftarrow> put_opt (opt_size ps) g;
     g \<leftarrow> put_opt (opt_interval ival) g;
     put_opt (opt_title title) g }"

definition Dash3 :: "char list \<Rightarrow> int \<Rightarrow> int \<Rightarrow> int \<Rightarrow> char list option \<Rightarrow> char list option \<Rightarrow> int \<Rightarrow> char list option \<Rightarrow> gnuplot \<Rightarrow> gnuplot option" where
  "Dash3 f i j k title color lw pattern g = do {
     g \<leftarrow> begin_item ''splot '' (using3 f i j k @ '' with lines'') g;
     g \<leftarrow> put_opt (opt_color color) g;
     g \<leftarrow> put_opt (opt_width lw) g;
     g \<leftarrow> put_opt (opt_pattern pattern) g;
     put_opt (opt_title title) g }"

subsection \<open>Data in arrays\<close>

text \<open>
  The name of the file number \<open>n\<close>: the format is "\tmp\%p-%02d.dat", in which \<open>\t\<close> is a
  tabulator and \<open>\%\<close> a per cent sign.
\<close>

definition pad2 :: "int \<Rightarrow> char list" where
  "pad2 n = (if 0 \<le> n \<and> n < 10 then ''0'' @ int_str n else int_str n)"

definition dat_name :: "gnuplot \<Rightarrow> int \<Rightarrow> char list" where
  "dat_name g n = TAB # ''mp'' @ gp_this g @ ''-'' @ pad2 n @ ''.dat''"

text \<open>\<open>fopen\<close> for writing, the writing and \<open>fclose\<close>; the result is whether it was opened.\<close>

definition write_file :: "char list \<Rightarrow> char list \<Rightarrow> gnuplot \<Rightarrow> bool \<times> gnuplot" where
  "write_file path content g =
     (case gp_opens g of
        True # os \<Rightarrow> (True, g\<lparr>gp_opens := os, gp_files := gp_files g @ [(path, content)]\<rparr>)
      | False # os \<Rightarrow> (False, g\<lparr>gp_opens := os\<rparr>)
      | [] \<Rightarrow> (False, g))"

text \<open>The loops over \<open>dataLen\<close> elements, \<open>None\<close> when an array is shorter.\<close>

definition rows_text :: "int \<Rightarrow> nat \<Rightarrow> (nat \<Rightarrow> char list) \<Rightarrow> char list option" where
  "rows_text dataLen avail row =
     (if nat dataLen \<le> avail then Some (concat (map row [0..<nat dataLen])) else None)"

definition make_file :: "int \<Rightarrow> nat \<Rightarrow> (nat \<Rightarrow> char list) \<Rightarrow> gnuplot \<Rightarrow> (int \<times> gnuplot) option" where
  "make_file dataLen avail row g =
     (let n = gp_dataNum g in
      if 0 \<le> n \<and> nat n < length (gp_filePath g) then
        let g = g\<lparr>gp_filePath := (gp_filePath g)[nat n := snprintf_at (replicate 256 NUL) 0 256 (Some (dat_name g n))]\<rparr> in
        case gp_opens g of
          True # _ \<Rightarrow>
            (case rows_text dataLen avail row of
               None \<Rightarrow> None
             | Some content \<Rightarrow> Some (0, snd (write_file (cstr (gp_filePath g ! nat n)) content g)))
        | _ \<Rightarrow> Some (-1, snd (write_file (cstr (gp_filePath g ! nat n)) [] g))
      else None)"

definition MakeDataFile1 :: "('m \<Rightarrow> char list) \<Rightarrow> 'm list \<Rightarrow> int \<Rightarrow> gnuplot \<Rightarrow> (int \<times> gnuplot) option" where
  "MakeDataFile1 fmt y dataLen g = make_file dataLen (length y) (\<lambda>i. fmt (y ! i) @ [NL]) g"

definition MakeDataFile2 :: "('m \<Rightarrow> char list) \<Rightarrow> 'm list \<Rightarrow> 'm list \<Rightarrow> int \<Rightarrow> gnuplot \<Rightarrow> (int \<times> gnuplot) option" where
  "MakeDataFile2 fmt x y dataLen g =
     make_file dataLen (min (length x) (length y)) (\<lambda>i. fmt (x ! i) @ [TAB] @ fmt (y ! i) @ [NL]) g"

definition MakeDataFile3 :: "('m \<Rightarrow> char list) \<Rightarrow> 'm list \<Rightarrow> 'm list \<Rightarrow> 'm list \<Rightarrow> int \<Rightarrow> gnuplot \<Rightarrow> (int \<times> gnuplot) option" where
  "MakeDataFile3 fmt x y z dataLen g =
     make_file dataLen (min (length x) (min (length y) (length z)))
       (\<lambda>i. fmt (x ! i) @ [TAB] @ fmt (y ! i) @ [TAB] @ fmt (z ! i) @ [NL]) g"

text \<open>
  What the overloads for arrays have in common: \<open>draw\<close> is the overload for columns of a file.
  \<open>x\<close> is \<open>None\<close> for a null pointer.
\<close>

definition finish_data :: "(char list \<Rightarrow> gnuplot \<Rightarrow> gnuplot option) \<Rightarrow> (int \<times> gnuplot) \<Rightarrow> (int \<times> gnuplot) option" where
  "finish_data draw r =
     (case r of (rc, g) \<Rightarrow>
        if rc \<noteq> 0 then Some (-1, g)
        else do {
          g \<leftarrow> draw (cstr (gp_filePath g ! nat (gp_dataNum g))) g;
          Some (0, g\<lparr>gp_dataNum := gp_dataNum g + 1\<rparr>) })"

definition data_plot2 ::
    "('m \<Rightarrow> char list) \<Rightarrow> 'm list option \<Rightarrow> 'm list \<Rightarrow> int \<Rightarrow> (char list \<Rightarrow> int \<Rightarrow> int \<Rightarrow> gnuplot \<Rightarrow> gnuplot option) \<Rightarrow>
     gnuplot \<Rightarrow> (int \<times> gnuplot) option" where
  "data_plot2 fmt x y dataLen draw g =
     (if gp_dataNum g \<ge> 63 then Some (-1, g)
      else case x of
             Some x \<Rightarrow> do { r \<leftarrow> MakeDataFile2 fmt x y dataLen g; finish_data (\<lambda>f. draw f 1 2) r }
           | None \<Rightarrow> do { r \<leftarrow> MakeDataFile1 fmt y dataLen g; finish_data (\<lambda>f. draw f 0 1) r })"

definition data_plot3 ::
    "('m \<Rightarrow> char list) \<Rightarrow> 'm list \<Rightarrow> 'm list \<Rightarrow> 'm list \<Rightarrow> int \<Rightarrow> (char list \<Rightarrow> int \<Rightarrow> int \<Rightarrow> int \<Rightarrow> gnuplot \<Rightarrow> gnuplot option) \<Rightarrow>
     gnuplot \<Rightarrow> (int \<times> gnuplot) option" where
  "data_plot3 fmt x y z dataLen draw g =
     (if gp_dataNum g \<ge> 63 then Some (-1, g)
      else do { r \<leftarrow> MakeDataFile3 fmt x y z dataLen g; finish_data (\<lambda>f. draw f 1 2 3) r })"

definition Point2_data where
  "Point2_data fmt x y dataLen title color pt ps = data_plot2 fmt x y dataLen (\<lambda>f i j. Point2 f i j title color pt ps)"
definition Line2_data where
  "Line2_data fmt x y dataLen title color lw = data_plot2 fmt x y dataLen (\<lambda>f i j. Line2 f i j title color lw)"
definition LinePoint2_data where
  "LinePoint2_data fmt x y dataLen title color lw pt ps ival =
     data_plot2 fmt x y dataLen (\<lambda>f i j. LinePoint2 f i j title color lw pt ps ival)"
definition Dash2_data where
  "Dash2_data fmt x y dataLen title pattern color lw = data_plot2 fmt x y dataLen (\<lambda>f i j. Dash2 f i j title pattern color lw)"
definition Point3_data where
  "Point3_data fmt x y z dataLen title color pt ps = data_plot3 fmt x y z dataLen (\<lambda>f i j k. Point3 f i j k title color pt ps)"
definition Line3_data where
  "Line3_data fmt x y z dataLen title color lw = data_plot3 fmt x y z dataLen (\<lambda>f i j k. Line3 f i j k title color lw)"
definition LinePoint3_data where
  "LinePoint3_data fmt x y z dataLen title color lw pt ps ival =
     data_plot3 fmt x y z dataLen (\<lambda>f i j k. LinePoint3 f i j k title color lw pt ps ival)"
definition Dash3_data where
  "Dash3_data fmt x y z dataLen title color lw pattern = data_plot3 fmt x y z dataLen (\<lambda>f i j k. Dash3 f i j k title color lw pattern)"

subsection \<open>Columns of the data set by SetData\<close>

text \<open>
  \<open>SetData(filePath)\<close> copies as many bytes as the whole array has, 64 times 256, from the
  string it is given; \<open>obj\<close> is the object the string is in.
\<close>

definition SetData_path :: "char list \<Rightarrow> gnuplot \<Rightarrow> gnuplot option" where
  "SetData_path obj g =
     (if 64 * 256 \<le> length obj then Some (g\<lparr>gp_filePath := map (\<lambda>i. take 256 (drop (256 * i) obj)) [0..<64]\<rparr>)
      else None)"

text \<open>
  \<open>SetData(mat)\<close>: the name is that of file 63, the file opened is the one whose name is in
  \<open>m_filePath[m_dataNum]\<close>.
\<close>

definition SetData_mat :: "('m \<Rightarrow> char list) \<Rightarrow> nat \<Rightarrow> nat \<Rightarrow> 'm list \<Rightarrow> gnuplot \<Rightarrow> (int \<times> gnuplot) option" where
  "SetData_mat fmt row col mat g =
     (let g = g\<lparr>gp_filePath := (gp_filePath g)[63 := snprintf_at (replicate 256 NUL) 0 256 (Some (dat_name g 63))]\<rparr>;
          n = gp_dataNum g
      in if \<not> (0 \<le> n \<and> nat n < length (gp_filePath g)) then None
         else
           let path = cstr (gp_filePath g ! nat n) in
           case gp_opens g of
             True # _ \<Rightarrow>
               if length mat < row * col then None
               else Some (0, snd (write_file path (concat (map (\<lambda>i.
                      concat (map (\<lambda>j. fmt (mat ! (i * col + j)) @ [TAB]) [0..<col]) @ [NL]) [0..<row])) g))
           | _ \<Rightarrow> Some (-1, snd (write_file path [] g)))"

definition with_data :: "(char list \<Rightarrow> gnuplot \<Rightarrow> gnuplot option) \<Rightarrow> gnuplot \<Rightarrow> (int \<times> gnuplot) option" where
  "with_data draw g =
     (if gp_filePath g ! 63 ! 0 = NUL then Some (-1, g)
      else do { g \<leftarrow> draw (cstr (gp_filePath g ! 63)) g; Some (0, g) })"

definition Point2_cols where "Point2_cols i j title color pt ps = with_data (\<lambda>f. Point2 f i j title color pt ps)"
definition Line2_cols where "Line2_cols i j title color lw = with_data (\<lambda>f. Line2 f i j title color lw)"
definition LinePoint2_cols where
  "LinePoint2_cols i j title color lw pt ps ival = with_data (\<lambda>f. LinePoint2 f i j title color lw pt ps ival)"
definition Dash2_cols where "Dash2_cols i j title pattern color lw = with_data (\<lambda>f. Dash2 f i j title pattern color lw)"
definition Point3_cols where "Point3_cols i j k title color pt ps = with_data (\<lambda>f. Point3 f i j k title color pt ps)"
definition Line3_cols where "Line3_cols i j k title color lw = with_data (\<lambda>f. Line3 f i j k title color lw)"
definition LinePoint3_cols where
  "LinePoint3_cols i j k title color lw pt ps ival = with_data (\<lambda>f. LinePoint3 f i j k title color lw pt ps ival)"
definition Dash3_cols where "Dash3_cols i j k title color lw pattern = with_data (\<lambda>f. Dash3 f i j k title color lw pattern)"

subsection \<open>Drawing\<close>

text \<open>\<open>Draw\<close>: \<open>m_firstPlot\<close> stays set, so the next plot is added to those already drawn.\<close>

definition Draw :: "gnuplot \<Rightarrow> gnuplot option" where
  "Draw g = do {
     g \<leftarrow> fputs (''clear'' @ [NL]) g;
     if gp_strCmd g ! 0 \<noteq> NUL then fputs_line (cstr (gp_strCmd g)) g else Some g }"

end
