(* ===== verification/GnuPlotProps.thy ===== *)
theory GnuPlotProps
  imports GnuPlot
begin

text \<open>
  What a plot command is after any number of calls, when putting it together runs out of its
  array, and how data given as arrays is numbered and drawn.
\<close>

section \<open>Calls and the text they stand for\<close>

datatype plot_call =
    P_point2 "char list" int int "char list option" "char list option" int int
  | P_line2 "char list" int int "char list option" "char list option" int
  | P_linepoint2 "char list" int int "char list option" "char list option" int int int int
  | P_dash2 "char list" int int "char list option" "char list option" "char list option" int
  | P_point3 "char list" int int int "char list option" "char list option" int int
  | P_line3 "char list" int int int "char list option" "char list option" int
  | P_linepoint3 "char list" int int int "char list option" "char list option" int int int int
  | P_dash3 "char list" int int int "char list option" "char list option" int "char list option"

fun run_call :: "plot_call \<Rightarrow> gnuplot \<Rightarrow> gnuplot option" where
  "run_call (P_point2 f i j t c pt ps) = Point2 f i j t c pt ps"
| "run_call (P_line2 f i j t c lw) = Line2 f i j t c lw"
| "run_call (P_linepoint2 f i j t c lw pt ps iv) = LinePoint2 f i j t c lw pt ps iv"
| "run_call (P_dash2 f i j t pat c lw) = Dash2 f i j t pat c lw"
| "run_call (P_point3 f i j k t c pt ps) = Point3 f i j k t c pt ps"
| "run_call (P_line3 f i j k t c lw) = Line3 f i j k t c lw"
| "run_call (P_linepoint3 f i j k t c lw pt ps iv) = LinePoint3 f i j k t c lw pt ps iv"
| "run_call (P_dash3 f i j k t c lw pat) = Dash3 f i j k t c lw pat"

text \<open>The words of a call: what it plots, and its options.\<close>

fun call_kind :: "plot_call \<Rightarrow> char list" where
  "call_kind (P_point2 _ _ _ _ _ _ _) = ''plot ''"
| "call_kind (P_line2 _ _ _ _ _ _) = ''plot ''"
| "call_kind (P_linepoint2 _ _ _ _ _ _ _ _ _) = ''plot ''"
| "call_kind (P_dash2 _ _ _ _ _ _ _) = ''plot ''"
| "call_kind _ = ''splot ''"

fun call_item :: "plot_call \<Rightarrow> char list" where
  "call_item (P_point2 f i j t c pt ps) = using2 f i j @ '' with points''"
| "call_item (P_line2 f i j t c lw) = using2 f i j @ '' with lines''"
| "call_item (P_linepoint2 f i j t c lw pt ps iv) = using2 f i j @ '' with linespoints''"
| "call_item (P_dash2 f i j t pat c lw) = using2 f i j @ '' with lines''"
| "call_item (P_point3 f i j k t c pt ps) = using3 f i j k @ '' with points''"
| "call_item (P_line3 f i j k t c lw) = using3 f i j k @ '' with lines''"
| "call_item (P_linepoint3 f i j k t c lw pt ps iv) = using3 f i j k @ '' with linespoints''"
| "call_item (P_dash3 f i j k t c lw pat) = using3 f i j k @ '' with lines''"

definition opt_list :: "'a option list \<Rightarrow> 'a list" where
  "opt_list xs = concat (map (\<lambda>x. case x of None \<Rightarrow> [] | Some y \<Rightarrow> [y]) xs)"

fun call_opts :: "plot_call \<Rightarrow> char list option list" where
  "call_opts (P_point2 f i j t c pt ps) = [opt_color c, Some (point_type0 pt), opt_size ps, opt_title t]"
| "call_opts (P_line2 f i j t c lw) = [opt_color c, opt_width lw, opt_title t]"
| "call_opts (P_linepoint2 f i j t c lw pt ps iv) =
     [opt_color c, opt_width lw, Some (point_type1 pt), opt_size ps, opt_interval iv, opt_title t]"
| "call_opts (P_dash2 f i j t pat c lw) = [opt_color c, opt_width lw, opt_pattern pat, opt_title t]"
| "call_opts (P_point3 f i j k t c pt ps) = [opt_color c, Some (point_type1 pt), opt_size ps, opt_title t]"
| "call_opts (P_line3 f i j k t c lw) = [opt_color c, opt_width lw, opt_title t]"
| "call_opts (P_linepoint3 f i j k t c lw pt ps iv) =
     [opt_color c, opt_width lw, Some (point_type1 pt), opt_size ps, opt_interval iv, opt_title t]"
| "call_opts (P_dash3 f i j k t c lw pat) = [opt_color c, opt_width lw, opt_pattern pat, opt_title t]"

text \<open>The pieces a sequence of calls appends, one \<open>snprintf\<close> each, and the whole text.\<close>

definition call_pieces :: "plot_call \<Rightarrow> char list list" where
  "call_pieces c = ('', '' @ call_item c) # opt_list (call_opts c)"

fun plot_pieces :: "plot_call list \<Rightarrow> char list list" where
  "plot_pieces [] = []"
| "plot_pieces (c # cs) = (call_kind c @ call_item c) # opt_list (call_opts c) @ concat (map call_pieces cs)"

definition plot_text :: "plot_call list \<Rightarrow> char list" where
  "plot_text cs = concat (plot_pieces cs)"

fun put_all :: "char list list \<Rightarrow> gnuplot \<Rightarrow> gnuplot option" where
  "put_all [] g = Some g"
| "put_all (s # ss) g = do { g \<leftarrow> put s g; put_all ss g }"

fun run_calls :: "plot_call list \<Rightarrow> gnuplot \<Rightarrow> gnuplot option" where
  "run_calls [] g = Some g"
| "run_calls (c # cs) g = do { g \<leftarrow> run_call c g; run_calls cs g }"

section \<open>The command array\<close>

text \<open>The array holds the text \<open>t\<close>, or as much of it as fits, with a NUL behind it.\<close>

definition cmd_holds :: "char list \<Rightarrow> gnuplot \<Rightarrow> bool" where
  "cmd_holds t g \<longleftrightarrow> length (gp_strCmd g) = 4096 \<and> gp_strCmdPos g = int (length t) \<and>
     take (min (length t) 4095) (gp_strCmd g) = take 4095 t \<and> gp_strCmd g ! min (length t) 4095 = NUL"

text \<open>What putting a command together does not touch.\<close>

definition gp_rest :: "gnuplot \<Rightarrow> _" where
  "gp_rest g = (gp_pipe g, gp_sent g, gp_opens g, gp_files g, gp_this g, gp_dataNum g, gp_filePath g)"

lemma snprintf_holds:
  assumes "length buf = 4096" and "n \<le> 4095" and "take n buf = t" and "length t = n"
  shows "length (snprintf_at buf n (4096 - n) (Some s)) = 4096"
    "take (min (n + length s) 4095) (snprintf_at buf n (4096 - n) (Some s)) = take 4095 (t @ s)"
    "snprintf_at buf n (4096 - n) (Some s) ! min (n + length s) 4095 = NUL"
proof -
  let ?w = "take (4095 - n) s"
  have e: "snprintf_at buf n (4096 - n) (Some s) = t @ ?w @ NUL # drop (Suc (n + length ?w)) buf"
    using assms by (simp add: snprintf_at_def memcpy_at_def)
  have m: "min (n + length s) 4095 = length (t @ ?w)" using assms(2,4) by simp
  show "length (snprintf_at buf n (4096 - n) (Some s)) = 4096" using assms(1,2) by simp
  show "take (min (n + length s) 4095) (snprintf_at buf n (4096 - n) (Some s)) = take 4095 (t @ s)"
    unfolding m e using assms(2,4) by (simp add: min_def)
  show "snprintf_at buf n (4096 - n) (Some s) ! min (n + length s) 4095 = NUL"
    unfolding m e by (metis append.assoc nth_append_length)
qed

lemma put_holds:
  assumes "cmd_holds t g" and "length t \<le> 4096"
  shows "\<exists>g'. put s g = Some g' \<and> cmd_holds (t @ s) g' \<and> gp_rest g' = gp_rest g \<and> gp_firstPlot g' = gp_firstPlot g"
proof (cases "length t = 4096")
  case True
  then show ?thesis using assms(1) by (auto simp: put_def cmd_holds_def Let_def snprintf_at_def gp_rest_def)
next
  case False
  with assms(2) have n: "length t \<le> 4095" by simp
  have h: "length (gp_strCmd g) = 4096" "take (length t) (gp_strCmd g) = t" "gp_strCmdPos g = int (length t)"
    using assms(1) n by (simp_all add: cmd_holds_def min_absorb1)
  have sz: "nat (4096 - int (length t)) = 4096 - length t" by simp
  show ?thesis
    using snprintf_holds [OF h(1) n h(2) refl, of s] assms(2) h(3)
    by (simp add: put_def cmd_holds_def Let_def sz gp_rest_def)
qed

lemma put_beyond: "cmd_holds t g \<Longrightarrow> 4096 < length t \<Longrightarrow> put s g = None"
  by (simp add: put_def cmd_holds_def)

lemma put_all_holds:
  "cmd_holds t g \<Longrightarrow> (if ss = [] \<or> length (t @ concat (butlast ss)) \<le> 4096
     then \<exists>g'. put_all ss g = Some g' \<and> cmd_holds (t @ concat ss) g' \<and> gp_rest g' = gp_rest g \<and>
               gp_firstPlot g' = gp_firstPlot g
     else put_all ss g = None)"
proof (induction ss arbitrary: t g)
  case (Cons s ss)
  show ?case
  proof (cases "length t \<le> 4096")
    case True
    obtain g1 where g1: "put s g = Some g1" "cmd_holds (t @ s) g1" "gp_rest g1 = gp_rest g" "gp_firstPlot g1 = gp_firstPlot g"
      using put_holds [OF Cons.prems True] by blast
    show ?thesis using Cons.IH [OF g1(2)] g1 True by (cases "ss = []") (auto simp: add.assoc split: if_splits)
  next
    case False
    then show ?thesis using put_beyond [OF Cons.prems] by simp
  qed
qed simp

lemma put_opts: "foldr (\<lambda>x f g. put_opt x g \<bind> f) xs Some g = put_all (opt_list xs) g"
proof (induction xs arbitrary: g)
  case (Cons x xs)
  then show ?case by (cases x) (auto simp: opt_list_def split: Option.bind_split)
qed (simp add: opt_list_def)

lemma run_call_pieces:
  "run_call c g = do { g \<leftarrow> begin_item (call_kind c) (call_item c) g; put_all (opt_list (call_opts c)) g }"
  unfolding put_opts [symmetric]
  by (cases c) (simp_all add: Point2_def Line2_def LinePoint2_def Dash2_def Point3_def Line3_def LinePoint3_def Dash3_def)

lemma put_all_append: "put_all (ss @ ss') g = do { g \<leftarrow> put_all ss g; put_all ss' g }"
  by (induction ss arbitrary: g) (auto split: Option.bind_split)

lemma run_calls_more:
  "cmd_holds t g \<Longrightarrow> gp_firstPlot g \<Longrightarrow> run_calls cs g = put_all (concat (map call_pieces cs)) g"
proof (induction cs arbitrary: t g)
  case (Cons c cs)
  have r: "run_call c g = put_all (call_pieces c) g"
    using Cons.prems(2) by (simp add: run_call_pieces begin_item_def call_pieces_def)
  show ?case
  proof (cases "put_all (call_pieces c) g")
    case (Some g')
    then have "\<exists>t'. cmd_holds t' g' \<and> gp_firstPlot g'"
      using put_all_holds [OF Cons.prems(1), of "call_pieces c"] Cons.prems(2) by (auto split: if_splits)
    then show ?thesis using Cons.IH Some r by (auto simp: put_all_append)
  qed (simp add: r put_all_append)
qed simp

text \<open>The first call of all starts the array afresh.\<close>

lemma begin_holds:
  assumes "\<not> gp_firstPlot g"
  obtains g' where "begin_item kind item g = Some g'" "cmd_holds (kind @ item) g'" "gp_firstPlot g'"
    "gp_rest g' = gp_rest g"
proof -
  let ?g = "g\<lparr>gp_firstPlot := True, gp_strCmd := snprintf_at (replicate 4096 NUL) 0 4096 (Some (kind @ item)),
              gp_strCmdPos := int (length (kind @ item))\<rparr>"
  have "cmd_holds (kind @ item) ?g"
    using snprintf_holds [of "replicate 4096 NUL" 0 "[]" "kind @ item"] by (simp add: cmd_holds_def)
  moreover have "begin_item kind item g = Some ?g" using assms by (simp add: begin_item_def)
  ultimately show thesis using that [of ?g] by (simp add: gp_rest_def)
qed

lemma run_calls_holds:
  assumes "\<not> gp_firstPlot g" and "cs \<noteq> []"
  shows "if length (concat (butlast (plot_pieces cs))) \<le> 4096
    then \<exists>g'. run_calls cs g = Some g' \<and> cmd_holds (plot_text cs) g' \<and> gp_firstPlot g' \<and> gp_rest g' = gp_rest g
    else run_calls cs g = None"
proof -
  obtain c cs' where cs: "cs = c # cs'" using assms(2) by (cases cs) auto
  obtain g1 where g1: "begin_item (call_kind c) (call_item c) g = Some g1" "cmd_holds (call_kind c @ call_item c) g1"
    "gp_firstPlot g1" "gp_rest g1 = gp_rest g"
    using begin_holds [OF assms(1)] by blast
  define ss where "ss = opt_list (call_opts c) @ concat (map call_pieces cs')"
  have pieces: "plot_pieces cs = (call_kind c @ call_item c) # ss" by (simp add: cs ss_def)
  have "run_calls cs g = put_all ss g1"
  proof (cases "put_all (opt_list (call_opts c)) g1")
    case (Some g2)
    then have "\<exists>t'. cmd_holds t' g2 \<and> gp_firstPlot g2"
      using put_all_holds [OF g1(2), of "opt_list (call_opts c)"] g1(3) by (auto split: if_splits)
    then show ?thesis using Some g1(1) by (auto simp: cs ss_def run_call_pieces put_all_append run_calls_more)
  qed (simp add: cs ss_def run_call_pieces g1(1) put_all_append)
  then show ?thesis
    using put_all_holds [OF g1(2), of ss] g1(3,4) by (cases "ss = []") (auto simp: pieces plot_text_def split: if_splits)
qed

section \<open>Drawing\<close>

lemma cmd_holds_cstr:
  assumes "cmd_holds t g" and "no_nul t"
  shows "cstr (gp_strCmd g) = take 4095 t"
proof -
  let ?n = "min (length t) 4095"
  have h: "length (gp_strCmd g) = 4096" "take ?n (gp_strCmd g) = take 4095 t" "gp_strCmd g ! ?n = NUL"
    using assms(1) unfolding cmd_holds_def by blast+
  have "?n < length (gp_strCmd g)" unfolding h(1) by simp
  moreover have "no_nul (take ?n (gp_strCmd g))"
    unfolding h(2) using assms(2) by (auto simp: no_nul_def dest: in_set_takeD)
  ultimately have "cstr (gp_strCmd g) = take ?n (gp_strCmd g)" using h(3) by (intro cstr_take)
  then show ?thesis unfolding h(2) .
qed

lemma cmd_holds_first: "cmd_holds t g \<Longrightarrow> no_nul t \<Longrightarrow> t \<noteq> [] \<Longrightarrow> gp_strCmd g ! 0 \<noteq> NUL"
  using cmd_holds_cstr [of t g] by (cases "gp_strCmd g") (auto simp: cstr_def cmd_holds_def split: if_splits)

lemma plot_text_nonempty: "cs \<noteq> [] \<Longrightarrow> plot_text cs \<noteq> []"
  by (cases cs; cases "hd cs") (simp_all add: plot_text_def)

lemma length_butlast_concat: "length (concat (butlast xs)) \<le> length (concat xs)"
  by (induction xs) auto

text \<open>
  C36: Any number of plots, of two or three dimensions, with any options, are drawn as one
  command: the first item behind "plot" or "splot", the others behind commas, each with
  exactly its options, as long as the text fits the array and has no NUL.
\<close>

theorem draw_sends_plots:
  assumes "\<not> gp_firstPlot g" and "cs \<noteq> []" and "gp_pipe g" and "length (plot_text cs) \<le> 4095" and "no_nul (plot_text cs)"
  shows "\<exists>g' g''. run_calls cs g = Some g' \<and> Draw g' = Some g'' \<and>
           gp_sent g'' = gp_sent g @ ''clear'' @ [NL] @ plot_text cs @ [NL]"
proof -
  have "length (concat (butlast (plot_pieces cs))) \<le> 4096"
    using assms(4) length_butlast_concat [of "plot_pieces cs"] by (simp add: plot_text_def)
  then obtain g' where g': "run_calls cs g = Some g'" "cmd_holds (plot_text cs) g'" "gp_rest g' = gp_rest g"
    using run_calls_holds [OF assms(1,2)] by auto
  moreover have "cstr (gp_strCmd g') = plot_text cs" using cmd_holds_cstr [OF g'(2) assms(5)] assms(4) by simp
  moreover have "gp_strCmd g' ! 0 \<noteq> NUL" by (rule cmd_holds_first [OF g'(2) assms(5) plot_text_nonempty [OF assms(2)]])
  ultimately show ?thesis using assms(3) by (simp add: Draw_def fputs_def fputs_line_def gp_rest_def)
qed

definition gp_mem :: gnuplot where
  "gp_mem = \<lparr>gp_pipe = False, gp_sent = [], gp_opens = replicate 70 True, gp_files = [], gp_this = ''0x7ffc'', gp_dataNum = 0,
     gp_filePath = replicate 64 (replicate 256 NUL), gp_firstPlot = False, gp_strCmd = replicate 4096 NUL, gp_strCmdPos = 0\<rparr>"

definition two_plots :: "plot_call list" where
  "two_plots = [P_line2 ''a.dat'' 1 2 (Some ''pos'') None 3, P_point3 ''b.dat'' 1 2 3 None (Some ''red'') 7 0]"

lemma two_plots_text: "plot_text two_plots =
    ''plot '' @ [APOS] @ ''a.dat'' @ [APOS] @ '' using 1:2 with lines lw 3 title '' @ [QUOT] @ ''pos'' @ [QUOT] @
    '', '' @ [APOS] @ ''b.dat'' @ [APOS] @ '' using 1:2:3 with points lc rgb '' @ [QUOT] @ ''red'' @ [QUOT] @ '' pt 7''"
  by (simp add: two_plots_def plot_text_def call_pieces_def opt_list_def opt_color_def opt_width_def opt_title_def opt_size_def
      point_type1_def using2_def using3_def quoted_def int_str_def nat_str.simps digit_char_def char_of_def bit_Suc_0_iff)

theorem draw_sends_plots_witness:
  "\<exists>g' g''. run_calls two_plots (GnuPlot_named True gp_mem) = Some g' \<and> Draw g' = Some g'' \<and>
     gp_sent g'' = gnuplot_init @ ''clear'' @ [NL] @ plot_text two_plots @ [NL]"
  using draw_sends_plots [of "GnuPlot_named True gp_mem" two_plots]
  by (simp add: two_plots_text GnuPlot_named_def no_nul_def) (simp add: two_plots_def)

text \<open>
  Calls without end overrun the command array: a sequence of calls has a defined result
  exactly if the text before its last piece is at most 4096 bytes long; else the piece after
  it is written outside the array.
\<close>

theorem plot_command_overflow:
  assumes "\<not> gp_firstPlot g" and "cs \<noteq> []"
  shows "run_calls cs g = None \<longleftrightarrow> 4096 < length (concat (butlast (plot_pieces cs)))"
  using run_calls_holds [OF assms] by (auto split: if_splits)

definition long_plots :: "plot_call list" where
  "long_plots = replicate 3 (P_line2 (replicate 3000 CHR ''a'') 1 2 None None (-1))"

theorem plot_command_overflow_witness: "run_calls long_plots (GnuPlot_named True gp_mem) = None"
proof -
  have "long_plots \<noteq> []" "\<not> gp_firstPlot (GnuPlot_named True gp_mem)" by (simp_all add: long_plots_def GnuPlot_named_def)
  moreover have "4096 < length (concat (butlast (plot_pieces long_plots)))"
    by (simp add: long_plots_def numeral_3_eq_3 call_pieces_def opt_list_def opt_color_def opt_width_def opt_title_def using2_def)
  ultimately show ?thesis using plot_command_overflow [of "GnuPlot_named True gp_mem" long_plots] by blast
qed

section \<open>Data given as arrays\<close>

lemma no_nul_append [simp]: "no_nul (s @ t) \<longleftrightarrow> no_nul s \<and> no_nul t"
  by (auto simp: no_nul_def)

lemma no_nul_Cons [simp]: "no_nul (c # s) \<longleftrightarrow> c \<noteq> NUL \<and> no_nul s"
  by (auto simp: no_nul_def)

lemma no_nul_Nil [simp]: "no_nul []"
  by (simp add: no_nul_def)

lemma no_nul_int_str [simp]: "no_nul (int_str i)"
  using nat_str_digits [of NUL] by (auto simp: int_str_def no_nul_def)

lemma no_nul_pad2 [simp]: "no_nul (pad2 n)"
  by (simp add: pad2_def)

lemma pad2_digits: "i < 64 \<Longrightarrow> pad2 (int i) = [digit_char (i div 10), digit_char (i mod 10)]"
proof -
  assume i: "i < 64"
  then have "i div 10 < 10" by simp
  then show ?thesis using i
    by (cases "i < 10") (simp_all add: pad2_def int_str_def nat_str.simps [of i] nat_str.simps [of "i div 10"] digit_char_def char_of_def bit_Suc_0_iff)
qed

lemma length_pad2: "i < 64 \<Longrightarrow> length (pad2 (int i)) = 2"
  by (simp add: pad2_digits)

lemma pad2_inj:
  assumes "i < 64" and "j < 64"
  shows "pad2 (int i) = pad2 (int j) \<longleftrightarrow> i = j"
proof
  assume "pad2 (int i) = pad2 (int j)"
  then have "digit_val (digit_char (i div 10)) = digit_val (digit_char (j div 10))"
    "digit_val (digit_char (i mod 10)) = digit_val (digit_char (j mod 10))"
    using assms by (simp_all add: pad2_digits)
  then have "i div 10 = j div 10" "i mod 10 = j mod 10" using assms by (simp_all add: digit_val_char)
  then show "i = j" by (metis div_mult_mod_eq)
qed simp

lemma dat_name_inj: "i < 64 \<Longrightarrow> j < 64 \<Longrightarrow> dat_name g (int i) = dat_name g (int j) \<longleftrightarrow> i = j"
  by (simp add: dat_name_def pad2_inj)

text \<open>The objects whose address prints to a name that fits.\<close>

definition this_ok :: "gnuplot \<Rightarrow> bool" where
  "this_ok g \<longleftrightarrow> no_nul (gp_this g) \<and> length (gp_this g) \<le> 18"

lemma stored_name:
  assumes "this_ok g" and "i < 64"
  shows "cstr (snprintf_at (replicate 256 NUL) 0 256 (Some (dat_name g (int i)))) = dat_name g (int i)"
proof -
  have "length (dat_name g (int i)) \<le> 255" using assms by (simp add: dat_name_def length_pad2 this_ok_def)
  moreover have "no_nul (dat_name g (int i))" using assms by (simp add: dat_name_def this_ok_def)
  ultimately show ?thesis by (simp add: snprintf_at_def memcpy_at_def cstr_terminated)
qed

text \<open>Plotting one data set after another as lines; each set is a pair of arrays.\<close>

fun plot_series :: "('m \<Rightarrow> char list) \<Rightarrow> ('m list \<times> 'm list) list \<Rightarrow> gnuplot \<Rightarrow> (int list \<times> gnuplot) option" where
  "plot_series fmt [] g = Some ([], g)"
| "plot_series fmt ((x, y) # ds) g = do {
     (rc, g) \<leftarrow> Line2_data fmt (Some x) y (int (length x)) None None (-1) g;
     (rcs, g) \<leftarrow> plot_series fmt ds g;
     Some (rc # rcs, g) }"

definition series_file :: "('m \<Rightarrow> char list) \<Rightarrow> 'm list \<times> 'm list \<Rightarrow> char list" where
  "series_file fmt d = concat (map (\<lambda>(a, b). fmt a @ [TAB] @ fmt b @ [NL]) (zip (fst d) (snd d)))"

definition series_calls :: "gnuplot \<Rightarrow> nat \<Rightarrow> plot_call list" where
  "series_calls g n = map (\<lambda>i. P_line2 (dat_name g (int i)) 1 2 None None (-1)) [0..<n]"

text \<open>The state after \<open>k\<close> data sets, the ones of \<open>done\<close>, starting from \<open>g0\<close>.\<close>

definition series_state :: "('m \<Rightarrow> char list) \<Rightarrow> gnuplot \<Rightarrow> ('m list \<times> 'm list) list \<Rightarrow> gnuplot \<Rightarrow> bool" where
  "series_state fmt g0 ds g \<longleftrightarrow>
     gp_dataNum g = int (length ds) \<and> length (gp_filePath g) = 64 \<and> gp_this g = gp_this g0 \<and> gp_pipe g = gp_pipe g0 \<and>
     gp_sent g = gp_sent g0 \<and> gp_opens g = drop (length ds) (gp_opens g0) \<and>
     gp_files g = gp_files g0 @ map (\<lambda>i. (dat_name g0 (int i), series_file fmt (ds ! i))) [0..<length ds] \<and>
     (if ds = [] then \<not> gp_firstPlot g else gp_firstPlot g \<and> cmd_holds (plot_text (series_calls g0 (length ds))) g)"

lemma plot_text_snoc: "cs \<noteq> [] \<Longrightarrow> plot_text (cs @ [c]) = plot_text cs @ concat (call_pieces c)"
  by (cases cs) (simp_all add: plot_text_def)

lemma series_rows:
  assumes "length y = length x"
  shows "concat (map (\<lambda>i. fmt (x ! i) @ [TAB] @ fmt (y ! i) @ [NL]) [0..<length x]) = series_file fmt (x, y)"
proof -
  have "zip x y = map (\<lambda>i. (x ! i, y ! i)) [0..<length x]"
    using assms by (intro nth_equalityI) simp_all
  then show ?thesis by (simp add: series_file_def comp_def)
qed

lemma series_step:
  assumes "series_state fmt g0 ds g" and "length ds < 63" and "this_ok g0" and "length y = length x"
    and "gp_opens g0 ! length ds" and "length ds < length (gp_opens g0)"
    and "ds = [] \<or> length (concat (butlast (plot_pieces (series_calls g0 (Suc (length ds)))))) \<le> 4096"
  shows "\<exists>g'. Line2_data fmt (Some x) y (int (length x)) None None (-1) g = Some (0, g') \<and> series_state fmt g0 (ds @ [(x, y)]) g'"
proof -
  let ?k = "length ds"
  let ?name = "dat_name g0 (int ?k)"
  let ?path = "snprintf_at (replicate 256 NUL) 0 256 (Some ?name)"
  let ?c = "P_line2 ?name 1 2 None None (-1)"
  note st = assms(1) [unfolded series_state_def]
  obtain os where os: "gp_opens g = True # os" "os = drop (Suc ?k) (gp_opens g0)"
    using st assms(5,6) by (metis (full_types) Cons_nth_drop_Suc)
  have num: "gp_dataNum g = int ?k" "length (gp_filePath g) = 64" using st by blast+
  have name: "dat_name g (int ?k) = ?name" using st by (simp add: dat_name_def)
  define g1 where "g1 = g\<lparr>gp_filePath := (gp_filePath g)[?k := ?path], gp_opens := os,
      gp_files := gp_files g @ [(?name, series_file fmt (x, y))]\<rparr>"
  have path: "cstr (gp_filePath g1 ! ?k) = ?name"
    using st assms(2,3) stored_name [of g0 ?k] by (simp add: g1_def)
  have mk: "MakeDataFile2 fmt x y (int (length x)) g = Some (0, g1)"
    using num assms(2,3,4) os(1) stored_name [of g0 ?k] series_rows [OF assms(4), of fmt]
    by (simp add: MakeDataFile2_def make_file_def Let_def rows_text_def write_file_def name g1_def)
  have c: "\<exists>g2. run_call ?c g1 = Some g2 \<and> cmd_holds (plot_text (series_calls g0 (Suc ?k))) g2 \<and> gp_firstPlot g2 \<and> gp_rest g2 = gp_rest g1"
  proof (cases "ds = []")
    case True
    then have "\<not> gp_firstPlot g1" using st by (simp add: g1_def)
    from run_calls_holds [OF this, of "[?c]"] show ?thesis
      using True by (auto simp: series_calls_def opt_list_def opt_color_def opt_width_def opt_title_def split: Option.bind_splits if_splits)
  next
    case False
    have h: "cmd_holds (plot_text (series_calls g0 ?k)) g1" "gp_firstPlot g1"
      using st False by (auto simp: g1_def cmd_holds_def)
    have r: "run_call ?c g1 = put_all (call_pieces ?c) g1"
      using run_calls_more [OF h, of "[?c]"] by (cases "run_call ?c g1") simp_all
    have calls: "series_calls g0 (Suc ?k) = series_calls g0 ?k @ [?c]" "series_calls g0 ?k \<noteq> []"
      using False by (simp_all add: series_calls_def)
    have one: "call_pieces ?c = ['', '' @ call_item ?c]"
      by (simp add: call_pieces_def opt_list_def opt_color_def opt_width_def opt_title_def)
    have "plot_pieces (series_calls g0 (Suc ?k)) = plot_pieces (series_calls g0 ?k) @ call_pieces ?c"
      unfolding calls(1) using calls(2) by (cases "series_calls g0 ?k") simp_all
    then have "length (plot_text (series_calls g0 ?k)) \<le> 4096"
      using assms(7) False by (simp add: one butlast_append plot_text_def)
    then show ?thesis
      using put_all_holds [OF h(1), of "call_pieces ?c"] h(2) r one plot_text_snoc [OF calls(2), of ?c] calls(1) by auto
  qed
  then obtain g2 where g2: "run_call ?c g1 = Some g2" "cmd_holds (plot_text (series_calls g0 (Suc ?k))) g2" "gp_firstPlot g2"
    "gp_rest g2 = gp_rest g1" by blast
  have "gp_dataNum g1 = int ?k" using st by (simp add: g1_def)
  then have "Line2_data fmt (Some x) y (int (length x)) None None (-1) g = Some (0, g2\<lparr>gp_dataNum := gp_dataNum g2 + 1\<rparr>)"
    using st assms(2) mk path g2(1) by (simp add: Line2_data_def data_plot2_def finish_data_def)
  moreover have "series_state fmt g0 (ds @ [(x, y)]) (g2\<lparr>gp_dataNum := gp_dataNum g2 + 1\<rparr>)"
    using st g2(2-4) os(2) by (auto simp: series_state_def gp_rest_def g1_def cmd_holds_def nth_append)
  ultimately show ?thesis by blast
qed

lemma series_calls_Suc: "series_calls g0 (Suc n) = series_calls g0 n @ [P_line2 (dat_name g0 (int n)) 1 2 None None (-1)]"
  by (simp add: series_calls_def)

lemma series_call_pieces:
  "call_pieces (P_line2 f 1 2 None None (-1)) = ['', '' @ using2 f 1 2 @ '' with lines'']"
  by (simp add: call_pieces_def opt_list_def opt_color_def opt_width_def opt_title_def)

lemma series_text_induct:
  assumes first: "P 0 (''plot '' @ using2 (dat_name g0 0) 1 2 @ '' with lines'')"
    and more: "\<And>n t. Suc n < 64 \<Longrightarrow> P n t \<Longrightarrow> P (Suc n) (t @ '', '' @ using2 (dat_name g0 (int (Suc n))) 1 2 @ '' with lines'')"
  shows "n < 64 \<Longrightarrow> P n (plot_text (series_calls g0 (Suc n)))"
proof (induction n)
  case 0
  then show ?case using first
    by (simp add: series_calls_def plot_text_def opt_list_def opt_color_def opt_width_def opt_title_def)
next
  case (Suc n)
  have "series_calls g0 (Suc n) \<noteq> []" by (simp add: series_calls_def)
  then have "plot_text (series_calls g0 (Suc (Suc n)))
      = plot_text (series_calls g0 (Suc n)) @ '', '' @ using2 (dat_name g0 (int (Suc n))) 1 2 @ '' with lines''"
    by (subst series_calls_Suc) (simp add: plot_text_snoc series_call_pieces)
  then show ?case using more [OF Suc.prems Suc.IH] Suc.prems by simp
qed

lemma series_text_length:
  assumes "this_ok g0"
  shows "n < 64 \<Longrightarrow> length (plot_text (series_calls g0 (Suc n))) \<le> 56 + 53 * n"
  by (rule series_text_induct [where P = "\<lambda>n t. length t \<le> 56 + 53 * n"])
     (use assms in \<open>simp_all add: using2_def dat_name_def length_pad2 length_pad2 [of 0, simplified] int_str_def nat_str.simps this_ok_def
        del: of_nat_Suc\<close>)

lemma series_text_no_nul:
  assumes "this_ok g0"
  shows "n < 64 \<Longrightarrow> no_nul (plot_text (series_calls g0 (Suc n)))"
  by (rule series_text_induct [where P = "\<lambda>n t. no_nul t"])
     (use assms in \<open>simp_all add: using2_def dat_name_def this_ok_def\<close>)

lemma series_run:
  "series_state fmt g0 ds g \<Longrightarrow> this_ok g0 \<Longrightarrow> length (ds @ es) \<le> 63 \<Longrightarrow> \<forall>(x, y) \<in> set es. length y = length x \<Longrightarrow>
   63 \<le> length (gp_opens g0) \<Longrightarrow> \<forall>i < 63. gp_opens g0 ! i \<Longrightarrow>
     \<exists>g'. plot_series fmt es g = Some (replicate (length es) 0, g') \<and> series_state fmt g0 (ds @ es) g'"
proof (induction es arbitrary: ds g)
  case (Cons e es)
  obtain x y where e: "e = (x, y)" by (cases e)
  have k: "length ds < 63" using Cons.prems(3) by simp
  have "length (concat (plot_pieces (series_calls g0 (Suc (length ds))))) \<le> 4096"
    using series_text_length [OF Cons.prems(2), of "length ds"] k by (simp add: plot_text_def)
  then have fits: "length (concat (butlast (plot_pieces (series_calls g0 (Suc (length ds)))))) \<le> 4096"
    by (rule order_trans [OF length_butlast_concat])
  have "\<exists>g1. Line2_data fmt (Some x) y (int (length x)) None None (-1) g = Some (0, g1) \<and> series_state fmt g0 (ds @ [(x, y)]) g1"
    by (rule series_step [OF Cons.prems(1) k Cons.prems(2)]) (use Cons.prems(4-6) k e fits in auto)
  then obtain g1 where g1: "Line2_data fmt (Some x) y (int (length x)) None None (-1) g = Some (0, g1)"
    "series_state fmt g0 (ds @ [(x, y)]) g1" by blast
  obtain g' where "plot_series fmt es g1 = Some (replicate (length es) 0, g')" "series_state fmt g0 ((ds @ [(x, y)]) @ es) g'"
    using Cons.IH [OF g1(2) Cons.prems(2)] Cons.prems(3-6) by auto
  then show ?case using g1(1) e by simp
qed simp

text \<open>
  Up to 63 data sets given as arrays are drawn in one figure: each is written to a file of
  its own, no two under one name, row by row, and the command drawn names the files in the
  order of the calls; it always fits its array. The 64th data set is refused, and nothing
  changes.
\<close>

theorem data_series_drawn:
  assumes "gp_dataNum g = 0" and "length (gp_filePath g) = 64" and "\<not> gp_firstPlot g" and "this_ok g" and "gp_pipe g"
    and "63 \<le> length (gp_opens g)" and "\<forall>i < 63. gp_opens g ! i"
    and "ds \<noteq> []" and "length ds \<le> 63" and "\<forall>(x, y) \<in> set ds. length y = length x"
  shows "\<exists>g' g''. plot_series fmt ds g = Some (replicate (length ds) 0, g') \<and>
           gp_files g' = gp_files g @ map (\<lambda>i. (dat_name g (int i), series_file fmt (ds ! i))) [0..<length ds] \<and>
           distinct (map (\<lambda>i. dat_name g (int i)) [0..<length ds]) \<and>
           Draw g' = Some g'' \<and>
           gp_sent g'' = gp_sent g @ ''clear'' @ [NL] @ plot_text (series_calls g (length ds)) @ [NL] \<and>
           (length ds = 63 \<longrightarrow> Line2_data fmt x y n t c lw g' = Some (-1, g'))"
proof -
  have "series_state fmt g [] g" using assms(1-3) by (simp add: series_state_def)
  then obtain g' where g': "plot_series fmt ds g = Some (replicate (length ds) 0, g')" "series_state fmt g ds g'"
    using series_run [of fmt g "[]" g ds] assms by auto
  have st: "gp_pipe g' = gp_pipe g" "gp_sent g' = gp_sent g" "gp_dataNum g' = int (length ds)"
    "cmd_holds (plot_text (series_calls g (length ds))) g'"
    "gp_files g' = gp_files g @ map (\<lambda>i. (dat_name g (int i), series_file fmt (ds ! i))) [0..<length ds]"
    using g'(2) assms(8) by (simp_all add: series_state_def)
  obtain m where m: "length ds = Suc m" "m < 64" using assms(8,9) by (cases "length ds") auto
  have nn: "no_nul (plot_text (series_calls g (length ds)))"
    unfolding m(1) by (rule series_text_no_nul [OF assms(4) m(2)])
  have "length (plot_text (series_calls g (length ds))) \<le> 4095"
    using series_text_length [OF assms(4) m(2)] assms(9) m(1) by simp
  then have cs: "cstr (gp_strCmd g') = plot_text (series_calls g (length ds))" using cmd_holds_cstr [OF st(4) nn] by simp
  have "gp_strCmd g' ! 0 \<noteq> NUL"
    by (rule cmd_holds_first [OF st(4) nn plot_text_nonempty]) (use assms(8) in \<open>simp add: series_calls_def\<close>)
  moreover have "distinct (map (\<lambda>i. dat_name g (int i)) [0..<length ds])"
    using assms(9) dat_name_inj [of _ _ g] by (simp add: distinct_map inj_on_def)
  ultimately show ?thesis using g'(1) st assms(5) cs
    by (simp add: Draw_def fputs_def fputs_line_def Line2_data_def data_plot2_def)
qed

theorem data_series_drawn_witness:
  "\<exists>g' g''. plot_series int_str [([1, 2], [10, 20]), ([3], [30])] (GnuPlot_named True gp_mem) = Some ([0, 0], g') \<and>
     Draw g' = Some g'' \<and> length (gp_files g') = 2"
proof -
  let ?g = "GnuPlot_named True gp_mem"
  let ?ds = "[([1, 2], [10, 20]), ([3], [30])] :: (int list \<times> int list) list"
  have "\<exists>g' g''. plot_series int_str ?ds ?g = Some (replicate (length ?ds) 0, g') \<and>
           gp_files g' = gp_files ?g @ map (\<lambda>i. (dat_name ?g (int i), series_file int_str (?ds ! i))) [0..<length ?ds] \<and>
           distinct (map (\<lambda>i. dat_name ?g (int i)) [0..<length ?ds]) \<and> Draw g' = Some g'' \<and>
           gp_sent g'' = gp_sent ?g @ ''clear'' @ [NL] @ plot_text (series_calls ?g (length ?ds)) @ [NL] \<and>
           (length ?ds = 63 \<longrightarrow> Line2_data int_str None [] 0 None None 0 g' = Some (-1, g'))"
    by (rule data_series_drawn) (simp_all add: GnuPlot_named_def gp_mem_def this_ok_def)
  then show ?thesis by (auto simp: GnuPlot_named_def gp_mem_def numeral_2_eq_2)
qed

text \<open>
  \<open>SetMultiPlot\<close> with a title sends the title alone: the layout is overwritten, and so is the
  title by a font. What is sent is not a command.
\<close>

lemma multiplot_loses_layout:
  "multiplot_text row col (Some t) sz None = (if sz > 0 then '' font '' @ quoted ('':'' @ int_str sz) else '' title '' @ quoted t)"
  "multiplot_text row col title sz (Some f) = '' font '' @ quoted (if sz > 0 then f @ '':'' @ int_str sz else f @ '':'')"
  by (simp_all add: multiplot_text_def)

text \<open>
  The constructor does not set \<open>m_dataNum\<close>: what the memory held decides; a negative number
  makes the first data set write outside \<open>m_filePath\<close>.
\<close>

lemma uninitialised_number:
  "gp_dataNum mem < 0 \<Longrightarrow> Line2_data fmt (Some x) y n t c lw (GnuPlot_named opened mem) = None"
  by (simp add: Line2_data_def data_plot2_def MakeDataFile2_def make_file_def GnuPlot_named_def Let_def)

end
