(* ===== verification/Conf.thy ===== *)
theory Conf
  imports Prelude "HOL-Library.AList"
begin

text \<open>
  \<open>Conf\<close> (dtConf.hpp): configurations, YAML documents that are loaded, laid over one another
  and read or set by keys. The YAML library supplies the documents; here they are trees, and
  the operations the class uses on them do what the library documents: reading a key that is
  missing gives a node that must not be used, setting one inserts it. Nodes of the library
  are references; a document in which one node occurs twice (an anchor with aliases) is
  outside the model, as are keys that are not strings.
\<close>

section \<open>Documents\<close>

datatype yaml = Y_null | Y_scalar "char list" | Y_seq "yaml list" | Y_map "(char list \<times> yaml) list"

datatype conf_error =
    Bad_file
  | Parse_error
  | Invalid_node
  | Bad_subscript
  | Bad_pushback
  | Bad_conversion
  | Runtime_error "char list"

text \<open>
  \<open>mergeNodes\<close> for nodes that exist. The base is changed in place, so that it shows what has
  been done when an exception (the first component) ends the merging: assigning the missing
  node \<open>baseNode[key]\<close>, which is what a null in the override gives for a new key, is one.
\<close>

fun mergeNodes :: "bool \<Rightarrow> yaml \<Rightarrow> yaml \<Rightarrow> bool \<times> yaml"
and merge_pairs :: "bool \<Rightarrow> (char list \<times> yaml) list \<Rightarrow> (char list \<times> yaml) list \<Rightarrow> bool \<times> (char list \<times> yaml) list" where
  "mergeNodes concatSequences base ovr =
     (if ovr = Y_null then (False, base)
      else if base = Y_null then (False, ovr)
      else case ovr of
             Y_map os \<Rightarrow>
               (case base of
                  Y_map bs \<Rightarrow> (case merge_pairs concatSequences bs os of (thrown, ps) \<Rightarrow> (thrown, Y_map ps))
                | _ \<Rightarrow> (False, ovr))
           | Y_seq os \<Rightarrow>
               (case base of
                  Y_seq bs \<Rightarrow> if concatSequences then (False, Y_seq (bs @ os)) else (False, ovr)
                | _ \<Rightarrow> (False, ovr))
           | _ \<Rightarrow> (False, ovr))"
| "merge_pairs concatSequences bs [] = (False, bs)"
| "merge_pairs concatSequences bs ((key, v) # os) =
     (case map_of bs key of
        None \<Rightarrow> if v = Y_null then (True, bs) else merge_pairs concatSequences (AList.update key v bs) os
      | Some b \<Rightarrow>
          (case mergeNodes concatSequences b v of
             (thrown, r) \<Rightarrow>
               if thrown then (True, AList.update key r bs)
               else merge_pairs concatSequences (AList.update key r bs) os))"

declare mergeNodes.simps [simp del]

section \<open>Configurations\<close>

text \<open>
  A configuration is its root node, \<open>None\<close> when it refers to a node that is not defined. What
  a file holds: nothing (it cannot be opened), no document, or a document.
\<close>

type_synonym conf = "yaml option"

datatype content = No_file | No_document | Document yaml

definition conf_default :: conf where "conf_default = Some Y_null"

fun LoadFile :: "content \<Rightarrow> conf_error + yaml" where
  "LoadFile No_file = Inl Bad_file"
| "LoadFile No_document = Inl Parse_error"
| "LoadFile (Document y) = Inr y"

text \<open>An operation returns its result or throws, and leaves a configuration.\<close>

fun Conf_Load :: "content \<Rightarrow> conf \<Rightarrow> (conf_error + bool) \<times> conf" where
  "Conf_Load No_file c = (Inr False, c)"
| "Conf_Load No_document c = (Inl Parse_error, c)"
| "Conf_Load (Document y) c = (Inr True, Some y)"

definition Conf_Append :: "content \<Rightarrow> bool \<Rightarrow> conf \<Rightarrow> (conf_error + bool) \<times> conf" where
  "Conf_Append src ovr c =
     (case c of
        None \<Rightarrow> Conf_Load src c
      | Some root \<Rightarrow>
          (case LoadFile src of
             Inl e \<Rightarrow> (Inl e, c)
           | Inr overrideNode \<Rightarrow>
               (case mergeNodes (\<not> ovr) root overrideNode of
                  (thrown, r) \<Rightarrow> if thrown then (Inl Invalid_node, Some r) else (Inr True, Some r))))"

text \<open>Loading from a stream cannot fail to open; otherwise the overloads are the same.\<close>

definition Conf_Load_stream :: "yaml option \<Rightarrow> conf \<Rightarrow> (conf_error + bool) \<times> conf" where
  "Conf_Load_stream doc c = (case doc of None \<Rightarrow> (Inl Parse_error, c) | Some y \<Rightarrow> (Inr True, Some y))"

definition Conf_Append_stream :: "yaml option \<Rightarrow> bool \<Rightarrow> conf \<Rightarrow> (conf_error + bool) \<times> conf" where
  "Conf_Append_stream doc ovr c =
     (case c of
        None \<Rightarrow> Conf_Load_stream doc c
      | Some root \<Rightarrow>
          (case doc of
             None \<Rightarrow> (Inl Parse_error, c)
           | Some overrideNode \<Rightarrow>
               (case mergeNodes (\<not> ovr) root overrideNode of
                  (thrown, r) \<Rightarrow> if thrown then (Inl Invalid_node, Some r) else (Inr True, Some r))))"

text \<open>The constructors; an exception leaves no object.\<close>

definition Conf_file :: "content \<Rightarrow> conf_error + conf" where
  "Conf_file src = (case LoadFile src of Inl e \<Rightarrow> Inl e | Inr y \<Rightarrow> Inr (Some y))"

fun append_all :: "content list \<Rightarrow> conf \<Rightarrow> conf_error + conf" where
  "append_all [] c = Inr c"
| "append_all (src # srcs) c =
     (case Conf_Append src True c of (Inl e, c') \<Rightarrow> Inl e | (Inr b, c') \<Rightarrow> append_all srcs c')"

definition Conf_files :: "content list \<Rightarrow> conf_error + conf" where
  "Conf_files srcs = append_all srcs conf_default"

fun append_all_streams :: "yaml option list \<Rightarrow> conf \<Rightarrow> conf_error + conf" where
  "append_all_streams [] c = Inr c"
| "append_all_streams (doc # docs) c =
     (case Conf_Append_stream doc True c of (Inl e, c') \<Rightarrow> Inl e | (Inr b, c') \<Rightarrow> append_all_streams docs c')"

definition Conf_streams :: "yaml option list \<Rightarrow> conf_error + conf" where
  "Conf_streams docs = append_all_streams docs conf_default"

definition Conf_node :: "yaml option \<Rightarrow> conf" where "Conf_node n = n"

text \<open>
  \<open>Dump\<close>: \<open>emit\<close> is the emitter of the library; the result is what is written, when the file
  opens.
\<close>

definition Conf_Dump :: "(conf \<Rightarrow> char list) \<Rightarrow> bool \<Rightarrow> conf \<Rightarrow> bool \<times> char list option" where
  "Conf_Dump emit opened c = (if opened then (True, Some (emit c)) else (False, None))"

definition Conf_Dump_stream :: "(conf \<Rightarrow> char list) \<Rightarrow> conf \<Rightarrow> bool \<times> char list" where
  "Conf_Dump_stream emit c = (True, emit c)"

subsection \<open>Reading and setting by keys\<close>

text \<open>
  The constant \<open>operator[]\<close>: a missing key, or a node without keys, becomes a \<open>runtime_error\<close>;
  a scalar has no subscripts at all, an exception that is not caught.
\<close>

definition key_error :: "char list \<Rightarrow> conf_error" where
  "key_error key = Runtime_error (''invalid config node; invalid key: '' @ [CHR 0x22] @ key @ [CHR 0x22])"

definition Conf_at :: "char list \<Rightarrow> conf \<Rightarrow> conf_error + conf" where
  "Conf_at key c =
     (case c of
        Some (Y_map ps) \<Rightarrow> (case map_of ps key of Some y \<Rightarrow> Inr (Some y) | None \<Rightarrow> Inl (key_error key))
      | Some (Y_scalar s) \<Rightarrow> Inl Bad_subscript
      | _ \<Rightarrow> Inl (key_error key))"

fun Conf_get :: "char list list \<Rightarrow> conf \<Rightarrow> conf_error + conf" where
  "Conf_get [] c = Inr c"
| "Conf_get (k # ks) c = (case Conf_at k c of Inl e \<Rightarrow> Inl e | Inr c' \<Rightarrow> Conf_get ks c')"

text \<open>
  The other \<open>operator[]\<close> gives a reference into the document, so a chain of them is a place;
  \<open>place keys f\<close> is the document after the node at that place has been changed by \<open>f\<close>. On the
  way null and missing nodes become mappings, and so does a sequence, its indices becoming
  keys.
\<close>

definition index_pairs :: "yaml list \<Rightarrow> (char list \<times> yaml) list" where
  "index_pairs xs = map (\<lambda>i. (nat_str i, xs ! i)) [0..<length xs]"

definition as_pairs :: "conf \<Rightarrow> (char list \<times> yaml) list option" where
  "as_pairs c =
     (case c of
        Some (Y_map ps) \<Rightarrow> Some ps
      | Some (Y_seq xs) \<Rightarrow> Some (index_pairs xs)
      | Some (Y_scalar s) \<Rightarrow> None
      | _ \<Rightarrow> Some [])"

fun place :: "char list list \<Rightarrow> (conf \<Rightarrow> conf_error + yaml) \<Rightarrow> conf \<Rightarrow> conf_error + yaml" where
  "place [] f c = f c"
| "place (k # ks) f c =
     (case as_pairs c of
        None \<Rightarrow> Inl Bad_subscript
      | Some ps \<Rightarrow>
          (case place ks f (map_of ps k) of
             Inl e \<Rightarrow> Inl e
           | Inr y \<Rightarrow> Inr (Y_map (AList.update k y ps))))"

definition Conf_assign :: "char list list \<Rightarrow> yaml \<Rightarrow> conf \<Rightarrow> conf_error + yaml" where
  "Conf_assign keys v = place keys (\<lambda>_. Inr v)"

definition push_back :: "yaml \<Rightarrow> conf \<Rightarrow> conf_error + yaml" where
  "push_back v c =
     (case c of
        None \<Rightarrow> Inr (Y_seq [v])
      | Some Y_null \<Rightarrow> Inr (Y_seq [v])
      | Some (Y_seq xs) \<Rightarrow> Inr (Y_seq (xs @ [v]))
      | _ \<Rightarrow> Inl Bad_pushback)"

definition Conf_push :: "char list list \<Rightarrow> yaml \<Rightarrow> conf \<Rightarrow> conf_error + yaml" where
  "Conf_push keys v = place keys (push_back v)"

definition Conf_size :: "conf \<Rightarrow> nat" where
  "Conf_size c = (case c of Some (Y_seq xs) \<Rightarrow> length xs | _ \<Rightarrow> 0)"

subsection \<open>Values\<close>

text \<open>
  \<open>as\<close> is the conversion of the library to a type; each accessor returns what it converts to,
  as the type the accessor declares.
\<close>

definition convert :: "('a \<Rightarrow> 'b) \<Rightarrow> (conf \<Rightarrow> 'a option) \<Rightarrow> conf \<Rightarrow> conf_error + 'b" where
  "convert f as c = (case as c of None \<Rightarrow> Inl Bad_conversion | Some v \<Rightarrow> Inr (f v))"

definition Conf_to :: "(conf \<Rightarrow> 'a option) \<Rightarrow> conf \<Rightarrow> conf_error + 'a" where "Conf_to = convert id"
definition toString :: "(conf \<Rightarrow> char list option) \<Rightarrow> conf \<Rightarrow> conf_error + char list" where "toString = convert id"
definition toDouble :: "(conf \<Rightarrow> 'd option) \<Rightarrow> conf \<Rightarrow> conf_error + 'd" where "toDouble = convert id"
definition toFloat64 :: "(conf \<Rightarrow> 'd option) \<Rightarrow> conf \<Rightarrow> conf_error + 'd" where "toFloat64 = convert id"
definition toFloat :: "(conf \<Rightarrow> 'f option) \<Rightarrow> conf \<Rightarrow> conf_error + 'f" where "toFloat = convert id"
definition toBoolean :: "(conf \<Rightarrow> bool option) \<Rightarrow> conf \<Rightarrow> conf_error + bool" where "toBoolean = convert id"
definition toInt8 :: "(conf \<Rightarrow> 8 word option) \<Rightarrow> conf \<Rightarrow> conf_error + 32 word" where "toInt8 = convert scast"
definition toUInt8 :: "(conf \<Rightarrow> 8 word option) \<Rightarrow> conf \<Rightarrow> conf_error + 32 word" where "toUInt8 = convert ucast"
definition toInt16 :: "(conf \<Rightarrow> 16 word option) \<Rightarrow> conf \<Rightarrow> conf_error + 32 word" where "toInt16 = convert scast"
definition toUInt16 :: "(conf \<Rightarrow> 16 word option) \<Rightarrow> conf \<Rightarrow> conf_error + 32 word" where "toUInt16 = convert ucast"
definition toInt32 :: "(conf \<Rightarrow> 32 word option) \<Rightarrow> conf \<Rightarrow> conf_error + 32 word" where "toInt32 = convert id"
definition toUInt32 :: "(conf \<Rightarrow> 32 word option) \<Rightarrow> conf \<Rightarrow> conf_error + 32 word" where "toUInt32 = convert id"
definition toInt64 :: "(conf \<Rightarrow> 64 word option) \<Rightarrow> conf \<Rightarrow> conf_error + 32 word" where "toInt64 = convert scast"
definition toUInt64 :: "(conf \<Rightarrow> 64 word option) \<Rightarrow> conf \<Rightarrow> conf_error + 32 word" where "toUInt64 = convert ucast"

end
