(* ===== verification/ConfProps.thy ===== *)
theory ConfProps
  imports Conf "HOL-Library.Sublist"
begin

text \<open>
  What merging does to the settings of a document, when it throws, and that what has been set
  is what is read.
\<close>

section \<open>Settings\<close>

text \<open>The node at a path of keys.\<close>

fun setting :: "char list list \<Rightarrow> yaml \<Rightarrow> yaml option" where
  "setting [] y = Some y"
| "setting (k # ks) (Y_map ps) = (case map_of ps k of None \<Rightarrow> None | Some y \<Rightarrow> setting ks y)"
| "setting (k # ks) _ = None"

text \<open>The document says nothing about the path: a key on the way is missing or null.\<close>

fun silent :: "char list list \<Rightarrow> yaml \<Rightarrow> bool" where
  "silent p Y_null = True"
| "silent (k # ks) (Y_map ps) = (case map_of ps k of None \<Rightarrow> True | Some y \<Rightarrow> silent ks y)"
| "silent _ _ = False"

text \<open>No mapping has a key twice, as YAML demands.\<close>

fun distinct_keys :: "yaml \<Rightarrow> bool" where
  "distinct_keys (Y_map ps) \<longleftrightarrow> distinct (map fst ps) \<and> (\<forall>v \<in> set (map snd ps). distinct_keys v)"
| "distinct_keys _ \<longleftrightarrow> True"

lemma setting_Cons: "setting (k # ks) y = (case y of Y_map ps \<Rightarrow> (case map_of ps k of None \<Rightarrow> None | Some y' \<Rightarrow> setting ks y') | _ \<Rightarrow> None)"
  by (cases y) simp_all

lemma setting_snoc: "setting (ks @ [k]) y = (case setting ks y of Some (Y_map ps) \<Rightarrow> map_of ps k | _ \<Rightarrow> None)"
  by (induction ks y rule: setting.induct) (simp_all add: setting_Cons split: option.splits yaml.splits)

lemma setting_map: "setting p y = Some (Y_map ps) \<Longrightarrow> \<exists>qs. y = Y_map qs"
  by (cases p; cases y) simp_all

lemma map_of_size: "map_of ps k = Some v \<Longrightarrow> size v < size (Y_map ps)"
  by (induction ps) (auto split: if_splits)

lemma map_of_distinct_keys: "distinct_keys (Y_map ps) \<Longrightarrow> map_of ps k = Some v \<Longrightarrow> distinct_keys v"
  by (auto dest: map_of_SomeD)

section \<open>Merging\<close>

definition pair_throws :: "bool \<Rightarrow> (char list \<times> yaml) list \<Rightarrow> char list \<Rightarrow> yaml \<Rightarrow> bool" where
  "pair_throws cc bs k v = (case map_of bs k of None \<Rightarrow> v = Y_null | Some b \<Rightarrow> fst (mergeNodes cc b v))"

definition pair_result :: "bool \<Rightarrow> (char list \<times> yaml) list \<Rightarrow> char list \<Rightarrow> yaml \<Rightarrow> yaml" where
  "pair_result cc bs k v = (case map_of bs k of None \<Rightarrow> v | Some b \<Rightarrow> snd (mergeNodes cc b v))"

lemma merge_pairs_Cons:
  "fst (merge_pairs cc bs ((k, v) # os)) \<longleftrightarrow>
     pair_throws cc bs k v \<or> fst (merge_pairs cc (AList.update k (pair_result cc bs k v) bs) os)"
  "\<not> pair_throws cc bs k v \<Longrightarrow>
     snd (merge_pairs cc bs ((k, v) # os)) = snd (merge_pairs cc (AList.update k (pair_result cc bs k v) bs) os)"
  by (auto simp: pair_throws_def pair_result_def split: option.split prod.split)

declare merge_pairs.simps(2) [simp del]

lemma pair_update [simp]:
  "k \<noteq> k' \<Longrightarrow> pair_throws cc (AList.update k r bs) k' v = pair_throws cc bs k' v"
  "k \<noteq> k' \<Longrightarrow> pair_result cc (AList.update k r bs) k' v = pair_result cc bs k' v"
  by (simp_all add: pair_throws_def pair_result_def update_conv')

lemma merge_pairs_throws:
  "distinct (map fst os) \<Longrightarrow> fst (merge_pairs cc bs os) \<longleftrightarrow> (\<exists>(k, v) \<in> set os. pair_throws cc bs k v)"
proof (induction os arbitrary: bs)
  case (Cons kv os)
  obtain k v where kv: "kv = (k, v)" by (cases kv)
  have "k \<noteq> k'" if "(k', v') \<in> set os" for k' v' using Cons.prems that kv by force
  then have "(\<exists>(k', v') \<in> set os. pair_throws cc (AList.update k (pair_result cc bs k v) bs) k' v') \<longleftrightarrow>
      (\<exists>(k', v') \<in> set os. pair_throws cc bs k' v')"
    by (intro bex_cong) auto
  then show ?case using Cons by (simp add: kv merge_pairs_Cons)
qed simp

lemma merge_pairs_result:
  "distinct (map fst os) \<Longrightarrow> \<not> fst (merge_pairs cc bs os) \<Longrightarrow>
     map_of (snd (merge_pairs cc bs os)) k = (case map_of os k of None \<Rightarrow> map_of bs k | Some v \<Rightarrow> Some (pair_result cc bs k v))"
proof (induction os arbitrary: bs)
  case (Cons kv os)
  obtain k1 v1 where kv: "kv = (k1, v1)" by (cases kv)
  have nt: "\<not> pair_throws cc bs k1 v1" "\<not> fst (merge_pairs cc (AList.update k1 (pair_result cc bs k1 v1) bs) os)"
    using Cons.prems(2) kv by (simp_all add: merge_pairs_Cons)
  have "k1 \<notin> dom (map_of os)" using Cons.prems(1) kv by (simp add: dom_map_of_conv_image_fst)
  then have "map_of os k1 = None" by blast
  then show ?case using Cons.IH [OF _ nt(2)] Cons.prems(1) nt(1)
    by (auto simp: kv merge_pairs_Cons(2) update_conv' split: option.split)
qed simp

text \<open>The cases of \<open>mergeNodes\<close>.\<close>

lemma merge_null [simp]: "mergeNodes cc b Y_null = (False, b)" "mergeNodes cc Y_null v = (False, v)"
  by (subst mergeNodes.simps, simp)+

lemma merge_maps: "mergeNodes cc (Y_map bs) (Y_map os) = map_prod id Y_map (merge_pairs cc bs os)"
  by (subst mergeNodes.simps) (simp add: map_prod_def split: prod.split)

lemma merge_other:
  "b \<noteq> Y_null \<Longrightarrow> v \<noteq> Y_null \<Longrightarrow> \<not> ((\<exists>bs os. b = Y_map bs \<and> v = Y_map os) \<or> (\<exists>bs os. b = Y_seq bs \<and> v = Y_seq os)) \<Longrightarrow>
     mergeNodes cc b v = (False, v)"
  by (subst mergeNodes.simps) (cases b; cases v; simp)

lemma merge_seqs: "mergeNodes cc (Y_seq bs) (Y_seq os) = (False, if cc then Y_seq (bs @ os) else Y_seq os)"
  by (subst mergeNodes.simps) simp

lemma merge_map_throws:
  assumes "distinct (map fst os)"
  shows "fst (mergeNodes cc (Y_map bs) (Y_map os)) \<longleftrightarrow> (\<exists>k v. map_of os k = Some v \<and> pair_throws cc bs k v)"
  using merge_pairs_throws [OF assms, of cc bs] assms by (auto simp: merge_maps)

lemma merge_map_setting:
  assumes "distinct (map fst os)" and "mergeNodes cc (Y_map bs) (Y_map os) = (False, r)"
  shows "setting (k # ks) r = (case map_of os k of None \<Rightarrow> setting (k # ks) (Y_map bs) | Some v \<Rightarrow> setting ks (pair_result cc bs k v))"
proof -
  have "r = Y_map (snd (merge_pairs cc bs os))" "\<not> fst (merge_pairs cc bs os)"
    using assms(2) by (auto simp: merge_maps map_prod_def split: prod.splits)
  then show ?thesis using merge_pairs_result [OF assms(1), of cc bs k] by (simp split: option.split)
qed

lemma merge_cases [case_names null_ovr null_base maps seqs other]:
  assumes "v = Y_null \<Longrightarrow> P" and "b = Y_null \<Longrightarrow> v \<noteq> Y_null \<Longrightarrow> P"
    and "\<And>bs os. b = Y_map bs \<Longrightarrow> v = Y_map os \<Longrightarrow> P"
    and "\<And>bs os. b = Y_seq bs \<Longrightarrow> v = Y_seq os \<Longrightarrow> P"
    and "b \<noteq> Y_null \<Longrightarrow> v \<noteq> Y_null \<Longrightarrow> \<not> ((\<exists>bs os. b = Y_map bs \<and> v = Y_map os) \<or> (\<exists>bs os. b = Y_seq bs \<and> v = Y_seq os)) \<Longrightarrow> P"
  shows P
  using assms by (cases b; cases v; simp)

text \<open>The override has a null for a key that is new in a mapping both documents have.\<close>

definition null_for_new_key :: "yaml \<Rightarrow> yaml \<Rightarrow> bool" where
  "null_for_new_key b v \<longleftrightarrow>
     (\<exists>p k bs. setting p b = Some (Y_map bs) \<and> map_of bs k = None \<and> setting (p @ [k]) v = Some Y_null)"

lemma null_for_new_key_maps:
  "null_for_new_key (Y_map bs) (Y_map os) \<longleftrightarrow>
     (\<exists>k v. map_of os k = Some v \<and> (case map_of bs k of None \<Rightarrow> v = Y_null | Some b \<Rightarrow> null_for_new_key b v))"
  (is "?L \<longleftrightarrow> (\<exists>k v. ?R k v)")
proof
  assume ?L
  then obtain p k cs where p: "setting p (Y_map bs) = Some (Y_map cs)" "map_of cs k = None"
    "setting (p @ [k]) (Y_map os) = Some Y_null"
    unfolding null_for_new_key_def by blast
  show "\<exists>k v. ?R k v"
  proof (cases p)
    case Nil
    then have "?R k Y_null" using p by (simp split: option.splits)
    then show ?thesis by blast
  next
    case (Cons k' p')
    then obtain b' v' where bv: "map_of bs k' = Some b'" "map_of os k' = Some v'" "setting p' b' = Some (Y_map cs)"
      "setting (p' @ [k]) v' = Some Y_null"
      using p by (auto split: option.splits)
    then have "null_for_new_key b' v'" using p(2) unfolding null_for_new_key_def by blast
    then have "?R k' v'" using bv(1,2) by simp
    then show ?thesis by blast
  qed
next
  assume "\<exists>k v. ?R k v"
  then obtain k' v' where k': "map_of os k' = Some v'" "case map_of bs k' of None \<Rightarrow> v' = Y_null | Some b \<Rightarrow> null_for_new_key b v'"
    by blast
  show ?L
  proof (cases "map_of bs k'")
    case None
    then have "setting [] (Y_map bs) = Some (Y_map bs) \<and> map_of bs k' = None \<and> setting ([] @ [k']) (Y_map os) = Some Y_null"
      using k' by simp
    then show ?thesis unfolding null_for_new_key_def by blast
  next
    case (Some b')
    then obtain p k cs where "setting p b' = Some (Y_map cs)" "map_of cs k = None" "setting (p @ [k]) v' = Some Y_null"
      using k'(2) by (auto simp: null_for_new_key_def)
    then have "setting (k' # p) (Y_map bs) = Some (Y_map cs) \<and> map_of cs k = None \<and> setting ((k' # p) @ [k]) (Y_map os) = Some Y_null"
      using Some k'(1) by simp
    then show ?thesis unfolding null_for_new_key_def by blast
  qed
qed

text \<open>
  C37: Laying a document over another throws exactly when the document on top has a null for a
  key that is new in a mapping both have: nothing else can go wrong. (A null for a key that
  is there leaves the setting below as it is.)
\<close>

theorem merge_throws_iff:
  assumes "distinct_keys v"
  shows "fst (mergeNodes cc b v) \<longleftrightarrow>
           (\<exists>p k bs. setting p b = Some (Y_map bs) \<and> map_of bs k = None \<and> setting (p @ [k]) v = Some Y_null)"
  using assms unfolding null_for_new_key_def [symmetric]
proof (induction v arbitrary: b rule: measure_induct_rule [of size])
  case (less v)
  show ?case
  proof (cases rule: merge_cases [where b = b and v = v])
    case (maps bs os)
    have d: "distinct (map fst os)" using less.prems maps by simp
    have IH: "fst (mergeNodes cc b' v') \<longleftrightarrow> null_for_new_key b' v'" if "map_of os k = Some v'" for b' k v'
      using less.IH [of v' b'] map_of_size [OF that] map_of_distinct_keys [OF _ that] less.prems maps by simp
    have "pair_throws cc bs k v' \<longleftrightarrow> (case map_of bs k of None \<Rightarrow> v' = Y_null | Some b \<Rightarrow> null_for_new_key b v')"
      if "map_of os k = Some v'" for k v'
      using IH [OF that] by (simp add: pair_throws_def split: option.split)
    then show ?thesis using merge_map_throws [OF d, of cc bs] by (auto simp: maps null_for_new_key_maps)
  qed (use merge_other [of b v cc] in \<open>auto simp: null_for_new_key_def merge_seqs setting_snoc
        split: option.splits yaml.splits dest!: setting_map\<close>)
qed

text \<open>The setting a document on top makes, given the one below.\<close>

definition overlaid :: "bool \<Rightarrow> yaml option \<Rightarrow> yaml \<Rightarrow> yaml" where
  "overlaid cc below v =
     (case (below, v) of (Some (Y_seq xs), Y_seq ys) \<Rightarrow> if cc then Y_seq (xs @ ys) else v | _ \<Rightarrow> v)"

lemma overlaid_simps [simp]:
  "overlaid cc None v = v" "overlaid cc (Some (Y_map ps)) v = v" "overlaid cc (Some (Y_scalar s)) v = v"
  "overlaid cc (Some Y_null) v = v" "overlaid cc x (Y_scalar s) = Y_scalar s"
  "overlaid cc (Some (Y_seq xs)) (Y_seq ys) = (if cc then Y_seq (xs @ ys) else Y_seq ys)"
  by (auto simp: overlaid_def split: option.split yaml.split)

lemma not_thrown_pair:
  assumes "mergeNodes cc (Y_map bs) (Y_map os) = (False, r)" and "distinct (map fst os)" and "map_of os k = Some v"
  shows "\<not> pair_throws cc bs k v"
  using merge_map_throws [OF assms(2), of cc bs] assms(1,3) by auto

lemma merge_pair:
  assumes "map_of bs k = Some b" and "\<not> pair_throws cc bs k v"
  shows "mergeNodes cc b v = (False, pair_result cc bs k v)"
  using assms by (simp add: pair_throws_def pair_result_def prod_eq_iff)

text \<open>
  C23: A document laid over another: every scalar or list it has is in the result (lists joined
  to those below when lists are concatenated), every setting below about which it is silent
  is kept, and every scalar of the result comes from one of the two.
\<close>

theorem merge_settings:
  assumes "mergeNodes cc b v = (False, r)" and "distinct_keys v"
  shows "(setting p v = Some x \<longrightarrow> x \<noteq> Y_null \<longrightarrow> (\<forall>ps. x \<noteq> Y_map ps) \<longrightarrow> setting p r = Some (overlaid cc (setting p b) x)) \<and>
         (silent p v \<longrightarrow> setting p b = Some y \<longrightarrow> setting p r = Some y) \<and>
         (setting p r = Some (Y_scalar z) \<longrightarrow> Y_scalar z \<in> {w. setting p v = Some w \<or> setting p b = Some w})"
  using assms
proof (induction p arbitrary: b v r)
  case Nil
  then show ?case by (cases v; cases b) (auto simp: mergeNodes.simps split: if_splits prod.splits)
next
  case (Cons k p)
  show ?case
  proof (cases rule: merge_cases [where b = b and v = v])
    case (maps bs os)
    have d: "distinct (map fst os)" using Cons.prems(2) maps by simp
    note r = merge_map_setting [OF d Cons.prems(1) [unfolded maps], of k p]
    show ?thesis
    proof (cases "map_of os k")
      case None
      then show ?thesis using maps r by simp
    next
      case v': (Some v')
      have nt: "\<not> pair_throws cc bs k v'" by (rule not_thrown_pair [OF Cons.prems(1) [unfolded maps] d v'])
      show ?thesis
      proof (cases "map_of bs k")
        case None
        then show ?thesis using maps r v' by (simp add: pair_result_def)
      next
        case (Some b')
        have "distinct_keys v'" using map_of_distinct_keys [OF _ v'] Cons.prems(2) maps by simp
        from Cons.IH [OF merge_pair [OF Some nt] this] show ?thesis using maps r v' Some by simp
      qed
    qed
  next
    case (seqs bs os)
    then show ?thesis using Cons.prems by (cases cc) (auto simp: merge_seqs)
  next
    case other
    then have "r = v" using Cons.prems(1) merge_other [of b v cc] by simp
    then show ?thesis using other by (cases b; cases v) auto
  next
    case null_base
    then show ?thesis using Cons.prems by (cases v) auto
  qed (use Cons.prems in auto)
qed

definition base_doc :: yaml where
  "base_doc = Y_map [(''robot'', Y_map [(''name'', Y_scalar ''a''), (''rate'', Y_scalar ''100'')]), (''ids'', Y_seq [Y_scalar ''1''])]"

definition top_doc :: yaml where
  "top_doc = Y_map [(''robot'', Y_map [(''rate'', Y_scalar ''500''), (''name'', Y_null)]), (''ids'', Y_seq [Y_scalar ''2''])]"

lemma merged_docs:
  "mergeNodes True base_doc top_doc = (False,
     Y_map [(''robot'', Y_map [(''name'', Y_scalar ''a''), (''rate'', Y_scalar ''500'')]), (''ids'', Y_seq [Y_scalar ''1'', Y_scalar ''2''])])"
  by (simp add: base_doc_def top_doc_def mergeNodes.simps merge_pairs.simps)

theorem merge_settings_witness:
  "\<exists>r. mergeNodes True base_doc top_doc = (False, r) \<and> setting [''robot'', ''rate''] r = Some (Y_scalar ''500'') \<and>
       setting [''robot'', ''name''] r = Some (Y_scalar ''a'')"
proof -
  have d: "distinct_keys top_doc" by (simp add: top_doc_def)
  have "setting [''robot'', ''rate''] top_doc = Some (Y_scalar ''500'')" by (simp add: top_doc_def)
  moreover have "silent [''robot'', ''name''] top_doc" by (simp add: top_doc_def)
  moreover have "setting [''robot'', ''name''] base_doc = Some (Y_scalar ''a'')" by (simp add: base_doc_def)
  ultimately show ?thesis
    using merge_settings [OF merged_docs d, where p = "[''robot'', ''rate'']" and x = "Y_scalar ''500''"]
      merge_settings [OF merged_docs d, where p = "[''robot'', ''name'']" and y = "Y_scalar ''a''"] merged_docs by auto
qed

theorem merge_throws_iff_witness:
  "fst (mergeNodes False base_doc (Y_map [(''robot'', Y_map [(''mass'', Y_null)])]))"
proof -
  let ?v = "Y_map [(''robot'', Y_map [(''mass'', Y_null)])]"
  have "setting [''robot''] base_doc = Some (Y_map [(''name'', Y_scalar ''a''), (''rate'', Y_scalar ''100'')])"
    by (simp add: base_doc_def)
  moreover have "map_of [(''name'', Y_scalar ''a''), (''rate'', Y_scalar ''100'')] ''mass'' = None" by simp
  moreover have "setting ([''robot''] @ [''mass'']) ?v = Some Y_null" by simp
  moreover have "distinct_keys ?v" by simp
  ultimately show ?thesis unfolding merge_throws_iff [OF \<open>distinct_keys ?v\<close>] by blast
qed

section \<open>Setting and reading\<close>

lemma Conf_at_pairs: "Conf_at k (Some (Y_map ps)) = (case map_of ps k of Some y \<Rightarrow> Inr (Some y) | None \<Rightarrow> Inl (key_error k))"
  by (simp add: Conf_at_def)

lemma place_get: "place ks f c = Inr y \<Longrightarrow> \<exists>c' y'. f c' = Inr y' \<and> Conf_get ks (Some y) = Inr (Some y')"
proof (induction ks arbitrary: c y)
  case (Cons k ks)
  then obtain ps z where ps: "as_pairs c = Some ps" "place ks f (map_of ps k) = Inr z" "y = Y_map (AList.update k z ps)"
    by (auto split: option.splits sum.splits)
  then show ?case using Cons.IH [OF ps(2)] by (simp add: Conf_at_pairs update_conv')
qed auto

lemma as_pairs_setting: "as_pairs (Some y) = Some ps \<Longrightarrow> setting (k # ks) y = Some z \<Longrightarrow> \<exists>y'. map_of ps k = Some y' \<and> setting ks y' = Some z"
  by (cases y) (auto simp: as_pairs_def split: option.splits)

lemma place_keeps:
  "place ks f (Some y0) = Inr y \<Longrightarrow> \<not> prefix ks qs \<Longrightarrow> \<not> prefix qs ks \<Longrightarrow> setting qs y0 = Some z \<Longrightarrow> setting qs y = Some z"
proof (induction ks arbitrary: y0 y qs)
  case (Cons k ks)
  obtain q qs' where qs: "qs = q # qs'" using Cons.prems(3) by (cases qs) auto
  obtain ps y1 where ps: "as_pairs (Some y0) = Some ps" "place ks f (map_of ps k) = Inr y1" "y = Y_map (AList.update k y1 ps)"
    using Cons.prems(1) by (auto split: option.splits sum.splits)
  obtain y' where y': "map_of ps q = Some y'" "setting qs' y' = Some z"
    using as_pairs_setting [OF ps(1)] Cons.prems(4) qs by blast
  show ?case
  proof (cases "q = k")
    case True
    then have "setting qs' y1 = Some z" using Cons.IH [of y' y1 qs'] ps(2) y' Cons.prems(2,3) qs by simp
    then show ?thesis using True qs ps(3) by (simp add: update_conv')
  next
    case False
    then show ?thesis using qs ps(3) y' by (simp add: update_conv')
  qed
qed simp

lemma place_fails: "place ks f c = Inl e \<Longrightarrow> e = Bad_subscript \<or> (\<exists>c'. f c' = Inl e)"
  by (induction ks arbitrary: c) (auto split: option.splits sum.splits)



section \<open>Values of integer settings\<close>

lemma sint_scast_up: "sint (scast (w :: 8 word) :: 32 word) = sint w" "sint (scast (u :: 16 word) :: 32 word) = sint u"
  by (rule sint_up_scast, simp add: is_up)+

lemma uint_ucast_up: "uint (ucast (w :: 8 word) :: 32 word) = uint w" "uint (ucast (u :: 16 word) :: 32 word) = uint u"
  by (rule uint_up_ucast, simp add: is_up)+

lemma sint_scast_down: "sint (scast (w :: 64 word) :: 32 word) = sint w \<longleftrightarrow> - (2 ^ 31) \<le> sint w \<and> sint w < 2 ^ 31"
  by (simp add: signed_scast_eq signed_take_bit_int_eq_self_iff)

lemma uint_ucast_down: "uint (ucast (w :: 64 word) :: 32 word) = uint w \<longleftrightarrow> uint w < 2 ^ 32"
  by (simp add: unsigned_ucast_eq take_bit_int_eq_self_iff)



end
