(* ===== verification/Terminal.thy ===== *)
theory Terminal
  imports Prelude
begin

text \<open>
  \<open>dtTerm\<close> (dtTerminal.h, dtTerminal.cpp): escape sequences for a terminal, its modes, the
  question where the cursor is, and whether a key has been hit. What is printed is a text;
  the standard input is the list of the bytes that will be read, \<open>None\<close> where nothing is
  there yet or the input has ended.
\<close>

section \<open>Escape sequences\<close>

definition csi :: "char list \<Rightarrow> char list" where
  "csi s = ESC # CHR ''['' # s"

definition ShowCursor :: "bool \<Rightarrow> char list" where
  "ShowCursor on = (if on then ''setterm -cursor on'' else ''setterm -cursor off'')"

definition SetColor :: "int \<Rightarrow> char list" where
  "SetColor code = csi (int_str code @ ''m'')"

definition Set8BitColor :: "8 word \<Rightarrow> char list" where
  "Set8BitColor code = csi (''38;5;'' @ int_str (uint code) @ ''m'')"

definition cube_index :: "8 word \<Rightarrow> 8 word \<Rightarrow> 8 word \<Rightarrow> int" where
  "cube_index r g b = uint r * 36 + uint g * 6 + uint b + 16"

definition Set8BitFgColor :: "8 word \<Rightarrow> 8 word \<Rightarrow> 8 word \<Rightarrow> char list" where
  "Set8BitFgColor r g b =
     (if r > 5 \<or> g > 5 \<or> b > 5 then [] else csi (''38;5;'' @ int_str (cube_index r g b) @ ''m''))"

definition Set8BitBgColor :: "8 word \<Rightarrow> 8 word \<Rightarrow> 8 word \<Rightarrow> char list" where
  "Set8BitBgColor r g b =
     (if r > 5 \<or> g > 5 \<or> b > 5 then [] else csi (''48;5;'' @ int_str (cube_index r g b) @ ''m''))"

definition rgb :: "8 word \<Rightarrow> 8 word \<Rightarrow> 8 word \<Rightarrow> char list" where
  "rgb r g b = int_str (uint r) @ '';'' @ int_str (uint g) @ '';'' @ int_str (uint b)"

definition Set24BitFgColor :: "8 word \<Rightarrow> 8 word \<Rightarrow> 8 word \<Rightarrow> char list" where
  "Set24BitFgColor r g b = csi (''38;2;'' @ rgb r g b @ ''m'')"

definition Set24BitBgColor :: "8 word \<Rightarrow> 8 word \<Rightarrow> 8 word \<Rightarrow> char list" where
  "Set24BitBgColor r g b = csi (''48;2;'' @ rgb r g b @ ''m'')"

definition ResetColor :: "char list" where "ResetColor = csi ''0m''"
definition ClearDisp :: "char list" where "ClearDisp = csi ''2J''"
definition ClearDispC2B :: "char list" where "ClearDispC2B = csi ''1J''"
definition ClearDispC2E :: "char list" where "ClearDispC2E = csi ''0J''"
definition ClearLine :: "char list" where "ClearLine = csi ''2K''"
definition ClearLineC2B :: "char list" where "ClearLineC2B = csi ''1K''"
definition ClearLineC2E :: "char list" where "ClearLineC2E = csi ''0K''"
definition CurUp :: "int \<Rightarrow> char list" where "CurUp pos = csi (int_str pos @ ''A'')"
definition CurDn :: "int \<Rightarrow> char list" where "CurDn pos = csi (int_str pos @ ''B'')"
definition CurRt :: "int \<Rightarrow> char list" where "CurRt pos = csi (int_str pos @ ''C'')"
definition CurLt :: "int \<Rightarrow> char list" where "CurLt pos = csi (int_str pos @ ''D'')"
definition CurPos :: "int \<Rightarrow> int \<Rightarrow> char list" where
  "CurPos row col = csi (int_str row @ '';'' @ int_str col @ ''H'')"
definition SaveCurPos :: "char list" where "SaveCurPos = ESC # int_str 7"
definition RestoreCurPos :: "char list" where "RestoreCurPos = ESC # int_str 8"

text \<open>
  \<open>Print\<close> and the four \<open>Printf\<close>; \<open>rtext\<close> is what the format renders to, and the result is
  the number \<open>vprintf\<close> returns and the text.
\<close>

definition Print :: "char list \<Rightarrow> char list" where "Print str = str"

definition Printf :: "char list \<Rightarrow> int \<times> char list" where
  "Printf rtext = (int (length rtext), rtext)"

definition Printf_at :: "int \<Rightarrow> int \<Rightarrow> char list \<Rightarrow> int \<times> char list" where
  "Printf_at r c rtext = (int (length rtext), csi (int_str r @ '';'' @ int_str c @ ''H'') @ rtext)"

definition Printf_color :: "int \<Rightarrow> char list \<Rightarrow> int \<times> char list" where
  "Printf_color color rtext = (int (length rtext), csi (int_str color @ ''m'') @ rtext @ csi ''0m'')"

definition Printf_at_color :: "int \<Rightarrow> int \<Rightarrow> int \<Rightarrow> char list \<Rightarrow> int \<times> char list" where
  "Printf_at_color r c color rtext =
     (int (length rtext), csi (int_str r @ '';'' @ int_str c @ ''H'') @ csi (int_str color @ ''m'') @ rtext @ csi ''0m'')"

text \<open>
  \<open>PrintTitle\<close>: the string is copied into a bar of 65 characters and a NUL from column 2 on;
  \<open>None\<close> when the copy leaves the array, or when nothing terminates it any more.
\<close>

definition PrintTitle :: "char list \<Rightarrow> char list option" where
  "PrintTitle str =
     (let title = replicate 65 CHR ''='' @ [NUL] in
      if 2 + length str \<le> 66 then
        let title = memcpy_at title 2 str in
        if NUL \<in> set title then Some (cstr title @ [NL]) else None
      else None)"

definition PrintEndLine :: "char list" where
  "PrintEndLine = replicate 65 CHR ''-'' @ [NL, NL]"

section \<open>Modes of the terminal\<close>

text \<open>
  What the functions do with the terminal and with the static variables \<open>oriTerm\<close> and
  \<open>newTerm\<close>: attributes are two flags, line editing and echo, and others \<open>'a\<close>.
\<close>

record 'a termios =
  icanon :: bool
  echo_on :: bool
  others :: 'a

record 'a term_state =
  tm_attr :: "'a termios"
  tm_ori :: "'a termios"
  tm_out :: "char list"
  tm_system :: "char list list"

definition SetupTerminal :: "bool \<Rightarrow> 'a term_state \<Rightarrow> 'a term_state" where
  "SetupTerminal showCursor t =
     (let ori = tm_attr t in
      t\<lparr>tm_ori := ori, tm_attr := ori\<lparr>icanon := False, echo_on := False\<rparr>,
        tm_system := tm_system t @ [if showCursor then ''setterm -cursor on'' else ''setterm -cursor off'']\<rparr>)"

definition RestoreTerminal :: "'a term_state \<Rightarrow> 'a term_state" where
  "RestoreTerminal t =
     t\<lparr>tm_out := tm_out t @ csi ''0m'', tm_attr := tm_ori t, tm_system := tm_system t @ [''setterm -cursor on'']\<rparr>"

section \<open>Input\<close>

text \<open>\<open>si_bytes\<close> are the bytes of \<open>stdin\<close>, \<open>si_nonblock\<close> the flag of the descriptor.\<close>

record stdin =
  si_bytes :: "char option list"
  si_nonblock :: bool

text \<open>\<open>getchar\<close>: \<open>None\<close> is \<open>EOF\<close>, for the end of the input or for nothing to be read yet.\<close>

definition getchar :: "stdin \<Rightarrow> char option \<times> stdin" where
  "getchar s =
     (case si_bytes s of
        [] \<Rightarrow> (None, s)
      | None # bs \<Rightarrow> (None, s\<lparr>si_bytes := bs\<rparr>)
      | Some c # bs \<Rightarrow> (Some c, s\<lparr>si_bytes := bs\<rparr>))"

definition kbhit :: "stdin \<Rightarrow> int \<times> stdin" where
  "kbhit s =
     (let oldFd = si_nonblock s;
          s = s\<lparr>si_nonblock := True\<rparr>
      in case getchar s of
           (ch, s) \<Rightarrow>
             let s = s\<lparr>si_nonblock := oldFd\<rparr> in
             (case ch of
                Some c \<Rightarrow> (1, s\<lparr>si_bytes := Some c # si_bytes s\<rparr>)
              | None \<Rightarrow> (0, s)))"

text \<open>
  \<open>GetCurPos\<close>: reads up to the letter R into an array of 128 bytes, \<open>None\<close> where it writes
  outside (the NUL is put two places behind the R). At the end of the input \<open>getchar\<close>
  returns -1 for ever, stored as the byte 255, so that is where it goes then, too. The
  repositioning of the standard input at the end has no effect on a terminal.
\<close>

function curpos_loop :: "stdin \<Rightarrow> char list \<Rightarrow> nat \<Rightarrow> (char list \<times> stdin) option" where
  "curpos_loop s buff indx =
     (if indx \<ge> length buff then None
      else case getchar s of
             (cc, s) \<Rightarrow>
               let c = (case cc of Some c \<Rightarrow> c | None \<Rightarrow> CHR 0xFF);
                   buff = buff[indx := c];
                   indx = indx + 1
               in if cc = Some (CHR ''R'') then
                    (if indx + 1 < length buff then Some (buff[indx + 1 := NUL], s) else None)
                  else curpos_loop s buff indx)"
  by pat_completeness auto
termination by (relation "measure (\<lambda>(s, b, i). length b - i)") (auto simp: Let_def)

declare curpos_loop.simps [simp del]

text \<open>
  \<open>sscanf\<close> with the format "\x1b[%d;%dR": the numbers that have been read when the first
  mismatch comes. A number is an optional sign and decimal digits; spaces before it are
  skipped.
\<close>

definition is_digit :: "char \<Rightarrow> bool" where
  "is_digit c \<longleftrightarrow> 48 \<le> (of_char c :: nat) \<and> (of_char c :: nat) < 58"

definition is_blank :: "char \<Rightarrow> bool" where
  "is_blank c \<longleftrightarrow> c = CHR '' '' \<or> (9 \<le> (of_char c :: nat) \<and> (of_char c :: nat) < 14)"

definition scan_int :: "char list \<Rightarrow> (int \<times> char list) option" where
  "scan_int s =
     (let s = dropWhile is_blank s;
          (sgn, s) = (if s \<noteq> [] \<and> hd s = CHR ''-'' then (-1, tl s)
                      else if s \<noteq> [] \<and> hd s = CHR ''+'' then (1, tl s) else (1, s));
          ds = takeWhile is_digit s
      in if ds = [] then None else Some (sgn * int (str_nat ds), dropWhile is_digit s))"

definition scan_curpos :: "char list \<Rightarrow> int option \<times> int option" where
  "scan_curpos s =
     (case s of
        c1 # c2 # s1 \<Rightarrow>
          if c1 = ESC \<and> c2 = CHR ''['' then
            (case scan_int s1 of
               None \<Rightarrow> (None, None)
             | Some (row, s2) \<Rightarrow>
                 if s2 \<noteq> [] \<and> hd s2 = CHR '';'' then
                   (case scan_int (tl s2) of None \<Rightarrow> (Some row, None) | Some (col, s4) \<Rightarrow> (Some row, Some col))
                 else (Some row, None))
          else (None, None)
      | _ \<Rightarrow> (None, None))"

text \<open>\<open>junk\<close> is what the array on the stack holds.\<close>

definition GetCurPos :: "char list \<Rightarrow> int \<Rightarrow> int \<Rightarrow> stdin \<Rightarrow> (int \<times> int \<times> char list \<times> stdin) option" where
  "GetCurPos junk row col s =
     (case curpos_loop s junk 0 of
        None \<Rightarrow> None
      | Some (buff, s) \<Rightarrow>
          (case scan_curpos (cstr buff) of
             (r, c) \<Rightarrow> Some (case r of Some r \<Rightarrow> r | None \<Rightarrow> row, case c of Some c \<Rightarrow> c | None \<Rightarrow> col, csi ''6n'', s)))"

section \<open>Properties\<close>

lemma int_str_pos: "0 \<le> i \<Longrightarrow> int_str i = nat_str (nat i)"
  by (simp add: int_str_def)

lemma nat_str_suffix_inj:
  assumes "nat_str m @ c # s = nat_str n @ c # t" and "\<not> is_digit c"
  shows "m = n \<and> s = t"
proof -
  have tw: "takeWhile is_digit (nat_str k @ c # u) = nat_str k" for k u
    using nat_str_digits [of _ k] assms(2) by (subst takeWhile_append2) (auto simp: is_digit_def)
  have "nat_str m = nat_str n" using arg_cong [OF assms(1), of "takeWhile is_digit"] unfolding tw .
  then show ?thesis using assms(1) by simp
qed

lemma cube_inj:
  fixes r g b r' g' b' :: int
  assumes "r * 36 + g * 6 + b = r' * 36 + g' * 6 + b'" and "g \<le> 5" "b \<le> 5" "g' \<le> 5" "b' \<le> 5"
    and "0 \<le> g" "0 \<le> b" "0 \<le> g'" "0 \<le> b'"
  shows "r = r' \<and> g = g' \<and> b = b'"
proof -
  have "\<not> r < r'" "\<not> r' < r" using assms by linarith+
  then have r: "r = r'" by simp
  have "\<not> g < g'" "\<not> g' < g" using assms r by linarith+
  then show ?thesis using assms(1) r by simp
qed

text \<open>
  The colours of the cube: each of the 216 triples in range has a sequence of its own, with
  a number between 16 and 231; out of range nothing is printed.
\<close>

theorem cube_colors:
  "(5 < r \<or> 5 < g \<or> 5 < b \<longrightarrow> Set8BitFgColor r g b = [] \<and> Set8BitBgColor r g b = []) \<and>
   (\<not> (5 < r \<or> 5 < g \<or> 5 < b) \<longrightarrow>
      16 \<le> cube_index r g b \<and> cube_index r g b \<le> 231 \<and>
      (Set8BitFgColor r g b = Set8BitFgColor r' g' b' \<longrightarrow> (r, g, b) = (r', g', b')))"
proof (intro conjI impI)
  show "Set8BitFgColor r g b = []" "Set8BitBgColor r g b = []" if "5 < r \<or> 5 < g \<or> 5 < b"
    using that by (simp_all add: Set8BitFgColor_def Set8BitBgColor_def)
next
  assume in_range: "\<not> (5 < r \<or> 5 < g \<or> 5 < b)"
  then have le: "uint r \<le> 5" "uint g \<le> 5" "uint b \<le> 5" by (simp_all add: word_less_def not_less)
  have ge: "0 \<le> uint r" "0 \<le> uint g" "0 \<le> uint b" by simp_all
  show "16 \<le> cube_index r g b" "cube_index r g b \<le> 231" using le ge by (simp_all add: cube_index_def)
  assume eq: "Set8BitFgColor r g b = Set8BitFgColor r' g' b'"
  have in_range': "\<not> (5 < r' \<or> 5 < g' \<or> 5 < b')"
  proof
    assume "5 < r' \<or> 5 < g' \<or> 5 < b'"
    then show False using eq in_range by (simp add: Set8BitFgColor_def csi_def)
  qed
  then have le': "uint r' \<le> 5" "uint g' \<le> 5" "uint b' \<le> 5" by (simp_all add: word_less_def not_less)
  have ge': "0 \<le> uint r'" "0 \<le> uint g'" "0 \<le> uint b'" by simp_all
  have "int_str (cube_index r g b) = int_str (cube_index r' g' b')"
    using eq in_range in_range' by (simp add: Set8BitFgColor_def csi_def)
  moreover have "0 \<le> cube_index r g b" "0 \<le> cube_index r' g' b'" using ge ge' by (simp_all add: cube_index_def)
  ultimately have "cube_index r g b = cube_index r' g' b'" by (simp add: int_str_pos)
  then have "uint r * 36 + uint g * 6 + uint b = uint r' * 36 + uint g' * 6 + uint b'" by (simp add: cube_index_def)
  from cube_inj [OF this le(2,3) le'(2,3) ge(2,3) ge'(2,3)]
  show "(r, g, b) = (r', g', b')" by (simp add: word_uint_eq_iff)
qed

theorem cube_colors_witness: "Set8BitFgColor 6 0 0 = [] \<and> cube_index 5 5 5 \<le> 231"
  using cube_colors [of 6 0 0] cube_colors [of 5 5 5] by simp

subsection \<open>The position of the cursor\<close>

text \<open>The reply of a terminal, and the input of which it is the beginning.\<close>

definition cursor_reply :: "nat \<Rightarrow> nat \<Rightarrow> char list" where
  "cursor_reply r c = csi (nat_str r @ '';'' @ nat_str c @ ''R'')"

lemma scan_int_nat: "\<not> is_digit d \<Longrightarrow> scan_int (nat_str n @ d # s) = Some (int n, d # s)"
proof -
  assume d: "\<not> is_digit d"
  have digits: "\<forall>c \<in> set (nat_str n). is_digit c" using nat_str_digits by (auto simp: is_digit_def)
  obtain c cs where n: "nat_str n = c # cs" by (cases "nat_str n") auto
  have c: "is_digit c" using digits n by simp
  then have "\<not> is_blank c" "c \<noteq> CHR ''-''" "c \<noteq> CHR ''+''" by (auto simp: is_digit_def is_blank_def)
  then have sgn: "scan_int (nat_str n @ d # s) =
      (if takeWhile is_digit (nat_str n @ d # s) = [] then None
       else Some (int (str_nat (takeWhile is_digit (nat_str n @ d # s))), dropWhile is_digit (nat_str n @ d # s)))"
    unfolding n scan_int_def Let_def by simp
  have "takeWhile is_digit (nat_str n @ d # s) = nat_str n" "dropWhile is_digit (nat_str n @ d # s) = d # s"
    using digits d by (simp_all add: takeWhile_append2 dropWhile_append2)
  then show ?thesis unfolding sgn by simp
qed

lemma scan_reply: "scan_curpos (cursor_reply r c @ s) = (Some (int r), Some (int c))"
proof -
  have "\<not> is_digit (CHR '';'')" "\<not> is_digit (CHR ''R'')" by (simp_all add: is_digit_def)
  then show ?thesis by (simp add: scan_curpos_def cursor_reply_def csi_def scan_int_nat)
qed

lemma curpos_loop_reads:
  "\<forall>b \<in> set bs. b \<noteq> CHR ''R'' \<Longrightarrow> i + length bs + 2 < length buff \<Longrightarrow>
     si_bytes s = map Some bs @ Some (CHR ''R'') # rest \<Longrightarrow>
     curpos_loop s buff i = Some ((memcpy_at buff i (bs @ ''R''))[i + length bs + 2 := NUL], s\<lparr>si_bytes := rest\<rparr>)"
proof (induction bs arbitrary: s buff i)
  case Nil
  then show ?case by (subst curpos_loop.simps) (simp add: getchar_def memcpy_at_Cons Let_def)
next
  case (Cons b bs)
  have "memcpy_at (buff[i := b]) (Suc i) (bs @ ''R'') = memcpy_at buff i ((b # bs) @ ''R'')"
  proof -
    have "take (Suc i) (buff[i := b]) = take i buff @ [b]"
      using Cons.prems(2) by (simp add: take_Suc_conv_app_nth)
    then show ?thesis by (simp add: memcpy_at_def)
  qed
  then show ?case
    using Cons.IH [of "Suc i" "buff[i := b]" "s\<lparr>si_bytes := map Some bs @ Some (CHR ''R'') # rest\<rparr>"] Cons.prems
    by (subst curpos_loop.simps) (simp add: getchar_def Let_def)
qed

lemma curpos_loop_overruns:
  "\<forall>j < length buff - i - 2. \<forall>c. j < length (si_bytes s) \<longrightarrow> si_bytes s ! j \<noteq> Some (CHR ''R'') \<Longrightarrow> curpos_loop s buff i = None"
proof (induction "length buff - i" arbitrary: s buff i rule: less_induct)
  case less
  show ?case
  proof (cases "length buff \<le> i")
    case True
    then show ?thesis by (subst curpos_loop.simps) simp
  next
    case False
    show ?thesis
    proof (cases "si_bytes s")
      case Nil
      then have "curpos_loop s (buff[i := CHR 0xFF]) (Suc i) = None"
        using False by (intro less.hyps) simp_all
      then show ?thesis using False Nil by (subst curpos_loop.simps) (simp add: getchar_def Let_def)
    next
      case (Cons c cs)
      let ?b = "case c of Some c \<Rightarrow> c | None \<Rightarrow> CHR 0xFF"
      show ?thesis
      proof (cases "c = Some (CHR ''R'')")
        case True
        then have "\<not> (0 < length buff - i - 2)" using less.prems [rule_format, of 0] Cons by auto
        then show ?thesis using False Cons True by (subst curpos_loop.simps) (simp add: getchar_def Let_def)
      next
        case not_R: False
        have "curpos_loop (s\<lparr>si_bytes := cs\<rparr>) (buff[i := ?b]) (Suc i) = None"
        proof (intro less.hyps allI impI)
          fix j c' assume "j < length (buff[i := ?b]) - Suc i - 2" "j < length (si_bytes (s\<lparr>si_bytes := cs\<rparr>))"
          then show "si_bytes (s\<lparr>si_bytes := cs\<rparr>) ! j \<noteq> Some (CHR ''R'')"
            using less.prems [rule_format, of "Suc j"] Cons by simp
        qed (use False in simp)
        then show ?thesis using False Cons not_R
          by (subst curpos_loop.simps) (auto simp: getchar_def Let_def split: option.split)
      qed
    qed
  qed
qed

lemma cstr_prefix: "no_nul s \<Longrightarrow> \<exists>t. cstr (s @ u) = s @ t"
  by (induction s) (auto simp: cstr_def no_nul_def)

lemma reply_chars: "\<forall>x \<in> set (csi (nat_str r @ '';'' @ nat_str c)). x \<noteq> CHR ''R'' \<and> x \<noteq> NUL"
  using nat_str_not_in [of "CHR ''R''"] nat_str_not_in [of NUL] by (auto simp: csi_def)



subsection \<open>Keys, modes, titles\<close>

text \<open>\<open>kbhit\<close> takes nothing away from the input and leaves the descriptor as it was.\<close>

lemma kbhit_peeks:
  "kbhit s = (n, s') \<Longrightarrow> si_nonblock s' = si_nonblock s \<and>
     (n = 1 \<longleftrightarrow> (\<exists>c bs. si_bytes s = Some c # bs)) \<and> (n = 1 \<longrightarrow> s' = s) \<and> (n = 0 \<or> n = 1)"
  by (auto simp: kbhit_def getchar_def Let_def split: list.splits option.splits)

text \<open>
  \<open>RestoreTerminal\<close> gives the terminal back as it was before \<open>SetupTerminal\<close>; but set up twice
  it stays without echo and line editing, because the second call saves the changed mode.
\<close>

lemma terminal_modes_restored: "tm_attr (RestoreTerminal (SetupTerminal on t)) = tm_attr t"
  by (simp add: RestoreTerminal_def SetupTerminal_def Let_def)

lemma terminal_modes_lost: "\<not> echo_on (tm_attr (RestoreTerminal (SetupTerminal on (SetupTerminal on' t))))"
  by (simp add: RestoreTerminal_def SetupTerminal_def Let_def)

text \<open>
  A title of at most 63 characters stands in a line of 65; one of 64 leaves the array without
  a terminator and a longer one overruns it.
\<close>

lemma PrintTitle_line:
  assumes "no_nul str"
  shows "PrintTitle str =
     (if length str \<le> 63 then Some (''=='' @ str @ replicate (63 - length str) CHR ''='' @ [NL]) else None)"
proof -
  let ?title = "replicate 65 CHR ''='' @ [NUL]"
  have e: "memcpy_at ?title 2 str = ''=='' @ str @ replicate (63 - length str) CHR ''='' @ [NUL]" if "length str \<le> 63"
    using that by (simp add: memcpy_at_def numeral_2_eq_2)
  have e64: "memcpy_at ?title 2 str = ''=='' @ str" if "length str = 64"
    using that by (simp add: memcpy_at_def numeral_2_eq_2)
  have "no_nul (''=='' @ str @ replicate (63 - length str) CHR ''='')" using assms by (auto simp: no_nul_def)
  then have c: "cstr (''=='' @ str @ replicate (63 - length str) CHR ''='' @ [NUL]) = ''=='' @ str @ replicate (63 - length str) CHR ''=''"
    using cstr_terminated [of "''=='' @ str @ replicate (63 - length str) CHR ''=''" "[]"] by simp
  consider "length str \<le> 63" | "length str = 64" | "64 < length str" by linarith
  then show ?thesis
  proof cases
    case 1
    then show ?thesis unfolding PrintTitle_def Let_def e [OF 1] c by simp
  next
    case 2
    then show ?thesis using assms unfolding PrintTitle_def Let_def e64 [OF 2] by (simp add: no_nul_def)
  qed (simp add: PrintTitle_def)
qed

end
