(* ===== verification/MathStream.thy ===== *)
theory MathStream
  imports LogStream
begin

text \<open>
  Vectors of the dtMath and Eigen libraries as operands of the real-time log stream
  (dtRtLogDtMath.hpp, dtRtLogEigen.hpp). A vector is its access function and its dimension,
  with the elements as the text the conversion of a double gives; a vector of Eigen vectors
  is a list of them. Each operator is a loop over an index.
\<close>

section \<open>The operators\<close>

function vec_loop :: "(nat \<Rightarrow> char list) \<Rightarrow> nat \<Rightarrow> nat \<Rightarrow> 'z stream_scheme \<Rightarrow> 'z stream_scheme" where
  "vec_loop vec n i s =
     (if i < n then
        (case Rt_FormatElement (V_float (vec i)) s of
           (ok, s1) \<Rightarrow>
             if \<not> ok then Rt_AddTruncation s1
             else if int i \<noteq> int n - 1 then
               (case Rt_AddSeparator s1 of (sep, s2) \<Rightarrow> if \<not> sep then s2 else vec_loop vec n (i + 1) s2)
             else vec_loop vec n (i + 1) s1)
      else s)"
  by pat_completeness auto
termination by (relation "measure (\<lambda>(v, n, i, s). n - i)") auto

declare vec_loop.simps [simp del]

definition put_Vector :: "nat \<Rightarrow> (nat \<Rightarrow> char list) \<Rightarrow> 'z stream_scheme \<Rightarrow> 'z stream_scheme" where
  "put_Vector N vec s =
     (if \<not> ls_active s then s
      else if BUF_LEN \<le> ls_pos s + 1 then s
      else Rt_CloseArray (vec_loop vec N 0 (s\<lparr>ls_buf := (ls_buf s)[ls_pos s := CHR ''[''], ls_pos := ls_pos s + 1\<rparr>)))"

definition put_Vector3 :: "nat \<Rightarrow> (nat \<Rightarrow> char list) \<Rightarrow> 'z stream_scheme \<Rightarrow> 'z stream_scheme" where
  "put_Vector3 N vec s =
     (if \<not> ls_active s then s
      else if BUF_LEN \<le> ls_pos s + 1 then s
      else Rt_CloseArray (vec_loop vec N 0 (s\<lparr>ls_buf := (ls_buf s)[ls_pos s := CHR ''[''], ls_pos := ls_pos s + 1\<rparr>)))"

definition put_Vector4 :: "nat \<Rightarrow> (nat \<Rightarrow> char list) \<Rightarrow> 'z stream_scheme \<Rightarrow> 'z stream_scheme" where
  "put_Vector4 N vec s =
     (if \<not> ls_active s then s
      else if BUF_LEN \<le> ls_pos s + 1 then s
      else Rt_CloseArray (vec_loop vec N 0 (s\<lparr>ls_buf := (ls_buf s)[ls_pos s := CHR ''[''], ls_pos := ls_pos s + 1\<rparr>)))"

definition put_Vector6 :: "nat \<Rightarrow> (nat \<Rightarrow> char list) \<Rightarrow> 'z stream_scheme \<Rightarrow> 'z stream_scheme" where
  "put_Vector6 N vec s =
     (if \<not> ls_active s then s
      else if BUF_LEN \<le> ls_pos s + 1 then s
      else Rt_CloseArray (vec_loop vec N 0 (s\<lparr>ls_buf := (ls_buf s)[ls_pos s := CHR ''[''], ls_pos := ls_pos s + 1\<rparr>)))"

text \<open>The dynamic vectors of both libraries: the dimension is asked for once.\<close>

definition put_VectorX :: "nat \<times> (nat \<Rightarrow> char list) \<Rightarrow> 'z stream_scheme \<Rightarrow> 'z stream_scheme" where
  "put_VectorX vec s =
     (if \<not> ls_active s then s
      else if BUF_LEN \<le> ls_pos s + 1 then s
      else let n = fst vec in
           Rt_CloseArray (vec_loop (snd vec) n 0 (s\<lparr>ls_buf := (ls_buf s)[ls_pos s := CHR ''[''], ls_pos := ls_pos s + 1\<rparr>)))"

definition put_MatrixBase :: "nat \<times> (nat \<Rightarrow> char list) \<Rightarrow> 'z stream_scheme \<Rightarrow> 'z stream_scheme" where
  "put_MatrixBase vec s =
     (if \<not> ls_active s then s
      else if BUF_LEN \<le> ls_pos s + 1 then s
      else let n = fst vec in
           Rt_CloseArray (vec_loop (snd vec) n 0 (s\<lparr>ls_buf := (ls_buf s)[ls_pos s := CHR ''[''], ls_pos := ls_pos s + 1\<rparr>)))"

fun vecs_loop :: "(nat \<times> (nat \<Rightarrow> char list)) list \<Rightarrow> 'z stream_scheme \<Rightarrow> 'z stream_scheme" where
  "vecs_loop [] s = s"
| "vecs_loop (v # vs) s =
     (let s1 = put_MatrixBase v s in
      if vs \<noteq> [] then
        (case Rt_AddSeparator s1 of (sep, s2) \<Rightarrow> if \<not> sep then s2 else vecs_loop vs s2)
      else vecs_loop vs s1)"

definition put_vector_of_VectorXd :: "(nat \<times> (nat \<Rightarrow> char list)) list \<Rightarrow> 'z stream_scheme \<Rightarrow> 'z stream_scheme" where
  "put_vector_of_VectorXd vecs s =
     (if \<not> ls_active s then s
      else if BUF_LEN \<le> ls_pos s + 1 then s
      else Rt_CloseArray (vecs_loop vecs (s\<lparr>ls_buf := (ls_buf s)[ls_pos s := CHR ''[''], ls_pos := ls_pos s + 1\<rparr>)))"

section \<open>They are the operator for lists\<close>

definition elements :: "nat \<Rightarrow> (nat \<Rightarrow> char list) \<Rightarrow> elem list" where
  "elements n vec = map (\<lambda>i. V_float (vec i)) [0..<n]"

lemma vec_loop_eq:
  "vec_loop vec n i s = Rt_elements (map (\<lambda>j. V_float (vec j)) [i..<n]) s"
proof (induction vec n i s rule: vec_loop.induct)
  case (1 vec n i s)
  show ?case
  proof (cases "i < n")
    case True
    obtain ok s1 where f: "Rt_FormatElement (V_float (vec i)) s = (ok, s1)" by (cases "Rt_FormatElement (V_float (vec i)) s")
    obtain sep s2 where a: "Rt_AddSeparator s1 = (sep, s2)" by (cases "Rt_AddSeparator s1")
    have last: "int i = int n - 1 \<longleftrightarrow> Suc i = n" by auto
    have up: "[i..<n] = i # [Suc i..<n]" using True by (simp add: upt_conv_Cons)
    have more: "[Suc i..<n] = [] \<longleftrightarrow> Suc i = n" using True by auto
    show ?thesis
      using 1(1) [OF True f [symmetric]] 1(2) [OF True f [symmetric]] True f a last more
      by (subst vec_loop.simps) (simp add: up)
  qed (subst vec_loop.simps, simp)
qed

lemma vector_operators_eq:
  "put_Vector n v = Rt_put_vector (elements n v)" "put_Vector3 n v = Rt_put_vector (elements n v)"
  "put_Vector4 n v = Rt_put_vector (elements n v)" "put_Vector6 n v = Rt_put_vector (elements n v)"
  "put_VectorX (n, v) = Rt_put_vector (elements n v)" "put_MatrixBase (n, v) = Rt_put_vector (elements n v)"
  by (simp_all add: fun_eq_iff put_Vector_def put_Vector3_def put_Vector4_def put_Vector6_def put_VectorX_def
      put_MatrixBase_def Rt_put_vector_def vec_loop_eq elements_def)

lemma put_MatrixBase_eq: "put_MatrixBase v = Rt_put_vector (elements (fst v) (snd v))"
  using vector_operators_eq(6) [of "fst v" "snd v"] by simp

section \<open>The text of a vector of vectors\<close>

fun joined :: "char list list \<Rightarrow> char list" where
  "joined [] = []"
| "joined [t] = t"
| "joined (t # u # ts) = t @ '', '' @ joined (u # ts)"

definition bracketed :: "char list list \<Rightarrow> char list" where
  "bracketed ts = ''['' @ joined ts @ '']''"

definition vector_text :: "nat \<times> (nat \<Rightarrow> char list) \<Rightarrow> char list" where
  "vector_text v = bracketed (map (snd v) [0..<fst v])"

lemma joined_Cons: "joined (t # ts) = t @ (if ts = [] then [] else '', '' @ joined ts)"
  by (cases ts) simp_all

lemma spec_elems_fits:
  "length (sp_text l) + length (joined ts) + 10 < 1024 \<Longrightarrow>
     spec_elems (map V_float ts) l = l\<lparr>sp_text := sp_text l @ joined ts\<rparr>"
proof (induction ts arbitrary: l)
  case (Cons t ts)
  have e: "spec_elem (V_float t) l = (True, l\<lparr>sp_text := sp_text l @ t\<rparr>)"
    using Cons.prems by (simp add: spec_elem_def joined_Cons)
  show ?case
  proof (cases "ts = []")
    case True
    then show ?thesis by (simp add: e)
  next
    case False
    have "spec_elems (map V_float ts) (l\<lparr>sp_text := sp_text l @ t @ '', ''\<rparr>) =
        l\<lparr>sp_text := (sp_text l @ t @ '', '') @ joined ts\<rparr>"
      using Cons.IH [of "l\<lparr>sp_text := sp_text l @ t @ '', ''\<rparr>"] Cons.prems False by (simp add: joined_Cons)
    then show ?thesis using Cons.prems False by (simp add: e joined_Cons)
  qed
qed simp

lemma put_vector_text:
  assumes "stream_ok s" and "ls_active s" and "ls_pos s + length (bracketed ts) + 10 < 1024"
  shows "stored (bracketed ts) s (Rt_put_vector (map V_float ts) s)"
proof -
  have len: "length (sp_text (line_of s)) = ls_pos s" by (rule line_length [OF assms(1)])
  have "spec_elems (map V_float ts) ((line_of s)\<lparr>sp_text := sp_text (line_of s) @ ''[''\<rparr>) =
      (line_of s)\<lparr>sp_text := (sp_text (line_of s) @ ''['') @ joined ts\<rparr>"
    using assms(3) len by (subst spec_elems_fits) (simp_all add: bracketed_def del: line_of_simps)
  then have "spec_op (PutVector (map V_float ts)) (line_of s) =
      (line_of s)\<lparr>sp_text := sp_text (line_of s) @ bracketed ts\<rparr>"
    using assms(3) len by (simp add: spec_mark_def bracketed_def del: line_of_simps)
  then show ?thesis
    using Rt_op_refines [OF assms(1,2), of "PutVector (map V_float ts)"] assms(2) by (simp add: stored_def del: line_of_simps)
qed

lemma stored_trans: "stored x s s1 \<Longrightarrow> stored y s1 s2 \<Longrightarrow> stored (x @ y) s s2"
  by (simp add: stored_def del: line_of_simps)

lemma stored_pos: "stream_ok s \<Longrightarrow> stored x s s1 \<Longrightarrow> ls_pos s1 = ls_pos s + length x"
  using line_length [of s] line_length [of s1] by (simp add: stored_def del: line_of_simps)

lemma vecs_loop_text:
  "stream_ok s \<Longrightarrow> ls_active s \<Longrightarrow> ls_pos s + length (joined (map vector_text vs)) + 10 < 1024 \<Longrightarrow>
     stored (joined (map vector_text vs)) s (vecs_loop vs s)"
proof (induction vs arbitrary: s)
  case Nil
  then show ?case by (simp add: stored_def del: line_of_simps)
next
  case (Cons v vs)
  let ?s1 = "put_MatrixBase v s"
  have one: "stored (vector_text v) s ?s1"
    using put_vector_text [OF Cons.prems(1,2), of "map (snd v) [0..<fst v]"] Cons.prems(3)
    by (simp add: put_MatrixBase_eq elements_def vector_text_def joined_Cons comp_def)
  have ok: "stream_ok ?s1" "ls_active ?s1" using one Cons.prems(2) by (simp_all add: stored_def)
  have pos: "ls_pos ?s1 = ls_pos s + length (vector_text v)" by (rule stored_pos [OF Cons.prems(1) one])
  show ?case
  proof (cases "vs = []")
    case True
    then show ?thesis using one by simp
  next
    case False
    have fits: "ls_pos ?s1 + 2 < 1024" using Cons.prems(3) False pos by (simp add: joined_Cons)
    obtain s2 where s2: "Rt_AddSeparator ?s1 = (True, s2)" "stored '', '' ?s1 s2"
      using separator_stored [OF ok(1) fits] fits by (simp add: Rt_AddSeparator_def BUF_LEN_def Let_def)
    have pos2: "ls_pos s2 = ls_pos s + length (vector_text v) + 2" using stored_pos [OF ok(1) s2(2)] pos by simp
    have "stored (joined (map vector_text vs)) s2 (vecs_loop vs s2)"
      using Cons.IH [of s2] s2(2) ok(2) Cons.prems(3) False pos2 by (simp add: stored_def joined_Cons del: line_of_simps)
    from stored_trans [OF stored_trans [OF one s2(2)] this] show ?thesis
      using False s2(1) by (simp add: joined_Cons)
  qed
qed

text \<open>Whatever does not fit: the buffer is not left, and what the line holds stays.\<close>

definition grown :: "'z stream_scheme \<Rightarrow> 'z stream_scheme \<Rightarrow> bool" where
  "grown s s' \<longleftrightarrow> stream_ok s' \<and> ls_active s' = ls_active s \<and> prefix (sp_text (line_of s)) (sp_text (line_of s'))"

lemma grown_refl [simp]: "stream_ok s \<Longrightarrow> grown s s"
  by (simp add: grown_def)

lemma grown_trans: "grown s s1 \<Longrightarrow> grown s1 s2 \<Longrightarrow> grown s s2"
  unfolding grown_def by (auto intro: prefix_order.trans simp del: line_of_simps)

lemma stored_grown: "stored x s s' \<Longrightarrow> grown s s'"
  by (simp add: stored_def grown_def del: line_of_simps)

lemma op_grown: "stream_ok s \<Longrightarrow> ls_active s \<Longrightarrow> grown s (Rt_op c s)"
  using Rt_op_refines [of s c] spec_op_grows [of "line_of s" c] line_length [of s]
  by (simp add: grown_def stream_ok_def del: line_of_simps)

lemma separator_grown: "stream_ok s \<Longrightarrow> Rt_AddSeparator s = (b, s') \<Longrightarrow> grown s s'"
  using separator_stored [of s]
  by (auto simp: Rt_AddSeparator_def Let_def BUF_LEN_def simp del: line_of_simps split: if_splits intro: stored_grown)

lemma close_grown: "stream_ok s \<Longrightarrow> grown s (Rt_CloseArray s)"
  using put_char_stored [of s "CHR '']''"]
  by (auto simp: Rt_CloseArray_def Let_def BUF_LEN_def simp del: line_of_simps intro: stored_grown)

lemma vecs_loop_grown: "stream_ok s \<Longrightarrow> ls_active s \<Longrightarrow> grown s (vecs_loop vs s)"
proof (induction vs arbitrary: s)
  case (Cons v vs)
  let ?s1 = "put_MatrixBase v s"
  have 1: "grown s ?s1" using op_grown [OF Cons.prems, of "PutVector (elements (fst v) (snd v))"] by (simp add: put_MatrixBase_eq)
  obtain sep s2 where a: "Rt_AddSeparator ?s1 = (sep, s2)" by (cases "Rt_AddSeparator ?s1")
  have 2: "grown s s2" using separator_grown [OF _ a] 1 by (auto simp: grown_def intro: grown_trans [OF 1])
  have g: "grown s (vecs_loop vs t)" if "grown s t" for t
    using Cons.IH [of t] Cons.prems(2) that by (auto simp: grown_def intro: grown_trans [OF that])
  show ?case using 1 2 g [OF 1] g [OF 2] by (simp add: Let_def a)
qed simp

text \<open>
  C40: Vectors in a log line. The operators for the vectors of dtMath and for Eigen matrices are
  the operator for lists of numbers, whatever their size; and a list of Eigen vectors whose
  text and ten more characters fit the line is written as the vectors in brackets, separated
  by commas, in brackets, behind what is already there. One that does not fit never leaves the
  buffer and never changes what is already there.
\<close>

theorem vectors_in_line:
  assumes "stream_ok s" and "ls_active s"
  shows "put_Vector n v s = Rt_put_vector (elements n v) s \<and> put_Vector3 n v s = Rt_put_vector (elements n v) s \<and>
         put_Vector4 n v s = Rt_put_vector (elements n v) s \<and> put_Vector6 n v s = Rt_put_vector (elements n v) s \<and>
         put_VectorX (n, v) s = Rt_put_vector (elements n v) s \<and> put_MatrixBase (n, v) s = Rt_put_vector (elements n v) s \<and>
         (ls_pos s + length (bracketed (map vector_text vs)) + 10 < 1024 \<longrightarrow>
            stored (bracketed (map vector_text vs)) s (put_vector_of_VectorXd vs s)) \<and>
         grown s (put_vector_of_VectorXd vs s)"
proof -
  have g: "grown s (put_vector_of_VectorXd vs s)"
  proof (cases "BUF_LEN \<le> ls_pos s + 1")
    case False
    let ?s1 = "s\<lparr>ls_buf := (ls_buf s)[ls_pos s := CHR ''[''], ls_pos := ls_pos s + 1\<rparr>"
    have "grown s ?s1" using assms(1) False by (intro stored_grown [OF put_bracket_stored]) (simp_all add: BUF_LEN_def)
    then have 2: "grown s (vecs_loop vs ?s1)"
      using assms(2) vecs_loop_grown [of ?s1 vs] by (auto simp: grown_def intro: grown_trans)
    then show ?thesis
      using False assms(2) close_grown [of "vecs_loop vs ?s1"]
      by (auto simp: put_vector_of_VectorXd_def grown_def simp del: line_of_simps intro: prefix_order.trans)
  qed (use assms in \<open>simp add: put_vector_of_VectorXd_def\<close>)
  have "stored (bracketed (map vector_text vs)) s (put_vector_of_VectorXd vs s)"
    if fits: "ls_pos s + length (bracketed (map vector_text vs)) + 10 < 1024"
  proof -
    let ?s1 = "s\<lparr>ls_buf := (ls_buf s)[ls_pos s := CHR ''[''], ls_pos := ls_pos s + 1\<rparr>"
    let ?t = "joined (map vector_text vs)"
    let ?s2 = "vecs_loop vs ?s1"
    have len: "ls_pos s + 1 + length ?t + 11 < 1024" using fits by (simp add: bracketed_def)
    have 1: "stored ''['' s ?s1" using assms(1) len by (intro put_bracket_stored) simp_all
    then have "stored ?t ?s1 ?s2" using assms(2) len by (intro vecs_loop_text) (simp_all add: stored_def)
    then have 2: "stored (''['' @ ?t) s ?s2" by (rule stored_trans [OF 1])
    then have "ls_pos ?s2 + 1 < 1024" using stored_pos [OF assms(1) 2] len by simp
    then have "stored '']'' ?s2 (Rt_CloseArray ?s2)"
      using 2 by (auto simp: Rt_CloseArray_def Let_def BUF_LEN_def stored_def dest: put_char_stored)
    from stored_trans [OF 2 this] show ?thesis
      using assms(2) len by (simp add: put_vector_of_VectorXd_def bracketed_def BUF_LEN_def)
  qed
  then show ?thesis using g by (simp add: vector_operators_eq)
qed

theorem vectors_in_line_witness:
  "stored ''[[1.5, 2.0], []]'' (LogRtStream L_info True (replicate 1024 NUL))
     (put_vector_of_VectorXd [(2, (\<lambda>i. if i = 0 then ''1.5'' else ''2.0'')), (0, (\<lambda>i. []))]
        (LogRtStream L_info True (replicate 1024 NUL)))"
proof -
  let ?vs = "[(2, (\<lambda>i. if i = 0 then ''1.5'' else ''2.0'')), (0, (\<lambda>i. []))]"
  have t: "bracketed (map vector_text ?vs) = ''[[1.5, 2.0], []]''"
    by (simp add: bracketed_def vector_text_def upt_rec)
  have "stream_ok (LogRtStream L_info True (replicate 1024 NUL))" "ls_active (LogRtStream L_info True (replicate 1024 NUL))"
    "ls_pos (LogRtStream L_info True (replicate 1024 NUL)) = 0"
    by (simp_all add: stream_ok_def LogRtStream_def)
  then show ?thesis using vectors_in_line [of "LogRtStream L_info True (replicate 1024 NUL)" 0 undefined ?vs] t by simp
qed

end
