(* ===== verification/PlainLog.thy ===== *)
theory PlainLog
  imports RtLog
begin

text \<open>
  \<open>Log\<close> (dtLog.h, dtLog.tpp), the front end of the logging library for programs without
  real-time demands. The library (spdlog) and the file system are outside: an abstract state
  \<open>'r\<close> with the operations the code calls, and loggers are handles of a type \<open>'l\<close>. What the
  code relies on is stated as the predicate \<open>spdlog_documented\<close> of the operations and of an
  observation of the state.
\<close>

section \<open>The library\<close>

text \<open>
  Creating a logger throws (\<open>None\<close>) when its name is taken or its file cannot be opened. The
  default logger is null after \<open>shutdown\<close>. \<open>sys_remove\<close> and \<open>sys_symlink\<close> return the C result.
\<close>

record ('l, 'r) spdlog =
  stdout_color_mt :: "char list \<Rightarrow> 'r \<Rightarrow> ('l \<times> 'r) option"
  syslog_logger_mt :: "char list \<Rightarrow> char list \<Rightarrow> 'r \<Rightarrow> ('l \<times> 'r) option"
  basic_logger_mt :: "char list \<Rightarrow> char list \<Rightarrow> bool \<Rightarrow> 'r \<Rightarrow> ('l \<times> 'r) option"
  spd_get :: "'r \<Rightarrow> char list \<Rightarrow> 'l option"
  default_logger :: "'r \<Rightarrow> 'l option"
  set_default_logger :: "'l \<Rightarrow> 'r \<Rightarrow> 'r"
  shutdown :: "'r \<Rightarrow> 'r"
  flush_every :: "int \<Rightarrow> 'r \<Rightarrow> 'r"
  l_set_pattern :: "'l \<Rightarrow> char list \<Rightarrow> 'r \<Rightarrow> 'r"
  l_set_level :: "'l \<Rightarrow> LogLevel \<Rightarrow> 'r \<Rightarrow> 'r"
  l_flush_on :: "'l \<Rightarrow> LogLevel \<Rightarrow> 'r \<Rightarrow> 'r"
  l_flush :: "'l \<Rightarrow> 'r \<Rightarrow> 'r"
  l_log :: "'l \<Rightarrow> LogLevel \<Rightarrow> char list \<Rightarrow> 'r \<Rightarrow> 'r"
  spd_set_pattern :: "char list \<Rightarrow> 'r \<Rightarrow> 'r"
  spd_set_level :: "LogLevel \<Rightarrow> 'r \<Rightarrow> 'r"
  spd_flush_on :: "LogLevel \<Rightarrow> 'r \<Rightarrow> 'r"
  sys_remove :: "char list \<Rightarrow> 'r \<Rightarrow> int \<times> 'r"
  sys_symlink :: "char list \<Rightarrow> char list \<Rightarrow> 'r \<Rightarrow> int \<times> 'r"
  spd_split_by_extension :: "char list \<Rightarrow> char list \<times> char list"

text \<open>A call on the null logger is undefined behaviour, an exception leaves the function.\<close>

datatype 'r log_result = Returns 'r | Throws | Null_logger

section \<open>Creating loggers\<close>

definition Log_annotate_filename_datetime :: "(char list \<Rightarrow> char list \<times> char list) \<Rightarrow> tm \<Rightarrow> char list \<Rightarrow> char list" where
  "Log_annotate_filename_datetime split now file_basename =
     (case split file_basename of
        (basename, ext) \<Rightarrow>
          basename @ ''_'' @ fmt0d 4 (tm_year now + 1900) @ ''-'' @ fmt0d 2 (tm_mon now + 1) @ ''-'' @
          fmt0d 2 (tm_mday now) @ ''_'' @ fmt0d 2 (tm_hour now) @ ''-'' @ fmt0d 2 (tm_min now) @ ''-'' @
          fmt0d 2 (tm_sec now) @ ext)"

definition Log_split_by_directory :: "char list \<Rightarrow> char list \<times> char list" where
  "Log_split_by_directory fname =
     (case rfind CHR ''/'' fname of
        None \<Rightarrow> ([], fname)
      | Some dir_index \<Rightarrow>
          if dir_index = length fname - 1 then (fname, [])
          else (take (dir_index + 1) fname, drop (dir_index + 1) fname))"

definition CONSOLE_PATTERN :: "char list" where "CONSOLE_PATTERN = ''%^[%L][%H:%M:%S.%f]%$%v''"

text \<open>The branch for a file, the same text in \<open>Initialize\<close> and \<open>Create\<close>.\<close>

definition log_file_branch ::
  "('l, 'r) spdlog \<Rightarrow> tm \<Rightarrow> char list \<Rightarrow> char list \<Rightarrow> bool \<Rightarrow> bool \<Rightarrow> 'r \<Rightarrow> ('l \<times> 'r) option" where
  "log_file_branch sp now log_name file_basename annot_datetime trunc r =
     (let filename = (if annot_datetime
                      then Log_annotate_filename_datetime (spd_split_by_extension sp) now file_basename
                      else file_basename) in
      case basic_logger_mt sp log_name filename trunc r of
        None \<Rightarrow> None
      | Some (logger, r) \<Rightarrow>
          let r = (if annot_datetime then
                     let fname = snd (Log_split_by_directory filename);
                         r = snd (sys_remove sp file_basename r);
                         (rtn, r) = sys_symlink sp fname file_basename r
                     in if rtn < 0
                        then l_log sp logger L_warn (int_str rtn @ '' Cannot create symlink to this log file.'') r
                        else r
                   else r)
          in Some (logger, l_set_pattern sp logger CONSOLE_PATTERN r))"

definition Log_Initialize ::
  "('l, 'r) spdlog \<Rightarrow> tm \<Rightarrow> char list \<Rightarrow> char list \<Rightarrow> bool \<Rightarrow> bool \<Rightarrow> 'r \<Rightarrow> 'r log_result" where
  "Log_Initialize sp now log_name file_basename annot_datetime trunc r =
     (case (if file_basename = [] \<or> file_basename = ''_STDOUT_'' then
              map_option (\<lambda>(logger, r). (logger, l_set_pattern sp logger CONSOLE_PATTERN r))
                (stdout_color_mt sp log_name r)
            else if file_basename = ''_SYSLOG_'' then
              map_option (\<lambda>(logger, r). (logger, l_set_pattern sp logger ''[%L]%v'' r))
                (syslog_logger_mt sp log_name log_name r)
            else log_file_branch sp now log_name file_basename annot_datetime trunc r) of
        None \<Rightarrow> Throws
      | Some (logger, r) \<Rightarrow> Returns (set_default_logger sp logger r))"

definition Log_Create ::
  "('l, 'r) spdlog \<Rightarrow> tm \<Rightarrow> char list \<Rightarrow> char list \<Rightarrow> bool \<Rightarrow> bool \<Rightarrow> 'r \<Rightarrow> 'r log_result" where
  "Log_Create sp now log_name file_basename annot_datetime trunc r =
     (case (if file_basename = ''_STDOUT_'' then
              map_option (\<lambda>(logger, r). (logger, l_set_pattern sp logger CONSOLE_PATTERN r))
                (stdout_color_mt sp log_name r)
            else if file_basename = ''_SYSLOG_'' then
              map_option (\<lambda>(logger, r). (logger, l_set_pattern sp logger ''[%L]%v'' r))
                (syslog_logger_mt sp log_name log_name r)
            else log_file_branch sp now log_name file_basename annot_datetime trunc r) of
        None \<Rightarrow> Throws
      | Some (logger, r) \<Rightarrow> Returns r)"

definition Log_Terminate :: "('l, 'r) spdlog \<Rightarrow> 'r \<Rightarrow> 'r log_result" where
  "Log_Terminate sp r = Returns (shutdown sp r)"

definition Log_FlushEvery :: "('l, 'r) spdlog \<Rightarrow> int \<Rightarrow> 'r \<Rightarrow> 'r log_result" where
  "Log_FlushEvery sp interval r = Returns (flush_every sp interval r)"

section \<open>Settings\<close>

text \<open>The dereferencing of the default logger, and the test of what \<open>get\<close> returns.\<close>

definition on_default :: "('l, 'r) spdlog \<Rightarrow> ('l \<Rightarrow> 'r \<Rightarrow> 'r) \<Rightarrow> 'r \<Rightarrow> 'r log_result" where
  "on_default sp f r = (case default_logger sp r of None \<Rightarrow> Null_logger | Some l \<Rightarrow> Returns (f l r))"

definition on_named :: "('l, 'r) spdlog \<Rightarrow> char list \<Rightarrow> ('l \<Rightarrow> 'r \<Rightarrow> 'r) \<Rightarrow> 'r \<Rightarrow> 'r log_result" where
  "on_named sp log_name f r = (case spd_get sp r log_name of None \<Rightarrow> Returns r | Some l \<Rightarrow> Returns (f l r))"

definition SetLogOff :: "('l, 'r) spdlog \<Rightarrow> 'r \<Rightarrow> 'r log_result" where
  "SetLogOff sp = on_default sp (\<lambda>l. l_set_level sp l L_off)"

definition SetLogOff_named :: "('l, 'r) spdlog \<Rightarrow> char list \<Rightarrow> 'r \<Rightarrow> 'r log_result" where
  "SetLogOff_named sp log_name = on_named sp log_name (\<lambda>l. l_set_level sp l L_off)"

definition SetLogOffAll :: "('l, 'r) spdlog \<Rightarrow> 'r \<Rightarrow> 'r log_result" where
  "SetLogOffAll sp r = Returns (spd_set_level sp L_off r)"

definition Log_Flush :: "('l, 'r) spdlog \<Rightarrow> 'r \<Rightarrow> 'r log_result" where
  "Log_Flush sp = on_default sp (l_flush sp)"

definition Log_Flush_named :: "('l, 'r) spdlog \<Rightarrow> char list \<Rightarrow> 'r \<Rightarrow> 'r log_result" where
  "Log_Flush_named sp log_name = on_named sp log_name (l_flush sp)"

definition Log_FlushOn :: "('l, 'r) spdlog \<Rightarrow> LogLevel \<Rightarrow> 'r \<Rightarrow> 'r log_result" where
  "Log_FlushOn sp lvl = on_default sp (\<lambda>l. l_flush_on sp l lvl)"

definition Log_FlushOn_named :: "('l, 'r) spdlog \<Rightarrow> char list \<Rightarrow> LogLevel \<Rightarrow> 'r \<Rightarrow> 'r log_result" where
  "Log_FlushOn_named sp log_name lvl = on_named sp log_name (\<lambda>l. l_flush_on sp l lvl)"

definition Log_FlushOnAll :: "('l, 'r) spdlog \<Rightarrow> LogLevel \<Rightarrow> 'r \<Rightarrow> 'r log_result" where
  "Log_FlushOnAll sp lvl r = Returns (spd_flush_on sp lvl r)"

definition Log_SetLogLevel :: "('l, 'r) spdlog \<Rightarrow> LogLevel \<Rightarrow> 'r \<Rightarrow> 'r log_result" where
  "Log_SetLogLevel sp lvl = on_default sp (\<lambda>l. l_set_level sp l lvl)"

definition Log_SetLogLevel_named :: "('l, 'r) spdlog \<Rightarrow> char list \<Rightarrow> LogLevel \<Rightarrow> 'r \<Rightarrow> 'r log_result" where
  "Log_SetLogLevel_named sp log_name lvl = on_named sp log_name (\<lambda>l. l_set_level sp l lvl)"

definition Log_SetLogLevelAll :: "('l, 'r) spdlog \<Rightarrow> LogLevel \<Rightarrow> 'r \<Rightarrow> 'r log_result" where
  "Log_SetLogLevelAll sp lvl r = Returns (spd_set_level sp lvl r)"

text \<open>The flags of a pattern, and the text each of the three functions builds from them.\<close>

definition flag_type :: u32 where "flag_type = 0x0001"
definition flag_type_long :: u32 where "flag_type_long = 0x0002"
definition flag_name :: u32 where "flag_name = 0x0004"
definition flag_date :: u32 where "flag_date = 0x0010"
definition flag_time :: u32 where "flag_time = 0x0020"
definition flag_datetime :: u32 where "flag_datetime = 0x0040"
definition flag_epoch :: u32 where "flag_epoch = 0x0080"
definition flag_elapsed :: u32 where "flag_elapsed = 0x0100"

definition log_pattern_str :: "u32 \<Rightarrow> char list \<Rightarrow> char list" where
  "log_pattern_str pattern delimitter =
     ''%^'' @
     (if pattern AND flag_type \<noteq> 0 then ''%L'' @ delimitter
      else if pattern AND flag_type_long \<noteq> 0 then ''%l'' @ delimitter else []) @
     (if pattern AND flag_date \<noteq> 0 then ''%Y-%m-%d'' @ delimitter
      else if pattern AND flag_time \<noteq> 0 then ''%H:%M:%S.%f'' @ delimitter
      else if pattern AND flag_datetime \<noteq> 0 then ''%Y-%m-%d %H:%M:%S.%f'' @ delimitter
      else if pattern AND flag_epoch \<noteq> 0 then ''%E.%f'' @ delimitter else []) @
     (if pattern AND flag_elapsed \<noteq> 0 then ''%8i'' @ delimitter else []) @
     (if pattern AND flag_name \<noteq> 0 then ''%n'' @ delimitter else []) @
     ''%$%v''"

definition Log_SetLogPattern :: "('l, 'r) spdlog \<Rightarrow> u32 \<Rightarrow> char list \<Rightarrow> 'r \<Rightarrow> 'r log_result" where
  "Log_SetLogPattern sp pattern delimitter =
     on_default sp (\<lambda>l. l_set_pattern sp l (log_pattern_str pattern delimitter))"

definition Log_SetLogPattern_named :: "('l, 'r) spdlog \<Rightarrow> char list \<Rightarrow> u32 \<Rightarrow> char list \<Rightarrow> 'r \<Rightarrow> 'r log_result" where
  "Log_SetLogPattern_named sp log_name pattern delimitter =
     on_named sp log_name (\<lambda>l. l_set_pattern sp l (log_pattern_str pattern delimitter))"

definition Log_SetLogPatternAll :: "('l, 'r) spdlog \<Rightarrow> u32 \<Rightarrow> char list \<Rightarrow> 'r \<Rightarrow> 'r log_result" where
  "Log_SetLogPatternAll sp pattern delimitter r = Returns (spd_set_pattern sp (log_pattern_str pattern delimitter) r)"

definition Log_SetLogPattern_raw :: "('l, 'r) spdlog \<Rightarrow> char list \<Rightarrow> 'r \<Rightarrow> 'r log_result" where
  "Log_SetLogPattern_raw sp pattern = on_default sp (\<lambda>l. l_set_pattern sp l pattern)"

definition Log_SetLogPattern_named_raw :: "('l, 'r) spdlog \<Rightarrow> char list \<Rightarrow> char list \<Rightarrow> 'r \<Rightarrow> 'r log_result" where
  "Log_SetLogPattern_named_raw sp log_name pattern = on_named sp log_name (\<lambda>l. l_set_pattern sp l pattern)"

definition Log_SetLogPatternAll_raw :: "('l, 'r) spdlog \<Rightarrow> char list \<Rightarrow> 'r \<Rightarrow> 'r log_result" where
  "Log_SetLogPatternAll_raw sp pattern r = Returns (spd_set_pattern sp pattern r)"

section \<open>Streams\<close>

text \<open>
  A stream collects text in an \<open>ostringstream\<close>; the operand is the text the standard library
  renders it to. When it is destroyed its text is logged, on the default logger where there
  is no logger of the name.
\<close>

record log_stream =
  st_level :: LogLevel
  st_text :: "char list"

record named_log_stream = log_stream +
  st_name :: "char list"

definition LogStream :: "LogLevel \<Rightarrow> log_stream" where
  "LogStream log_level = \<lparr>st_level = log_level, st_text = []\<rparr>"

definition NamedLogStream :: "char list \<Rightarrow> LogLevel \<Rightarrow> named_log_stream" where
  "NamedLogStream log_name log_level = \<lparr>st_level = log_level, st_text = [], st_name = log_name\<rparr>"

definition stream_put :: "char list \<Rightarrow> log_stream \<Rightarrow> log_stream" where
  "stream_put value s = s\<lparr>st_text := st_text s @ value\<rparr>"

definition stream_format :: "char list \<Rightarrow> log_stream \<Rightarrow> log_stream" where
  "stream_format rendered s = s\<lparr>st_text := st_text s @ rendered\<rparr>"

definition named_put :: "char list \<Rightarrow> named_log_stream \<Rightarrow> named_log_stream" where
  "named_put value s = s\<lparr>st_text := st_text s @ value\<rparr>"

definition named_format :: "char list \<Rightarrow> named_log_stream \<Rightarrow> named_log_stream" where
  "named_format rendered s = s\<lparr>st_text := st_text s @ rendered\<rparr>"

definition LogStream_dtor :: "('l, 'r) spdlog \<Rightarrow> log_stream \<Rightarrow> 'r \<Rightarrow> 'r log_result" where
  "LogStream_dtor sp s = on_default sp (\<lambda>l. l_log sp l (st_level s) (st_text s))"

definition NamedLogStream_dtor :: "('l, 'r) spdlog \<Rightarrow> named_log_stream \<Rightarrow> 'r \<Rightarrow> 'r log_result" where
  "NamedLogStream_dtor sp s r =
     (case spd_get sp r (st_name s) of
        Some logger \<Rightarrow> Returns (l_log sp logger (st_level s) (st_text s) r)
      | None \<Rightarrow> on_default sp (\<lambda>l. l_log sp l (st_level s) (st_text s)) r)"

end
