(* ===== verification/PlainLogProps.thy ===== *)
theory PlainLogProps
  imports PlainLog
begin

text \<open>
  What the functions of \<open>Log\<close> do, for every logging library and file system that behave as
  they are documented to.
\<close>

section \<open>What the library documents\<close>

text \<open>
  What can be seen of a logger: where it writes, its settings, the messages it has taken
  and how many of them have been flushed; and of the file system: what is at a path.
\<close>

datatype log_dest = To_console | To_syslog "char list" | To_file "char list" bool

record log_obs =
  o_dest :: log_dest
  o_level :: LogLevel
  o_pattern :: "char list"
  o_flush :: LogLevel
  o_lines :: "(LogLevel \<times> char list) list"
  o_synced :: nat

datatype fs_node = Regular_file | Link "char list"

record ('l, 'r) log_view =
  v_logger :: "'r \<Rightarrow> 'l \<Rightarrow> log_obs"
  v_node :: "'r \<Rightarrow> char list \<Rightarrow> fs_node option"

definition registered :: "('l, 'r) spdlog \<Rightarrow> 'r \<Rightarrow> 'l \<Rightarrow> bool" where
  "registered sp r l \<longleftrightarrow> (\<exists>n. spd_get sp r n = Some l)"

definition synced :: "log_obs \<Rightarrow> log_obs" where
  "synced ob = ob\<lparr>o_synced := length (o_lines ob)\<rparr>"

definition logged :: "LogLevel \<Rightarrow> char list \<Rightarrow> log_obs \<Rightarrow> log_obs" where
  "logged v t ob =
     (if o_level ob \<le> v then
        let ob = ob\<lparr>o_lines := o_lines ob @ [(v, t)]\<rparr> in if o_flush ob \<le> v then synced ob else ob
      else ob)"

text \<open>An operation that changes nothing but what \<open>upd\<close> says of each logger.\<close>

definition updates :: "('l, 'r) spdlog \<Rightarrow> ('l, 'r) log_view \<Rightarrow> ('r \<Rightarrow> 'r) \<Rightarrow> ('r \<Rightarrow> 'l \<Rightarrow> log_obs \<Rightarrow> log_obs) \<Rightarrow> bool" where
  "updates sp vw f upd \<longleftrightarrow>
     (\<forall>r. spd_get sp (f r) = spd_get sp r \<and> default_logger sp (f r) = default_logger sp r \<and>
          v_node vw (f r) = v_node vw r \<and> (\<forall>l. v_logger vw (f r) l = upd r l (v_logger vw r l)))"

definition on_one :: "'l \<Rightarrow> (log_obs \<Rightarrow> log_obs) \<Rightarrow> 'r \<Rightarrow> 'l \<Rightarrow> log_obs \<Rightarrow> log_obs" where
  "on_one k g r l = (if l = k then g else id)"

definition on_all :: "('l, 'r) spdlog \<Rightarrow> (log_obs \<Rightarrow> log_obs) \<Rightarrow> 'r \<Rightarrow> 'l \<Rightarrow> log_obs \<Rightarrow> log_obs" where
  "on_all sp g r l = (if registered sp r l then g else id)"

definition settings_documented :: "('l, 'r) spdlog \<Rightarrow> ('l, 'r) log_view \<Rightarrow> bool" where
  "settings_documented sp vw \<longleftrightarrow>
     (\<forall>k p. updates sp vw (l_set_pattern sp k p) (on_one k (o_pattern_update (\<lambda>_. p)))) \<and>
     (\<forall>k v. updates sp vw (l_set_level sp k v) (on_one k (o_level_update (\<lambda>_. v)))) \<and>
     (\<forall>k v. updates sp vw (l_flush_on sp k v) (on_one k (o_flush_update (\<lambda>_. v)))) \<and>
     (\<forall>k. updates sp vw (l_flush sp k) (on_one k synced)) \<and>
     (\<forall>k v t. v \<noteq> L_off \<longrightarrow> updates sp vw (l_log sp k v t) (on_one k (logged v t))) \<and>
     (\<forall>p. updates sp vw (spd_set_pattern sp p) (on_all sp (o_pattern_update (\<lambda>_. p)))) \<and>
     (\<forall>v. updates sp vw (spd_set_level sp v) (on_all sp (o_level_update (\<lambda>_. v)))) \<and>
     (\<forall>v. updates sp vw (spd_flush_on sp v) (on_all sp (o_flush_update (\<lambda>_. v))))"

text \<open>A new logger is registered by its name, is none of those there are, and has no messages.\<close>

definition creates :: "('l, 'r) spdlog \<Rightarrow> ('l, 'r) log_view \<Rightarrow> char list \<Rightarrow> log_dest \<Rightarrow> 'r \<Rightarrow> 'l \<Rightarrow> 'r \<Rightarrow> bool" where
  "creates sp vw name dest r l r' \<longleftrightarrow>
     spd_get sp r name = None \<and> \<not> registered sp r l \<and> default_logger sp r \<noteq> Some l \<and>
     spd_get sp r' = (spd_get sp r)(name := Some l) \<and> default_logger sp r' = default_logger sp r \<and>
     (\<forall>k. k \<noteq> l \<longrightarrow> v_logger vw r' k = v_logger vw r k) \<and>
     o_dest (v_logger vw r' l) = dest \<and> o_lines (v_logger vw r' l) = []"

definition creation_documented :: "('l, 'r) spdlog \<Rightarrow> ('l, 'r) log_view \<Rightarrow> bool" where
  "creation_documented sp vw \<longleftrightarrow>
     (\<forall>n r. case stdout_color_mt sp n r of
        None \<Rightarrow> spd_get sp r n \<noteq> None
      | Some (l, r') \<Rightarrow> creates sp vw n To_console r l r' \<and> v_node vw r' = v_node vw r) \<and>
     (\<forall>n i r. case syslog_logger_mt sp n i r of
        None \<Rightarrow> spd_get sp r n \<noteq> None
      | Some (l, r') \<Rightarrow> creates sp vw n (To_syslog i) r l r' \<and> v_node vw r' = v_node vw r) \<and>
     (\<forall>n f t r. case basic_logger_mt sp n f t r of
        None \<Rightarrow> True
      | Some (l, r') \<Rightarrow> creates sp vw n (To_file f t) r l r' \<and> v_node vw r' f \<noteq> None \<and>
          (\<forall>p. v_node vw r p \<noteq> None \<longrightarrow> v_node vw r' p = v_node vw r p))"

definition files_documented :: "('l, 'r) spdlog \<Rightarrow> ('l, 'r) log_view \<Rightarrow> bool" where
  "files_documented sp vw \<longleftrightarrow>
     (\<forall>p r. case sys_remove sp p r of (rc, r') \<Rightarrow>
        spd_get sp r' = spd_get sp r \<and> default_logger sp r' = default_logger sp r \<and> v_logger vw r' = v_logger vw r \<and>
        (if rc = 0 then v_node vw r' = (v_node vw r)(p := None) else v_node vw r' = v_node vw r)) \<and>
     (\<forall>t p r. case sys_symlink sp t p r of (rc, r') \<Rightarrow>
        spd_get sp r' = spd_get sp r \<and> default_logger sp r' = default_logger sp r \<and> v_logger vw r' = v_logger vw r \<and>
        (rc = 0 \<or> rc = -1) \<and>
        (if rc = 0 then v_node vw r p = None \<and> v_node vw r' = (v_node vw r)(p := Some (Link t)) else v_node vw r' = v_node vw r))"

definition default_documented :: "('l, 'r) spdlog \<Rightarrow> ('l, 'r) log_view \<Rightarrow> bool" where
  "default_documented sp vw \<longleftrightarrow>
     (\<forall>l r. default_logger sp (set_default_logger sp l r) = Some l \<and>
            v_logger vw (set_default_logger sp l r) = v_logger vw r \<and> v_node vw (set_default_logger sp l r) = v_node vw r \<and>
            (\<forall>n. spd_get sp r n = Some l \<longrightarrow> spd_get sp (set_default_logger sp l r) n = Some l)) \<and>
     (\<forall>r. default_logger sp (shutdown sp r) = None \<and> spd_get sp (shutdown sp r) = (\<lambda>n. None)) \<and>
     (\<forall>f. case spd_split_by_extension sp f of (b, e) \<Rightarrow> b @ e = f \<and> CHR ''/'' \<notin> set e)"

definition spdlog_documented :: "('l, 'r) spdlog \<Rightarrow> ('l, 'r) log_view \<Rightarrow> bool" where
  "spdlog_documented sp vw \<longleftrightarrow>
     settings_documented sp vw \<and> creation_documented sp vw \<and> files_documented sp vw \<and> default_documented sp vw"

section \<open>Settings and messages\<close>

datatype scope = On_default | On_named "char list" | On_all

datatype log_op =
    Op_level scope LogLevel
  | Op_off scope
  | Op_flush_on scope LogLevel
  | Op_pattern scope u32 "char list"
  | Op_raw scope "char list"
  | Op_flush "char list option"
  | Op_stream LogLevel "char list list"
  | Op_named_stream "char list" LogLevel "char list list"

fun run_log_op :: "('l, 'r) spdlog \<Rightarrow> log_op \<Rightarrow> 'r \<Rightarrow> 'r log_result" where
  "run_log_op sp (Op_level On_default v) = Log_SetLogLevel sp v"
| "run_log_op sp (Op_level (On_named n) v) = Log_SetLogLevel_named sp n v"
| "run_log_op sp (Op_level On_all v) = Log_SetLogLevelAll sp v"
| "run_log_op sp (Op_off On_default) = SetLogOff sp"
| "run_log_op sp (Op_off (On_named n)) = SetLogOff_named sp n"
| "run_log_op sp (Op_off On_all) = SetLogOffAll sp"
| "run_log_op sp (Op_flush_on On_default v) = Log_FlushOn sp v"
| "run_log_op sp (Op_flush_on (On_named n) v) = Log_FlushOn_named sp n v"
| "run_log_op sp (Op_flush_on On_all v) = Log_FlushOnAll sp v"
| "run_log_op sp (Op_pattern On_default p d) = Log_SetLogPattern sp p d"
| "run_log_op sp (Op_pattern (On_named n) p d) = Log_SetLogPattern_named sp n p d"
| "run_log_op sp (Op_pattern On_all p d) = Log_SetLogPatternAll sp p d"
| "run_log_op sp (Op_raw On_default p) = Log_SetLogPattern_raw sp p"
| "run_log_op sp (Op_raw (On_named n) p) = Log_SetLogPattern_named_raw sp n p"
| "run_log_op sp (Op_raw On_all p) = Log_SetLogPatternAll_raw sp p"
| "run_log_op sp (Op_flush None) = Log_Flush sp"
| "run_log_op sp (Op_flush (Some n)) = Log_Flush_named sp n"
| "run_log_op sp (Op_stream v ts) = LogStream_dtor sp (fold stream_put ts (LogStream v))"
| "run_log_op sp (Op_named_stream n v ts) = NamedLogStream_dtor sp (fold named_put ts (NamedLogStream n v))"

fun run_log_ops :: "('l, 'r) spdlog \<Rightarrow> log_op list \<Rightarrow> 'r \<Rightarrow> 'r log_result" where
  "run_log_ops sp [] r = Returns r"
| "run_log_ops sp (op # ops) r = (case run_log_op sp op r of Returns r' \<Rightarrow> run_log_ops sp ops r' | e \<Rightarrow> e)"

text \<open>
  The specification: what one logger makes of an operation, where \<open>mine\<close> says which scopes
  it is in, and \<open>known\<close> which names are registered.
\<close>

fun obs_op :: "(scope \<Rightarrow> bool) \<Rightarrow> (char list \<Rightarrow> bool) \<Rightarrow> log_op \<Rightarrow> log_obs \<Rightarrow> log_obs" where
  "obs_op mine known (Op_level sc v) ob = (if mine sc then ob\<lparr>o_level := v\<rparr> else ob)"
| "obs_op mine known (Op_off sc) ob = (if mine sc then ob\<lparr>o_level := L_off\<rparr> else ob)"
| "obs_op mine known (Op_flush_on sc v) ob = (if mine sc then ob\<lparr>o_flush := v\<rparr> else ob)"
| "obs_op mine known (Op_pattern sc p d) ob = (if mine sc then ob\<lparr>o_pattern := log_pattern_str p d\<rparr> else ob)"
| "obs_op mine known (Op_raw sc p) ob = (if mine sc then ob\<lparr>o_pattern := p\<rparr> else ob)"
| "obs_op mine known (Op_flush n) ob =
     (if mine (case n of None \<Rightarrow> On_default | Some n \<Rightarrow> On_named n) then synced ob else ob)"
| "obs_op mine known (Op_stream v ts) ob = (if mine On_default then logged v (concat ts) ob else ob)"
| "obs_op mine known (Op_named_stream n v ts) ob =
     (if mine (if known n then On_named n else On_default) then logged v (concat ts) ob else ob)"

fun op_ok :: "log_op \<Rightarrow> bool" where
  "op_ok (Op_stream v ts) \<longleftrightarrow> v \<noteq> L_off"
| "op_ok (Op_named_stream n v ts) \<longleftrightarrow> v \<noteq> L_off"
| "op_ok _ \<longleftrightarrow> True"

fun in_scope :: "('l, 'r) spdlog \<Rightarrow> 'r \<Rightarrow> 'l \<Rightarrow> scope \<Rightarrow> bool" where
  "in_scope sp r l On_default \<longleftrightarrow> default_logger sp r = Some l"
| "in_scope sp r l (On_named n) \<longleftrightarrow> spd_get sp r n = Some l"
| "in_scope sp r l On_all \<longleftrightarrow> registered sp r l"

definition is_known :: "('l, 'r) spdlog \<Rightarrow> 'r \<Rightarrow> char list \<Rightarrow> bool" where
  "is_known sp r n \<longleftrightarrow> spd_get sp r n \<noteq> None"

lemma stream_text: "fold stream_put ts s = s\<lparr>st_text := st_text s @ concat ts\<rparr>"
  by (induction ts arbitrary: s) (simp_all add: stream_put_def)

lemma named_text: "fold named_put ts s = s\<lparr>st_text := st_text s @ concat ts\<rparr>"
  by (induction ts arbitrary: s) (simp_all add: named_put_def)

definition same_world :: "('l, 'r) spdlog \<Rightarrow> ('l, 'r) log_view \<Rightarrow> 'r \<Rightarrow> 'r \<Rightarrow> bool" where
  "same_world sp vw r r' \<longleftrightarrow>
     spd_get sp r' = spd_get sp r \<and> default_logger sp r' = default_logger sp r \<and> v_node vw r' = v_node vw r"

lemma on_default_updates:
  assumes "\<And>k. updates sp vw (f k) (on_one k g)" and "default_logger sp r = Some k"
  shows "\<exists>r'. on_default sp f r = Returns r' \<and> same_world sp vw r r' \<and>
     (\<forall>l. v_logger vw r' l = (if in_scope sp r l On_default then g (v_logger vw r l) else v_logger vw r l))"
  using assms(1) [of k] assms(2) by (auto simp: on_default_def updates_def on_one_def same_world_def)

lemma on_named_updates:
  assumes "\<And>k. updates sp vw (f k) (on_one k g)"
  shows "\<exists>r'. on_named sp n f r = Returns r' \<and> same_world sp vw r r' \<and>
     (\<forall>l. v_logger vw r' l = (if in_scope sp r l (On_named n) then g (v_logger vw r l) else v_logger vw r l))"
proof (cases "spd_get sp r n")
  case (Some k)
  then show ?thesis using assms [of k] by (auto simp: on_named_def updates_def on_one_def same_world_def)
qed (simp add: on_named_def same_world_def)

lemma on_all_updates:
  assumes "updates sp vw f (on_all sp g)"
  shows "\<exists>r'. Returns (f r) = Returns r' \<and> same_world sp vw r r' \<and>
     (\<forall>l. v_logger vw r' l = (if in_scope sp r l On_all then g (v_logger vw r l) else v_logger vw r l))"
  using assms by (auto simp: updates_def on_all_def same_world_def)

lemmas log_op_defs = Log_SetLogLevel_def Log_SetLogLevel_named_def Log_SetLogLevelAll_def SetLogOff_def
  SetLogOff_named_def SetLogOffAll_def Log_FlushOn_def Log_FlushOn_named_def Log_FlushOnAll_def
  Log_SetLogPattern_def Log_SetLogPattern_named_def Log_SetLogPatternAll_def Log_SetLogPattern_raw_def
  Log_SetLogPattern_named_raw_def Log_SetLogPatternAll_raw_def Log_Flush_def Log_Flush_named_def

text \<open>One operation.\<close>

lemma run_log_op_refines:
  assumes doc: "settings_documented sp vw" and def: "default_logger sp r = Some k" and ok: "op_ok op"
  shows "\<exists>r'. run_log_op sp op r = Returns r' \<and> same_world sp vw r r' \<and>
     (\<forall>l. v_logger vw r' l = obs_op (in_scope sp r l) (is_known sp r) op (v_logger vw r l))"
proof -
  have laws:
    "\<And>k p. updates sp vw (l_set_pattern sp k p) (on_one k (o_pattern_update (\<lambda>_. p)))"
    "\<And>k v. updates sp vw (l_set_level sp k v) (on_one k (o_level_update (\<lambda>_. v)))"
    "\<And>k v. updates sp vw (l_flush_on sp k v) (on_one k (o_flush_update (\<lambda>_. v)))"
    "\<And>k. updates sp vw (l_flush sp k) (on_one k synced)"
    "\<And>k v t. v \<noteq> L_off \<Longrightarrow> updates sp vw (l_log sp k v t) (on_one k (logged v t))"
    "\<And>p. updates sp vw (spd_set_pattern sp p) (on_all sp (o_pattern_update (\<lambda>_. p)))"
    "\<And>v. updates sp vw (spd_set_level sp v) (on_all sp (o_level_update (\<lambda>_. v)))"
    "\<And>v. updates sp vw (spd_flush_on sp v) (on_all sp (o_flush_update (\<lambda>_. v)))"
    using doc by (simp_all add: settings_documented_def)
  note d = on_default_updates [OF _ def] and n = on_named_updates and a = on_all_updates
  have scoped: "\<exists>r'. run_log_op sp op r = Returns r' \<and> same_world sp vw r r' \<and>
      (\<forall>l. v_logger vw r' l = obs_op (in_scope sp r l) (is_known sp r) op (v_logger vw r l))"
    if "op = Op_level sc v \<or> op = Op_off sc \<or> op = Op_flush_on sc v \<or> op = Op_pattern sc p dl \<or> op = Op_raw sc q" for sc v p dl q
    using that
    apply (elim disjE; cases sc; simp only: run_log_op.simps log_op_defs obs_op.simps)
    apply (rule d [OF laws(1)] d [OF laws(2)] d [OF laws(3)] n [OF laws(1)] n [OF laws(2)] n [OF laws(3)]
          a [OF laws(6)] a [OF laws(7)] a [OF laws(8)])+
    done
  show ?thesis
  proof (cases op)
    case (Op_flush m)
    show ?thesis
      by (cases m; simp only: Op_flush run_log_op.simps log_op_defs obs_op.simps option.case)
         (rule d [OF laws(4)] n [OF laws(4)])+
  next
    case (Op_stream v ts)
    then have v: "v \<noteq> L_off" using ok by simp
    show ?thesis using d [OF laws(5) [OF v, where t = "concat ts"]]
      by (simp add: Op_stream stream_text LogStream_def LogStream_dtor_def)
  next
    case (Op_named_stream m v ts)
    then have v: "v \<noteq> L_off" using ok by simp
    show ?thesis
    proof (cases "spd_get sp r m")
      case None
      then show ?thesis using d [OF laws(5) [OF v, where t = "concat ts"]]
        by (simp add: Op_named_stream named_text NamedLogStream_def NamedLogStream_dtor_def is_known_def)
    next
      case (Some j)
      then show ?thesis using n [OF laws(5) [OF v, where t = "concat ts"], of m r]
        by (simp add: Op_named_stream named_text NamedLogStream_def NamedLogStream_dtor_def is_known_def on_named_def)
    qed
  qed (use scoped in blast)+
qed

text \<open>The last setting that concerns a logger holds.\<close>

fun level_set :: "(scope \<Rightarrow> bool) \<Rightarrow> log_op \<Rightarrow> LogLevel option" where
  "level_set mine (Op_level sc v) = (if mine sc then Some v else None)"
| "level_set mine (Op_off sc) = (if mine sc then Some L_off else None)"
| "level_set mine _ = None"

fun pattern_set :: "(scope \<Rightarrow> bool) \<Rightarrow> log_op \<Rightarrow> char list option" where
  "pattern_set mine (Op_pattern sc p d) = (if mine sc then Some (log_pattern_str p d) else None)"
| "pattern_set mine (Op_raw sc p) = (if mine sc then Some p else None)"
| "pattern_set mine _ = None"

lemma logged_settings [simp]: "o_level (logged v t ob) = o_level ob" "o_pattern (logged v t ob) = o_pattern ob"
  by (simp_all add: logged_def synced_def Let_def)

lemma synced_settings [simp]: "o_level (synced ob) = o_level ob" "o_pattern (synced ob) = o_pattern ob"
  by (simp_all add: synced_def)

lemma obs_op_level: "o_level (obs_op mine known op ob) = (case level_set mine op of None \<Rightarrow> o_level ob | Some v \<Rightarrow> v)"
  by (cases op) simp_all

lemma obs_op_pattern: "o_pattern (obs_op mine known op ob) = (case pattern_set mine op of None \<Rightarrow> o_pattern ob | Some p \<Rightarrow> p)"
  by (cases op) simp_all

lemma last_wins:
  assumes "\<And>op ob. f (step op ob) = (case set_by op of None \<Rightarrow> f ob | Some v \<Rightarrow> v)"
  shows "f (fold step ops ob) = last (f ob # List.map_filter set_by ops)"
  by (induction ops arbitrary: ob) (simp_all add: assms List.map_filter_simps split: option.splits)

lemmas level_last_wins = last_wins [of o_level, OF obs_op_level]
lemmas pattern_last_wins = last_wins [of o_pattern, OF obs_op_pattern]

lemma same_world_scope:
  "same_world sp vw r r' \<Longrightarrow> in_scope sp r' l = in_scope sp r l \<and> is_known sp r' = is_known sp r"
proof -
  assume "same_world sp vw r r'"
  then have "in_scope sp r' l sc = in_scope sp r l sc" for sc by (cases sc) (simp_all add: same_world_def registered_def)
  moreover have "is_known sp r' = is_known sp r" using \<open>same_world sp vw r r'\<close> by (simp add: same_world_def is_known_def fun_eq_iff)
  ultimately show ?thesis by blast
qed

text \<open>
  C25: As long as there is a default logger, every sequence of settings, flushes and streams runs,
  keeps the registered loggers and the files, and does to each logger what concerns it: the
  calls for the default logger, for its name and for all; a stream for an unknown name goes
  to the default logger. The level and the pattern are those of the last call that
  concerned it.
\<close>

theorem log_calls_refine:
  assumes "spdlog_documented sp vw" and "default_logger sp r = Some k" and "\<forall>op \<in> set ops. op_ok op"
  shows "\<exists>r'. run_log_ops sp ops r = Returns r' \<and> same_world sp vw r r' \<and>
     (\<forall>l. v_logger vw r' l = fold (obs_op (in_scope sp r l) (is_known sp r)) ops (v_logger vw r l) \<and>
          o_level (v_logger vw r' l) =
            last (o_level (v_logger vw r l) # List.map_filter (level_set (in_scope sp r l)) ops) \<and>
          o_pattern (v_logger vw r' l) =
            last (o_pattern (v_logger vw r l) # List.map_filter (pattern_set (in_scope sp r l)) ops))"
proof -
  have "\<exists>r'. run_log_ops sp ops r = Returns r' \<and> same_world sp vw r r' \<and>
     (\<forall>l. v_logger vw r' l = fold (obs_op (in_scope sp r l) (is_known sp r)) ops (v_logger vw r l))"
    using assms(2,3)
  proof (induction ops arbitrary: r)
    case (Cons op ops)
    have doc: "settings_documented sp vw" using assms(1) by (simp add: spdlog_documented_def)
    obtain r1 where 1: "run_log_op sp op r = Returns r1" "same_world sp vw r r1"
      "\<forall>l. v_logger vw r1 l = obs_op (in_scope sp r l) (is_known sp r) op (v_logger vw r l)"
      using run_log_op_refines [OF doc Cons.prems(1), of op] Cons.prems(2) by auto
    have "default_logger sp r1 = Some k" using 1(2) Cons.prems(1) by (simp add: same_world_def)
    then obtain r' where 2: "run_log_ops sp ops r1 = Returns r'" "same_world sp vw r1 r'"
      "\<forall>l. v_logger vw r' l = fold (obs_op (in_scope sp r1 l) (is_known sp r1)) ops (v_logger vw r1 l)"
      using Cons.IH [of r1] Cons.prems(2) by auto
    then show ?case using 1 same_world_scope [OF 1(2)] by (auto simp: same_world_def)
  qed (simp add: same_world_def)
  then obtain r' where "run_log_ops sp ops r = Returns r'" "same_world sp vw r r'"
    "\<forall>l. v_logger vw r' l = fold (obs_op (in_scope sp r l) (is_known sp r)) ops (v_logger vw r l)"
    by blast
  then show ?thesis by (intro exI [of _ r'] conjI allI) (simp_all only: level_last_wins pattern_last_wins)
qed

section \<open>New loggers\<close>

definition created_dest :: "('l, 'r) spdlog \<Rightarrow> tm \<Rightarrow> char list \<Rightarrow> char list \<Rightarrow> bool \<Rightarrow> bool \<Rightarrow> log_dest" where
  "created_dest sp now name path annot trunc =
     (if path = ''_STDOUT_'' then To_console
      else if path = ''_SYSLOG_'' then To_syslog name
      else To_file (if annot then Log_annotate_filename_datetime (spd_split_by_extension sp) now path else path) trunc)"

definition symlink_warning :: "LogLevel \<times> char list" where
  "symlink_warning = (L_warn, ''-1 Cannot create symlink to this log file.'')"

text \<open>A link with a relative target points into its own directory.\<close>

definition link_points_to :: "char list \<Rightarrow> char list \<Rightarrow> char list" where
  "link_points_to path target = fst (Log_split_by_directory path) @ target"

lemma split_append_no_slash:
  assumes "CHR ''/'' \<notin> set t"
  shows "rfind CHR ''/'' (s @ t) = rfind CHR ''/'' s"
  using assms rfind_None [of "CHR ''/''" t] by (simp add: rfind_def rfind_if_append)

lemma fmt0d_no_slash: "CHR ''/'' \<notin> set (fmt0d w i)"
  using nat_str_not_in [of "CHR ''/''"] by (auto simp: fmt0d_def)

lemma annotated_in_same_directory:
  assumes "case split path of (b, e) \<Rightarrow> b @ e = path \<and> CHR ''/'' \<notin> set e"
  shows "link_points_to path (snd (Log_split_by_directory (Log_annotate_filename_datetime split now path))) =
         Log_annotate_filename_datetime split now path"
proof -
  obtain b e where be: "split path = (b, e)" by (cases "split path")
  then have path: "path = b @ e" and e: "CHR ''/'' \<notin> set e" using assms by auto
  define a where "a = Log_annotate_filename_datetime split now path"
  obtain t where a: "a = b @ ''_'' @ t" and t: "CHR ''/'' \<notin> set t"
    using fmt0d_no_slash e by (simp add: a_def Log_annotate_filename_datetime_def be)
  have ra: "rfind CHR ''/'' a = rfind CHR ''/'' b" unfolding a using t by (intro split_append_no_slash) simp
  have rf: "rfind CHR ''/'' path = rfind CHR ''/'' b" unfolding path by (rule split_append_no_slash [OF e])
  have "link_points_to path (snd (Log_split_by_directory a)) = a"
  proof (cases "rfind CHR ''/'' b")
    case None
    then show ?thesis by (simp add: link_points_to_def Log_split_by_directory_def ra rf)
  next
    case (Some i)
    then have i: "i < length b" using rfind_Some by blast
    have "i \<noteq> length a - 1" using i by (simp add: a)
    moreover have "fst (Log_split_by_directory path) = take (Suc i) b"
      using Some i unfolding Log_split_by_directory_def rf by (cases e) (auto simp: path)
    moreover have "take (Suc i) b @ drop (Suc i) a = a"
      using i by (simp add: a drop_append take_append)
    ultimately show ?thesis using Some by (simp add: link_points_to_def Log_split_by_directory_def ra)
  qed
  then show ?thesis unfolding a_def .
qed

lemma created_loggers:
  assumes "creation_documented sp vw"
  shows "stdout_color_mt sp n r = Some (l, r') \<Longrightarrow> creates sp vw n To_console r l r'"
    and "syslog_logger_mt sp n i r = Some (l, r') \<Longrightarrow> creates sp vw n (To_syslog i) r l r'"
    and "basic_logger_mt sp n f t r = Some (l, r') \<Longrightarrow> creates sp vw n (To_file f t) r l r'"
    and "stdout_color_mt sp n r = None \<Longrightarrow> spd_get sp r n \<noteq> None"
    and "syslog_logger_mt sp n i r = None \<Longrightarrow> spd_get sp r n \<noteq> None"
  using assms [unfolded creation_documented_def, THEN conjunct1, THEN spec [of _ n], THEN spec [of _ r]]
    assms [unfolded creation_documented_def, THEN conjunct2, THEN conjunct1, THEN spec [of _ n], THEN spec [of _ i], THEN spec [of _ r]]
    assms [unfolded creation_documented_def, THEN conjunct2, THEN conjunct2, THEN spec [of _ n], THEN spec [of _ f],
      THEN spec [of _ t], THEN spec [of _ r]]
  by simp_all

lemma creates_stage:
  assumes "creates sp vw name dest r l r1" and "spd_get sp r2 = spd_get sp r1" "default_logger sp r2 = default_logger sp r1"
    and "\<forall>k. k \<noteq> l \<longrightarrow> v_logger vw r2 k = v_logger vw r1 k" and "o_dest (v_logger vw r2 l) = dest"
  shows "spd_get sp r name = None \<and> \<not> registered sp r l \<and> spd_get sp r2 = (spd_get sp r)(name := Some l) \<and>
         default_logger sp r2 = default_logger sp r \<and> (\<forall>k. k \<noteq> l \<longrightarrow> v_logger vw r2 k = v_logger vw r k) \<and>
         o_dest (v_logger vw r2 l) = dest"
  using assms by (simp add: creates_def)

text \<open>The branch for a file: the logger, its pattern, the link, and the warning when there is none.\<close>

lemma file_branch_spec:
  assumes doc: "spdlog_documented sp vw"
    and res: "log_file_branch sp now name path annot trunc r = Some (l, r')"
  defines "target \<equiv> if annot then Log_annotate_filename_datetime (spd_split_by_extension sp) now path else path"
  shows "spd_get sp r name = None \<and> \<not> registered sp r l \<and> spd_get sp r' = (spd_get sp r)(name := Some l) \<and>
         default_logger sp r' = default_logger sp r \<and> (\<forall>k. k \<noteq> l \<longrightarrow> v_logger vw r' k = v_logger vw r k) \<and>
         o_dest (v_logger vw r' l) = To_file target trunc \<and> o_pattern (v_logger vw r' l) = CONSOLE_PATTERN"
    and "annot \<Longrightarrow>
         (\<exists>t. v_node vw r' path = Some (Link t) \<and> link_points_to path t = target \<and> o_lines (v_logger vw r' l) = []) \<or>
         set (o_lines (v_logger vw r' l)) \<subseteq> {symlink_warning}"
proof -
  have set: "settings_documented sp vw" and cre: "creation_documented sp vw" and fil: "files_documented sp vw"
    and def: "default_documented sp vw" using doc by (simp_all add: spdlog_documented_def)
  obtain r1 where b: "basic_logger_mt sp name target trunc r = Some (l, r1)"
    using res unfolding target_def by (auto simp: log_file_branch_def Let_def split: option.splits)
  then have c: "creates sp vw name (To_file target trunc) r l r1"
    by (rule created_loggers(3) [OF cre])
  define fname where "fname = snd (Log_split_by_directory target)"
  obtain rc2 r2 where rm: "sys_remove sp path r1 = (rc2, r2)" by (cases "sys_remove sp path r1")
  obtain rc3 r3 where sl: "sys_symlink sp fname path r2 = (rc3, r3)" by (cases "sys_symlink sp fname path r2")
  define r4 where "r4 = (if annot then if rc3 < 0 then l_log sp l L_warn (int_str rc3 @ '' Cannot create symlink to this log file.'') r3 else r3 else r1)"
  have r': "r' = l_set_pattern sp l CONSOLE_PATTERN r4"
    using res b rm sl unfolding target_def fname_def r4_def by (auto simp: log_file_branch_def Let_def)
  have f2: "spd_get sp r2 = spd_get sp r1" "default_logger sp r2 = default_logger sp r1" "v_logger vw r2 = v_logger vw r1"
    using fil rm unfolding files_documented_def by (metis (mono_tags, lifting) case_prod_conv)+
  have f3: "spd_get sp r3 = spd_get sp r2" "default_logger sp r3 = default_logger sp r2" "v_logger vw r3 = v_logger vw r2"
    "rc3 = 0 \<or> rc3 = -1" "rc3 = 0 \<longrightarrow> v_node vw r3 path = Some (Link fname)"
    using fil sl unfolding files_documented_def by (metis (mono_tags, lifting) case_prod_conv fun_upd_same)+
  have up: "updates sp vw (l_log sp l L_warn t) (on_one l (logged L_warn t))"
    "updates sp vw (l_set_pattern sp l p) (on_one l (o_pattern_update (\<lambda>_. p)))" for t p
    using set by (simp_all add: settings_documented_def)
  have r4: "spd_get sp r4 = spd_get sp r1" "default_logger sp r4 = default_logger sp r1"
    "\<forall>k. k \<noteq> l \<longrightarrow> v_logger vw r4 k = v_logger vw r1 k"
    "o_dest (v_logger vw r4 l) = o_dest (v_logger vw r1 l)"
    using f2 f3(1-3) up(1) by (auto simp: r4_def updates_def on_one_def logged_def synced_def Let_def)
  have r5: "spd_get sp r' = spd_get sp r4" "default_logger sp r' = default_logger sp r4" "v_node vw r' = v_node vw r4"
    "\<forall>k. k \<noteq> l \<longrightarrow> v_logger vw r' k = v_logger vw r4 k"
    "v_logger vw r' l = (v_logger vw r4 l)\<lparr>o_pattern := CONSOLE_PATTERN\<rparr>"
    using up(2) unfolding r' by (simp_all add: updates_def on_one_def)
  show "spd_get sp r name = None \<and> \<not> registered sp r l \<and> spd_get sp r' = (spd_get sp r)(name := Some l) \<and>
         default_logger sp r' = default_logger sp r \<and> (\<forall>k. k \<noteq> l \<longrightarrow> v_logger vw r' k = v_logger vw r k) \<and>
         o_dest (v_logger vw r' l) = To_file target trunc \<and> o_pattern (v_logger vw r' l) = CONSOLE_PATTERN"
    using creates_stage [OF c, of r'] r4 r5 c by (simp add: creates_def)
  assume annot
  have lines: "o_lines (v_logger vw r3 l) = []" using c f2 f3 by (simp add: creates_def)
  consider "rc3 = 0" | "rc3 = -1" using f3(4) by blast
  then show "(\<exists>t. v_node vw r' path = Some (Link t) \<and> link_points_to path t = target \<and> o_lines (v_logger vw r' l) = []) \<or>
      set (o_lines (v_logger vw r' l)) \<subseteq> {symlink_warning}"
  proof cases
    case 1
    have "link_points_to path fname = target"
      using annotated_in_same_directory [where split = "spd_split_by_extension sp" and path = path and now = now] def \<open>annot\<close>
      by (simp add: fname_def target_def default_documented_def)
    then show ?thesis using 1 f3(5) \<open>annot\<close> lines r5 by (simp add: r4_def)
  next
    case 2
    have "int_str (-1) = ''-1''" by code_simp
    then have "set (o_lines (v_logger vw r4 l)) \<subseteq> {symlink_warning}"
      using 2 up(1) lines \<open>annot\<close>
      by (simp add: r4_def updates_def on_one_def logged_def synced_def Let_def symlink_warning_def)
    then show ?thesis using r5 by simp
  qed
qed

definition is_new_logger :: "('l, 'r) spdlog \<Rightarrow> ('l, 'r) log_view \<Rightarrow> char list \<Rightarrow> 'r \<Rightarrow> 'l \<Rightarrow> 'r \<Rightarrow> bool" where
  "is_new_logger sp vw name r l r' \<longleftrightarrow>
     spd_get sp r name = None \<and> \<not> registered sp r l \<and> spd_get sp r' = (spd_get sp r)(name := Some l) \<and>
     default_logger sp r' = default_logger sp r \<and> (\<forall>k. k \<noteq> l \<longrightarrow> v_logger vw r' k = v_logger vw r k)"

text \<open>At the path stands a link to the file, or there is at most the warning.\<close>

definition link_or_warning :: "('l, 'r) log_view \<Rightarrow> char list \<Rightarrow> char list \<Rightarrow> 'l \<Rightarrow> 'r \<Rightarrow> bool" where
  "link_or_warning vw path target l r' \<longleftrightarrow>
     (\<exists>t. v_node vw r' path = Some (Link t) \<and> link_points_to path t = target \<and> o_lines (v_logger vw r' l) = []) \<or>
     set (o_lines (v_logger vw r' l)) \<subseteq> {symlink_warning}"

text \<open>The logger of one branch, before the exception for a missing one.\<close>

definition made_logger ::
  "('l, 'r) spdlog \<Rightarrow> tm \<Rightarrow> char list \<Rightarrow> char list \<Rightarrow> bool \<Rightarrow> bool \<Rightarrow> 'r \<Rightarrow> ('l \<times> 'r) option" where
  "made_logger sp now name path annot trunc r =
     (if path = ''_STDOUT_'' then
        map_option (\<lambda>(logger, r). (logger, l_set_pattern sp logger CONSOLE_PATTERN r)) (stdout_color_mt sp name r)
      else if path = ''_SYSLOG_'' then
        map_option (\<lambda>(logger, r). (logger, l_set_pattern sp logger ''[%L]%v'' r)) (syslog_logger_mt sp name name r)
      else log_file_branch sp now name path annot trunc r)"

lemma Create_made:
  "Log_Create sp now name path annot trunc r =
     (case made_logger sp now name path annot trunc r of None \<Rightarrow> Throws | Some (l, r) \<Rightarrow> Returns r)"
  by (simp add: Log_Create_def made_logger_def)

lemma Initialize_made:
  "Log_Initialize sp now name path annot trunc r =
     (case made_logger sp now name (if path = [] then ''_STDOUT_'' else path) annot trunc r of
        None \<Rightarrow> Throws | Some (l, r) \<Rightarrow> Returns (set_default_logger sp l r))"
  by (simp add: Log_Initialize_def made_logger_def)

lemma made_logger_spec:
  assumes doc: "spdlog_documented sp vw" and m: "made_logger sp now name path annot trunc r = Some (l, r')"
  shows "is_new_logger sp vw name r l r'"
    and "o_dest (v_logger vw r' l) = created_dest sp now name path annot trunc"
    and "o_pattern (v_logger vw r' l) = (if path = ''_SYSLOG_'' then ''[%L]%v'' else CONSOLE_PATTERN)"
    and "path \<notin> {''_STDOUT_'', ''_SYSLOG_''} \<Longrightarrow> annot \<Longrightarrow>
           link_or_warning vw path (Log_annotate_filename_datetime (spd_split_by_extension sp) now path) l r'"
proof -
  have set: "settings_documented sp vw" and cre: "creation_documented sp vw"
    using doc by (simp_all add: spdlog_documented_def)
  have pat: "updates sp vw (l_set_pattern sp l p) (on_one l (o_pattern_update (\<lambda>_. p)))" for p
    using set by (simp add: settings_documented_def)
  have branch: "is_new_logger sp vw name r l (l_set_pattern sp l p r1) \<and> o_dest (v_logger vw (l_set_pattern sp l p r1) l) = d \<and>
      o_pattern (v_logger vw (l_set_pattern sp l p r1) l) = p" if c: "creates sp vw name d r l r1" for p d r1
    using pat [of p] c by (simp add: updates_def on_one_def is_new_logger_def creates_def)
  consider (console) "path = ''_STDOUT_''" | (sys) "path = ''_SYSLOG_''" | (named) "path \<noteq> ''_STDOUT_''" "path \<noteq> ''_SYSLOG_''"
    by blast
  then have "is_new_logger sp vw name r l r' \<and>
      o_dest (v_logger vw r' l) = created_dest sp now name path annot trunc \<and>
      o_pattern (v_logger vw r' l) = (if path = ''_SYSLOG_'' then ''[%L]%v'' else CONSOLE_PATTERN)"
  proof cases
    case console
    then obtain r1 where "stdout_color_mt sp name r = Some (l, r1)" "r' = l_set_pattern sp l CONSOLE_PATTERN r1"
      using m by (auto simp: made_logger_def)
    then show ?thesis using branch [OF created_loggers(1) [OF cre]] console by (simp add: created_dest_def)
  next
    case sys
    then obtain r1 where "syslog_logger_mt sp name name r = Some (l, r1)" "r' = l_set_pattern sp l ''[%L]%v'' r1"
      using m by (auto simp: made_logger_def)
    then show ?thesis using branch [OF created_loggers(2) [OF cre]] sys by (simp add: created_dest_def)
  next
    case named
    then have "log_file_branch sp now name path annot trunc r = Some (l, r')" using m by (simp add: made_logger_def)
    from file_branch_spec(1) [OF doc this] show ?thesis using named by (simp add: created_dest_def is_new_logger_def)
  qed
  then show "is_new_logger sp vw name r l r'"
    and "o_dest (v_logger vw r' l) = created_dest sp now name path annot trunc"
    and "o_pattern (v_logger vw r' l) = (if path = ''_SYSLOG_'' then ''[%L]%v'' else CONSOLE_PATTERN)"
    by blast+
  assume "path \<notin> {''_STDOUT_'', ''_SYSLOG_''}" "annot"
  then have "log_file_branch sp now name path True trunc r = Some (l, r')" using m by (simp add: made_logger_def)
  from file_branch_spec(2) [OF doc this]
  show "link_or_warning vw path (Log_annotate_filename_datetime (spd_split_by_extension sp) now path) l r'"
    unfolding link_or_warning_def by simp
qed

text \<open>
  A logger created by \<open>Create\<close> is new, is registered under its name, leaves the default and
  every other logger alone, and has the pattern of its kind. It writes to the terminal or to
  syslog for the two special names, in every other case to a file, for an empty name too
  although the comment promises the terminal there. A name that is taken makes the function
  throw. The name without the date is afterwards a symbolic link to the dated file, or else
  there is at most the warning that it could not be made.
\<close>

theorem Create_spec:
  assumes "spdlog_documented sp vw"
  shows "(spd_get sp r name \<noteq> None \<longrightarrow> Log_Create sp now name path annot trunc r = Throws) \<and>
     (Log_Create sp now name path annot trunc r = Throws \<or>
      (\<exists>l r'. Log_Create sp now name path annot trunc r = Returns r' \<and> is_new_logger sp vw name r l r' \<and>
          o_dest (v_logger vw r' l) = created_dest sp now name path annot trunc \<and>
          o_pattern (v_logger vw r' l) = (if path = ''_SYSLOG_'' then ''[%L]%v'' else CONSOLE_PATTERN) \<and>
          (path \<notin> {''_STDOUT_'', ''_SYSLOG_''} \<and> annot \<longrightarrow>
             link_or_warning vw path (Log_annotate_filename_datetime (spd_split_by_extension sp) now path) l r')))"
proof (cases "made_logger sp now name path annot trunc r")
  case None
  then show ?thesis by (simp add: Create_made)
next
  case (Some lr)
  obtain l r' where lr: "made_logger sp now name path annot trunc r = Some (l, r')" using Some by (cases lr) simp
  note spec = made_logger_spec [OF assms lr]
  have "Log_Create sp now name path annot trunc r = Returns r'" by (simp add: Create_made lr)
  moreover have "spd_get sp r name = None" using spec(1) by (simp add: is_new_logger_def)
  ultimately show ?thesis using spec by (intro conjI impI disjI2 exI [of _ l] exI [of _ r']) auto
qed

text \<open>
  \<open>Initialize\<close> creates its logger in the same way, the terminal for an empty name included, and
  makes it the default.
\<close>

lemma Initialize_spec:
  assumes "spdlog_documented sp vw" and "Log_Initialize sp now name path annot trunc r = Returns r'"
  obtains l r1 where "is_new_logger sp vw name r l r1" and "r' = set_default_logger sp l r1"
    and "default_logger sp r' = Some l" and "spd_get sp r' name = Some l"
    and "o_dest (v_logger vw r' l) =
           (if path = [] then To_console else created_dest sp now name path annot trunc)"
proof -
  obtain l r1 where m: "made_logger sp now name (if path = [] then ''_STDOUT_'' else path) annot trunc r = Some (l, r1)"
    "r' = set_default_logger sp l r1"
    using assms(2) by (auto simp: Initialize_made split: option.splits)
  note spec = made_logger_spec [OF assms(1) m(1)]
  have d: "default_logger sp r' = Some l" "v_logger vw r' = v_logger vw r1"
    "\<forall>n. spd_get sp r1 n = Some l \<longrightarrow> spd_get sp r' n = Some l"
    using assms(1) m(2) by (simp_all add: spdlog_documented_def default_documented_def)
  have "spd_get sp r1 name = Some l" using spec(1) by (simp add: is_new_logger_def)
  then show thesis using that [OF spec(1) m(2) d(1)] d spec(2) by (simp add: created_dest_def split: if_splits)
qed

text \<open>
  Before \<open>Initialize\<close> has been called there is the library's own default logger; after
  \<open>Terminate\<close> there is none, and settings and streams for the default logger are undefined.
\<close>

lemma after_Terminate:
  assumes "spdlog_documented sp vw" and "Log_Terminate sp r = Returns r'"
  shows "LogStream_dtor sp s r' = Null_logger" "NamedLogStream_dtor sp ns r' = Null_logger" "SetLogOff sp r' = Null_logger"
    "Log_Flush_named sp n r' = Returns r'"
  using assms
  by (auto simp: Log_Terminate_def spdlog_documented_def default_documented_def LogStream_dtor_def NamedLogStream_dtor_def
      SetLogOff_def on_default_def Log_Flush_named_def on_named_def)

section \<open>A library that behaves as documented\<close>

text \<open>
  Loggers are their names. This is the witness that the hypotheses can hold, and a library
  the model can be run with.
\<close>

record ref_log =
  rl_known :: "char list \<Rightarrow> bool"
  rl_default :: "char list option"
  rl_obs :: "char list \<Rightarrow> log_obs"
  rl_node :: "char list \<Rightarrow> fs_node option"

definition ref_get :: "ref_log \<Rightarrow> char list \<Rightarrow> char list option" where
  "ref_get r n = (if rl_known r n then Some n else None)"

definition ref_upd :: "(char list \<Rightarrow> bool) \<Rightarrow> (log_obs \<Rightarrow> log_obs) \<Rightarrow> ref_log \<Rightarrow> ref_log" where
  "ref_upd p g r = r\<lparr>rl_obs := (\<lambda>n. if p n then g (rl_obs r n) else rl_obs r n)\<rparr>"

definition new_obs :: "log_dest \<Rightarrow> log_obs" where
  "new_obs d = \<lparr>o_dest = d, o_level = L_info, o_pattern = ''%+'', o_flush = L_off, o_lines = [], o_synced = 0\<rparr>"

definition ref_create :: "char list \<Rightarrow> log_dest \<Rightarrow> ref_log \<Rightarrow> (char list \<times> ref_log) option" where
  "ref_create n d r =
     (if rl_known r n then None
      else Some (n, r\<lparr>rl_known := (rl_known r)(n := True), rl_obs := (rl_obs r)(n := new_obs d),
                     rl_default := (case rl_default r of Some m \<Rightarrow> if rl_known r m then Some m else None | None \<Rightarrow> None)\<rparr>))"

definition ref_default :: "ref_log \<Rightarrow> char list option" where
  "ref_default r = (case rl_default r of Some m \<Rightarrow> if rl_known r m then Some m else None | None \<Rightarrow> None)"

definition ref_spdlog :: "(char list, ref_log) spdlog" where
  "ref_spdlog =
     \<lparr>stdout_color_mt = (\<lambda>n. ref_create n To_console),
      syslog_logger_mt = (\<lambda>n i. ref_create n (To_syslog i)),
      basic_logger_mt = (\<lambda>n f t r.
        ref_create n (To_file f t) (r\<lparr>rl_node := (case rl_node r f of None \<Rightarrow> (rl_node r)(f := Some Regular_file) | Some _ \<Rightarrow> rl_node r)\<rparr>)),
      spd_get = ref_get, default_logger = ref_default,
      set_default_logger = (\<lambda>l r. r\<lparr>rl_known := (rl_known r)(l := True), rl_default := Some l\<rparr>),
      shutdown = (\<lambda>r. r\<lparr>rl_known := (\<lambda>n. False), rl_default := None\<rparr>),
      flush_every = (\<lambda>i r. r),
      l_set_pattern = (\<lambda>k p. ref_upd ((=) k) (o_pattern_update (\<lambda>_. p))),
      l_set_level = (\<lambda>k v. ref_upd ((=) k) (o_level_update (\<lambda>_. v))),
      l_flush_on = (\<lambda>k v. ref_upd ((=) k) (o_flush_update (\<lambda>_. v))),
      l_flush = (\<lambda>k. ref_upd ((=) k) synced),
      l_log = (\<lambda>k v t. ref_upd ((=) k) (logged v t)),
      spd_set_pattern = (\<lambda>p r. ref_upd (rl_known r) (o_pattern_update (\<lambda>_. p)) r),
      spd_set_level = (\<lambda>v r. ref_upd (rl_known r) (o_level_update (\<lambda>_. v)) r),
      spd_flush_on = (\<lambda>v r. ref_upd (rl_known r) (o_flush_update (\<lambda>_. v)) r),
      sys_remove = (\<lambda>p r. if rl_node r p = None then (-1, r) else (0, r\<lparr>rl_node := (rl_node r)(p := None)\<rparr>)),
      sys_symlink = (\<lambda>t p r. if rl_node r p = None then (0, r\<lparr>rl_node := (rl_node r)(p := Some (Link t))\<rparr>) else (-1, r)),
      spd_split_by_extension = split_by_extension\<rparr>"

definition ref_view :: "(char list, ref_log) log_view" where
  "ref_view = \<lparr>v_logger = rl_obs, v_node = rl_node\<rparr>"

lemma ref_upd_simps [simp]:
  "rl_known (ref_upd p g r) = rl_known r" "rl_default (ref_upd p g r) = rl_default r" "rl_node (ref_upd p g r) = rl_node r"
  "rl_obs (ref_upd p g r) n = (if p n then g (rl_obs r n) else rl_obs r n)"
  by (simp_all add: ref_upd_def)

lemma ref_names_upd [simp]: "ref_get (ref_upd p g r) = ref_get r" "ref_default (ref_upd p g r) = ref_default r"
  by (simp_all add: fun_eq_iff ref_get_def ref_default_def split: option.split)

lemma ref_registered: "registered ref_spdlog r l = rl_known r l"
  by (auto simp: registered_def ref_spdlog_def ref_get_def)

lemma extension_no_slash: "split_by_extension f = (b, e) \<Longrightarrow> CHR ''/'' \<notin> set e"
proof -
  assume s: "split_by_extension f = (b, e)"
  show ?thesis
  proof (cases "e = []")
    case False
    then obtain i where i: "e = drop i f" and "rfind CHR ''/'' f = None \<or> (\<exists>j. rfind CHR ''/'' f = Some j \<and> j < i)"
      using s by (auto simp: split_by_extension_def split: option.splits if_splits)
    then show ?thesis
    proof (elim disjE exE conjE)
      fix j assume j: "rfind CHR ''/'' f = Some j" "j < i"
      have "set (drop i f) \<subseteq> set (drop (Suc j) f)" using j(2) by (intro set_drop_subset_set_drop) simp
      then show ?thesis using rfind_Some [OF j(1)] i by auto
    qed (auto simp: rfind_None dest: in_set_dropD)
  qed simp
qed

lemma ref_documented: "spdlog_documented ref_spdlog ref_view"
proof -
  have "settings_documented ref_spdlog ref_view"
    unfolding settings_documented_def updates_def on_one_def on_all_def ref_registered
    by (auto simp: ref_spdlog_def ref_view_def)
  moreover have "creation_documented ref_spdlog ref_view"
    unfolding creation_documented_def creates_def ref_registered
    by (auto simp: ref_spdlog_def ref_view_def ref_create_def ref_get_def ref_default_def new_obs_def fun_eq_iff
        split: option.splits if_splits)
  moreover have "files_documented ref_spdlog ref_view"
    by (auto simp: files_documented_def ref_spdlog_def ref_view_def ref_get_def ref_default_def fun_eq_iff
        split: option.split)
  moreover have "default_documented ref_spdlog ref_view"
    using split_by_extension_append extension_no_slash
    by (auto simp: default_documented_def ref_spdlog_def ref_view_def ref_get_def ref_default_def fun_eq_iff)
  ultimately show ?thesis by (simp add: spdlog_documented_def)
qed

definition ref0 :: ref_log where
  "ref0 = \<lparr>rl_known = (\<lambda>n. n = []), rl_default = Some [], rl_obs = (\<lambda>n. new_obs To_console), rl_node = (\<lambda>p. None)\<rparr>"

lemma ref0_default: "default_logger ref_spdlog ref0 = Some []"
  by (simp add: ref_spdlog_def ref0_def ref_default_def)

theorem log_calls_refine_witness:
  "\<exists>r'. run_log_ops ref_spdlog [Op_named_stream ''x'' L_warn [''a'', ''b''], Op_level On_all L_err, Op_off (On_named ''x'')] ref0 =
          Returns r' \<and> o_lines (rl_obs r' []) = [(L_warn, ''ab'')] \<and> o_level (rl_obs r' []) = L_err"
proof -
  let ?ops = "[Op_named_stream ''x'' L_warn [''a'', ''b''], Op_level On_all L_err, Op_off (On_named ''x'')]"
  have "\<forall>op \<in> set ?ops. op_ok op" by simp
  from log_calls_refine [OF ref_documented ref0_default this] obtain r' where
    "run_log_ops ref_spdlog ?ops ref0 = Returns r'"
    "v_logger ref_view r' [] = fold (obs_op (in_scope ref_spdlog ref0 []) (is_known ref_spdlog ref0)) ?ops (v_logger ref_view ref0 [])"
    by blast
  moreover have "L_info \<le> L_warn" "\<not> L_off \<le> L_warn" by (simp_all add: less_eq_LogLevel_def)
  ultimately show ?thesis
    by (simp add: ref_view_def is_known_def ref_registered ref0_def new_obs_def logged_def synced_def)
       (simp add: ref_spdlog_def ref_get_def ref_default_def)
qed

definition some_day :: tm where
  "some_day = \<lparr>tm_year = 124, tm_mon = 0, tm_mday = 31, tm_hour = 8, tm_min = 5, tm_sec = 0\<rparr>"

theorem Create_spec_witness:
  "Log_Create ref_spdlog some_day [] ''a.log'' True False ref0 = Throws \<and>
   (\<exists>l r'. Log_Create ref_spdlog some_day ''a'' ''d/a.log'' True False ref0 = Returns r' \<and>
      link_or_warning ref_view ''d/a.log'' (Log_annotate_filename_datetime split_by_extension some_day ''d/a.log'') l r') \<and>
   (\<exists>l r'. Log_Create ref_spdlog some_day ''a'' [] False False ref0 = Returns r' \<and> o_dest (rl_obs r' l) = To_file [] False)"
proof -
  note spec = Create_spec [OF ref_documented]
  have known: "spd_get ref_spdlog ref0 [] \<noteq> None" by (simp add: ref_spdlog_def ref0_def ref_get_def)
  have no: "Log_Create ref_spdlog some_day ''a'' p annot False ref0 \<noteq> Throws" if "p \<notin> {''_STDOUT_'', ''_SYSLOG_''}" for p annot
    using that by (simp add: Log_Create_def log_file_branch_def ref_spdlog_def ref_create_def ref0_def Let_def split: prod.split)
  have split: "spd_split_by_extension ref_spdlog = split_by_extension" by (simp add: ref_spdlog_def)
  have "\<exists>l r'. Log_Create ref_spdlog some_day ''a'' ''d/a.log'' True False ref0 = Returns r' \<and>
      link_or_warning ref_view ''d/a.log'' (Log_annotate_filename_datetime split_by_extension some_day ''d/a.log'') l r'"
    using spec [of ref0 "''a''" some_day "''d/a.log''" True False] no [of "''d/a.log''" True] unfolding split by auto
  moreover have "\<exists>l r'. Log_Create ref_spdlog some_day ''a'' [] False False ref0 = Returns r' \<and> o_dest (rl_obs r' l) = To_file [] False"
    using spec [of ref0 "''a''" some_day "[]" False False] no [of "[]" False]
    by (auto simp: created_dest_def ref_view_def)
  ultimately show ?thesis using spec [of ref0 "[]" some_day "''a.log''" True False] known by blast
qed

text \<open>Both front ends of the library build the same pattern from the same flags.\<close>

lemma log_pattern_str_eq: "log_pattern_str = pattern_string"
  by (simp add: fun_eq_iff log_pattern_str_def pattern_string_def has_flag_def flag_type_def flag_type_long_def
      flag_name_def flag_date_def flag_time_def flag_datetime_def flag_epoch_def flag_elapsed_def)

end
