(* ===== verification/DataAcq.thy ===== *)
theory DataAcq
  imports Prelude
begin

text \<open>
  Data acquisition: sources and their sinks (dtDataSource.h, dtDataSourcePB.hpp) and the
  manager that updates the sources (dtDAQManager.h). Sources and sinks are shared objects and
  named by numbers. What a program supplies is a parameter: \<open>user\<close> is the source's virtual
  \<open>UpdateData\<close>, which fills the message and says whether to publish it, \<open>takes\<close> whether a sink
  is one for the source's type of message (the dynamic cast), and \<open>publish\<close> what a sink does to
  the message, which it gets by reference. Every delivery is recorded.
\<close>

section \<open>Sources\<close>

record 'm daq =
  dq_srcs :: "nat list"
  dq_sinks :: "nat \<Rightarrow> nat list"
  dq_msg :: "nat \<Rightarrow> 'm"
  dq_out :: "(nat \<times> nat \<times> 'm) list"

record ('c, 'm) program =
  user :: "nat \<Rightarrow> 'c \<Rightarrow> 'm \<Rightarrow> bool \<times> 'm"
  takes :: "nat \<Rightarrow> nat \<Rightarrow> bool"
  publish :: "nat \<Rightarrow> 'm \<Rightarrow> 'm"

definition DataSourcePB_UpdateData :: "'c \<Rightarrow> 'm \<Rightarrow> bool \<times> 'm" where
  "DataSourcePB_UpdateData context msg = (False, msg)"

definition AppendDataSink :: "nat \<Rightarrow> nat \<Rightarrow> 'm daq \<Rightarrow> 'm daq" where
  "AppendDataSink src sink d = d\<lparr>dq_sinks := (dq_sinks d)(src := dq_sinks d src @ [sink])\<rparr>"

text \<open>\<open>std::list::remove\<close> removes every element that is equal.\<close>

definition RemoveDataSink :: "nat \<Rightarrow> nat \<Rightarrow> 'm daq \<Rightarrow> 'm daq" where
  "RemoveDataSink src sink d = d\<lparr>dq_sinks := (dq_sinks d)(src := removeAll sink (dq_sinks d src))\<rparr>"

fun sink_loop :: "('c, 'm) program \<Rightarrow> nat \<Rightarrow> nat list \<Rightarrow> 'm daq \<Rightarrow> 'm daq" where
  "sink_loop p src [] d = d"
| "sink_loop p src (sink # sinks) d =
     sink_loop p src sinks
       (if takes p src sink
        then d\<lparr>dq_out := dq_out d @ [(src, sink, dq_msg d src)],
               dq_msg := (dq_msg d)(src := publish p sink (dq_msg d src))\<rparr>
        else d)"

definition UpdateSink :: "('c, 'm) program \<Rightarrow> nat \<Rightarrow> 'm daq \<Rightarrow> 'm daq" where
  "UpdateSink p src d = sink_loop p src (dq_sinks d src) d"

definition UpdateData :: "('c, 'm) program \<Rightarrow> nat \<Rightarrow> 'c \<Rightarrow> 'm daq \<Rightarrow> bool \<times> 'm daq" where
  "UpdateData p src context d =
     (case user p src context (dq_msg d src) of
        (changed, msg) \<Rightarrow> (changed, d\<lparr>dq_msg := (dq_msg d)(src := msg)\<rparr>))"

definition DataSource_Update :: "('c, 'm) program \<Rightarrow> nat \<Rightarrow> 'c \<Rightarrow> 'm daq \<Rightarrow> 'm daq" where
  "DataSource_Update p src context d =
     (case UpdateData p src context d of (changed, d) \<Rightarrow> if changed then UpdateSink p src d else d)"

text \<open>
  \<open>DataSourcePBTimestamped\<close>: the header of a message, with a counter of 32 bits that is
  incremented first; \<open>(sec, nsec)\<close> is what the real-time clock shows.
\<close>

record header =
  hd_seq :: u32
  hd_seconds :: "64 word"
  hd_nanos :: "32 word"

record 'b stamped =
  sm_cnt :: u32
  sm_header :: header
  sm_body :: 'b

definition UpdateTimestamp :: "int \<times> int \<Rightarrow> 'b stamped \<Rightarrow> 'b stamped" where
  "UpdateTimestamp tp s =
     (let cnt = sm_cnt s + 1
      in s\<lparr>sm_cnt := cnt, sm_header := \<lparr>hd_seq = cnt, hd_seconds = word_of_int (fst tp), hd_nanos = word_of_int (snd tp)\<rparr>\<rparr>)"

section \<open>The manager\<close>

definition AppendDataSource :: "nat \<Rightarrow> 'm daq \<Rightarrow> 'm daq" where
  "AppendDataSource src d = d\<lparr>dq_srcs := dq_srcs d @ [src]\<rparr>"

definition RemoveDataSource :: "nat \<Rightarrow> 'm daq \<Rightarrow> 'm daq" where
  "RemoveDataSource src d = d\<lparr>dq_srcs := removeAll src (dq_srcs d)\<rparr>"

definition DAQManager_Update :: "('c, 'm) program \<Rightarrow> 'c \<Rightarrow> 'm daq \<Rightarrow> 'm daq" where
  "DAQManager_Update p context d = fold (\<lambda>src d. DataSource_Update p src context d) (dq_srcs d) d"

text \<open>
  \<open>Update\<close> of the manager while other threads append and remove sinks. The manager's mutex keeps
  its list as it is for the whole call; a source's mutex covers \<open>UpdateSink\<close> and not
  \<open>UpdateData\<close>, so other threads change the sinks of any source before \<open>UpdateData\<close> of each
  source and between it and \<open>UpdateSink\<close>. A schedule lists these calls for each source.
\<close>

datatype sink_call = Add_sink_to nat nat | Del_sink_from nat nat

fun run_sink_call :: "sink_call \<Rightarrow> 'm daq \<Rightarrow> 'm daq" where
  "run_sink_call (Add_sink_to src sink) = AppendDataSink src sink"
| "run_sink_call (Del_sink_from src sink) = RemoveDataSink src sink"

fun interleaved_update :: "('c, 'm) program \<Rightarrow> 'c \<Rightarrow> (nat \<times> sink_call list \<times> sink_call list) list \<Rightarrow> 'm daq \<Rightarrow> 'm daq" where
  "interleaved_update p context [] d = d"
| "interleaved_update p context ((src, before, between) # rest) d =
     (let d = fold run_sink_call before d;
          (changed, d) = UpdateData p src context d;
          d = fold run_sink_call between d;
          d = (if changed then UpdateSink p src d else d)
      in interleaved_update p context rest d)"

section \<open>Who gets what\<close>

text \<open>The deliveries from one source to one sink.\<close>

definition delivered :: "nat \<Rightarrow> nat \<Rightarrow> (nat \<times> nat \<times> 'm) list \<Rightarrow> 'm list" where
  "delivered src sink out = map (\<lambda>(s, k, m). m) (filter (\<lambda>(s, k, m). s = src \<and> k = sink) out)"

lemma delivered_append [simp]: "delivered s k (xs @ ys) = delivered s k xs @ delivered s k ys"
  by (simp add: delivered_def)

lemma sink_loop_frame [simp]:
  "dq_sinks (sink_loop p src ks d) = dq_sinks d" "dq_srcs (sink_loop p src ks d) = dq_srcs d"
  "s \<noteq> src \<Longrightarrow> dq_msg (sink_loop p src ks d) s = dq_msg d s"
  by (induction ks arbitrary: d) simp_all

lemma sink_loop_out:
  assumes "\<forall>k. publish p k = id"
  shows "dq_out (sink_loop p src ks d) = dq_out d @ map (\<lambda>k. (src, k, dq_msg d src)) (filter (takes p src) ks)"
  by (induction ks arbitrary: d) (simp_all add: assms)

lemma delivered_map:
  "delivered s k (map (\<lambda>k. (src, k, m)) ks) = (if s = src then replicate (count_list ks k) m else [])"
  by (induction ks) (auto simp: delivered_def)

lemma count_filter: "count_list (filter P ks) k = (if P k then count_list ks k else 0)"
  by (induction ks) simp_all

text \<open>Calls that do not concern the pair leave the number of registrations as it is.\<close>

fun concerns :: "nat \<Rightarrow> nat \<Rightarrow> sink_call \<Rightarrow> bool" where
  "concerns src sink (Add_sink_to s k) \<longleftrightarrow> s = src \<and> k = sink"
| "concerns src sink (Del_sink_from s k) \<longleftrightarrow> s = src \<and> k = sink"

lemma count_removeAll: "count_list (removeAll x xs) k = (if k = x then 0 else count_list xs k)"
  by (induction xs) auto

lemma sink_call_frame [simp]:
  "dq_srcs (run_sink_call c d) = dq_srcs d" "dq_msg (run_sink_call c d) = dq_msg d" "dq_out (run_sink_call c d) = dq_out d"
  by (cases c; simp add: AppendDataSink_def RemoveDataSink_def)+

lemma sink_calls_frame [simp]:
  "dq_srcs (fold run_sink_call cs d) = dq_srcs d" "dq_msg (fold run_sink_call cs d) = dq_msg d"
  "dq_out (fold run_sink_call cs d) = dq_out d"
  by (induction cs arbitrary: d) simp_all

lemma sink_call_count:
  "\<not> concerns src sink c \<Longrightarrow> count_list (dq_sinks (run_sink_call c d) src) sink = count_list (dq_sinks d src) sink"
  by (cases c) (auto simp: AppendDataSink_def RemoveDataSink_def count_removeAll)

lemma sink_calls_count:
  "\<forall>c \<in> set cs. \<not> concerns src sink c \<Longrightarrow>
     count_list (dq_sinks (fold run_sink_call cs d) src) sink = count_list (dq_sinks d src) sink"
  by (induction cs arbitrary: d) (simp_all add: sink_call_count)

lemma UpdateData_frame:
  "UpdateData p src c d = (b, d') \<Longrightarrow> dq_sinks d' = dq_sinks d \<and> dq_srcs d' = dq_srcs d \<and> dq_out d' = dq_out d \<and>
     user p src c (dq_msg d src) = (b, dq_msg d' src) \<and> (\<forall>s. s \<noteq> src \<longrightarrow> dq_msg d' s = dq_msg d s)"
  by (auto simp: UpdateData_def split: prod.splits)

text \<open>One source of a round: what the pair gets, and what stays.\<close>

lemma round_step:
  assumes pub: "\<forall>k. publish p k = id" and u: "UpdateData p s c (fold run_sink_call before d) = (changed, d1)"
    and quiet: "\<forall>x \<in> set (before @ between). \<not> concerns src sink x"
  defines "d2 \<equiv> (if changed then UpdateSink p s (fold run_sink_call between d1) else fold run_sink_call between d1)"
  shows "count_list (dq_sinks d2 src) sink = count_list (dq_sinks d src) sink"
    and "s \<noteq> src \<Longrightarrow> dq_msg d2 src = dq_msg d src"
    and "s \<noteq> src \<Longrightarrow> delivered src sink (dq_out d2) = delivered src sink (dq_out d)"
    and "s = src \<Longrightarrow> takes p src sink \<Longrightarrow> user p src c (dq_msg d src) = (ch, m) \<Longrightarrow>
           delivered src sink (dq_out d2) =
             delivered src sink (dq_out d) @ (if ch then replicate (count_list (dq_sinks d src) sink) m else [])"
proof -
  note u = UpdateData_frame [OF u]
  have c1: "count_list (dq_sinks d1 src) sink = count_list (dq_sinks d src) sink"
    using u sink_calls_count [of before src sink d] quiet by simp
  have c2: "count_list (dq_sinks (fold run_sink_call between d1) src) sink = count_list (dq_sinks d src) sink"
    using c1 sink_calls_count [of between src sink d1] quiet by simp
  show "count_list (dq_sinks d2 src) sink = count_list (dq_sinks d src) sink" using c2 by (simp add: d2_def UpdateSink_def)
  show "s \<noteq> src \<Longrightarrow> dq_msg d2 src = dq_msg d src" using u by (simp add: d2_def UpdateSink_def)
  show "s \<noteq> src \<Longrightarrow> delivered src sink (dq_out d2) = delivered src sink (dq_out d)"
    using u by (simp add: d2_def UpdateSink_def sink_loop_out [OF pub] delivered_map)
  show "delivered src sink (dq_out d2) =
      delivered src sink (dq_out d) @ (if ch then replicate (count_list (dq_sinks d src) sink) m else [])"
    if "s = src" "takes p src sink" "user p src c (dq_msg d src) = (ch, m)"
    using u that c2 by (simp add: d2_def UpdateSink_def sink_loop_out [OF pub] delivered_map count_filter)
qed

lemma round_others:
  assumes pub: "\<forall>k. publish p k = id"
  shows "src \<notin> fst ` set sched \<Longrightarrow> delivered src sink (dq_out (interleaved_update p c sched d)) = delivered src sink (dq_out d)"
proof (induction sched arbitrary: d)
  case (Cons x sched)
  obtain s before between where x: "x = (s, before, between)" by (cases x) auto
  obtain ch d1 where u: "UpdateData p s c (fold run_sink_call before d) = (ch, d1)"
    by (cases "UpdateData p s c (fold run_sink_call before d)")
  have "s \<noteq> src" using Cons.prems x by auto
  then have "delivered src sink (dq_out (if ch then UpdateSink p s (fold run_sink_call between d1) else fold run_sink_call between d1)) =
      delivered src sink (dq_out d)"
    using UpdateData_frame [OF u] by (simp add: UpdateSink_def sink_loop_out [OF pub] delivered_map)
  then show ?case using Cons.IH Cons.prems by (simp add: x u Let_def)
qed simp

lemma interleaved_delivers:
  assumes pub: "\<forall>k. publish p k = id" and takes: "takes p src sink" and "distinct (map fst sched)"
    and "\<forall>(s, before, between) \<in> set sched. \<forall>x \<in> set (before @ between). \<not> concerns src sink x"
  shows "delivered src sink (dq_out (interleaved_update p context sched d)) =
     delivered src sink (dq_out d) @
       (if src \<in> fst ` set sched \<and> fst (user p src context (dq_msg d src))
        then replicate (count_list (dq_sinks d src) sink) (snd (user p src context (dq_msg d src))) else [])"
  using assms(3,4)
proof (induction sched arbitrary: d)
  case (Cons x sched)
  obtain s before between where x: "x = (s, before, between)" by (cases x) auto
  obtain ch d1 where u: "UpdateData p s context (fold run_sink_call before d) = (ch, d1)"
    by (cases "UpdateData p s context (fold run_sink_call before d)")
  define d2 where "d2 = (if ch then UpdateSink p s (fold run_sink_call between d1) else fold run_sink_call between d1)"
  have run: "interleaved_update p context (x # sched) d = interleaved_update p context sched d2"
    by (simp add: x u d2_def Let_def)
  have quiet: "\<forall>x \<in> set (before @ between). \<not> concerns src sink x" using Cons.prems(2) by (auto simp: x)
  note step = round_step [OF pub u quiet, folded d2_def]
  show ?case
  proof (cases "s = src")
    case True
    then have "src \<notin> fst ` set sched" using Cons.prems(1) by (simp add: x)
    then have "delivered src sink (dq_out (interleaved_update p context sched d2)) = delivered src sink (dq_out d2)"
      by (rule round_others [OF pub])
    then show ?thesis unfolding run
      using step(4) [OF True takes, of "fst (user p src context (dq_msg d src))" "snd (user p src context (dq_msg d src))"] True
      by (simp add: x)
  next
    case False
    have "delivered src sink (dq_out (interleaved_update p context sched d2)) =
        delivered src sink (dq_out d2) @
        (if src \<in> fst ` set sched \<and> fst (user p src context (dq_msg d2 src))
         then replicate (count_list (dq_sinks d2 src) sink) (snd (user p src context (dq_msg d2 src))) else [])"
      using Cons.IH [of d2] Cons.prems by simp
    then show ?thesis unfolding run using step(1) step(2,3) [OF False] False by (simp add: x)
  qed
qed simp

text \<open>
  C26: One call of the manager's \<open>Update\<close>, whatever sinks other threads append and remove in the
  meantime: a sink that takes the source's messages and that nobody appends to or removes from
  this source during the call gets the message \<open>UpdateData\<close> has just filled, once for each time
  it is registered, when \<open>UpdateData\<close> returned true, and nothing otherwise; messages of a
  source the manager does not hold are not delivered.
\<close>

theorem update_delivers:
  assumes "\<forall>k. publish p k = id" and "distinct (map fst sched)" and "dq_srcs d = map fst sched"
    and "takes p src sink" and "\<forall>(s, before, between) \<in> set sched. \<forall>x \<in> set (before @ between). \<not> concerns src sink x"
  shows "delivered src sink (dq_out (interleaved_update p context sched d)) =
     delivered src sink (dq_out d) @
       (if src \<in> set (dq_srcs d) \<and> fst (user p src context (dq_msg d src))
        then replicate (count_list (dq_sinks d src) sink) (snd (user p src context (dq_msg d src))) else [])"
  using interleaved_delivers [OF assms(1,4,2,5)] assms(3) by simp

definition ex_program :: "(unit, nat) program" where
  "ex_program = \<lparr>user = (\<lambda>src c m. (src < 2, m + 1)), takes = (\<lambda>src sink. sink \<noteq> 9), publish = (\<lambda>k. id)\<rparr>"

definition ex_daq :: "nat daq" where
  "ex_daq = \<lparr>dq_srcs = [0, 1, 2], dq_sinks = (\<lambda>s. [5, 9, 5]), dq_msg = (\<lambda>s. 10 * s), dq_out = []\<rparr>"

theorem update_delivers_witness:
  "delivered 1 5 (dq_out (interleaved_update ex_program ()
     [(0, [Add_sink_to 0 7], []), (1, [], [Del_sink_from 1 6]), (2, [], [])] ex_daq)) = [11, 11]"
  using update_delivers [of ex_program "[(0, [Add_sink_to 0 7], []), (1, [], [Del_sink_from 1 6]), (2, [], [])]" ex_daq 1 5 "()"]
  by (simp add: ex_program_def ex_daq_def delivered_def)

text \<open>Without other threads that is \<open>Update\<close> as it is written.\<close>

lemma interleaved_alone:
  "interleaved_update p context (map (\<lambda>s. (s, [], [])) srcs) d = fold (\<lambda>src d. DataSource_Update p src context d) srcs d"
  by (induction srcs arbitrary: d) (simp_all add: DataSource_Update_def Let_def split: prod.split)

lemma DAQManager_Update_alone:
  "DAQManager_Update p context d = interleaved_update p context (map (\<lambda>s. (s, [], [])) (dq_srcs d)) d"
  by (simp add: DAQManager_Update_def interleaved_alone)

text \<open>The list a manager or a source holds, after any sequence of calls.\<close>

lemma RemoveDataSink_gone: "sink \<notin> set (dq_sinks (RemoveDataSink src sink d) src)"
  by (simp add: RemoveDataSink_def)

lemma RemoveDataSource_gone: "src \<notin> set (dq_srcs (RemoveDataSource src d))"
  by (simp add: RemoveDataSource_def)

text \<open>
  Messages are passed by reference: what one sink does to the message is what the next sinks
  and the next round see.
\<close>

lemma sinks_share_the_message:
  assumes "takes p src k1" and "takes p src k2" and "dq_sinks d src = [k1, k2]"
  shows "dq_out (UpdateSink p src d) = dq_out d @ [(src, k1, dq_msg d src), (src, k2, publish p k1 (dq_msg d src))]"
  using assms by (simp add: UpdateSink_def)

text \<open>
  \<open>UpdateData\<close> runs without the source's mutex. When two threads update one source, not
  through the manager, the message of the first can be lost and that of the second be
  published twice.
\<close>

lemma concurrent_sources_overwrite:
  assumes "user p src c1 (dq_msg d src) = (True, m1)" and "user p src c2 m1 = (True, m2)"
    and "\<forall>k. publish p k = id" and "takes p src k" and "dq_sinks d src = [k]"
  shows "dq_out (UpdateSink p src (UpdateSink p src (snd (UpdateData p src c2 (snd (UpdateData p src c1 d)))))) =
         dq_out d @ [(src, k, m2), (src, k, m2)]"
  using assms by (simp add: UpdateSink_def UpdateData_def)

text \<open>
  The counter of the headers: the n-th stamped message has the number n modulo \<open>2 ^ 32\<close>, so
  fewer than \<open>2 ^ 32\<close> successive messages have different numbers.
\<close>

lemma stamps_count: "sm_cnt (fold UpdateTimestamp ts s) = sm_cnt s + of_nat (length ts)"
  by (induction ts arbitrary: s) (simp_all add: UpdateTimestamp_def Let_def add.assoc [symmetric])

lemma stamp_number:
  "ts \<noteq> [] \<Longrightarrow> hd_seq (sm_header (fold UpdateTimestamp ts s)) = sm_cnt s + of_nat (length ts)"
  using stamps_count [of ts s]
  by (cases ts rule: rev_cases) (simp_all add: UpdateTimestamp_def Let_def)

text \<open>
  The header of the n-th message has the number n modulo \<open>2 ^ 32\<close> and the time of that call,
  to the nanosecond, for times a 64-bit second counter can hold; two messages less than
  \<open>2 ^ 32\<close> apart have different numbers.
\<close>

theorem timestamps_identify:
  assumes "sm_cnt s = 0" and "i < j" and "j \<le> length ts" and "j - i < 2 ^ 32" and "0 < i"
    and "0 \<le> snd (ts ! (i - 1))" and "snd (ts ! (i - 1)) < 10 ^ 9"
    and "- (2 ^ 63) \<le> fst (ts ! (i - 1))" and "fst (ts ! (i - 1)) < 2 ^ 63"
  defines "hdr \<equiv> \<lambda>n. sm_header (fold UpdateTimestamp (take n ts) s)"
  shows "hd_seq (hdr i) = of_nat i \<and> hd_seq (hdr i) \<noteq> hd_seq (hdr j) \<and>
         sint (hd_seconds (hdr i)) = fst (ts ! (i - 1)) \<and> sint (hd_nanos (hdr i)) = snd (ts ! (i - 1))"
proof -
  have n: "hd_seq (hdr n) = of_nat n" if "0 < n" "n \<le> length ts" for n
    using stamp_number [of "take n ts" s] that assms(1) by (cases ts) (auto simp: hdr_def)
  have "hd_seq (hdr i) \<noteq> hd_seq (hdr j)"
    using n [of i] n [of j] assms(2-5) u32_of_nat_eq_near [of i j] by auto
  moreover have "hdr i = \<lparr>hd_seq = of_nat i, hd_seconds = word_of_int (fst (ts ! (i - 1))), hd_nanos = word_of_int (snd (ts ! (i - 1)))\<rparr>"
  proof -
    obtain k where k: "i = Suc k" using assms(5) by (cases i) auto
    have "take i ts = take k ts @ [ts ! k]" using k assms(2,3) by (simp add: take_Suc_conv_app_nth)
    then show ?thesis using stamps_count [of "take k ts" s] k assms(1,2,3)
      by (simp add: hdr_def UpdateTimestamp_def Let_def)
  qed
  moreover have "sint (word_of_int (fst (ts ! (i - 1))) :: 64 word) = fst (ts ! (i - 1))"
    using assms(8,9) by (simp add: signed_of_int signed_take_bit_int_eq_self)
  moreover have "sint (word_of_int (snd (ts ! (i - 1))) :: 32 word) = snd (ts ! (i - 1))"
    using assms(6,7) by (simp add: signed_of_int signed_take_bit_int_eq_self)
  ultimately show ?thesis by simp
qed

theorem timestamps_identify_witness:
  "hd_seq (sm_header (fold UpdateTimestamp (take 1 [(5, 7), (5, 8)])
     \<lparr>sm_cnt = 0, sm_header = \<lparr>hd_seq = 0, hd_seconds = 0, hd_nanos = 0\<rparr>, sm_body = ()\<rparr>)) = 1"
  using timestamps_identify [of "\<lparr>sm_cnt = 0, sm_header = \<lparr>hd_seq = 0, hd_seconds = 0, hd_nanos = 0\<rparr>, sm_body = ()\<rparr>" 1 2 "[(5, 7), (5, 8)]"]
  by simp

end
