(* ===== verification/Recording.thy ===== *)
theory Recording
  imports DataAcq Mcap
begin

text \<open>
  The sinks of the data acquisition as objects (dtDataSinkPB.hpp, ecal/dtDataSinkPBEcal.hpp,
  grpc/dtDataSinkPBGrpc.hpp, hdf5/dtDataSinkPBHdf5.hpp, mcap/dtDataSinkPBMcap.hpp), the two
  managers derived from \<open>DAQManager\<close>, and the way of a message from its source to the recorder.
  Calls to eCAL, gRPC and the console are recorded. How protobuf serialises a message is the
  parameter \<open>ser\<close>; each delivery comes with the time the clock shows during it.
\<close>

section \<open>Sinks and managers\<close>

datatype 'm bus_call =
    Ecal_Initialize
  | Ecal_SetState "char list"
  | Ecal_Send "char list" 'm
  | Grpc_EnableDefaultHealthCheckService bool
  | Grpc_InitReflectionPlugin
  | Print_out "char list"
  | Print_err "char list"

datatype sink_obj =
    DataSinkPB
  | DataSinkPBEcal "char list"
  | DataSinkPBGrpc "char list"
  | DataSinkPBHdf5
  | Sink_mcap mcap_sink

definition Hdf5_new :: "char list \<Rightarrow> bool \<Rightarrow> sink_obj" where
  "Hdf5_new file_basename annot_datetime = DataSinkPBHdf5"

definition Ecal_Publish :: "char list \<Rightarrow> 'm \<Rightarrow> 'm bus_call list" where
  "Ecal_Publish topic msg = [Ecal_Send topic msg]"

definition Grpc_Publish :: "'m \<Rightarrow> 'm bus_call list" where
  "Grpc_Publish msg = [Print_out (''DataSinkPBGrpc::Publish(T&)'' @ [NL])]"

definition Hdf5_Publish :: "'m \<Rightarrow> 'm bus_call list" where
  "Hdf5_Publish msg = [Print_err (''DataSinkPBHdf5: Not implemented.'' @ [NL])]"

definition ManagerEcal_Initialize :: "'m bus_call list" where
  "ManagerEcal_Initialize = [Ecal_Initialize, Ecal_SetState ''sub info'']"

definition ManagerGrpc_Initialize :: "'m bus_call list" where
  "ManagerGrpc_Initialize = [Grpc_EnableDefaultHealthCheckService True, Grpc_InitReflectionPlugin]"

text \<open>The virtual call: \<open>Publish\<close> of a message on a sink object, at a time.\<close>

fun Sink_Publish :: "('m \<Rightarrow> char list) \<Rightarrow> int \<Rightarrow> 'm \<Rightarrow> sink_obj \<Rightarrow> sink_obj \<times> 'm bus_call list" where
  "Sink_Publish ser now msg DataSinkPB = (DataSinkPB, [])"
| "Sink_Publish ser now msg (DataSinkPBEcal topic) = (DataSinkPBEcal topic, Ecal_Publish topic msg)"
| "Sink_Publish ser now msg (DataSinkPBGrpc name) = (DataSinkPBGrpc name, Grpc_Publish msg)"
| "Sink_Publish ser now msg DataSinkPBHdf5 = (DataSinkPBHdf5, Hdf5_Publish msg)"
| "Sink_Publish ser now msg (Sink_mcap s) = (Sink_mcap (Mcap_Publish now (ser msg) s), [])"

record 'm sinks_state =
  w_sinks :: "nat \<Rightarrow> sink_obj"
  w_calls :: "'m bus_call list"

fun hand_to_sink :: "('m \<Rightarrow> char list) \<Rightarrow> int \<times> nat \<times> nat \<times> 'm \<Rightarrow> 'm sinks_state \<Rightarrow> 'm sinks_state" where
  "hand_to_sink ser (now, src, sink, msg) w =
     (case Sink_Publish ser now msg (w_sinks w sink) of
        (obj, cs) \<Rightarrow> w\<lparr>w_sinks := (w_sinks w)(sink := obj), w_calls := w_calls w @ cs\<rparr>)"

section \<open>What a source publishes in several rounds\<close>

fun source_msgs :: "('c, 'm) program \<Rightarrow> nat \<Rightarrow> 'c list \<Rightarrow> 'm \<Rightarrow> 'm list" where
  "source_msgs p src [] m = []"
| "source_msgs p src (c # cs) m =
     (case user p src c m of (changed, m') \<Rightarrow> (if changed then [m'] else []) @ source_msgs p src cs m')"

lemma Source_Update_frame:
  "dq_sinks (DataSource_Update p s c d) = dq_sinks d" "dq_srcs (DataSource_Update p s c d) = dq_srcs d"
  "s \<noteq> src \<Longrightarrow> dq_msg (DataSource_Update p s c d) src = dq_msg d src"
  by (auto simp: DataSource_Update_def UpdateData_def UpdateSink_def split: prod.split)

lemma sink_loop_msg: "\<forall>k. publish p k = id \<Longrightarrow> dq_msg (sink_loop p s ks d) = dq_msg d"
  by (induction ks arbitrary: d) simp_all

lemma Source_Update_msg:
  "\<forall>k. publish p k = id \<Longrightarrow> dq_msg (DataSource_Update p s c d) s = snd (user p s c (dq_msg d s))"
  by (auto simp: DataSource_Update_def UpdateData_def UpdateSink_def sink_loop_msg split: prod.split)

lemma Sources_Update_frame:
  "dq_sinks (fold (\<lambda>s d. DataSource_Update p s c d) ss d) = dq_sinks d"
  "dq_srcs (fold (\<lambda>s d. DataSource_Update p s c d) ss d) = dq_srcs d"
  "src \<notin> set ss \<Longrightarrow> dq_msg (fold (\<lambda>s d. DataSource_Update p s c d) ss d) src = dq_msg d src"
  by (induction ss arbitrary: d) (simp_all add: Source_Update_frame)

lemma Sources_Update_msg:
  assumes "\<forall>k. publish p k = id" and "distinct ss" and "src \<in> set ss"
  shows "dq_msg (fold (\<lambda>s d. DataSource_Update p s c d) ss d) src = snd (user p src c (dq_msg d src))"
  using assms(2,3)
proof (induction ss arbitrary: d)
  case (Cons s ss)
  then show ?case
    by (cases "s = src") (simp_all add: Sources_Update_frame Source_Update_msg [OF assms(1)] Source_Update_frame)
qed simp

text \<open>One round for a sink that is registered once, from the rule for interleaved rounds.\<close>

lemma round_delivers:
  assumes pub: "\<forall>k. publish p k = id" and srcs: "distinct (dq_srcs d)" "src \<in> set (dq_srcs d)"
    and once: "takes p src sink" "count_list (dq_sinks d src) sink = 1" and u: "user p src c (dq_msg d src) = (ch, m)"
  shows "delivered src sink (dq_out (DAQManager_Update p c d)) = delivered src sink (dq_out d) @ (if ch then [m] else [])"
    and "dq_msg (DAQManager_Update p c d) src = m"
    and "dq_sinks (DAQManager_Update p c d) = dq_sinks d" and "dq_srcs (DAQManager_Update p c d) = dq_srcs d"
proof -
  have "\<forall>(s, before, between) \<in> set (map (\<lambda>s. (s, [], [])) (dq_srcs d)). \<forall>x \<in> set (before @ between). \<not> concerns src sink x"
    by auto
  from interleaved_delivers [OF pub once(1) _ this, of c d] srcs once(2) u
  show "delivered src sink (dq_out (DAQManager_Update p c d)) = delivered src sink (dq_out d) @ (if ch then [m] else [])"
    by (simp add: DAQManager_Update_alone comp_def image_image)
  show "dq_msg (DAQManager_Update p c d) src = m"
    using Sources_Update_msg [OF pub srcs, of c d] u by (simp add: DAQManager_Update_def)
  show "dq_sinks (DAQManager_Update p c d) = dq_sinks d" "dq_srcs (DAQManager_Update p c d) = dq_srcs d"
    by (simp_all add: DAQManager_Update_def Sources_Update_frame)
qed

lemma rounds_deliver:
  assumes "\<forall>k. publish p k = id" and "takes p src sink"
  shows "distinct (dq_srcs d) \<Longrightarrow> src \<in> set (dq_srcs d) \<Longrightarrow> count_list (dq_sinks d src) sink = 1 \<Longrightarrow>
     delivered src sink (dq_out (fold (DAQManager_Update p) cs d)) =
       delivered src sink (dq_out d) @ source_msgs p src cs (dq_msg d src)"
proof (induction cs arbitrary: d)
  case (Cons c cs)
  obtain ch m where u: "user p src c (dq_msg d src) = (ch, m)" by (cases "user p src c (dq_msg d src)")
  note r = round_delivers [OF assms(1) Cons.prems(1,2) assms(2) Cons.prems(3) u]
  show ?case using Cons.IH [of "DAQManager_Update p c d"] Cons.prems r u by simp
qed simp

text \<open>Only the sinks of a source get anything from it.\<close>

definition routed :: "'m daq \<Rightarrow> bool" where
  "routed d \<longleftrightarrow> (\<forall>(s, k, m) \<in> set (dq_out d). k \<in> set (dq_sinks d s))"

lemma sink_loop_routed:
  "routed d \<Longrightarrow> set ks \<subseteq> set (dq_sinks d s) \<Longrightarrow> routed (sink_loop p s ks d)"
proof (induction ks arbitrary: d)
  case (Cons k ks)
  have "routed (if takes p s k then d\<lparr>dq_out := dq_out d @ [(s, k, dq_msg d s)],
          dq_msg := (dq_msg d)(s := publish p k (dq_msg d s))\<rparr> else d)"
    using Cons.prems by (auto simp: routed_def)
  then show ?case using Cons.IH Cons.prems(2) by simp
qed simp

lemma Update_routed: "routed d \<Longrightarrow> routed (DAQManager_Update p c d)"
proof -
  have one: "routed (DataSource_Update p s c d)" if "routed d" for s d
  proof -
    obtain ch m where u: "user p s c (dq_msg d s) = (ch, m)" by (cases "user p s c (dq_msg d s)")
    have "routed (d\<lparr>dq_msg := (dq_msg d)(s := m)\<rparr>)" using that by (simp add: routed_def)
    then show ?thesis by (simp add: DataSource_Update_def UpdateData_def UpdateSink_def u sink_loop_routed)
  qed
  have "routed (fold (\<lambda>s d. DataSource_Update p s c d) ss d)" if "routed d" for ss
    using that by (induction ss arbitrary: d) (simp_all add: one)
  then show "routed d \<Longrightarrow> routed (DAQManager_Update p c d)" by (simp add: DAQManager_Update_def)
qed

lemma Updates_routed:
  "routed d \<Longrightarrow> routed (fold (DAQManager_Update p) cs d) \<and> dq_sinks (fold (DAQManager_Update p) cs d) = dq_sinks d"
proof (induction cs arbitrary: d)
  case (Cons c cs)
  then show ?case using Update_routed [of d p c] by (simp add: DAQManager_Update_def Sources_Update_frame)
qed simp

section \<open>What the recorder gets\<close>

lemma hand_other: "k \<noteq> sink \<Longrightarrow> w_sinks (hand_to_sink ser (now, src, sink, m) w) k = w_sinks w k"
  by (simp split: prod.split)

lemma Mcap_Publish_ok:
  fixes now :: int and bytes :: "char list"
  assumes "mc_open s" and "mc_results s = []"
  defines "m \<equiv> \<lparr>channelId = mc_channel s, sequence = mc_count s, stamp = now, payload = bytes\<rparr>"
  shows "Mcap_Publish now bytes s = s\<lparr>mc_count := mc_count s + 1, mc_calls := mc_calls s @ [W_write m]\<rparr>"
  using assms by (simp add: Mcap_Publish_def writer_write_def)

definition recorded :: "mcap_sink \<Rightarrow> (int \<times> char list) list \<Rightarrow> mcap_sink" where
  "recorded s xs =
     s\<lparr>mc_count := mc_count s + of_nat (length xs),
       mc_calls := mc_calls s @ map (\<lambda>(i, now, bytes). W_write \<lparr>channelId = mc_channel s,
          sequence = mc_count s + of_nat i, stamp = now, payload = bytes\<rparr>) (enumerate 0 xs)\<rparr>"

lemma recorded_Cons:
  assumes "mc_open s" and "mc_results s = []"
  shows "recorded s ((now, bytes) # xs) = recorded (Mcap_Publish now bytes s) xs"
proof -
  have "map (\<lambda>(i, now, bytes). W_write \<lparr>channelId = mc_channel s, sequence = mc_count s + of_nat i, stamp = now, payload = bytes\<rparr>)
      (enumerate (Suc 0) xs) =
    map (\<lambda>(i, now, bytes). W_write \<lparr>channelId = mc_channel s, sequence = mc_count s + 1 + of_nat i, stamp = now, payload = bytes\<rparr>)
      (enumerate 0 xs)"
    by (rule nth_equalityI) (auto simp: nth_enumerate_eq add.assoc)
  then show ?thesis using assms by (simp add: recorded_def Mcap_Publish_ok add.assoc)
qed

lemma hand_all:
  assumes "w_sinks w sink = Sink_mcap s" and "mc_open s" and "mc_results s = []"
  shows "w_sinks (fold (hand_to_sink ser) ds w) sink =
     Sink_mcap (recorded s (map (\<lambda>(now, src, k, m). (now, ser m)) (filter (\<lambda>(now, src, k, m). k = sink) ds)))"
  using assms
proof (induction ds arbitrary: w s)
  case Nil
  then show ?case by (simp add: recorded_def)
next
  case (Cons d ds)
  obtain now src k m where d: "d = (now, src, k, m)" by (cases d)
  show ?case
  proof (cases "k = sink")
    case True
    have "w_sinks (hand_to_sink ser d w) sink = Sink_mcap (Mcap_Publish now (ser m) s)"
      using Cons.prems(1) True by (simp add: d)
    moreover have "mc_open (Mcap_Publish now (ser m) s)" "mc_results (Mcap_Publish now (ser m) s) = []"
      using Cons.prems(2,3) by (simp_all add: Mcap_Publish_ok)
    ultimately show ?thesis using Cons.IH recorded_Cons [OF Cons.prems(2,3)] True by (simp add: d)
  next
    case False
    then have "w_sinks (hand_to_sink ser d w) sink = Sink_mcap s" unfolding d using Cons.prems(1) hand_other [of sink k] by metis
    then show ?thesis using Cons.IH Cons.prems(2,3) False by (simp add: d)
  qed
qed

lemma recorded_msgs:
  obtains ms where "mc_calls (recorded s xs) = mc_calls s @ map W_write ms" and "map payload ms = map snd xs"
    and "map sequence ms = map (\<lambda>i. mc_count s + of_nat i) [0..<length ms]" and "\<forall>m \<in> set ms. channelId m = mc_channel s"
proof -
  let ?ms = "map (\<lambda>(i, now, bytes). \<lparr>channelId = mc_channel s, sequence = mc_count s + of_nat i, stamp = now, payload = bytes\<rparr>)
               (enumerate 0 xs)"
  have "mc_calls (recorded s xs) = mc_calls s @ map W_write ?ms"
    by (simp add: recorded_def comp_def case_prod_unfold)
  moreover have "map payload ?ms = map snd xs" by (rule nth_equalityI) (simp_all add: nth_enumerate_eq case_prod_unfold)
  moreover have "map sequence ?ms = map (\<lambda>i. mc_count s + of_nat i) [0..<length ?ms]"
    by (rule nth_equalityI) (simp_all add: nth_enumerate_eq case_prod_unfold)
  moreover have "\<forall>m \<in> set ?ms. channelId m = mc_channel s" by auto
  ultimately show thesis by (rule that)
qed

lemma own_deliveries:
  assumes "routed d" and "\<forall>s. s \<noteq> src \<longrightarrow> sink \<notin> set (dq_sinks d s)" and "map snd ds = dq_out d"
  shows "map (\<lambda>(now, src, k, m). m) (filter (\<lambda>(now, src, k, m). k = sink) ds) = delivered src sink (dq_out d)"
proof -
  have "\<forall>(now, s, k, m) \<in> set ds. k = sink \<longrightarrow> s = src"
  proof clarsimp
    fix now s m
    assume "(now, s, sink, m) \<in> set ds"
    then have "(s, sink, m) \<in> set (dq_out d)" unfolding assms(3) [symmetric] by force
    then show "s = src" using assms(1,2) by (auto simp: routed_def)
  qed
  then have "filter (\<lambda>(now, src, k, m). k = sink) ds = filter (\<lambda>(now, s, k, m). s = src \<and> k = sink) ds"
    by (intro filter_cong) auto
  then show ?thesis
    unfolding assms(3) [symmetric] delivered_def by (simp add: filter_map comp_def case_prod_unfold)
qed

text \<open>
  C27: From the source to the recording. Over any rounds of the manager, an MCAP sink that
  belongs to one source, registered once, writes to its recording exactly the messages for
  which the source's \<open>UpdateData\<close> returned true, serialised, in order, each once, on the channel
  of the sink and with consecutive sequence numbers, and stays open, whatever other sources and
  sinks there are, when the writer reports no error.
\<close>

theorem published_is_recorded:
  assumes "\<forall>k. publish p k = id" and "takes p src sink" and "distinct (dq_srcs d)" and "src \<in> set (dq_srcs d)"
    and "count_list (dq_sinks d src) sink = 1" and "\<forall>s. s \<noteq> src \<longrightarrow> sink \<notin> set (dq_sinks d s)" and "dq_out d = []"
    and "w_sinks w sink = Sink_mcap s" and "mc_open s" and "mc_results s = []"
    and "map snd ds = dq_out (fold (DAQManager_Update p) cs d)"
  shows "\<exists>s' ms. w_sinks (fold (hand_to_sink ser) ds w) sink = Sink_mcap s' \<and> mc_open s' \<and>
           mc_calls s' = mc_calls s @ map W_write ms \<and>
           map payload ms = map ser (source_msgs p src cs (dq_msg d src)) \<and>
           map sequence ms = map (\<lambda>i. mc_count s + of_nat i) [0..<length ms] \<and>
           (\<forall>m \<in> set ms. channelId m = mc_channel s)"
proof -
  have init: "routed d" using assms(7) by (simp add: routed_def)
  have r: "routed (fold (DAQManager_Update p) cs d)" "dq_sinks (fold (DAQManager_Update p) cs d) = dq_sinks d"
    using Updates_routed [of d p cs, OF init] by blast+
  let ?mine = "filter (\<lambda>(now, src, k, m). k = sink) ds"
  let ?xs = "map (\<lambda>(now, src, k, m). (now, ser m)) ?mine"
  have msgs: "map (\<lambda>(now, src, k, m). m) ?mine = source_msgs p src cs (dq_msg d src)"
    using own_deliveries [OF r(1) _ assms(11), of src sink] rounds_deliver [OF assms(1-5), of cs] assms(6,7) r(2)
    by (simp add: delivered_def)
  have xs: "map snd ?xs = map ser (source_msgs p src cs (dq_msg d src))"
    unfolding msgs [symmetric] by (simp add: comp_def case_prod_unfold)
  obtain ms where "mc_calls (recorded s ?xs) = mc_calls s @ map W_write ms" "map payload ms = map snd ?xs"
      "map sequence ms = map (\<lambda>i. mc_count s + of_nat i) [0..<length ms]" "\<forall>m \<in> set ms. channelId m = mc_channel s"
    by (rule recorded_msgs)
  moreover have "mc_open (recorded s ?xs)" using assms(9) by (simp add: recorded_def)
  ultimately show ?thesis using hand_all [OF assms(8-10), of ser ds] xs by (intro exI [of _ "recorded s ?xs"] exI [of _ ms]) simp
qed

text \<open>A program of two sources, the first with the recorder and a sink of eCAL.\<close>

definition ex_sinks :: "nat sinks_state" where
  "ex_sinks = \<lparr>w_sinks = (\<lambda>k. if k = 5 then Sink_mcap \<lparr>mc_topic = ''t'', mc_file = ''f'', mc_writer = fwriter_new, mc_calls = [],
       mc_channel = 4, mc_count = 0, mc_open = True, mc_log = [], mc_results = []\<rparr> else DataSinkPBEcal ''bus''), w_calls = []\<rparr>"

definition ex_acq :: "nat daq" where
  "ex_acq = \<lparr>dq_srcs = [0, 1], dq_sinks = (\<lambda>s. if s = 0 then [5, 6] else [6]), dq_msg = (\<lambda>s. 0), dq_out = []\<rparr>"

definition ex_user :: "(bool, nat) program" where
  "ex_user = \<lparr>user = (\<lambda>src c m. (c, m + 1)), takes = (\<lambda>src sink. True), publish = (\<lambda>k. id)\<rparr>"

theorem published_is_recorded_witness:
  "\<exists>s' ms. w_sinks (fold (hand_to_sink (\<lambda>m. replicate m CHR ''x''))
       (map (Pair 9) (dq_out (fold (DAQManager_Update ex_user) [True, False, True] ex_acq))) ex_sinks) 5 = Sink_mcap s' \<and>
     mc_calls s' = map W_write ms \<and> map payload ms = [''x'', ''xxx''] \<and> map sequence ms = [0, 1]"
proof -
  let ?ds = "map (Pair 9) (dq_out (fold (DAQManager_Update ex_user) [True, False, True] ex_acq)) :: (int \<times> nat \<times> nat \<times> nat) list"
  let ?s = "\<lparr>mc_topic = ''t'', mc_file = ''f'', mc_writer = fwriter_new, mc_calls = [],
       mc_channel = 4, mc_count = 0, mc_open = True, mc_log = [], mc_results = []\<rparr>"
  have 1: "\<forall>k. publish ex_user k = id" "takes ex_user 0 5" by (simp_all add: ex_user_def)
  have 2: "distinct (dq_srcs ex_acq)" "0 \<in> set (dq_srcs ex_acq)" "count_list (dq_sinks ex_acq 0) 5 = 1"
      "\<forall>s. s \<noteq> 0 \<longrightarrow> 5 \<notin> set (dq_sinks ex_acq s)" "dq_out ex_acq = []" by (simp_all add: ex_acq_def)
  have 3: "w_sinks ex_sinks 5 = Sink_mcap ?s" "mc_open ?s" "mc_results ?s = []" by (simp_all add: ex_sinks_def)
  have 4: "map snd ?ds = dq_out (fold (DAQManager_Update ex_user) [True, False, True] ex_acq)" by (simp add: comp_def)
  have 5: "source_msgs ex_user 0 [True, False, True] (dq_msg ex_acq 0) = [1, 3]" by (simp add: ex_user_def ex_acq_def)
  obtain s' ms where r: "w_sinks (fold (hand_to_sink (\<lambda>m. replicate m CHR ''x'')) ?ds ex_sinks) 5 = Sink_mcap s'"
      "mc_calls s' = mc_calls ?s @ map W_write ms" "map payload ms = map (\<lambda>m. replicate m CHR ''x'') [1, 3]"
      "map sequence ms = map (\<lambda>i. mc_count ?s + of_nat i) [0..<length ms]"
    using published_is_recorded [OF 1 2 3 4, of "\<lambda>m. replicate m CHR ''x''"] unfolding 5 by blast
  have "length ms = 2" using arg_cong [OF r(3), of length] by simp
  then have "map sequence ms = [0, 1]" using r(4) by (simp add: upt_rec)
  moreover have "map payload ms = [''x'', ''xxx'']" "mc_calls s' = map W_write ms"
    using r(2,3) by (simp_all add: numeral_3_eq_3)
  ultimately show ?thesis using r(1) by (intro exI [of _ s'] exI [of _ ms] conjI)
qed

text \<open>What other sinks ask of eCAL and the console does not depend on what happened before.\<close>

lemma publish_kind_stays:
  "snd (Sink_Publish ser now m (w_sinks (hand_to_sink ser d w) k)) = snd (Sink_Publish ser now m (w_sinks w k))"
proof -
  obtain t src j x where d: "d = (t, src, j, x)" by (cases d)
  show ?thesis by (cases "w_sinks w j") (simp_all add: d)
qed

lemma calls_of_deliveries:
  "w_calls (fold (hand_to_sink ser) ds w) =
     w_calls w @ concat (map (\<lambda>(now, src, k, m). snd (Sink_Publish ser now m (w_sinks w k))) ds)"
proof (induction ds arbitrary: w)
  case (Cons d ds)
  obtain now src k m where d: "d = (now, src, k, m)" by (cases d)
  have "w_calls (hand_to_sink ser d w) = w_calls w @ snd (Sink_Publish ser now m (w_sinks w k))"
    by (simp add: d split: prod.split)
  then show ?case using Cons.IH [of "hand_to_sink ser d w"] by (simp add: publish_kind_stays d del: hand_to_sink.simps)
qed simp

end
