(* ===== verification/Timing.thy ===== *)
theory Timing
  imports FileHelper Complex_Main
begin

text \<open>
  Helpers of dtUtils: \<open>TimeCheck\<close> (dtTimeCheck.cpp, the Linux branch), the time functions of
  dtTimeUtil.hpp and \<open>string_format\<close> of dtStringHelper.h. A double is a rational number, and
  every operation on doubles rounds its exact result by a function \<open>fl\<close>, a parameter; the
  functions of the C library (\<open>mktime\<close>, \<open>localtime\<close>) are parameters as well.
\<close>

section \<open>Measuring time\<close>

record timespec =
  tv_sec :: int
  tv_nsec :: int

record time_check =
  bStart :: bool
  elapsedTime_msec :: rat
  elapsedTime_usec :: rat
  elapsedTime_nsec :: int
  startTime :: timespec
  endTime :: timespec

text \<open>The constructor leaves all but the flag as it finds it.\<close>

definition TimeCheck :: "time_check \<Rightarrow> time_check" where
  "TimeCheck junk = junk\<lparr>bStart := False\<rparr>"

definition TimeCheck_Start :: "timespec \<Rightarrow> time_check \<Rightarrow> time_check" where
  "TimeCheck_Start now t = t\<lparr>startTime := now, bStart := True\<rparr>"

text \<open>\<open>ds * scale + dns / unit\<close> in doubles; the operands are converted from \<open>long\<close>.\<close>

definition scaled :: "(rat \<Rightarrow> rat) \<Rightarrow> rat \<Rightarrow> rat \<Rightarrow> int \<Rightarrow> int \<Rightarrow> rat" where
  "scaled fl scale unit ds dns = fl (fl (fl (of_int ds) * scale) + fl (fl (of_int dns) / unit))"

definition TimeCheck_Stop :: "(rat \<Rightarrow> rat) \<Rightarrow> timespec \<Rightarrow> time_check \<Rightarrow> int \<times> time_check" where
  "TimeCheck_Stop fl now t =
     (let t = t\<lparr>endTime := now\<rparr> in
      if \<not> bStart t then (-1, t)
      else
        let ds = tv_sec (endTime t) - tv_sec (startTime t);
            dns = tv_nsec (endTime t) - tv_nsec (startTime t)
        in (0, t\<lparr>elapsedTime_msec := scaled fl (10 ^ 3) (10 ^ 6) ds dns,
                 elapsedTime_usec := scaled fl (10 ^ 6) (10 ^ 3) ds dns,
                 elapsedTime_nsec := (let x = fl (fl (fl (of_int ds) * 10 ^ 9) + fl (of_int dns))
                                      in if x < 0 then \<lceil>x\<rceil> else \<lfloor>x\<rfloor>),
                 bStart := False\<rparr>))"

definition TimeCheck_Reset :: "time_check \<Rightarrow> time_check" where
  "TimeCheck_Reset t = t\<lparr>bStart := False\<rparr>"

definition GetElapsedTime_sec :: "(rat \<Rightarrow> rat) \<Rightarrow> time_check \<Rightarrow> rat" where
  "GetElapsedTime_sec fl t = fl (elapsedTime_msec t / 10 ^ 3)"

definition GetElapsedTime_msec :: "time_check \<Rightarrow> rat" where
  "GetElapsedTime_msec t = elapsedTime_msec t"

definition GetElapsedTime_usec :: "time_check \<Rightarrow> rat" where
  "GetElapsedTime_usec t = elapsedTime_usec t"

definition GetElapsedTime_nsec :: "time_check \<Rightarrow> int" where
  "GetElapsedTime_nsec t = elapsedTime_nsec t"

section \<open>Times as text\<close>

text \<open>
  \<open>tm_wday\<close> and the name of the time zone, beside the fields of \<open>tm\<close>. The text of the format
  "\%a \%Y-\%m-\%d \%H:\%M:\%S \%Z" in the C locale; \<open>strftime\<close> writes it when it fits the buffer
  with its NUL and returns 0 otherwise.
\<close>

record local_tm = tm +
  tm_wday :: nat
  tm_zone :: "char list"

definition weekday :: "nat \<Rightarrow> char list" where
  "weekday d = [''Sun'', ''Mon'', ''Tue'', ''Wed'', ''Thu'', ''Fri'', ''Sat''] ! d"

definition time_text :: "local_tm \<Rightarrow> char list" where
  "time_text ts =
     weekday (tm_wday ts) @ '' '' @ int_str (tm_year ts + 1900) @ ''-'' @ fmt0d 2 (tm_mon ts + 1) @ ''-'' @
     fmt0d 2 (tm_mday ts) @ '' '' @ fmt0d 2 (tm_hour ts) @ '':'' @ fmt0d 2 (tm_min ts) @ '':'' @ fmt0d 2 (tm_sec ts) @
     '' '' @ tm_zone ts"

text \<open>The buffer's content is \<open>None\<close> (unspecified) when the text does not fit.\<close>

definition strftime :: "nat \<Rightarrow> char list \<Rightarrow> nat \<times> char list option" where
  "strftime buf_len text =
     (if length text + 1 \<le> buf_len then (length text, Some (text @ [NUL])) else (0, None))"

text \<open>
  The functions of the C library: \<open>localtime\<close> returns the null pointer for times whose year
  does not fit an \<open>int\<close>; the code dereferences what it returns, so that \<open>None\<close> is undefined
  behaviour.
\<close>

record libc_time =
  lc_time :: int
  lc_mktime :: "local_tm \<Rightarrow> int"
  lc_localtime :: "int \<Rightarrow> local_tm option"

definition epoch :: "libc_time \<Rightarrow> int" where
  "epoch lc = lc_time lc"

definition epoch_of :: "libc_time \<Rightarrow> local_tm \<Rightarrow> int" where
  "epoch_of lc ts = lc_mktime lc ts"

definition localtime :: "libc_time \<Rightarrow> local_tm option" where
  "localtime lc = lc_localtime lc (lc_time lc)"

definition localtime_of :: "libc_time \<Rightarrow> int \<Rightarrow> local_tm option" where
  "localtime_of lc t = lc_localtime lc t"

definition localtimestr :: "libc_time \<Rightarrow> nat \<Rightarrow> (nat \<times> char list option) option" where
  "localtimestr lc buf_len =
     (case lc_localtime lc (lc_time lc) of None \<Rightarrow> None | Some ts \<Rightarrow> Some (strftime buf_len (time_text ts)))"

definition localtimestr_at :: "libc_time \<Rightarrow> int \<Rightarrow> nat \<Rightarrow> (nat \<times> char list option) option" where
  "localtimestr_at lc t buf_len =
     (case lc_localtime lc t of None \<Rightarrow> None | Some ts \<Rightarrow> Some (strftime buf_len (time_text ts)))"

definition localtimestr_tm :: "local_tm \<Rightarrow> nat \<Rightarrow> nat \<times> char list option" where
  "localtimestr_tm ts buf_len = strftime buf_len (time_text ts)"

section \<open>Formatting\<close>

text \<open>
  \<open>rendered\<close> is what the format gives, \<open>None\<close> when \<open>snprintf\<close> reports an error by -1; then the
  size is 0 and the function throws. The buffer has room for the text and its NUL.
\<close>

definition string_format :: "char list option \<Rightarrow> char list + char list" where
  "string_format rendered =
     (let size = (case rendered of None \<Rightarrow> 0 | Some t \<Rightarrow> length t + 1)
      in if size \<le> 0 then Inl ''Error during formatting.''
         else let buf = (case rendered of None \<Rightarrow> [] | Some t \<Rightarrow> take (size - 1) t @ [NUL])
              in Inr (take (size - 1) buf))"

section \<open>Properties\<close>

text \<open>The instant in nanoseconds.\<close>

definition nanos :: "timespec \<Rightarrow> int" where
  "nanos t = tv_sec t * 10 ^ 9 + tv_nsec t"

definition timespec_ok :: "timespec \<Rightarrow> bool" where
  "timespec_ok t \<longleftrightarrow> 0 \<le> tv_nsec t \<and> tv_nsec t < 10 ^ 9"

text \<open>Integers up to \<open>2 ^ 53\<close> are doubles, and rounding leaves a double alone.\<close>

definition rounds_integers :: "(rat \<Rightarrow> rat) \<Rightarrow> bool" where
  "rounds_integers fl \<longleftrightarrow> (\<forall>n :: int. \<bar>n\<bar> \<le> 2 ^ 53 \<longrightarrow> fl (of_int n) = of_int n)"

text \<open>
  A measurement of less than 104 days (\<open>2 ^ 53\<close> nanoseconds but one second) is exact in
  nanoseconds, whatever the rounding does to other numbers, and ends the measurement: a second
  \<open>Stop\<close>, or one without \<open>Start\<close>, returns -1 and keeps the times measured last.
\<close>

theorem elapsed_nsec_exact:
  assumes "rounds_integers fl" and "timespec_ok t0" and "timespec_ok t1" and "nanos t0 \<le> nanos t1"
    and "nanos t1 - nanos t0 \<le> 2 ^ 53 - 10 ^ 9"
  shows "\<exists>t'. TimeCheck_Stop fl t1 (TimeCheck_Start t0 t) = (0, t') \<and> GetElapsedTime_nsec t' = nanos t1 - nanos t0 \<and>
     (\<exists>t''. TimeCheck_Stop fl t2 t' = (-1, t'') \<and> GetElapsedTime_nsec t'' = GetElapsedTime_nsec t' \<and>
        GetElapsedTime_msec t'' = GetElapsedTime_msec t' \<and> GetElapsedTime_usec t'' = GetElapsedTime_usec t')"
proof -
  define ds where "ds = tv_sec t1 - tv_sec t0"
  define dns where "dns = tv_nsec t1 - tv_nsec t0"
  have diff: "nanos t1 - nanos t0 = ds * 10 ^ 9 + dns" by (simp add: nanos_def ds_def dns_def algebra_simps)
  have dns: "\<bar>dns\<bar> < 10 ^ 9" using assms(2,3) by (auto simp: timespec_ok_def dns_def)
  have "0 \<le> ds * 10 ^ 9 + dns" "ds * 10 ^ 9 + dns \<le> 2 ^ 53 - 10 ^ 9" using assms(4,5) diff by linarith+
  then have ds: "0 \<le> ds" "ds * 10 ^ 9 \<le> 2 ^ 53" "\<bar>ds * 10 ^ 9 + dns\<bar> \<le> 2 ^ 53" using dns by auto
  have fl: "fl (of_int n) = of_int n" if "\<bar>n\<bar> \<le> 2 ^ 53" for n :: int
    using assms(1) that by (simp add: rounds_integers_def)
  have 1: "fl (of_int ds) = of_int ds" "fl (of_int dns) = of_int dns" using ds dns by (auto intro!: fl)
  have 2: "fl (fl (of_int ds) * 10 ^ 9) = of_int (ds * 10 ^ 9)"
    using fl [of "ds * 10 ^ 9"] ds by (simp add: 1)
  have 3: "fl (fl (fl (of_int ds) * 10 ^ 9) + fl (of_int dns)) = of_int (nanos t1 - nanos t0)"
    using fl [OF ds(3)] unfolding 2 1(2) diff by simp
  have run: "fst (TimeCheck_Stop fl t1 (TimeCheck_Start t0 t)) = 0"
    "elapsedTime_nsec (snd (TimeCheck_Stop fl t1 (TimeCheck_Start t0 t))) = nanos t1 - nanos t0"
    "\<not> bStart (snd (TimeCheck_Stop fl t1 (TimeCheck_Start t0 t)))"
    using 3 assms(4) unfolding ds_def dns_def by (simp_all add: TimeCheck_Stop_def TimeCheck_Start_def Let_def)
  have stopped: "\<exists>t''. TimeCheck_Stop fl t2 u = (-1, t'') \<and> GetElapsedTime_nsec t'' = GetElapsedTime_nsec u \<and>
      GetElapsedTime_msec t'' = GetElapsedTime_msec u \<and> GetElapsedTime_usec t'' = GetElapsedTime_usec u"
    if "\<not> bStart u" for u
    using that by (simp add: TimeCheck_Stop_def GetElapsedTime_nsec_def GetElapsedTime_msec_def GetElapsedTime_usec_def)
  show ?thesis
    using run stopped [OF run(3)] by (intro exI [of _ "snd (TimeCheck_Stop fl t1 (TimeCheck_Start t0 t))"])
      (simp add: prod_eq_iff GetElapsedTime_nsec_def)
qed

definition ex_time :: time_check where
  "ex_time = \<lparr>bStart = False, elapsedTime_msec = 0, elapsedTime_usec = 0, elapsedTime_nsec = 0,
     startTime = \<lparr>tv_sec = 0, tv_nsec = 0\<rparr>, endTime = \<lparr>tv_sec = 0, tv_nsec = 0\<rparr>\<rparr>"

theorem elapsed_nsec_exact_witness:
  "\<exists>t'. TimeCheck_Stop (\<lambda>x. of_int \<lfloor>x\<rfloor>) \<lparr>tv_sec = 8, tv_nsec = 1\<rparr> (TimeCheck_Start \<lparr>tv_sec = 5, tv_nsec = 999999999\<rparr> ex_time) =
     (0, t') \<and> GetElapsedTime_nsec t' = 2000000002"
  using elapsed_nsec_exact [of "\<lambda>x. of_int \<lfloor>x\<rfloor>" "\<lparr>tv_sec = 5, tv_nsec = 999999999\<rparr>" "\<lparr>tv_sec = 8, tv_nsec = 1\<rparr>" ex_time undefined]
  by (auto simp: rounds_integers_def timespec_ok_def nanos_def)

text \<open>
  \<open>localtimestr\<close> never writes more than the buffer holds; the text and its NUL are there when
  it returns more than 0, and a text with a year of four digits has 24 characters and the name
  of the zone.
\<close>

lemma localtimestr_fits:
  "localtimestr_tm ts buf_len = (n, content) \<Longrightarrow> 0 < n \<Longrightarrow>
     content = Some (time_text ts @ [NUL]) \<and> n = length (time_text ts) \<and> n + 1 \<le> buf_len"
  by (auto simp: localtimestr_tm_def strftime_def split: if_splits)

lemma string_format_text: "string_format rendered = (case rendered of None \<Rightarrow> Inl ''Error during formatting.'' | Some t \<Rightarrow> Inr t)"
  by (cases rendered) (simp_all add: string_format_def)

end
