(* ===== verification/Spec2Isabelle.thy ===== *)
theory Spec2Isabelle
  imports LogQueue LogQueueMPSC StdoutSink FileSink Mcap LogStream RtLogger LogToFile TuiFrame
    LogToTui ConcurrentLog ThreadProps StatePubProps StateSub StatePipe SampleService
    GnuPlotProps ConfProps Terminal MathStream PlainLogProps DataAcq Recording Timing
begin

text \<open>
  Verification library for dtCore, a C++ library for robot software: logging for real-time
  threads, a terminal interface, threads and synchronisation, recording and publishing of
  data, configuration and small helpers. Headers are under \<open>src/include/dtCore/src/\<close>, the
  compiled part under \<open>src/src/core/\<close>; file names below are relative to these.

  \<^bold>\<open>How the parts interact.\<close> Real-time threads write log lines with the stream classes or the
  \<open>printf\<close>-like entry points of \<open>RtLog\<close>. These format into an entry on the stack and push it
  into a ring of fixed size; when it is full the message is counted and dropped. One drain
  thread pops the entries, puts continuation lines together and hands each message to the
  logging library (spdlog), which calls the sinks: the console, syslog, a log file with
  rotation, or the terminal interface. The terminal interface has a ring of the same kind, a
  history and two screen areas, and is drawn by the drain thread. \<open>Log\<close> is the second front end,
  without ring and thread. Beside them stand the thread library (which starts the drain
  thread), the MCAP recorder with its rotator, the publisher and the subscriber of states and
  the dispatchers of remote calls over gRPC, the sources and sinks of the data acquisition, and
  helpers for configurations, gnuplot, terminals, paths and time.

  \<^bold>\<open>Theories and code.\<close>

  \<^item> \<open>Prelude\<close>: words, fixed arrays of characters with \<open>memcpy\<close>, \<open>strncpy\<close> and \<open>snprintf\<close>, decimal
    text, log levels (an order), and the lemmas on rings and 32-bit counters all queues share.
  \<^item> \<open>SysIO\<close>, \<open>Rotation\<close>: a device as the answers \<open>write\<close> will give; the contracts \<open>byte_sink\<close> and
    \<open>file_rotation\<close>, interpreted by the sinks and by both rotations.
  \<^item> \<open>LogQueue\<close>, \<open>LogQueueMPSC\<close> (dtLog/dtLogQueue.hpp): the ring called in turn, and the ring with
    one step per access to shared memory, any number of producers, one consumer, every
    interleaving. The state is the slot array with its sequence numbers, head and tail.
  \<^item> \<open>StdoutSink\<close>, \<open>FileSink\<close> (dtLog/dtRtLog.hpp): console, syslog and file sinks with their
    buffers; files are a map from paths to contents.
  \<^item> \<open>FileHelper\<close> (dtUtils/dtFileHelper.h, utils/dtFileHelper.cpp, utils/dtDir.cpp, and the copies
    in log/dtRtLog.cpp): paths, names with date or index, creating directories.
  \<^item> \<open>LogStream\<close>, \<open>MathStream\<close> (dtLog/dtRtLog.hpp, log/dtRtLog.cpp, dtLog/dtRtLogDtMath.hpp,
    dtLog/dtRtLogEigen.hpp): the three stream classes with every operator, and vectors.
  \<^item> \<open>RtLog\<close>, \<open>RtDrain\<close>, \<open>RtLogger\<close> (log/dtRtLog.cpp, dtLog/dtRtLog.hpp): the logger's state and every
    function; what the drain thread does with an entry; the logger from entry point to output.
  \<^item> \<open>LogToFile\<close>: the logger's calls to the logging library delivered to a file sink; below, the
    theorem that what is logged is in the file at the end.
  \<^item> \<open>ConcurrentLog\<close>: any number of threads that log while the drain thread runs, one step per
    access to shared memory: the entry points and the drain of \<open>RtLog\<close> on the ring of
    \<open>LogQueueMPSC\<close>.
  \<^item> \<open>RtTui\<close>, \<open>TuiProps\<close>, \<open>TuiFrame\<close> (log/dtRtTui.cpp, dtLog/dtRtTui.hpp): the terminal interface.
  \<^item> \<open>LogToTui\<close>: the logger's calls delivered to the sink of the terminal interface, up to the rows
    of the frame drawn in the same round.
  \<^item> \<open>PlainLog\<close>, \<open>PlainLogProps\<close> (dtLog/dtLog.h, dtLog/dtLog.tpp): the plain logger.
  \<^item> \<open>ThreadReg\<close>, \<open>ThreadProps\<close> (thread/threadImp.cpp, dtThread/threadImp.h, dtUtils/dtLock.hpp,
    dtUtils/dtWatchdog.hpp): threads, semaphores, mutexes and the arrays they are registered in.
  \<^item> \<open>Mcap\<close> (dtDAQ/mcap/): the file writer, the sink and the rotator of recordings.
  \<^item> \<open>StatePub\<close>, \<open>StatePubProps\<close>, \<open>StateSub\<close>, \<open>ServiceRpc\<close> (dtDAQ/grpc/): publisher, subscriber,
    listener and caller, as steps of the program's thread, the dispatcher and the library.
  \<^item> \<open>StatePipe\<close>: a publisher and one of its subscribers joined by the stream between them.
  \<^item> \<open>SampleService\<close> (examples/example_grpc_service_listener, examples/example_grpc_service_caller
    under \<open>src\<close>): two services and a call that derive from listener and caller, both ends joined.
  \<^item> \<open>DataAcq\<close> (dtDAQ/dtDataSource.h, dtDAQ/dtDataSourcePB.hpp, dtDAQ/dtDAQManager.h): sources,
    sinks and the manager that updates them while other threads change the sinks.
  \<^item> \<open>Recording\<close> (dtDAQ/ecal/, dtDAQ/hdf5/, dtDAQ/grpc/dtDataSinkPBGrpc.hpp, the managers of eCAL
    and gRPC): the sinks as objects, and the way of a message from a source to the recorder.
  \<^item> \<open>Conf\<close>, \<open>ConfProps\<close> (dtUtils/dtConf.hpp): configurations as trees.
  \<^item> \<open>GnuPlot\<close>, \<open>GnuPlotProps\<close> (dtUtils/dtGnuPlot.h, dtUtils/dtGnuPlot.tpp): commands for gnuplot.
  \<^item> \<open>Terminal\<close> (dtUtils/dtTerminal.h, utils/dtTerminal.cpp): escape sequences, terminal modes,
    keys, the position of the cursor.
  \<^item> \<open>Timing\<close> (utils/dtTimeCheck.cpp, dtUtils/dtTimeUtil.hpp, dtUtils/dtStringHelper.h).

  Definitions have the names of the functions they model, with a prefix or suffix where two
  classes or overloads share one (\<open>Rt_Append\<close>, \<open>Nm_Append\<close>, \<open>Log_Create\<close>, \<open>Printf_at\<close>). A class is a
  record of its members. Integers that wrap are words. A fixed array of characters is a list of
  its length; writing outside it, a null pointer or another undefined use is the result \<open>None\<close>
  or \<open>Undefined\<close>, so that a theorem that gives \<open>Some\<close> or \<open>Ret\<close> is one of memory safety. Memory
  that is not initialised is an argument (\<open>junk\<close>).

  \<^bold>\<open>What the lemmas show.\<close> Ring: it implements a bounded list at every position of the counters;
  in every interleaving messages arrive in slot order, whole, none lost or twice. Streams: one
  specification of a line for the three classes, inside the buffer. Logger: every message is
  output once, in order, or counted; what is queued is delivered by \<open>Sync\<close>, by a change of the
  pattern and at the end; with many threads, in every interleaving, each thread's messages come
  in its order and what is missing has been counted. Logger with sinks: what is logged is in the
  file at the end, and on the screen after a round. Sinks: order and completeness of what the terminal or the file gets,
  and the sizes of files and backups. Terminal interface: an invariant of every sequence of
  operations, frames that cover the screen, a history of the latest lines, a terminal that is
  given back. Plain logger: settings and messages of every logger for every sequence of calls.
  Threads: arrays hold the live objects. Recorder: the protocol of calls to the writer, the
  closure of descriptors, rotation. gRPC: one write outstanding per client, each client gets the
  latest states in order, every message handled, calls live and end once; from \<open>Publish\<close> to the
  handler on the other side states are not made up, swapped or doubled, and the latest arrives;
  with the sample's services each call gets one answer and no freed object is touched. Data acquisition: each
  sink gets the new message once per registration. Configurations: merging overlays settings;
  what is set is read. Beyond these the lemmas state defects that modelling showed.

  \<^bold>\<open>Bounds, fuel, parameters.\<close> No function needs fuel: loops are structural or have a measure.
  Loops that wait for the outside world run over a list of its answers (\<open>write\<close>, \<open>poll\<close>, the
  rounds of the drain thread in \<open>Sync\<close>), so they end with the list. Rings have \<open>2 ^ k\<close> slots, the
  logger's \<open>k = 10\<close>; the concurrent model assumes that no producer sleeps inside the loop while
  others send \<open>2 ^ 30\<close> messages, because 32-bit numbers cannot tell laps apart after that. Outside
  the repository, and parameters with their documented behaviour as hypotheses where a theorem
  needs it: spdlog and fmt, gRPC, protobuf, MCAP, yaml-cpp, Eigen and dtMath, the rendering of a
  floating-point number, rounding of doubles.

  \<^bold>\<open>Not modelled.\<close> The Windows and Arduino branches. Weak memory: the concurrent ring is
  sequentially consistent, its acquire and release accesses are not weakened. Real time itself:
  sleeping is a recorded call. Scheduling attributes beyond the calls that set them. Macros that
  only name a call. Generated protobuf code, the other examples and tests.
\<close>

section \<open>From the call to the file\<close>

text \<open>
  C2: Logger, queue, drain and file sink together. After any calls of the entry points that the
  queue can hold, \<open>Terminate\<close> leaves the log file with what it and the sink's buffer held before
  and then one formatted line for every call whose level passed: in the order of the calls, each
  once, with the time of the call and the text up to 1023 bytes. The calls are those for the
  default logger that are not continuation lines, the file need not rotate, and the disk takes
  at least one byte per write, with any number of interruptions.
\<close>

theorem calls_reach_the_file:
  assumes "lg_initialized s" and "queue_holds 10 (lg_queue s) []" and "drain_ok s" and "lg_calls s = []"
    and "lg_dropCount s = 0" and "lg_contLen s = 0"
    and "\<forall>r \<in> set rs. plain_request s r" and "length (passed s rs) \<le> 1024"
    and "\<forall>lvl. IsActiveLevel lvl s \<longrightarrow> lf_level p \<le> lvl"
    and "accepts p (length (expected_lines fmt p s rs))"
  shows "\<exists>s1 s2. do_reqs rs s = Some s1 \<and> Terminate True s1 = Some s2 \<and>
           files (lf_env (fold (deliver fmt) (lg_calls s2) p)) (log_path p) =
             Some (log_stream_of p @ expected_lines fmt p s rs)"
proof -
  let ?lines = "map (\<lambda>r. (lg_wall s - lg_mono s + req_now r, req_level r, take 1023 (req_text r)))
                  (filter (\<lambda>r. IsActiveLevel (req_level r) s) rs)"
  let ?ms = "map (\<lambda>(ts, lvl, text). Log_at To_default ts lvl text) ?lines"
  let ?rest = "(if lg_tui s then [Tui_stop] else []) @ [Flush_all]"
  let ?cs = "[Delete_thread] @ ?ms @ ?rest"
  obtain s1 s2 where s: "do_reqs rs s = Some s1" "Terminate True s1 = Some s2" "lg_calls s2 = ?cs @ [Shutdown]"
    by (rule session_calls [OF assms(1-8)]) simp
  have low: "\<forall>(ts, lvl, text) \<in> set ?lines. lf_level p \<le> lvl" using assms(9) by auto
  have w: "written fmt (lf_pattern p) (lf_level p) ?cs = expected_lines fmt p s rs"
    using written_messages [OF low, of fmt "lf_pattern p" ?rest] by (simp add: expected_lines_def comp_def)
  have "Shutdown \<notin> set ?cs" by auto
  from deliver_all_stream [OF this, of p fmt 0] assms(10)
  have d: "accepts (fold (deliver fmt) ?cs p) 0"
      "log_stream_of (fold (deliver fmt) ?cs p) = log_stream_of p @ expected_lines fmt p s rs"
      "log_path (fold (deliver fmt) ?cs p) = log_path p"
    unfolding w by simp_all
  have sd: "fold (deliver fmt) (?cs @ [Shutdown]) p = deliver fmt Shutdown (fold (deliver fmt) ?cs p)"
    by (simp only: fold_append fold.simps comp_apply id_apply)
  have "files (lf_env (fold (deliver fmt) (lg_calls s2) p)) (log_path p) =
          Some (log_stream_of p @ expected_lines fmt p s rs)"
    using shutdown_writes_out [OF d(1)] unfolding s(3) sd d(2,3) .
  with s show ?thesis by blast
qed

theorem calls_reach_the_file_witness:
  "\<exists>s1 s2. do_reqs [R_rt (ex_entry NUL []) L_err 0 (Some ''hot''), R_rt (ex_entry NUL []) L_info 7 (Some ''ok'')] ex_log = Some s1 \<and>
     Terminate True s1 = Some s2 \<and>
     files (lf_env (fold (deliver (\<lambda>pat ts lvl text. pat @ text @ [NL])) (lg_calls s2) ex_log_file)) ''a.log'' =
       Some (''xy> hot'' @ [NL] @ ''> ok'' @ [NL])"
proof -
  let ?fmt = "\<lambda>pat ts lvl text. pat @ text @ [NL]"
  let ?rs = "[R_rt (ex_entry NUL []) L_err 0 (Some ''hot''), R_rt (ex_entry NUL []) L_info 7 (Some ''ok'')]"
  have i: "lg_initialized ex_log" "lg_calls ex_log = []" "lg_dropCount ex_log = 0" "lg_contLen ex_log = 0"
    by (simp_all add: ex_log_def RtLog_new_def)
  have pl: "\<forall>r \<in> set ?rs. plain_request ex_log r"
    by (simp add: plain_request_def entry_shape_def ex_entry_def MSG_LEN_def)
  have len: "length (passed ex_log ?rs) \<le> 1024"
    by (simp add: passed_def)
  have lvl: "\<forall>lvl. IsActiveLevel lvl ex_log \<longrightarrow> lf_level ex_log_file \<le> lvl"
    by (simp add: ex_log_file_def less_eq_LogLevel_def IsActiveLevel_def ex_log_def RtLog_new_def)
  have ex: "expected_lines ?fmt ex_log_file ex_log ?rs = ''> hot'' @ [NL] @ ''> ok'' @ [NL]"
    by (simp add: expected_lines_def ex_log_file_def ex_log_def RtLog_new_def IsActiveLevel_def)
  have acc: "accepts ex_log_file (length (expected_lines ?fmt ex_log_file ex_log ?rs))"
    unfolding ex by (simp add: accepts_def ex_log_file_def ex_sink_def ex_env_def file_ok_def steady_def)
  have st: "log_stream_of ex_log_file = ''xy''" "log_path ex_log_file = ''a.log''"
    by (simp_all add: log_stream_of_def log_path_def ex_log_file_def ex_sink_def ex_env_def file_pending_def)
  from calls_reach_the_file [OF i(1) ex_log_ok(2,1) i(2-4) pl len lvl acc] show ?thesis
    unfolding ex st by simp
qed

end
